(* ===== verification/Prelude.thy ===== *)
theory Prelude
  imports Main "HOL-Library.Word" "HOL-Library.List_Lexorder" "HOL-Library.Multiset"
begin

text \<open>
  Shared ground of the development: strings of the JavaScript engine, the result types of
  fallible code, the two proof collections, and the generic machine that the stateful
  components instantiate.

  A JavaScript string is a sequence of UTF-16 code units, so \<open>jstring\<close> is a list of 16-bit
  words and its length, slices and comparison are the language's own. \<open>js ''abc''\<close> is the
  literal. A time is the number of milliseconds since the epoch (\<open>Date.now()\<close>), and an ISO
  string written by \<open>toISOString()\<close> is represented by the instant it denotes.
\<close>

section \<open>Proof collections\<close>

named_theorems op_defs "definitions of operations, unfolded in case analyses"
named_theorems inv_intros "an operation keeps the invariant of its component"

section \<open>Strings\<close>

type_synonym code_unit = "16 word"
type_synonym jstring = "code_unit list"
type_synonym instant = int

definition cu :: "char \<Rightarrow> code_unit" where
  "cu c = of_nat (of_char c)"

definition js :: "string \<Rightarrow> jstring" where
  "js s = map cu s"

lemma cu_inject [simp]: "cu c = cu d \<longleftrightarrow> c = d"
proof
  assume "cu c = cu d"
  then have "unat (cu c) = unat (cu d)" by simp
  moreover have "of_char x < (2::nat) ^ 16" for x
  proof -
    have "(of_char x :: nat) mod 256 < 256" by (rule mod_less_divisor) simp
    then have "(of_char x :: nat) < 256" by simp
    then show ?thesis by (rule less_trans) simp
  qed
  ultimately have "(of_char c :: nat) = of_char d"
    by (simp add: cu_def unat_of_nat)
  then show "c = d" by simp
qed simp

lemma js_eq_iff [simp]: "js s = js t \<longleftrightarrow> s = t"
  by (simp add: js_def inj_map_eq_map inj_def)

lemma js_Nil [simp]: "js [] = []"
  by (simp add: js_def)

lemma js_Cons: "js (c # s) = cu c # js s"
  by (simp add: js_def)

lemma js_eq_Nil [simp]: "js s = [] \<longleftrightarrow> s = []" "[] = js s \<longleftrightarrow> s = []"
  by (auto simp: js_def)

lemma length_js [simp]: "length (js s) = length s"
  by (simp add: js_def)

lemma js_append: "js (s @ t) = js s @ js t"
  by (simp add: js_def)

text \<open>\<open>s.startsWith(p)\<close>, \<open>s.endsWith(p)\<close>, \<open>s.includes(p)\<close>, \<open>s.indexOf(c)\<close>.\<close>

definition starts_with :: "jstring \<Rightarrow> jstring \<Rightarrow> bool" where
  "starts_with s p \<longleftrightarrow> take (length p) s = p"

definition ends_with :: "jstring \<Rightarrow> jstring \<Rightarrow> bool" where
  "ends_with s p \<longleftrightarrow> length p \<le> length s \<and> drop (length s - length p) s = p"

fun includes_str :: "jstring \<Rightarrow> jstring \<Rightarrow> bool" where
  "includes_str [] p \<longleftrightarrow> p = []"
| "includes_str (c # s) p \<longleftrightarrow> starts_with (c # s) p \<or> includes_str s p"

fun index_of :: "code_unit \<Rightarrow> jstring \<Rightarrow> nat option" where
  "index_of c [] = None"
| "index_of c (x # xs) = (if x = c then Some 0 else map_option Suc (index_of c xs))"

text \<open>\<open>s.split(c)\<close> for a one-unit separator, and \<open>s.trim()\<close>.\<close>

fun split_on :: "code_unit \<Rightarrow> jstring \<Rightarrow> jstring list" where
  "split_on c [] = [[]]"
| "split_on c (x # xs) =
     (if x = c then [] # split_on c xs
      else (case split_on c xs of [] \<Rightarrow> [[x]] | y # ys \<Rightarrow> (x # y) # ys))"

text \<open>
  The WhiteSpace and LineTerminator code units of ECMAScript: tab, LF, VT, FF, CR, space,
  no-break space, the Unicode space separators, the line and paragraph separators and the
  byte order mark.
\<close>

definition is_js_space :: "code_unit \<Rightarrow> bool" where
  "is_js_space c \<longleftrightarrow> (9 \<le> c \<and> c \<le> 13) \<or> c = 32 \<or> c = 0xA0 \<or> c = 0x1680 \<or>
     (0x2000 \<le> c \<and> c \<le> 0x200A) \<or> c = 0x2028 \<or> c = 0x2029 \<or> c = 0x202F \<or> c = 0x205F \<or>
     c = 0x3000 \<or> c = 0xFEFF"

definition trim :: "jstring \<Rightarrow> jstring" where
  "trim s = rev (dropWhile is_js_space (rev (dropWhile is_js_space s)))"

definition is_digit :: "code_unit \<Rightarrow> bool" where
  "is_digit c \<longleftrightarrow> 48 \<le> c \<and> c \<le> 57"

definition is_upper :: "code_unit \<Rightarrow> bool" where
  "is_upper c \<longleftrightarrow> 65 \<le> c \<and> c \<le> 90"

definition is_lower :: "code_unit \<Rightarrow> bool" where
  "is_lower c \<longleftrightarrow> 97 \<le> c \<and> c \<le> 122"

definition is_alnum :: "code_unit \<Rightarrow> bool" where
  "is_alnum c \<longleftrightarrow> is_upper c \<or> is_lower c \<or> is_digit c"

definition is_lower_hex :: "code_unit \<Rightarrow> bool" where
  "is_lower_hex c \<longleftrightarrow> is_digit c \<or> (97 \<le> c \<and> c \<le> 102)"

definition is_any_hex :: "code_unit \<Rightarrow> bool" where
  "is_any_hex c \<longleftrightarrow> is_lower_hex c \<or> (65 \<le> c \<and> c \<le> 70)"

lemma split_on_plain: "c \<notin> set s \<Longrightarrow> split_on c s = [s]"
  by (induction s) auto

lemma split_on_append: "c \<notin> set s \<Longrightarrow> split_on c (s @ c # t) = s # split_on c t"
  by (induction s) auto

text \<open>\<open>xs.join(c)\<close> with \<open>c\<close> at the end of every piece, and back.\<close>

lemma split_on_concat:
  "list_all (\<lambda>s. c \<notin> set s) ss \<Longrightarrow> split_on c (concat (map (\<lambda>s. s @ [c]) ss)) = ss @ [[]]"
  by (induction ss) (simp_all add: split_on_append)

lemma starts_with_Nil [simp]: "starts_with s []"
  by (simp add: starts_with_def)

lemma starts_with_append: "starts_with s p \<longleftrightarrow> (\<exists>t. s = p @ t)"
  by (metis append_eq_conv_conj append_take_drop_id starts_with_def)

lemma includes_str_iff: "includes_str s p \<longleftrightarrow> (\<exists>a b. s = a @ p @ b)"
proof (induction s)
  case Nil
  then show ?case by auto
next
  case (Cons c s)
  show ?case
  proof
    assume "includes_str (c # s) p"
    then consider "starts_with (c # s) p" | "includes_str s p" by auto
    then show "\<exists>a b. c # s = a @ p @ b"
    proof cases
      case 1
      then obtain t where "c # s = p @ t" by (auto simp: starts_with_append)
      then show ?thesis by (intro exI [of _ "[]"] exI [of _ t]) simp
    next
      case 2
      with Cons obtain a b where "s = a @ p @ b" by blast
      then show ?thesis by (intro exI [of _ "c # a"] exI [of _ b]) simp
    qed
  next
    assume "\<exists>a b. c # s = a @ p @ b"
    then obtain a b where ab: "c # s = a @ p @ b" by blast
    show "includes_str (c # s) p"
    proof (cases a)
      case Nil
      with ab have "starts_with (c # s) p" by (auto simp: starts_with_append)
      then show ?thesis by simp
    next
      case (Cons d a')
      with ab have "s = a' @ p @ b" by simp
      with Cons.IH show ?thesis by auto
    qed
  qed
qed

lemma includes_str_refl [simp]: "includes_str s s"
  by (auto simp: includes_str_iff intro: exI [of _ "[]"])

text \<open>Decimal numerals, as template literals print them.\<close>

fun decimal :: "nat \<Rightarrow> jstring" where
  "decimal n = (if n < 10 then [of_nat (48 + n)] else decimal (n div 10) @ [of_nat (48 + n mod 10)])"

declare decimal.simps [simp del]

lemma decimal_nonempty [simp]: "decimal n \<noteq> []"
  by (subst decimal.simps) simp

section \<open>Tables of the database\<close>

text \<open>
  A table is the list of its rows in insertion order. \<open>update_where\<close> is \<open>UPDATE ... WHERE\<close>,
  \<open>insert_nothing\<close> is \<open>INSERT ... ON CONFLICT DO NOTHING RETURNING\<close> (its flag says whether
  the row was written), \<open>insert_update\<close> is \<open>INSERT ... ON CONFLICT (key) DO UPDATE\<close>.
\<close>

definition update_where :: "('r \<Rightarrow> bool) \<Rightarrow> ('r \<Rightarrow> 'r) \<Rightarrow> 'r list \<Rightarrow> 'r list" where
  "update_where p f t = map (\<lambda>r. if p r then f r else r) t"

definition find_row :: "('r \<Rightarrow> 'k) \<Rightarrow> 'k \<Rightarrow> 'r list \<Rightarrow> 'r option" where
  "find_row key k t = find (\<lambda>r. key r = k) t"

definition insert_nothing :: "('r \<Rightarrow> 'k) \<Rightarrow> 'r \<Rightarrow> 'r list \<Rightarrow> bool \<times> 'r list" where
  "insert_nothing key r t =
     (if key r \<in> key ` set t then (False, t) else (True, t @ [r]))"

definition insert_update :: "('r \<Rightarrow> 'k) \<Rightarrow> 'r \<Rightarrow> ('r \<Rightarrow> 'r) \<Rightarrow> 'r list \<Rightarrow> 'r list" where
  "insert_update key r f t =
     (if key r \<in> key ` set t then update_where (\<lambda>x. key x = key r) f t else t @ [r])"

definition unique_key :: "('r \<Rightarrow> 'k) \<Rightarrow> 'r list \<Rightarrow> bool" where
  "unique_key key t \<longleftrightarrow> distinct (map key t)"

lemma set_update_where: "set (update_where p f t) = (\<lambda>r. if p r then f r else r) ` set t"
  by (simp add: update_where_def)

lemma length_update_where [simp]: "length (update_where p f t) = length t"
  by (simp add: update_where_def)

lemma map_key_update_where:
  "(\<And>r. p r \<Longrightarrow> key (f r) = key r) \<Longrightarrow> map key (update_where p f t) = map key t"
  by (simp add: update_where_def)

lemma keys_update_where:
  assumes "\<And>r. p r \<Longrightarrow> key (f r) = key r"
  shows "key ` set (update_where p f t) = key ` set t"
proof -
  have "map key (update_where p f t) = map key t" using assms by (rule map_key_update_where)
  from arg_cong [OF this, of set] show ?thesis by (simp only: set_map)
qed

lemma unique_key_update_where:
  "(\<And>r. p r \<Longrightarrow> key (f r) = key r) \<Longrightarrow> unique_key key t \<Longrightarrow> unique_key key (update_where p f t)"
  by (simp add: unique_key_def map_key_update_where)

lemma find_row_Nil [simp]: "find_row key k [] = None"
  by (simp add: find_row_def)

lemma find_row_Cons [simp]:
  "find_row key k (r # t) = (if key r = k then Some r else find_row key k t)"
  by (simp add: find_row_def)

lemma find_row_None_iff: "find_row key k t = None \<longleftrightarrow> k \<notin> key ` set t"
  by (induction t) auto

lemma find_row_SomeD: "find_row key k t = Some r \<Longrightarrow> r \<in> set t \<and> key r = k"
  by (induction t) (auto split: if_splits)

lemma dom_find_row: "dom (\<lambda>k. find_row key k t) = key ` set t"
  by (rule set_eqI) (simp add: dom_def find_row_None_iff del: not_None_eq)

lemma find_row_unique:
  "unique_key key t \<Longrightarrow> r \<in> set t \<Longrightarrow> find_row key (key r) t = Some r"
  by (induction t) (auto simp: unique_key_def)

lemma find_row_append:
  "find_row key k (t @ u) = (case find_row key k t of None \<Rightarrow> find_row key k u | Some r \<Rightarrow> Some r)"
  by (induction t) auto

lemma find_row_update_where:
  assumes "\<And>r. p r \<Longrightarrow> key (f r) = key r"
  shows "find_row key k (update_where p f t) =
    map_option (\<lambda>r. if p r then f r else r) (find_row key k t)"
  using assms by (induction t) (auto simp: update_where_def)

lemma find_row_update_key:
  assumes "\<And>r. key (f r) = key r"
  shows "find_row key k (update_where (\<lambda>r. key r = j) f t) =
    (if k = j then map_option f (find_row key k t) else find_row key k t)"
proof (induction t)
  case (Cons a t)
  then show ?case using assms by (cases "k = j") (auto simp: update_where_def)
qed (simp add: update_where_def)

lemma find_row_insert_nothing:
  "find_row key k (snd (insert_nothing key r t)) =
     (if key r = k \<and> find_row key k t = None then Some r else find_row key k t)"
proof (cases "key r \<in> key ` set t")
  case True
  then have "find_row key (key r) t \<noteq> None" by (simp add: find_row_None_iff)
  with True show ?thesis by (auto simp: insert_nothing_def)
next
  case False
  then have "find_row key (key r) t = None" by (simp add: find_row_None_iff)
  moreover have "snd (insert_nothing key r t) = t @ [r]" using False by (simp add: insert_nothing_def)
  ultimately show ?thesis by (auto simp: find_row_append split: option.split)
qed

lemma insert_nothing_flag: "fst (insert_nothing key r t) \<longleftrightarrow> key r \<notin> key ` set t"
  by (simp add: insert_nothing_def)

lemma insert_nothing_keys: "key ` set (snd (insert_nothing key r t)) = insert (key r) (key ` set t)"
  by (auto simp: insert_nothing_def)

lemma insert_nothing_set: "set (snd (insert_nothing key r t)) =
   (if key r \<in> key ` set t then set t else insert r (set t))"
  by (auto simp: insert_nothing_def)

lemma unique_key_insert_nothing:
  "unique_key key t \<Longrightarrow> unique_key key (snd (insert_nothing key r t))"
  by (auto simp: unique_key_def insert_nothing_def)

lemma unique_key_insert_update:
  "(\<And>x. key (f x) = key x) \<Longrightarrow> unique_key key t \<Longrightarrow> unique_key key (insert_update key r f t)"
  by (auto simp: insert_update_def unique_key_update_where) (auto simp: unique_key_def)

lemma unique_key_filter: "unique_key key t \<Longrightarrow> unique_key key (filter p t)"
  by (simp add: unique_key_def distinct_map_filter)

text \<open>
  \<open>ORDER BY ts DESC LIMIT l OFFSET o\<close>. Postgres leaves the order of equal timestamps open; the
  model keeps insertion order among them.
\<close>

definition newest_first :: "('r \<Rightarrow> int) \<Rightarrow> 'r list \<Rightarrow> 'r list" where
  "newest_first ts t = sort_key (\<lambda>r. - ts r) t"

definition page :: "('r \<Rightarrow> int) \<Rightarrow> int \<Rightarrow> int \<Rightarrow> 'r list \<Rightarrow> 'r list" where
  "page ts lim off t = take (nat lim) (drop (nat off) (newest_first ts t))"

lemma set_newest_first [simp]: "set (newest_first ts t) = set t"
  by (simp add: newest_first_def)

lemma newest_first_sorted: "sorted_wrt (\<lambda>a b. ts b \<le> ts a) (newest_first ts t)"
proof -
  have "sorted (map (\<lambda>r. - ts r) (newest_first ts t))" by (simp add: newest_first_def)
  then show ?thesis by (simp add: sorted_map)
qed

lemma distinct_newest_first: "distinct (map key t) \<Longrightarrow> distinct (map key (newest_first ts t))"
proof -
  assume "distinct (map key t)"
  moreover have "mset (map key (newest_first ts t)) = mset (map key t)" by (simp add: newest_first_def)
  ultimately show ?thesis by (metis mset_eq_imp_distinct_iff)
qed

lemma pages_cover: "concat (map (\<lambda>i. take l (drop (i * l) xs)) [0..<n]) = take (n * l) xs"
proof (induction n)
  case (Suc n)
  have "take (n * l + l) xs = take (n * l) xs @ take l (drop (n * l) xs)" by (rule take_add)
  with Suc show ?case by (simp add: add.commute)
qed simp

text \<open>Walking the offsets in steps of the limit returns every row, once and newest first.\<close>

lemma page_walk:
  assumes "0 < l" and "length t \<le> n * nat l"
  shows "concat (map (\<lambda>i. page ts l (int i * l) t) [0..<n]) = newest_first ts t"
proof -
  have "nat (int i * l) = i * nat l" for i using assms(1) by (simp add: nat_mult_distrib)
  then have "concat (map (\<lambda>i. page ts l (int i * l) t) [0..<n]) = take (n * nat l) (newest_first ts t)"
    by (simp add: page_def pages_cover)
  with assms(2) show ?thesis by (simp add: newest_first_def)
qed

text \<open>\<open>SELECT count(*) ... WHERE\<close>, and \<open>SELECT key, count(*) ... GROUP BY key\<close>, its groups by first row.\<close>

definition count_where :: "('r \<Rightarrow> bool) \<Rightarrow> 'r list \<Rightarrow> int" where
  "count_where p t = int (length (filter p t))"

definition group_counts :: "('r \<Rightarrow> 'k) \<Rightarrow> 'r list \<Rightarrow> ('k \<times> int) list" where
  "group_counts key t = map (\<lambda>k. (k, count_where (\<lambda>r. key r = k) t)) (remdups (map key t))"

lemma count_where_filter: "count_where p (filter q t) = count_where (\<lambda>r. p r \<and> q r) t"
  by (simp add: count_where_def conj_commute)

lemma count_where_nonneg [simp]: "0 \<le> count_where p t"
  by (simp add: count_where_def)

lemma count_where_split: "count_where p t = count_where (\<lambda>r. p r \<and> q r) t + count_where (\<lambda>r. p r \<and> \<not> q r) t"
  by (induction t) (auto simp: count_where_def)

lemma group_counts_keys: "map fst (group_counts key t) = remdups (map key t)"
  by (simp add: group_counts_def comp_def)

lemma group_counts_mem: "(k, n) \<in> set (group_counts key t) \<longleftrightarrow> k \<in> key ` set t \<and> n = count_where (\<lambda>r. key r = k) t"
  by (auto simp: group_counts_def)

lemma sum_list_where: "distinct ks \<Longrightarrow> (\<Sum>k\<leftarrow>ks. count_where (\<lambda>r. key r = k) t) = count_where (\<lambda>r. key r \<in> set ks) t"
proof (induction ks)
  case (Cons k ks)
  have "count_where (\<lambda>r. key r \<in> set (k # ks)) t =
      count_where (\<lambda>r. key r \<in> set (k # ks) \<and> key r = k) t + count_where (\<lambda>r. key r \<in> set (k # ks) \<and> key r \<noteq> k) t"
    by (rule count_where_split)
  also have "(\<lambda>r. key r \<in> set (k # ks) \<and> key r = k) = (\<lambda>r. key r = k)" by auto
  also have "(\<lambda>r. key r \<in> set (k # ks) \<and> key r \<noteq> k) = (\<lambda>r. key r \<in> set ks)" using Cons.prems by auto
  finally show ?case using Cons by simp
qed (simp add: count_where_def)

lemma group_counts_total: "sum_list (map snd (group_counts key t)) = int (length t)"
proof -
  have "sum_list (map snd (group_counts key t)) = (\<Sum>k\<leftarrow>remdups (map key t). count_where (\<lambda>r. key r = k) t)"
    by (simp add: group_counts_def comp_def)
  also have "\<dots> = count_where (\<lambda>r. key r \<in> set (remdups (map key t))) t" by (rule sum_list_where) simp
  also have "\<dots> = int (length t)" by (simp add: count_where_def)
  finally show ?thesis .
qed

lemmas table_simps = find_row_None_iff find_row_append insert_nothing_flag
  insert_nothing_keys insert_nothing_set set_update_where

section \<open>Machines, invariants and monotone marks\<close>

text \<open>
  The contract every stateful component offers its clients: operations \<open>step s e\<close> that keep
  an invariant. A run folds a list of operations; a component whose operations only ever add
  marks (revoked tokens, consumed identifiers) extends the contract.
\<close>

locale machine =
  fixes step :: "'s \<Rightarrow> 'e \<Rightarrow> 's"
    and invar :: "'s \<Rightarrow> bool"
  assumes step_inv: "invar s \<Longrightarrow> invar (step s e)"
begin

lemma run_inv: "invar s \<Longrightarrow> invar (foldl step s es)"
  by (induction es arbitrary: s) (auto intro: step_inv)

end

locale marking_machine = machine +
  fixes marks :: "'s \<Rightarrow> 'k set"
  assumes step_marks: "invar s \<Longrightarrow> marks s \<subseteq> marks (step s e)"
begin

lemma run_marks: "invar s \<Longrightarrow> marks s \<subseteq> marks (foldl step s es)"
proof (induction es arbitrary: s)
  case (Cons e es)
  have "marks s \<subseteq> marks (step s e)" using Cons.prems by (rule step_marks)
  also have "\<dots> \<subseteq> marks (foldl step (step s e) es)"
    using Cons.prems by (intro Cons.IH step_inv)
  finally show ?case by simp
qed simp

lemma run_marks_mem: "invar s \<Longrightarrow> k \<in> marks s \<Longrightarrow> k \<in> marks (foldl step s es)"
  using run_marks by blast

end

section \<open>Insert-if-absent\<close>

text \<open>
  The contract of \<open>INSERT ... ON CONFLICT DO NOTHING RETURNING\<close> on a keyed table: a fresh key
  is stored and reported, a taken key changes nothing. The clients that batch, retry or race
  such inserts rest on these two laws only.
\<close>

fun insert_batch :: "('r \<Rightarrow> 't \<Rightarrow> bool \<times> 't) \<Rightarrow> ('r \<Rightarrow> 'k) \<Rightarrow> 'r list \<Rightarrow> 't \<Rightarrow> 'k list \<times> 't" where
  "insert_batch ins key [] t = ([], t)"
| "insert_batch ins key (r # rs) t =
     (let (ok, t1) = ins r t; (ks, t2) = insert_batch ins key rs t1
      in (if ok then key r # ks else ks, t2))"

locale conflict_insert =
  fixes ins :: "'r \<Rightarrow> 't \<Rightarrow> bool \<times> 't"
    and row :: "'t \<Rightarrow> 'k \<Rightarrow> 'r option"
    and key :: "'r \<Rightarrow> 'k"
  assumes fresh: "row t (key r) = None \<Longrightarrow> fst (ins r t) \<and> row (snd (ins r t)) = (row t)(key r \<mapsto> r)"
    and conflict: "row t (key r) \<noteq> None \<Longrightarrow> ins r t = (False, t)"
begin

lemma ins_flag: "fst (ins r t) \<longleftrightarrow> row t (key r) = None"
  using fresh conflict by (cases "row t (key r)") force+

lemma ins_row: "row (snd (ins r t)) = (if row t (key r) = None then (row t)(key r \<mapsto> r) else row t)"
  using fresh conflict by (cases "row t (key r)") force+

lemma ins_dom: "dom (row (snd (ins r t))) = insert (key r) (dom (row t))"
  by (auto simp: ins_row)

lemma ins_keeps: "row t k = Some x \<Longrightarrow> row (snd (ins r t)) k = Some x"
  by (auto simp: ins_row)

lemma ins_twice: "ins r (snd (ins r t)) = (False, snd (ins r t))"
  by (rule conflict) (simp add: ins_row)

lemma batch_Cons:
  "insert_batch ins key (r # rs) t =
     (if row t (key r) = None then key r # fst (insert_batch ins key rs (snd (ins r t)))
      else fst (insert_batch ins key rs (snd (ins r t))),
      snd (insert_batch ins key rs (snd (ins r t))))"
  using ins_flag [of r t] by (auto split: prod.splits)

lemma batch_keys: "set (fst (insert_batch ins key rs t)) = key ` set rs - dom (row t)"
proof (induction rs arbitrary: t)
  case (Cons r rs)
  then show ?case unfolding batch_Cons by (auto simp: ins_row split: if_splits)
qed simp

lemma batch_distinct: "distinct (fst (insert_batch ins key rs t))"
proof (induction rs arbitrary: t)
  case (Cons r rs)
  then show ?case unfolding batch_Cons by (auto simp: batch_keys ins_row)
qed simp

lemma batch_keeps: "row t k = Some x \<Longrightarrow> row (snd (insert_batch ins key rs t)) k = Some x"
proof (induction rs arbitrary: t)
  case (Cons r rs)
  then show ?case unfolding batch_Cons by (simp add: ins_keeps)
qed simp

lemma batch_dom: "dom (row (snd (insert_batch ins key rs t))) = key ` set rs \<union> dom (row t)"
proof (induction rs arbitrary: t)
  case (Cons r rs)
  then show ?case unfolding batch_Cons by (auto simp: ins_dom)
qed simp

lemma batch_again:
  "key ` set rs \<subseteq> dom (row t) \<Longrightarrow> insert_batch ins key rs t = ([], t)"
proof (induction rs arbitrary: t)
  case (Cons r rs)
  then have "ins r t = (False, t)" by (intro conflict) auto
  with Cons show ?case by simp
qed simp

lemma batch_append:
  "insert_batch ins key (rs @ qs) t =
     (fst (insert_batch ins key rs t) @ fst (insert_batch ins key qs (snd (insert_batch ins key rs t))),
      snd (insert_batch ins key qs (snd (insert_batch ins key rs t))))"
  by (induction rs arbitrary: t) (auto split: prod.splits)

lemma batch_new_row:
  "row t k = None \<Longrightarrow> row (snd (insert_batch ins key rs t)) k = find (\<lambda>r. key r = k) rs"
proof (induction rs arbitrary: t)
  case (Cons r rs)
  show ?case
  proof (cases "key r = k")
    case True
    with Cons.prems have "row (snd (ins r t)) k = Some r" by (simp add: ins_row)
    with True show ?thesis unfolding batch_Cons by (simp add: batch_keeps)
  next
    case False
    with Cons.prems have "row (snd (ins r t)) k = None" by (simp add: ins_row)
    with False Cons.IH show ?thesis unfolding batch_Cons by simp
  qed
qed simp

end

text \<open>The list tables keep the contract; each component interprets it on its own key.\<close>

lemma insert_nothing_fresh:
  "find_row key (key r) t = None \<Longrightarrow>
   fst (insert_nothing key r t) \<and>
   (\<lambda>k. find_row key k (snd (insert_nothing key r t))) = (\<lambda>k. find_row key k t)(key r \<mapsto> r)"
proof -
  assume n: "find_row key (key r) t = None"
  then have "insert_nothing key r t = (True, t @ [r])"
    by (simp add: insert_nothing_def find_row_None_iff)
  with n show ?thesis by (auto simp: fun_eq_iff find_row_append split: option.splits)
qed

lemma insert_nothing_conflict:
  "find_row key (key r) t \<noteq> None \<Longrightarrow> insert_nothing key r t = (False, t)"
  by (simp add: insert_nothing_def find_row_None_iff)

lemmas insert_nothing_laws = insert_nothing_fresh insert_nothing_conflict

end
