(* ===== verification/Rate_Limit.thy ===== *)
theory Rate_Limit
  imports Prelude
begin

text \<open>
  The in-memory fixed-window rate limiter of \<open>src/src/lib/rate-limit.ts\<close>: its buckets and
  drop counters, \<open>check\<close>, \<open>gc\<close> and \<open>reset\<close>. The clock is an argument. The lemmas show that a
  live bucket admits at most its limit whatever else happens in between, and that collecting
  stale buckets changes no decision.
\<close>

section \<open>State and operations\<close>

record rate_decision =
  allowed :: bool
  remaining :: "int option" \<comment> \<open>\<open>None\<close> is \<open>Number.POSITIVE_INFINITY\<close>\<close>
  d_resetAt :: instant
  d_limit :: int

record bucket =
  b_count :: int
  b_resetAt :: instant

record rate_limiter =
  buckets :: "jstring \<rightharpoonup> bucket"
  drops :: "jstring \<rightharpoonup> int"

definition empty_limiter :: rate_limiter where
  "empty_limiter = \<lparr>buckets = Map.empty, drops = Map.empty\<rparr>"

definition full_key :: "jstring \<Rightarrow> jstring \<Rightarrow> jstring" where
  "full_key name key = name @ js '':'' @ key"

text \<open>The bucket \<open>check\<close> works on: the stored one, unless it is missing or expired.\<close>

definition current_bucket :: "rate_limiter \<Rightarrow> jstring \<Rightarrow> int \<Rightarrow> instant \<Rightarrow> bucket" where
  "current_bucket s k windowMs now =
     (case buckets s k of
        Some b \<Rightarrow> if b_resetAt b \<le> now then \<lparr>b_count = 0, b_resetAt = now + windowMs\<rparr> else b
      | None \<Rightarrow> \<lparr>b_count = 0, b_resetAt = now + windowMs\<rparr>)"

definition check ::
  "jstring \<Rightarrow> jstring \<Rightarrow> int \<Rightarrow> int \<Rightarrow> instant \<Rightarrow> rate_limiter \<Rightarrow> rate_decision \<times> rate_limiter" where
  "check name key limit windowMs now s =
     (if limit \<le> 0 then
        (\<lparr>allowed = True, remaining = None, d_resetAt = 0, d_limit = limit\<rparr>, s)
      else
        let k = full_key name key;
            b = current_bucket s k windowMs now
        in if b_count b \<ge> limit then
             (\<lparr>allowed = False, remaining = Some 0, d_resetAt = b_resetAt b, d_limit = limit\<rparr>,
              s\<lparr>buckets := (buckets s)(k \<mapsto> b),
                drops := (drops s)(name \<mapsto> (case drops s name of None \<Rightarrow> 0 | Some n \<Rightarrow> n) + 1)\<rparr>)
           else
             (\<lparr>allowed = True, remaining = Some (limit - (b_count b + 1)),
               d_resetAt = b_resetAt b, d_limit = limit\<rparr>,
              s\<lparr>buckets := (buckets s)(k \<mapsto> b\<lparr>b_count := b_count b + 1\<rparr>)\<rparr>))"

definition getDropTotals :: "rate_limiter \<Rightarrow> jstring \<Rightarrow> int" where
  "getDropTotals s name = (case drops s name of None \<Rightarrow> 0 | Some n \<Rightarrow> n)"

definition gc :: "instant \<Rightarrow> rate_limiter \<Rightarrow> rate_limiter" where
  "gc now s = s\<lparr>buckets := (\<lambda>k. case buckets s k of
      None \<Rightarrow> None | Some b \<Rightarrow> if b_resetAt b \<le> now then None else Some b)\<rparr>"

definition rate_reset :: "rate_limiter \<Rightarrow> rate_limiter" where
  "rate_reset s = s\<lparr>buckets := Map.empty, drops := Map.empty\<rparr>"

section \<open>Runs of the limiter\<close>

datatype rate_op =
    Check jstring jstring int int instant
  | Collect instant

definition rate_step :: "rate_limiter \<Rightarrow> rate_op \<Rightarrow> rate_limiter" where
  "rate_step s op = (case op of
      Check name key limit windowMs now \<Rightarrow> snd (check name key limit windowMs now s)
    | Collect now \<Rightarrow> gc now s)"

text \<open>How many requests of a run are booked and admitted on the bucket \<open>k\<close>.\<close>

fun admitted :: "jstring \<Rightarrow> rate_limiter \<Rightarrow> rate_op list \<Rightarrow> int" where
  "admitted k s [] = 0"
| "admitted k s (op # ops) =
     (case op of
        Check name key limit windowMs now \<Rightarrow>
          (if full_key name key = k \<and> limit > 0 \<and> allowed (fst (check name key limit windowMs now s))
           then 1 else 0)
      | Collect now \<Rightarrow> 0) + admitted k (rate_step s op) ops"

fun op_time :: "rate_op \<Rightarrow> instant" where
  "op_time (Check name key limit windowMs now) = now"
| "op_time (Collect now) = now"

text \<open>Every check of bucket \<open>k\<close> in the run uses the limit \<open>l\<close> (or is switched off).\<close>

fun limit_for :: "jstring \<Rightarrow> int \<Rightarrow> rate_op \<Rightarrow> bool" where
  "limit_for k l (Check name key limit windowMs now) \<longleftrightarrow> full_key name key = k \<longrightarrow> limit \<le> l"
| "limit_for k l (Collect now) \<longleftrightarrow> True"

definition counts_ok :: "rate_limiter \<Rightarrow> bool" where
  "counts_ok s \<longleftrightarrow> (\<forall>k b. buckets s k = Some b \<longrightarrow> 0 \<le> b_count b)"

lemma full_key_inject:
  assumes "cu (CHR '':'') \<notin> set n" and "cu (CHR '':'') \<notin> set m"
    and "full_key n k = full_key m l"
  shows "n = m \<and> k = l"
  using assms
proof (induction n arbitrary: m)
  case Nil
  then show ?case by (cases m) (auto simp: full_key_def js_Cons)
next
  case (Cons c n)
  then show ?case by (cases m) (auto simp: full_key_def js_Cons)
qed

lemma current_bucket_live:
  "buckets s k = Some b \<Longrightarrow> now < b_resetAt b \<Longrightarrow> current_bucket s k w now = b"
  by (simp add: current_bucket_def)

lemma rate_step_counts_ok: "counts_ok s \<Longrightarrow> counts_ok (rate_step s op)"
  by (cases op)
    (auto simp: counts_ok_def rate_step_def check_def gc_def Let_def current_bucket_def
       split: if_splits option.splits)

interpretation limiter: machine rate_step counts_ok
  by unfold_locales (rule rate_step_counts_ok)

text \<open>Before its reset time a bucket is never replaced, and it only counts up.\<close>

lemma rate_step_live:
  assumes "buckets s k = Some b" and "op_time op < b_resetAt b" and "limit_for k l op"
  shows "\<exists>b'. buckets (rate_step s op) k = Some b' \<and> b_resetAt b' = b_resetAt b \<and>
     b_count b' = b_count b + admitted k s [op] \<and> (b_count b \<le> l \<longrightarrow> b_count b' \<le> l)"
proof (cases op)
  case (Collect now)
  with assms show ?thesis by (auto simp: rate_step_def gc_def)
next
  case (Check name key limit windowMs now)
  show ?thesis
  proof (cases "full_key name key = k")
    case True
    with Check assms have "current_bucket s (full_key name key) windowMs now = b"
      by (simp add: current_bucket_live)
    with Check True assms show ?thesis by (auto simp: rate_step_def check_def Let_def)
  next
    case False
    with Check assms show ?thesis by (auto simp: rate_step_def check_def Let_def)
  qed
qed

lemma admitted_live:
  assumes "buckets s k = Some b" and "\<forall>op \<in> set ops. op_time op < b_resetAt b"
    and "\<forall>op \<in> set ops. limit_for k l op" and "b_count b \<le> l"
  shows "b_count b + admitted k s ops \<le> l"
  using assms
proof (induction ops arbitrary: s b)
  case Nil
  then show ?case by simp
next
  case (Cons op ops)
  then obtain b' where b': "buckets (rate_step s op) k = Some b'" "b_resetAt b' = b_resetAt b"
      "b_count b' = b_count b + admitted k s [op]" "b_count b' \<le> l"
    using rate_step_live [of s k b op l] by auto
  have "b_count b' + admitted k (rate_step s op) ops \<le> l"
    using b' Cons.prems by (intro Cons.IH) auto
  moreover have "admitted k s (op # ops) = admitted k s [op] + admitted k (rate_step s op) ops"
    by simp
  ultimately show ?case using b'(3) by linarith
qed

section \<open>Properties\<close>

lemma gc_current_bucket:
  "t \<le> now \<Longrightarrow> current_bucket (gc t s) k w now = current_bucket s k w now"
  by (auto simp: current_bucket_def gc_def split: option.splits)

lemma check_first:
  "buckets s (full_key name key) = None \<Longrightarrow> 0 < limit \<Longrightarrow>
   allowed (fst (check name key limit w now s)) \<and>
   buckets (snd (check name key limit w now s)) (full_key name key) =
     Some \<lparr>b_count = 1, b_resetAt = now + w\<rparr>"
  by (simp add: check_def Let_def current_bucket_def)

text \<open>
  C38. A window admits at most the limit: when a check opens a bucket (nothing is stored under
  its key yet), that request together with every later request on the same bucket before the
  bucket's reset time is admitted at most \<open>limit\<close> times, whatever other buckets do and
  whenever the collector runs in between.
\<close>

theorem rate_window_bound:
  assumes "buckets s (full_key name key) = None" and "0 < limit"
    and "\<forall>op \<in> set ops. op_time op < now + w"
    and "\<forall>op \<in> set ops. limit_for (full_key name key) limit op"
  shows "admitted (full_key name key) s (Check name key limit w now # ops) \<le> limit"
proof -
  let ?k = "full_key name key" and ?s = "snd (check name key limit w now s)"
  note first = check_first [OF assms(1,2), where w = w and now = now]
  have "1 + admitted ?k ?s ops \<le> limit"
    using admitted_live [of ?s ?k "\<lparr>b_count = 1, b_resetAt = now + w\<rparr>" ops limit] first assms
    by simp
  with first assms(2) show ?thesis by (simp add: rate_step_def)
qed

theorem rate_window_bound_witness:
  "admitted (js ''public-ip:x'') empty_limiter
     [Check (js ''public-ip'') (js ''x'') 2 60000 0, Check (js ''public-ip'') (js ''x'') 2 60000 5,
      Collect 6, Check (js ''public-ip'') (js ''x'') 2 60000 7] \<le> 2"
  using rate_window_bound [of empty_limiter "js ''public-ip''" "js ''x''" 2
      "[Check (js ''public-ip'') (js ''x'') 2 60000 5, Collect 6,
        Check (js ''public-ip'') (js ''x'') 2 60000 7]" 0 60000]
  by (simp add: empty_limiter_def full_key_def js_append [symmetric])

text \<open>
  Collecting stale buckets is invisible: a check made at or after the collection takes the
  same decision and books the same bucket as it would have without the collection.
\<close>

theorem gc_invisible:
  assumes "t \<le> now"
  shows "fst (check name key limit w now (gc t s)) = fst (check name key limit w now s) \<and>
    (0 < limit \<longrightarrow> buckets (snd (check name key limit w now (gc t s))) (full_key name key) =
      buckets (snd (check name key limit w now s)) (full_key name key))"
proof -
  have "drops (gc t s) = drops s" by (simp add: gc_def)
  with gc_current_bucket [OF assms, of s "full_key name key" w] show ?thesis
    by (simp add: check_def Let_def)
qed

theorem gc_invisible_witness:
  "fst (check (js ''api-key'') (js ''k'') 1 10 20 (gc 20 (snd (check (js ''api-key'') (js ''k'') 1 10 5 empty_limiter)))) =
   fst (check (js ''api-key'') (js ''k'') 1 10 20 (snd (check (js ''api-key'') (js ''k'') 1 10 5 empty_limiter)))"
  by (rule gc_invisible [THEN conjunct1]) simp

end
