(* ===== verification/Api_Keys.thy ===== *)
theory Api_Keys
  imports Prelude
begin

text \<open>
  Per-consumer API keys and issuer keys, \<open>src/src/lib/api-keys.ts\<close>: the parsers of \<open>API_KEYS\<close>
  and \<open>ISSUER_KEYS\<close> and the lookups built from them. A warning or error of the source is a
  constructor that names the entry's position (and label); the texts carry nothing else. The
  lemmas show that a parsed list has no duplicate key, that labels are unique whenever the parse
  reports no error, that a label taken from an entry is never part of a configured key, and that
  issuer keys stay disjoint from admin keys.
\<close>

section \<open>Entries and labels\<close>

record api_key_entry =
  k_label :: jstring
  k_key :: jstring

record issuer_key_entry = api_key_entry +
  k_aid :: jstring

datatype key_warning =
    LabelRefused nat
  | DuplicateKey nat jstring
  | MalformedEntry nat
  | LabelInKey nat
  | IsAdminKey nat jstring

datatype key_error = LabelReused nat jstring

definition label_char :: "code_unit \<Rightarrow> bool" where
  "label_char c \<longleftrightarrow> is_alnum c \<or> c = cu (CHR ''.'') \<or> c = cu (CHR ''_'') \<or> c = cu (CHR ''-'')"

text \<open>\<open>LABEL_RE\<close>: 1 to 40 units, the first alphanumeric.\<close>

definition LABEL_RE :: "jstring \<Rightarrow> bool" where
  "LABEL_RE s = (case s of [] \<Rightarrow> False
     | c # cs \<Rightarrow> is_alnum c \<and> length cs \<le> 39 \<and> list_all label_char cs)"

definition SECRET_FRAGMENT_MIN :: nat where
  "SECRET_FRAGMENT_MIN = 8"

definition looksLikeSecret :: "jstring \<Rightarrow> jstring list \<Rightarrow> bool" where
  "looksLikeSecret label keys \<longleftrightarrow>
     list_ex (\<lambda>k. k = label \<or> (SECRET_FRAGMENT_MIN \<le> length label \<and> includes_str k label)) keys"

definition unlabelledLabel :: "nat \<Rightarrow> jstring" where
  "unlabelledLabel position = js ''unlabelled-'' @ decimal position"

text \<open>The comma-separated items: split, trimmed, empty ones dropped.\<close>

definition config_items :: "jstring option \<Rightarrow> jstring list" where
  "config_items raw =
     filter (\<lambda>s. s \<noteq> []) (map trim (split_on (cu (CHR '','')) (case raw of None \<Rightarrow> [] | Some s \<Rightarrow> s)))"

definition split_api_item :: "jstring \<Rightarrow> jstring option \<times> jstring" where
  "split_api_item item =
     (case index_of (cu (CHR '':'')) item of
        Some idx \<Rightarrow>
          (if idx > 0 then
             let label = take idx item; key = trim (drop (idx + 1) item)
             in if LABEL_RE label \<and> length key > 0 then (Some label, key) else (None, item)
           else (None, item))
      | None \<Rightarrow> (None, item))"

section \<open>\<open>parseApiKeys\<close>\<close>

record 'e parsed_keys =
  p_entries :: "'e list"
  p_warnings :: "key_warning list"
  p_errors :: "key_error list"

definition chosen_label :: "jstring list \<Rightarrow> nat \<Rightarrow> jstring option \<Rightarrow> jstring" where
  "chosen_label allKeys position lab =
     (case lab of
        None \<Rightarrow> unlabelledLabel position
      | Some l \<Rightarrow> if looksLikeSecret l allKeys then unlabelledLabel position else l)"

definition label_warnings :: "jstring list \<Rightarrow> nat \<Rightarrow> jstring option \<Rightarrow> key_warning list" where
  "label_warnings allKeys position lab =
     (case lab of None \<Rightarrow> []
      | Some l \<Rightarrow> if looksLikeSecret l allKeys then [LabelRefused position] else [])"

definition api_key_step ::
  "jstring list \<Rightarrow> api_key_entry parsed_keys \<Rightarrow> nat \<times> jstring option \<times> jstring \<Rightarrow> api_key_entry parsed_keys" where
  "api_key_step allKeys acc = (\<lambda>(position, lab, key).
     let label = chosen_label allKeys position lab;
         acc = acc\<lparr>p_warnings := p_warnings acc @ label_warnings allKeys position lab\<rparr>
     in if key \<in> set (map k_key (p_entries acc)) then
          acc\<lparr>p_warnings := p_warnings acc @ [DuplicateKey position label]\<rparr>
        else
          acc\<lparr>p_errors := p_errors acc @
                (if label \<in> set (map k_label (p_entries acc)) then [LabelReused position label] else []),
              p_entries := p_entries acc @ [\<lparr>k_label = label, k_key = key\<rparr>]\<rparr>)"

definition no_keys :: "'e parsed_keys" where
  "no_keys = \<lparr>p_entries = [], p_warnings = [], p_errors = []\<rparr>"

definition numbered :: "'a list \<Rightarrow> (nat \<times> 'a) list" where
  "numbered xs = zip [1..<length xs + 1] xs"

definition parseApiKeys :: "jstring option \<Rightarrow> api_key_entry parsed_keys" where
  "parseApiKeys raw =
     (let split = map split_api_item (config_items raw);
          allKeys = map snd split
      in foldl (api_key_step allKeys) no_keys (numbered split))"

fun labelIndex :: "api_key_entry list \<Rightarrow> jstring \<Rightarrow> jstring option" where
  "labelIndex [] k = None"
| "labelIndex (e # es) k = (if k_key e = k then Some (k_label e) else labelIndex es k)"

section \<open>\<open>parseIssuerKeys\<close>\<close>

definition aid_char :: "code_unit \<Rightarrow> bool" where
  "aid_char c \<longleftrightarrow> is_alnum c \<or> c = cu (CHR '':'') \<or> c = cu (CHR ''.'') \<or> c = cu (CHR ''_'') \<or> c = cu (CHR ''-'')"

definition AID_RE :: "jstring \<Rightarrow> bool" where
  "AID_RE s \<longleftrightarrow> starts_with s (js ''aid:'') \<and>
     (let r = drop 4 s in 1 \<le> length r \<and> length r \<le> 500 \<and> list_all aid_char r)"

definition split_issuer_item :: "jstring \<Rightarrow> jstring \<times> jstring \<times> jstring" where
  "split_issuer_item item =
     (case index_of (cu (CHR ''@'')) item of
        None \<Rightarrow> ([], [], [])
      | Some at \<Rightarrow>
          if at = 0 then ([], [], [])
          else case index_of (cu (CHR ''='')) (drop at item) of
                 None \<Rightarrow> (take at item, [], [])
               | Some d \<Rightarrow>
                   (take at item, take (d - 1) (drop (at + 1) item), trim (drop (at + d + 1) item)))"

definition issuer_key_step ::
  "jstring list \<Rightarrow> issuer_key_entry parsed_keys \<Rightarrow> nat \<times> jstring \<Rightarrow> issuer_key_entry parsed_keys" where
  "issuer_key_step adminKeys acc = (\<lambda>(position, item).
     case split_issuer_item item of (label, aid, key) \<Rightarrow>
       if \<not> LABEL_RE label \<or> \<not> AID_RE aid \<or> length key = 0 then
         acc\<lparr>p_warnings := p_warnings acc @ [MalformedEntry position]\<rparr>
       else if looksLikeSecret label (key # adminKeys) then
         acc\<lparr>p_warnings := p_warnings acc @ [LabelInKey position]\<rparr>
       else if key \<in> set adminKeys then
         acc\<lparr>p_warnings := p_warnings acc @ [IsAdminKey position label]\<rparr>
       else if key \<in> set (map k_key (p_entries acc)) then
         acc\<lparr>p_warnings := p_warnings acc @ [DuplicateKey position label]\<rparr>
       else
         acc\<lparr>p_errors := p_errors acc @
               (if label \<in> set (map k_label (p_entries acc)) then [LabelReused position label] else []),
             p_entries := p_entries acc @ [\<lparr>k_label = label, k_key = key, k_aid = aid\<rparr>]\<rparr>)"

definition parseIssuerKeys :: "jstring option \<Rightarrow> jstring list \<Rightarrow> issuer_key_entry parsed_keys" where
  "parseIssuerKeys raw adminKeys =
     foldl (issuer_key_step adminKeys) no_keys (numbered (config_items raw))"

text \<open>\<open>new Map(entries)\<close>: a later entry for a key would replace an earlier one.\<close>

definition issuerKeyIndex :: "issuer_key_entry list \<Rightarrow> jstring \<Rightarrow> issuer_key_entry option" where
  "issuerKeyIndex es k = find (\<lambda>e. k_key e = k) (rev es)"

section \<open>Invariants of the parsers\<close>

text \<open>
  A parse state is sound when keys are distinct and, as long as no error was reported, labels
  are distinct. The admin parser also keeps each label either positional or free of key
  material; the issuer parser keeps its entries well formed and off the admin list.
\<close>

definition keys_sound :: "('e \<Rightarrow> jstring) \<Rightarrow> ('e \<Rightarrow> jstring) \<Rightarrow> 'e parsed_keys \<Rightarrow> bool" where
  "keys_sound label key acc \<longleftrightarrow> distinct (map key (p_entries acc)) \<and>
     (p_errors acc = [] \<longrightarrow> distinct (map label (p_entries acc)))"

definition label_safe :: "jstring list \<Rightarrow> api_key_entry \<Rightarrow> bool" where
  "label_safe allKeys e \<longleftrightarrow>
     (\<exists>n. k_label e = unlabelledLabel n) \<or>
     (\<forall>k \<in> set allKeys. k \<noteq> k_label e \<and> (8 \<le> length (k_label e) \<longrightarrow> \<not> includes_str k (k_label e)))"

definition api_inv :: "jstring list \<Rightarrow> api_key_entry parsed_keys \<Rightarrow> bool" where
  "api_inv allKeys acc \<longleftrightarrow> keys_sound k_label k_key acc \<and> list_all (label_safe allKeys) (p_entries acc)"

definition issuer_entry_ok :: "jstring list \<Rightarrow> issuer_key_entry \<Rightarrow> bool" where
  "issuer_entry_ok adminKeys e \<longleftrightarrow> k_key e \<notin> set adminKeys \<and> AID_RE (k_aid e) \<and> LABEL_RE (k_label e) \<and> k_key e \<noteq> []"

definition issuer_inv :: "jstring list \<Rightarrow> issuer_key_entry parsed_keys \<Rightarrow> bool" where
  "issuer_inv adminKeys acc \<longleftrightarrow>
     keys_sound k_label k_key acc \<and> list_all (issuer_entry_ok adminKeys) (p_entries acc)"

lemma no_keys_inv [simp]: "api_inv ks no_keys" "issuer_inv ks no_keys"
  by (simp_all add: api_inv_def issuer_inv_def keys_sound_def no_keys_def)

lemma chosen_label_safe: "label_safe ks \<lparr>k_label = chosen_label ks n lab, k_key = k\<rparr>"
  by (auto simp: label_safe_def chosen_label_def looksLikeSecret_def SECRET_FRAGMENT_MIN_def
      list_ex_iff split: option.splits)

lemma api_key_step_inv [inv_intros]: "api_inv ks acc \<Longrightarrow> api_inv ks (api_key_step ks acc x)"
  using chosen_label_safe
  by (cases x) (auto simp: api_inv_def keys_sound_def api_key_step_def Let_def)

lemma issuer_key_step_inv [inv_intros]:
  "issuer_inv ks acc \<Longrightarrow> issuer_inv ks (issuer_key_step ks acc x)"
  by (cases x) (auto simp: issuer_inv_def keys_sound_def issuer_key_step_def issuer_entry_ok_def
      split: prod.splits)

interpretation api_parser: machine "api_key_step ks" "api_inv ks" for ks
  by unfold_locales (rule api_key_step_inv)

interpretation issuer_parser: machine "issuer_key_step ks" "issuer_inv ks" for ks
  by unfold_locales (rule issuer_key_step_inv)

lemma parseApiKeys_inv:
  "api_inv (map snd (map split_api_item (config_items raw))) (parseApiKeys raw)"
  unfolding parseApiKeys_def Let_def by (intro api_parser.run_inv no_keys_inv)

lemma parseIssuerKeys_inv: "issuer_inv ks (parseIssuerKeys raw ks)"
  unfolding parseIssuerKeys_def by (intro issuer_parser.run_inv no_keys_inv)

text \<open>Every configured key stays usable: a duplicate only repeats a key already stored.\<close>

lemma api_fold_keys:
  "k_key ` set (p_entries (foldl (api_key_step ks) acc xs)) =
   k_key ` set (p_entries acc) \<union> (snd \<circ> snd) ` set xs"
proof (induction xs arbitrary: acc)
  case (Cons x xs)
  have "k_key ` set (p_entries (api_key_step ks acc x)) = insert (snd (snd x)) (k_key ` set (p_entries acc))"
    by (cases x) (auto simp: api_key_step_def Let_def)
  with Cons show ?case by auto
qed simp

lemma set_numbered: "snd ` set (numbered xs) = set xs"
proof -
  have "map snd (numbered xs) = xs"
    unfolding numbered_def by (rule map_snd_zip) (simp del: upt_Suc)
  then have "set (map snd (numbered xs)) = set xs" by (rule arg_cong)
  then show ?thesis by simp
qed

lemma parseApiKeys_keys:
  "k_key ` set (p_entries (parseApiKeys raw)) = snd ` split_api_item ` set (config_items raw)"
proof -
  have "(snd \<circ> snd) ` set (numbered (map split_api_item (config_items raw))) =
      snd ` split_api_item ` set (config_items raw)"
    by (simp only: image_comp [symmetric] set_numbered set_map)
  then show ?thesis
    by (simp add: parseApiKeys_def Let_def api_fold_keys no_keys_def)
qed

lemma labelIndex_Some:
  "labelIndex es k = Some l \<Longrightarrow> \<exists>e \<in> set es. k_key e = k \<and> k_label e = l"
  by (induction es) (auto split: if_splits)

lemma labelIndex_eq_None: "labelIndex es k = None \<longleftrightarrow> k \<notin> k_key ` set es"
  by (induction es) auto

lemma labelIndex_mem:
  "distinct (map k_key es) \<Longrightarrow> e \<in> set es \<Longrightarrow> labelIndex es (k_key e) = Some (k_label e)"
  by (induction es) auto

lemma issuerKeyIndex_Some:
  "issuerKeyIndex es k = Some e \<Longrightarrow> e \<in> set es \<and> k_key e = k"
  using nth_mem [of _ "rev es"] by (fastforce simp: issuerKeyIndex_def find_Some_iff)

section \<open>Properties\<close>

text \<open>
  C40. \<open>API_KEYS\<close> parses into a usable, unambiguous list: keys are distinct and are exactly the
  configured ones, the index returns an entry's own label for its key, and when the parse
  reports no error no two keys share a label.
\<close>

theorem parseApiKeys_sound:
  "let p = parseApiKeys raw in
     distinct (map k_key (p_entries p)) \<and>
     k_key ` set (p_entries p) = snd ` split_api_item ` set (config_items raw) \<and>
     (\<forall>e \<in> set (p_entries p). labelIndex (p_entries p) (k_key e) = Some (k_label e)) \<and>
     (p_errors p = [] \<longrightarrow> distinct (map k_label (p_entries p)))"
  using parseApiKeys_inv [of raw]
  by (auto simp: Let_def api_inv_def keys_sound_def parseApiKeys_keys labelIndex_mem)

theorem parseApiKeys_sound_witness:
  "p_errors (parseApiKeys (Some (js ''ops:k1,k2''))) = [] \<and>
   map k_key (p_entries (parseApiKeys (Some (js ''ops:k1,k2'')))) = [js ''k1'', js ''k2''] \<and>
   distinct (map k_label (p_entries (parseApiKeys (Some (js ''ops:k1,k2'')))))"
proof -
  have e: "p_errors (parseApiKeys (Some (js ''ops:k1,k2''))) = []"
    and k: "map k_key (p_entries (parseApiKeys (Some (js ''ops:k1,k2'')))) = [js ''k1'', js ''k2'']"
    by code_simp+
  from parseApiKeys_sound [of "Some (js ''ops:k1,k2'')"] e
  have "distinct (map k_label (p_entries (parseApiKeys (Some (js ''ops:k1,k2'')))))"
    by (simp add: Let_def)
  with e k show ?thesis by simp
qed

text \<open>
  A label never carries a secret: the label recorded for a key is the positional
  \<open>unlabelled-n\<close>, or it differs from every configured key and, from 8 characters on, is no
  substring of one.
\<close>

theorem parseApiKeys_label_safe:
  assumes "e \<in> set (p_entries (parseApiKeys raw))"
  shows "label_safe (map snd (map split_api_item (config_items raw))) e"
  using parseApiKeys_inv [of raw] assms by (auto simp: api_inv_def list_all_iff)

theorem parseApiKeys_label_safe_witness:
  "label_safe [js ''abcdefgh-secret''] \<lparr>k_label = js ''unlabelled-1'', k_key = js ''abcdefgh-secret''\<rparr>"
proof -
  let ?raw = "Some (js ''abcdefgh:abcdefgh-secret'')"
  have p: "p_entries (parseApiKeys ?raw) = [\<lparr>k_label = js ''unlabelled-1'', k_key = js ''abcdefgh-secret''\<rparr>]"
    and m: "map snd (map split_api_item (config_items ?raw)) = [js ''abcdefgh-secret'']"
    by code_simp+
  show ?thesis
    using parseApiKeys_label_safe [of "\<lparr>k_label = js ''unlabelled-1'', k_key = js ''abcdefgh-secret''\<rparr>" ?raw]
    unfolding p m by simp
qed

text \<open>
  An issuer key is never an admin key: every parsed \<open>ISSUER_KEYS\<close> entry has a well-formed
  label and AID and a key outside the admin list, its keys are distinct, and an absence of
  errors means one AID per label.
\<close>

theorem parseIssuerKeys_sound:
  "let p = parseIssuerKeys raw adminKeys in
     (\<forall>e \<in> set (p_entries p). issuer_entry_ok adminKeys e) \<and>
     distinct (map k_key (p_entries p)) \<and>
     (p_errors p = [] \<longrightarrow> distinct (map k_label (p_entries p)))"
  using parseIssuerKeys_inv [of adminKeys raw]
  by (auto simp: Let_def issuer_inv_def keys_sound_def list_all_iff)

theorem parseIssuerKeys_sound_witness:
  "issuer_entry_ok [js ''adm''] \<lparr>k_label = js ''r1'', k_key = js ''kk'', k_aid = js ''aid:x''\<rparr>"
proof -
  have "p_entries (parseIssuerKeys (Some (js ''r1@aid:x=kk,r2@aid:x=adm'')) [js ''adm'']) =
      [\<lparr>k_label = js ''r1'', k_key = js ''kk'', k_aid = js ''aid:x''\<rparr>]"
    by code_simp
  with parseIssuerKeys_sound [of "Some (js ''r1@aid:x=kk,r2@aid:x=adm'')" "[js ''adm'']"]
  show ?thesis by (simp add: Let_def)
qed

text \<open>
  The positional fallback is not itself checked against the keys, so a bare key that spells
  its own positional label is recorded as its label.
\<close>

lemma positional_label_can_be_a_key:
  "p_entries (parseApiKeys (Some (js ''unlabelled-1''))) =
     [\<lparr>k_label = js ''unlabelled-1'', k_key = js ''unlabelled-1''\<rparr>]"
  by code_simp

end
