(* ===== verification/Json_Value.thy ===== *)
theory Json_Value
  imports Prelude Complex_Main
begin

text \<open>
  Values of \<open>JSON.parse\<close> and the property reads the handlers make on them. A number is an
  IEEE double: a rational, or an infinity (\<open>1e999\<close> parses to one). An object is the list of
  its own properties in insertion order, its keys distinct; \<open>get\<close> is \<open>o.k\<close>, with \<open>None\<close> for
  \<open>undefined\<close>. The reads the code makes use names that no array and no prototype defines, so an
  array has no such property.
\<close>

datatype jnum = JFin rat | JInf bool

datatype json =
    JNull
  | JBool bool
  | JNum jnum
  | JStr jstring
  | JArr "json list"
  | JObj "(jstring \<times> json) list"

type_synonym jobject = "(jstring \<times> json) list"

text \<open>\<open>typeof v === 'object' && v !== null\<close>: an array is an object too.\<close>

fun is_object :: "json \<Rightarrow> bool" where
  "is_object (JArr xs) = True"
| "is_object (JObj ps) = True"
| "is_object v = False"

fun get :: "json \<Rightarrow> string \<Rightarrow> json option" where
  "get (JObj ps) k = map_of ps (js k)"
| "get v k = None"

fun truthy :: "json option \<Rightarrow> bool" where
  "truthy None = False"
| "truthy (Some JNull) = False"
| "truthy (Some (JBool b)) = b"
| "truthy (Some (JNum n)) = (n \<noteq> JFin 0)"
| "truthy (Some (JStr s)) = (s \<noteq> [])"
| "truthy (Some (JArr xs)) = True"
| "truthy (Some (JObj ps)) = True"

fun as_string :: "json option \<Rightarrow> jstring option" where
  "as_string (Some (JStr s)) = Some s"
| "as_string v = None"

text \<open>\<open>typeof v === 'string' && v.length > 0\<close>.\<close>

definition nonempty_string :: "json option \<Rightarrow> jstring option" where
  "nonempty_string v = (case as_string v of Some s \<Rightarrow> if s \<noteq> [] then Some s else None | None \<Rightarrow> None)"

fun all_strings :: "json list \<Rightarrow> jstring list option" where
  "all_strings [] = Some []"
| "all_strings (v # vs) = (case v of JStr s \<Rightarrow> map_option ((#) s) (all_strings vs) | _ \<Rightarrow> None)"

text \<open>\<open>Array.isArray(v) && v.every((s) => typeof s === 'string')\<close>.\<close>

fun string_array :: "json option \<Rightarrow> jstring list option" where
  "string_array (Some (JArr vs)) = all_strings vs"
| "string_array v = None"

abbreviation jint :: "int \<Rightarrow> json" where
  "jint n \<equiv> JNum (JFin (of_int n))"

abbreviation jlit :: "string \<Rightarrow> json" where
  "jlit s \<equiv> JStr (js s)"

definition jobj :: "(string \<times> json) list \<Rightarrow> json" where
  "jobj ps = JObj (map (\<lambda>(k, v). (js k, v)) ps)"

definition jopt :: "jstring option \<Rightarrow> json" where
  "jopt v = (case v of None \<Rightarrow> JNull | Some s \<Rightarrow> JStr s)"

lemma map_of_js: "map_of (map (\<lambda>(k, v). (js k, v)) ps) (js k) = map_of ps k"
  by (induction ps) auto

lemma get_jobj [simp]: "get (jobj ps) k = map_of ps k"
  by (simp add: jobj_def map_of_js)

lemma nonempty_string_Some: "nonempty_string v = Some s \<longleftrightarrow> v = Some (JStr s) \<and> s \<noteq> []"
  by (cases v rule: as_string.cases) (auto simp: nonempty_string_def)

lemma all_strings_map [simp]: "all_strings (map JStr ss) = Some ss"
  by (induction ss) auto

lemma all_strings_Some: "all_strings vs = Some ss \<longleftrightarrow> vs = map JStr ss"
proof
  show "all_strings vs = Some ss \<Longrightarrow> vs = map JStr ss"
    by (induction vs arbitrary: ss) (auto split: json.splits)
qed simp

text \<open>Keys are distinct at every level, as \<open>JSON.parse\<close> guarantees.\<close>

fun json_wf :: "json \<Rightarrow> bool" where
  "json_wf (JArr vs) = (\<forall>v \<in> set vs. json_wf v)"
| "json_wf (JObj ps) = (distinct (map fst ps) \<and> (\<forall>p \<in> set ps. json_wf (snd p)))"
| "json_wf v = True"

end
