(* ===== verification/Http_Model.thy ===== *)
theory Http_Model
  imports Json_Value
begin

text \<open>
  Requests and answers as the handlers see them. The names of a header map are lower case,
  which is how the Fetch \<open>Headers\<close> object stores and compares them. An answer is a status, a
  JSON body and its headers.
\<close>

type_synonym headers = "jstring \<rightharpoonup> jstring"

record http_request =
  rq_method :: jstring
  rq_path :: jstring
  rq_headers :: headers

record http_response =
  rs_status :: nat
  rs_body :: json
  rs_headers :: headers

text \<open>\<open>new URL(req.url).searchParams\<close>, and \<open>a ?? b\<close> on values that may be absent.\<close>

type_synonym search_params = "string \<rightharpoonup> jstring"

definition orelse :: "'a option \<Rightarrow> 'a option \<Rightarrow> 'a option" where
  "orelse a b = (case a of None \<Rightarrow> b | Some x \<Rightarrow> Some x)"

lemma orelse_simps [simp]: "orelse None b = b" "orelse (Some x) b = Some x"
  by (simp_all add: orelse_def)

definition hdr :: "http_request \<Rightarrow> string \<Rightarrow> jstring option" where
  "hdr r name = rq_headers r (js name)"

definition json_response :: "nat \<Rightarrow> json \<Rightarrow> http_response" where
  "json_response status body = \<lparr>rs_status = status, rs_body = body, rs_headers = Map.empty\<rparr>"

definition error_body :: "string \<Rightarrow> string \<Rightarrow> json" where
  "error_body msg code = jobj [(''error'', jlit msg), (''code'', jlit code)]"

text \<open>\<open>!v\<close> on a header value or another optional string: absent or empty.\<close>

definition blank :: "jstring option \<Rightarrow> bool" where
  "blank v \<longleftrightarrow> v = None \<or> v = Some []"

lemma blank_simps [simp]: "blank None" "blank (Some s) \<longleftrightarrow> s = []"
  by (simp_all add: blank_def)

text \<open>\<open>String(n)\<close> of an integer.\<close>

definition num_str :: "int \<Rightarrow> jstring" where
  "num_str n = (if n < 0 then js ''-'' @ decimal (nat (- n)) else decimal (nat n))"

text \<open>\<open>typeof v === 'object'\<close> and not an array: a plain JSON object.\<close>

fun is_plain_object :: "json \<Rightarrow> bool" where
  "is_plain_object (JObj ps) = True"
| "is_plain_object v = False"

end
