(* ===== verification/App_Config.thy ===== *)
theory App_Config
  imports Api_Keys Http_Model
begin

text \<open>
  The boot-time configuration, \<open>src/src/lib/config.ts\<close>, with \<open>node-env.ts\<close>,
  \<open>key-labels-config.ts\<close> and \<open>pagination.ts\<close>. An environment is a partial map of names.
  \<open>Number(s)\<close> is the parameter \<open>to_number\<close>, \<open>None\<close> for \<open>NaN\<close> and the infinities; the settings
  and page sizes it yields are taken to be integers.
\<close>

type_synonym environment = "string \<rightharpoonup> jstring"

section \<open>Environment readers\<close>

definition readNumber :: "(jstring \<Rightarrow> int option) \<Rightarrow> environment \<Rightarrow> string \<Rightarrow> int \<Rightarrow> int" where
  "readNumber to_number env name def =
     (if blank (env name) then def
      else case to_number (the (env name)) of None \<Rightarrow> def | Some n \<Rightarrow> n)"

definition readList :: "environment \<Rightarrow> string \<Rightarrow> jstring list" where
  "readList env name = config_items (env name)"

definition SSE_HEARTBEAT_FLOOR_MS :: int where "SSE_HEARTBEAT_FLOOR_MS = 1000"
definition SSE_HEARTBEAT_CEILING_MS :: int where "SSE_HEARTBEAT_CEILING_MS = 2147483647"

definition readHeartbeatMs :: "(jstring \<Rightarrow> int option) \<Rightarrow> environment \<Rightarrow> int" where
  "readHeartbeatMs to_number env =
     min SSE_HEARTBEAT_CEILING_MS
       (max SSE_HEARTBEAT_FLOOR_MS (readNumber to_number env ''SSE_HEARTBEAT_MS'' 15000))"

definition readNodeEnv :: "environment \<Rightarrow> jstring" where
  "readNodeEnv env = trim (case env ''NODE_ENV'' of None \<Rightarrow> [] | Some s \<Rightarrow> s)"

definition isProductionNodeEnv :: "environment \<Rightarrow> bool" where
  "isProductionNodeEnv env \<longleftrightarrow> readNodeEnv env = js ''production''"

definition RECOGNISED_DEVELOPMENT_NODE_ENVS :: "jstring list" where
  "RECOGNISED_DEVELOPMENT_NODE_ENVS = [js ''development'', js ''test'']"

text \<open>Whether \<open>nodeEnvBootWarning\<close> has a warning to print (its text is not modelled).\<close>

definition nodeEnvBootWarning :: "environment \<Rightarrow> bool" where
  "nodeEnvBootWarning env \<longleftrightarrow>
     \<not> (readNodeEnv env = js ''production'' \<or> readNodeEnv env \<in> set RECOGNISED_DEVELOPMENT_NODE_ENVS)"

text \<open>ASCII \<open>toLowerCase\<close>.\<close>

definition to_lower :: "jstring \<Rightarrow> jstring" where
  "to_lower s = map (\<lambda>c. if is_upper c then c + 32 else c) s"

definition flag_unless_false :: "environment \<Rightarrow> string \<Rightarrow> bool" where
  "flag_unless_false env name \<longleftrightarrow>
     to_lower (case env name of None \<Rightarrow> js ''true'' | Some s \<Rightarrow> s) \<noteq> js ''false''"

section \<open>The configuration record\<close>

datatype verification_mode = Off | Warn | Strict

record app_config =
  isProduction :: bool
  cpBaseUrl :: jstring
  cpAidSeedHex :: jstring
  apiKeyEntries :: "api_key_entry list"
  issuerKeyEntries :: "issuer_key_entry list"
  keyLabelErrors :: "key_error list"
  enrollmentSecret :: jstring
  maxAuditEventsInMemory :: int
  maxSseConnections :: int
  sseHeartbeatMs :: int
  corsOrigin :: jstring
  webhookRetryAttempts :: int
  webhookUrlAllowlist :: "jstring list"
  rateLimitEnrollPerIpMin :: int
  rateLimitPublicPerIpMin :: int
  rateLimitApiKeyMin :: int
  rateLimitWindowMs :: int
  clientIpHeader :: jstring
  trustedProxyHops :: int
  rateLimitEnabled :: bool
  observedArtifactVerification :: verification_mode
  retentionEnabled :: bool
  retentionIntervalMs :: int
  auditEventsTtlDays :: int
  webhookDeliveryTtlDays :: int
  expiredAgentGraceDays :: int
  adminAuditTtlDays :: int
  idempotencyKeyTtlDays :: int
  retentionBatchLimit :: int

definition env_or :: "environment \<Rightarrow> string \<Rightarrow> string \<Rightarrow> jstring" where
  "env_or env name d = (case env name of None \<Rightarrow> js d | Some s \<Rightarrow> s)"

definition parse_verification_mode :: "environment \<Rightarrow> verification_mode" where
  "parse_verification_mode env =
     (let v = to_lower (trim (env_or env ''OBSERVED_ARTIFACT_VERIFICATION'' ''off''))
      in if v = js ''warn'' then Warn else if v = js ''strict'' then Strict else Off)"

definition load_config :: "(jstring \<Rightarrow> int option) \<Rightarrow> environment \<Rightarrow> app_config" where
  "load_config to_number env =
     (let num = readNumber to_number env;
          parsedApiKeys = parseApiKeys (env ''API_KEYS'');
          parsedIssuerKeys = parseIssuerKeys (env ''ISSUER_KEYS'') (map k_key (p_entries parsedApiKeys))
      in \<lparr>isProduction = isProductionNodeEnv env,
          cpBaseUrl = env_or env ''CP_BASE_URL'' ''http://localhost:4000'',
          cpAidSeedHex = env_or env ''CP_AID_SEED_HEX'' '''',
          apiKeyEntries = p_entries parsedApiKeys,
          issuerKeyEntries = p_entries parsedIssuerKeys,
          keyLabelErrors = p_errors parsedApiKeys @ p_errors parsedIssuerKeys,
          enrollmentSecret = env_or env ''ENROLLMENT_SECRET'' '''',
          maxAuditEventsInMemory = num ''MAX_AUDIT_EVENTS_MEMORY'' 500,
          maxSseConnections = num ''MAX_SSE_CONNECTIONS'' 500,
          sseHeartbeatMs = readHeartbeatMs to_number env,
          corsOrigin = env_or env ''CORS_ORIGIN'' ''http://localhost:3000'',
          webhookRetryAttempts = num ''WEBHOOK_RETRY_ATTEMPTS'' 3,
          webhookUrlAllowlist = readList env ''WEBHOOK_URL_ALLOWLIST'',
          rateLimitEnrollPerIpMin = num ''RATE_LIMIT_ENROLLMENT_PER_IP_MIN'' 5,
          rateLimitPublicPerIpMin = num ''RATE_LIMIT_PUBLIC_PER_IP_MIN'' 60,
          rateLimitApiKeyMin = num ''RATE_LIMIT_API_KEY_PER_MIN'' 600,
          rateLimitWindowMs = num ''RATE_LIMIT_WINDOW_MS'' 60000,
          clientIpHeader = to_lower (trim (env_or env ''CLIENT_IP_HEADER'' '''')),
          trustedProxyHops = num ''TRUSTED_PROXY_HOPS'' 0,
          rateLimitEnabled = flag_unless_false env ''RATE_LIMIT_ENABLED'',
          observedArtifactVerification = parse_verification_mode env,
          retentionEnabled = flag_unless_false env ''RETENTION_ENABLED'',
          retentionIntervalMs = num ''RETENTION_INTERVAL_MS'' (30 * 60 * 1000),
          auditEventsTtlDays = num ''AUDIT_EVENTS_TTL_DAYS'' 90,
          webhookDeliveryTtlDays = num ''WEBHOOK_DELIVERY_TTL_DAYS'' 14,
          expiredAgentGraceDays = num ''EXPIRED_AGENT_GRACE_DAYS'' 30,
          adminAuditTtlDays = num ''ADMIN_AUDIT_TTL_DAYS'' 365,
          idempotencyKeyTtlDays = num ''IDEMPOTENCY_KEY_TTL_DAYS'' 7,
          retentionBatchLimit = num ''RETENTION_BATCH_LIMIT'' 10000\<rparr>)"

text \<open>\<open>config.apiKeys\<close>: the secrets only, in list order.\<close>

definition apiKeys :: "app_config \<Rightarrow> jstring list" where
  "apiKeys cfg = map k_key (apiKeyEntries cfg)"

text \<open>\<open>keyLabelBootFailure\<close>: the process refuses to start exactly when some label error exists.\<close>

definition keyLabelBootFailure :: "key_error list \<Rightarrow> bool" where
  "keyLabelBootFailure errors \<longleftrightarrow> errors \<noteq> []"

section \<open>Pagination\<close>

record pagination =
  pg_limit :: int
  pg_offset :: int

definition parsePagination ::
  "(jstring \<Rightarrow> int option) \<Rightarrow> jstring option \<Rightarrow> jstring option \<Rightarrow> int \<Rightarrow> int \<Rightarrow> pagination" where
  "parsePagination to_number rawLimit rawOffset defaultLimit maxLimit =
     (let parsedLimit = (case rawLimit of None \<Rightarrow> Some defaultLimit | Some s \<Rightarrow> to_number s);
          parsedOffset = (case rawOffset of None \<Rightarrow> Some 0 | Some s \<Rightarrow> to_number s)
      in \<lparr>pg_limit = (case parsedLimit of Some n \<Rightarrow> min (max n 1) maxLimit | None \<Rightarrow> defaultLimit),
          pg_offset = (case parsedOffset of Some n \<Rightarrow> max n 0 | None \<Rightarrow> 0)\<rparr>)"

section \<open>Properties\<close>

lemma readHeartbeatMs_range:
  "1000 \<le> readHeartbeatMs to_number env \<and> readHeartbeatMs to_number env \<le> 2147483647"
  by (simp add: readHeartbeatMs_def SSE_HEARTBEAT_FLOOR_MS_def SSE_HEARTBEAT_CEILING_MS_def)

text \<open>
  A booted configuration is safe to key on: the heartbeat stays inside the range a timer
  accepts, issuer keys are disjoint from admin keys, and if the label check lets the process
  start, no two admin keys and no two issuer keys share a label.
\<close>

theorem load_config_sound:
  "let cfg = load_config to_number env in
     1000 \<le> sseHeartbeatMs cfg \<and> sseHeartbeatMs cfg < 2 ^ 31 \<and>
     k_key ` set (issuerKeyEntries cfg) \<inter> set (apiKeys cfg) = {} \<and>
     distinct (apiKeys cfg) \<and>
     (\<not> keyLabelBootFailure (keyLabelErrors cfg) \<longrightarrow>
        distinct (map k_label (apiKeyEntries cfg)) \<and> distinct (map k_label (issuerKeyEntries cfg)))"
proof -
  let ?api = "parseApiKeys (env ''API_KEYS'')"
  let ?keys = "map k_key (p_entries ?api)"
  let ?iss = "parseIssuerKeys (env ''ISSUER_KEYS'') ?keys"
  have api: "distinct ?keys" "p_errors ?api = [] \<longrightarrow> distinct (map k_label (p_entries ?api))"
    using parseApiKeys_inv by (auto simp: api_inv_def keys_sound_def)
  have iss: "issuer_inv ?keys ?iss" by (rule parseIssuerKeys_inv)
  then have "k_key ` set (p_entries ?iss) \<inter> set ?keys = {}"
    by (auto simp: issuer_inv_def list_all_iff issuer_entry_ok_def simp del: set_map)
  with api iss readHeartbeatMs_range [of to_number env] show ?thesis
    by (auto simp: load_config_def Let_def apiKeys_def keyLabelBootFailure_def issuer_inv_def
        keys_sound_def)
qed

theorem load_config_sound_witness:
  "let cfg = load_config (\<lambda>_. Some 0) [''API_KEYS'' \<mapsto> js ''ops:k1,dev:k2''] in
     map k_label (apiKeyEntries cfg) = [js ''ops'', js ''dev''] \<and> distinct (map k_label (apiKeyEntries cfg))"
proof -
  let ?cfg = "load_config (\<lambda>_. Some 0) [''API_KEYS'' \<mapsto> js ''ops:k1,dev:k2'']"
  have e: "keyLabelErrors ?cfg = []" and l: "map k_label (apiKeyEntries ?cfg) = [js ''ops'', js ''dev'']"
    by code_simp+
  then have "\<not> keyLabelBootFailure (keyLabelErrors ?cfg)" by (simp add: keyLabelBootFailure_def)
  then have "distinct (map k_label (apiKeyEntries ?cfg))"
    using load_config_sound [of "\<lambda>_. Some 0" "[''API_KEYS'' \<mapsto> js ''ops:k1,dev:k2'']"]
    by (simp add: Let_def)
  with l show ?thesis by (simp add: Let_def)
qed

lemma parsePagination_bounds:
  assumes "1 \<le> defaultLimit" and "defaultLimit \<le> maxLimit"
  shows "1 \<le> pg_limit (parsePagination f l o' defaultLimit maxLimit) \<and>
    pg_limit (parsePagination f l o' defaultLimit maxLimit) \<le> maxLimit \<and>
    0 \<le> pg_offset (parsePagination f l o' defaultLimit maxLimit)"
  using assms by (auto simp: parsePagination_def Let_def split: option.splits)

end
