(* ===== verification/Request_Gate.thy ===== *)
theory Request_Gate
  imports App_Config Rate_Limit
begin

text \<open>
  The request gate, \<open>src/src/proxy.ts\<close>: which paths are public, client IP resolution, the
  authentication and rate-limit decisions of \<open>proxy\<close>, and the attribution headers it forwards.
  The gate's state is the process's rate limiter; the clock and the random request id are
  arguments. The lemmas show what a request must carry to be forwarded and that the forwarded
  attribution is the gate's own.
\<close>

section \<open>Routes\<close>

definition KEY_LABEL_HEADER :: jstring where "KEY_LABEL_HEADER = js ''x-aitp-key-label''"
definition KEY_ISSUER_HEADER :: jstring where "KEY_ISSUER_HEADER = js ''x-aitp-key-issuer''"
definition CLIENT_IP_FORWARD_HEADER :: jstring where "CLIENT_IP_FORWARD_HEADER = js ''x-aitp-client-ip''"

definition ISSUER_KEY_ROUTE :: jstring where "ISSUER_KEY_ROUTE = js ''/api/revocations''"

definition PUBLIC_PATHS :: "jstring list" where
  "PUBLIC_PATHS = [js ''/api/health'', js ''/api/readyz'', js ''/api/well-known/aitp-manifest'',
     js ''/api/registry/enroll'', js ''/api/registry/agents'', js ''/api/metrics'']"

text \<open>\<open>/^\/api\/registry\/agents\/[^/]+$/\<close> and the same with \<open>/manifest\<close>.\<close>

definition agents_prefix :: jstring where "agents_prefix = js ''/api/registry/agents/''"

definition no_slash :: "jstring \<Rightarrow> bool" where
  "no_slash s \<longleftrightarrow> s \<noteq> [] \<and> cu (CHR ''/'') \<notin> set s"

definition public_get_pattern :: "jstring \<Rightarrow> bool" where
  "public_get_pattern p \<longleftrightarrow> starts_with p agents_prefix \<and>
     (let r = drop (length agents_prefix) p in
        no_slash r \<or>
        (ends_with r (js ''/manifest'') \<and> no_slash (take (length r - length (js ''/manifest'')) r)))"

definition isPublicRequest :: "jstring \<Rightarrow> jstring \<Rightarrow> bool" where
  "isPublicRequest path meth \<longleftrightarrow>
     path \<in> set PUBLIC_PATHS \<or> (meth = js ''GET'' \<and> public_get_pattern path)"

definition RATE_LIMIT_EXEMPT_PATHS :: "jstring list" where
  "RATE_LIMIT_EXEMPT_PATHS = [js ''/api/health'', js ''/api/readyz'', js ''/api/metrics'']"

section \<open>Headers and client IP\<close>

definition CORS_HEADERS :: "app_config \<Rightarrow> headers" where
  "CORS_HEADERS cfg =
     [js ''access-control-allow-origin'' \<mapsto> corsOrigin cfg,
      js ''access-control-allow-methods'' \<mapsto> js ''GET,POST,PATCH,DELETE,OPTIONS'',
      js ''access-control-allow-headers'' \<mapsto> js ''authorization,content-type,x-request-id,x-aitp-namespace'',
      js ''access-control-expose-headers'' \<mapsto> js ''x-request-id'',
      js ''vary'' \<mapsto> js ''Origin'']"

definition applyCors :: "app_config \<Rightarrow> headers \<Rightarrow> headers" where
  "applyCors cfg h = h ++ CORS_HEADERS cfg"

definition resolveRequestId :: "jstring \<Rightarrow> http_request \<Rightarrow> jstring" where
  "resolveRequestId fresh r = (case hdr r ''x-request-id'' of Some v \<Rightarrow> v | None \<Rightarrow> fresh)"

definition trusted_header_ip :: "app_config \<Rightarrow> http_request \<Rightarrow> jstring option" where
  "trusted_header_ip cfg r =
     (if clientIpHeader cfg = [] then None
      else case rq_headers r (clientIpHeader cfg) of
             Some v \<Rightarrow> if v = [] then None else Some (trim (hd (split_on (cu (CHR '','')) v)))
           | None \<Rightarrow> None)"

definition forwarded_for_ip :: "app_config \<Rightarrow> http_request \<Rightarrow> jstring option" where
  "forwarded_for_ip cfg r =
     (if trustedProxyHops cfg > 0 then
        (case hdr r ''x-forwarded-for'' of
           Some fwd \<Rightarrow>
             (let parts = filter (\<lambda>s. s \<noteq> []) (map trim (split_on (cu (CHR '','')) fwd));
                  idx = int (length parts) - trustedProxyHops cfg
              in if fwd \<noteq> [] \<and> 0 \<le> idx \<and> idx < int (length parts) then Some (parts ! nat idx) else None)
         | None \<Rightarrow> None)
      else None)"

definition getClientIp :: "app_config \<Rightarrow> http_request \<Rightarrow> jstring" where
  "getClientIp cfg r =
     (case trusted_header_ip cfg r of Some ip \<Rightarrow> ip
      | None \<Rightarrow> (case forwarded_for_ip cfg r of Some ip \<Rightarrow> ip
        | None \<Rightarrow> (if blank (hdr r ''x-real-ip'') then js ''unknown'' else trim (the (hdr r ''x-real-ip'')))))"

section \<open>Decisions\<close>

datatype gate_result =
    Untouched
  | Preflight headers
  | Denied http_response
  | PassThrough headers headers \<comment> \<open>headers forwarded to the handler, headers of the answer\<close>

definition passThrough ::
  "app_config \<Rightarrow> jstring \<Rightarrow> http_request \<Rightarrow> jstring option \<Rightarrow> jstring option \<Rightarrow> gate_result" where
  "passThrough cfg fresh r keyLabel keyIssuer =
     (let requestId = resolveRequestId fresh r;
          h0 = (rq_headers r)(js ''x-request-id'' \<mapsto> requestId);
          h1 = h0(KEY_LABEL_HEADER := None, KEY_ISSUER_HEADER := None, CLIENT_IP_FORWARD_HEADER := None);
          h2 = (if blank keyLabel then h1 else h1(KEY_LABEL_HEADER := keyLabel));
          h3 = (if blank keyIssuer then h2 else h2(KEY_ISSUER_HEADER := keyIssuer));
          ip = getClientIp cfg r;
          h4 = (if ip \<noteq> js ''unknown'' then h3(CLIENT_IP_FORWARD_HEADER \<mapsto> ip) else h3)
      in PassThrough h4 (applyCors cfg [js ''x-request-id'' \<mapsto> requestId]))"

definition deny ::
  "app_config \<Rightarrow> jstring \<Rightarrow> http_request \<Rightarrow> json \<Rightarrow> nat \<Rightarrow> headers \<Rightarrow> gate_result" where
  "deny cfg fresh r body status extra =
     Denied \<lparr>rs_status = status, rs_body = body,
       rs_headers = applyCors cfg ([js ''x-request-id'' \<mapsto> resolveRequestId fresh r] ++ extra)\<rparr>"

record rate_choice =
  bucketName :: jstring
  rc_key :: jstring
  rc_limit :: int

definition chooseRateLimit ::
  "app_config \<Rightarrow> http_request \<Rightarrow> jstring \<Rightarrow> jstring option \<Rightarrow> bool \<Rightarrow> rate_choice" where
  "chooseRateLimit cfg r path token isPublic =
     (if path = js ''/api/registry/enroll'' then
        \<lparr>bucketName = js ''enroll-ip'', rc_key = getClientIp cfg r, rc_limit = rateLimitEnrollPerIpMin cfg\<rparr>
      else if isPublic \<or> blank token then
        \<lparr>bucketName = js ''public-ip'', rc_key = getClientIp cfg r, rc_limit = rateLimitPublicPerIpMin cfg\<rparr>
      else
        \<lparr>bucketName = js ''api-key'', rc_key = take 24 (the token), rc_limit = rateLimitApiKeyMin cfg\<rparr>)"

definition bearer_token :: "http_request \<Rightarrow> jstring option" where
  "bearer_token r =
     (let authHeader = (case hdr r ''authorization'' of None \<Rightarrow> [] | Some v \<Rightarrow> v)
      in if starts_with authHeader (js ''Bearer '') then Some (drop 7 authHeader)
         else if authHeader = [] then None else Some authHeader)"

definition issuer_key_for :: "app_config \<Rightarrow> http_request \<Rightarrow> issuer_key_entry option" where
  "issuer_key_for cfg r =
     (if rq_path r = ISSUER_KEY_ROUTE \<and> rq_method r = js ''GET'' \<and> \<not> blank (bearer_token r)
      then issuerKeyIndex (issuerKeyEntries cfg) (the (bearer_token r)) else None)"

datatype auth_outcome = Misconfigured | BadKey | Authenticated "jstring option" "jstring option"

definition authenticate :: "app_config \<Rightarrow> http_request \<Rightarrow> auth_outcome" where
  "authenticate cfg r =
     (let token = bearer_token r;
          issuerKey = issuer_key_for cfg r
      in case issuerKey of
           Some e \<Rightarrow> Authenticated (Some (k_label e)) (Some (k_aid e))
         | None \<Rightarrow>
             if isPublicRequest (rq_path r) (rq_method r) then Authenticated None None
             else if apiKeys cfg = [] then
               (if isProduction cfg then Misconfigured else Authenticated None None)
             else
               let label = (if blank token then None else labelIndex (apiKeyEntries cfg) (the token))
               in if blank label then BadKey else Authenticated label None)"

definition rate_limited :: "app_config \<Rightarrow> jstring \<Rightarrow> http_request \<Rightarrow> instant \<Rightarrow> rate_choice \<Rightarrow> rate_decision \<Rightarrow> gate_result" where
  "rate_limited cfg fresh r now choice decision =
     (let retryAfter = max 1 (- ((now - d_resetAt decision) div 1000))
      in deny cfg fresh r
           (jobj [(''error'', jlit ''rate limit exceeded''), (''code'', jlit ''RATE_LIMITED''),
                  (''bucket'', JStr (bucketName choice))])
           429
           [js ''retry-after'' \<mapsto> num_str retryAfter,
            js ''x-ratelimit-limit'' \<mapsto> num_str (d_limit decision),
            js ''x-ratelimit-remaining'' \<mapsto> js ''0'',
            js ''x-ratelimit-reset'' \<mapsto> num_str (d_resetAt decision div 1000)])"

definition proxy ::
  "app_config \<Rightarrow> jstring \<Rightarrow> instant \<Rightarrow> http_request \<Rightarrow> rate_limiter \<Rightarrow> gate_result \<times> rate_limiter" where
  "proxy cfg fresh now r s =
     (if \<not> starts_with (rq_path r) (js ''/api/'') then (Untouched, s)
      else if rq_method r = js ''OPTIONS'' then
        (Preflight (applyCors cfg [js ''x-request-id'' \<mapsto> resolveRequestId fresh r]), s)
      else
        case authenticate cfg r of
          Misconfigured \<Rightarrow>
            (deny cfg fresh r (error_body ''server misconfigured: API_KEYS is required in production''
               ''SERVER_MISCONFIGURED'') 503 Map.empty, s)
        | BadKey \<Rightarrow>
            (deny cfg fresh r (error_body ''Unauthorized'' ''INVALID_API_KEY'') 401 Map.empty, s)
        | Authenticated keyLabel keyIssuer \<Rightarrow>
            if rateLimitEnabled cfg \<and> rq_path r \<notin> set RATE_LIMIT_EXEMPT_PATHS then
              let choice = chooseRateLimit cfg r (rq_path r) (bearer_token r)
                             (isPublicRequest (rq_path r) (rq_method r));
                  (decision, s') = check (bucketName choice) (rc_key choice) (rc_limit choice)
                             (rateLimitWindowMs cfg) now s
              in if \<not> allowed decision then (rate_limited cfg fresh r now choice decision, s')
                 else (passThrough cfg fresh r keyLabel keyIssuer, s')
            else (passThrough cfg fresh r keyLabel keyIssuer, s))"

section \<open>Lemmas\<close>

lemma header_names_distinct [simp]:
  "KEY_LABEL_HEADER \<noteq> KEY_ISSUER_HEADER" "KEY_ISSUER_HEADER \<noteq> KEY_LABEL_HEADER"
  "KEY_LABEL_HEADER \<noteq> CLIENT_IP_FORWARD_HEADER" "CLIENT_IP_FORWARD_HEADER \<noteq> KEY_LABEL_HEADER"
  "KEY_ISSUER_HEADER \<noteq> CLIENT_IP_FORWARD_HEADER" "CLIENT_IP_FORWARD_HEADER \<noteq> KEY_ISSUER_HEADER"
  "KEY_LABEL_HEADER \<noteq> js ''x-request-id''" "KEY_ISSUER_HEADER \<noteq> js ''x-request-id''"
  "CLIENT_IP_FORWARD_HEADER \<noteq> js ''x-request-id''"
  by (simp_all add: KEY_LABEL_HEADER_def KEY_ISSUER_HEADER_def CLIENT_IP_FORWARD_HEADER_def)

text \<open>What the forwarded attribution headers are, whatever the client sent under these names.\<close>

lemma passThrough_attribution:
  assumes "passThrough cfg fresh r keyLabel keyIssuer = PassThrough h resp"
  shows "h KEY_LABEL_HEADER = (if blank keyLabel then None else keyLabel)"
    and "h KEY_ISSUER_HEADER = (if blank keyIssuer then None else keyIssuer)"
    and "h CLIENT_IP_FORWARD_HEADER =
      (if getClientIp cfg r = js ''unknown'' then None else Some (getClientIp cfg r))"
  using assms by (auto simp: passThrough_def Let_def)

lemma deny_not_pass [simp]: "deny cfg fresh r b st ex \<noteq> PassThrough h resp"
  and rate_limited_not_pass [simp]: "rate_limited cfg fresh r now c d \<noteq> PassThrough h resp"
  by (simp_all add: deny_def rate_limited_def Let_def)

text \<open>A request that reaches a handler was authenticated, and its headers carry the outcome.\<close>

lemma proxy_passD:
  assumes "fst (proxy cfg fresh now r s) = PassThrough h resp"
  obtains l i where "authenticate cfg r = Authenticated l i"
    and "passThrough cfg fresh r l i = PassThrough h resp"
  using assms
  by (auto simp: proxy_def Let_def split: if_splits auth_outcome.splits prod.splits)

lemma issuer_key_for_Some:
  "issuer_key_for cfg r = Some e \<Longrightarrow> rq_path r = ISSUER_KEY_ROUTE \<and> rq_method r = js ''GET'' \<and>
     e \<in> set (issuerKeyEntries cfg) \<and> bearer_token r = Some (k_key e)"
  by (auto simp: issuer_key_for_def blank_def split: if_splits dest: issuerKeyIndex_Some)

lemma ISSUER_KEY_ROUTE_not_public: "\<not> isPublicRequest ISSUER_KEY_ROUTE m"
  by (simp add: isPublicRequest_def ISSUER_KEY_ROUTE_def PUBLIC_PATHS_def public_get_pattern_def
      agents_prefix_def starts_with_def js_def)

lemma authenticate_cases:
  assumes "authenticate cfg r = Authenticated l i"
  shows "(\<exists>e. issuer_key_for cfg r = Some e \<and> l = Some (k_label e) \<and> i = Some (k_aid e)) \<or>
    (i = None \<and> issuer_key_for cfg r = None \<and>
      (isPublicRequest (rq_path r) (rq_method r) \<and> l = None \<or>
       apiKeys cfg = [] \<and> \<not> isProduction cfg \<and> l = None \<or>
       (\<exists>t. bearer_token r = Some t \<and> labelIndex (apiKeyEntries cfg) t = l \<and> \<not> blank l)))"
  using assms
  by (cases "bearer_token r")
     (auto simp: authenticate_def Let_def split: option.splits if_splits)

lemma denied_keeps_limiter:
  assumes "starts_with (rq_path r) (js ''/api/'')" and "rq_method r \<noteq> js ''OPTIONS''"
    and "authenticate cfg r = BadKey"
  shows "proxy cfg fresh now r s =
    (deny cfg fresh r (error_body ''Unauthorized'' ''INVALID_API_KEY'') 401 Map.empty, s)"
  using assms by (simp add: proxy_def)

section \<open>Properties\<close>

text \<open>
  C1. With API keys configured, a request for a gated route reaches its handler only with a
  configured key: either the bearer token is an \<open>API_KEYS\<close> key, and then the handler sees that
  key's label and no issuer, or it is an issuer key, and then the request is
  \<open>GET /api/revocations\<close> and the handler sees the AID the key is bound to.
\<close>

theorem gated_needs_key:
  assumes "fst (proxy cfg fresh now r s) = PassThrough h resp"
    and "\<not> isPublicRequest (rq_path r) (rq_method r)" and "apiKeys cfg \<noteq> []"
  shows "(\<exists>e \<in> set (apiKeyEntries cfg). bearer_token r = Some (k_key e) \<and>
            h KEY_LABEL_HEADER = Some (k_label e) \<and> h KEY_ISSUER_HEADER = None) \<or>
         (\<exists>e \<in> set (issuerKeyEntries cfg). bearer_token r = Some (k_key e) \<and>
            rq_path r = js ''/api/revocations'' \<and> rq_method r = js ''GET'' \<and>
            h KEY_ISSUER_HEADER = (if k_aid e = [] then None else Some (k_aid e)))"
proof -
  obtain l i where auth: "authenticate cfg r = Authenticated l i"
    and pass: "passThrough cfg fresh r l i = PassThrough h resp"
    using proxy_passD [OF assms(1)] .
  from authenticate_cases [OF auth] assms(2,3)
  consider (issuer) e where "issuer_key_for cfg r = Some e" "i = Some (k_aid e)"
    | (admin) t where "i = None" "bearer_token r = Some t" "labelIndex (apiKeyEntries cfg) t = l" "\<not> blank l"
    by blast
  then show ?thesis
  proof cases
    case issuer
    with issuer_key_for_Some passThrough_attribution(2) [OF pass] show ?thesis
      by (auto simp: ISSUER_KEY_ROUTE_def)
  next
    case admin
    then obtain lab where "l = Some lab" by (cases l) auto
    with admin obtain e where "e \<in> set (apiKeyEntries cfg)" "k_key e = t" "k_label e = lab"
      by (auto dest: labelIndex_Some)
    with admin \<open>l = Some lab\<close> passThrough_attribution(1,2) [OF pass] show ?thesis by auto
  qed
qed

definition demo_env :: environment where
  "demo_env = [''API_KEYS'' \<mapsto> js ''ops:k1'', ''ISSUER_KEYS'' \<mapsto> js ''r1@aid:x=kk'',
     ''NODE_ENV'' \<mapsto> js ''production'', ''RATE_LIMIT_ENABLED'' \<mapsto> js ''false'']"

definition demo_config :: app_config where
  "demo_config = load_config (\<lambda>_. None) demo_env"

definition demo_request :: "string \<Rightarrow> string \<Rightarrow> string \<Rightarrow> http_request" where
  "demo_request m p token = \<lparr>rq_method = js m, rq_path = js p,
     rq_headers = [js ''authorization'' \<mapsto> js ''Bearer '' @ js token, KEY_LABEL_HEADER \<mapsto> js ''root'']\<rparr>"

lemma demo_entries:
  "apiKeyEntries demo_config = [\<lparr>k_label = js ''ops'', k_key = js ''k1''\<rparr>]"
  "issuerKeyEntries demo_config = [\<lparr>k_label = js ''r1'', k_key = js ''kk'', k_aid = js ''aid:x''\<rparr>]"
  "isProduction demo_config" "\<not> rateLimitEnabled demo_config"
  by code_simp+

lemma demo_pass:
  "\<exists>h resp. fst (proxy demo_config (js ''id'') 0 (demo_request ''GET'' ''/api/audit'' ''k1'') empty_limiter) =
     PassThrough h resp"
  by (simp add: proxy_def authenticate_def demo_request_def bearer_token_def hdr_def issuer_key_for_def
      ISSUER_KEY_ROUTE_def demo_entries apiKeys_def passThrough_def Let_def starts_with_def js_def
      isPublicRequest_def PUBLIC_PATHS_def public_get_pattern_def agents_prefix_def KEY_LABEL_HEADER_def)

theorem gated_needs_key_witness:
  "\<exists>e \<in> set (apiKeyEntries demo_config). k_label e = js ''ops''"
proof -
  obtain h resp where h: "fst (proxy demo_config (js ''id'') 0
      (demo_request ''GET'' ''/api/audit'' ''k1'') empty_limiter) = PassThrough h resp"
    using demo_pass by blast
  have "\<not> isPublicRequest (rq_path (demo_request ''GET'' ''/api/audit'' ''k1''))
      (rq_method (demo_request ''GET'' ''/api/audit'' ''k1''))"
    and "apiKeys demo_config \<noteq> []"
    by (simp_all add: demo_request_def apiKeys_def demo_entries isPublicRequest_def PUBLIC_PATHS_def
        public_get_pattern_def agents_prefix_def starts_with_def js_def)
  from gated_needs_key [OF h this] show ?thesis by (auto simp: demo_entries demo_request_def)
qed

text \<open>
  C36. Attribution cannot be spoofed: the key label and issuer headers a handler sees are the
  ones of the key that authenticated the request, and on a public route there are none, whatever
  the client sent under those names; the client IP header is the gate's own resolution.
\<close>

theorem attribution_not_spoofable:
  assumes "fst (proxy cfg fresh now r s) = PassThrough h resp"
  shows "(h KEY_LABEL_HEADER = None \<or>
       (\<exists>e \<in> set (apiKeyEntries cfg). bearer_token r = Some (k_key e) \<and> h KEY_LABEL_HEADER = Some (k_label e)) \<or>
       (\<exists>e \<in> set (issuerKeyEntries cfg). bearer_token r = Some (k_key e) \<and> h KEY_LABEL_HEADER = Some (k_label e))) \<and>
     (h KEY_ISSUER_HEADER = None \<or>
       (\<exists>e \<in> set (issuerKeyEntries cfg). bearer_token r = Some (k_key e) \<and> h KEY_ISSUER_HEADER = Some (k_aid e))) \<and>
     (isPublicRequest (rq_path r) (rq_method r) \<longrightarrow> h KEY_LABEL_HEADER = None \<and> h KEY_ISSUER_HEADER = None) \<and>
     h CLIENT_IP_FORWARD_HEADER =
       (if getClientIp cfg r = js ''unknown'' then None else Some (getClientIp cfg r))"
proof -
  obtain l i where auth: "authenticate cfg r = Authenticated l i"
    and pass: "passThrough cfg fresh r l i = PassThrough h resp"
    using proxy_passD [OF assms] .
  note h = passThrough_attribution [OF pass]
  have pub: "l = None \<and> i = None" if "isPublicRequest (rq_path r) (rq_method r)"
  proof -
    from that have "issuer_key_for cfg r = None"
      using ISSUER_KEY_ROUTE_not_public issuer_key_for_Some by (cases "issuer_key_for cfg r") auto
    with that auth show ?thesis by (auto simp: authenticate_def)
  qed
  from authenticate_cases [OF auth] show ?thesis
  proof (elim disjE exE conjE)
    fix e assume e: "issuer_key_for cfg r = Some e" "l = Some (k_label e)" "i = Some (k_aid e)"
    from issuer_key_for_Some [OF e(1)] ISSUER_KEY_ROUTE_not_public
    have "\<not> isPublicRequest (rq_path r) (rq_method r)" by auto
    with e issuer_key_for_Some [OF e(1)] show ?thesis by (auto simp: h)
  next
    fix t assume t: "i = None" "bearer_token r = Some t" "labelIndex (apiKeyEntries cfg) t = l" "\<not> blank l"
    then obtain lab where lab: "l = Some lab" by (cases l) auto
    with t obtain e where "e \<in> set (apiKeyEntries cfg)" "k_key e = t" "k_label e = lab"
      by (auto dest: labelIndex_Some)
    with t lab pub show ?thesis by (auto simp: h)
  qed (auto simp: h)
qed

theorem attribution_not_spoofable_witness:
  "\<exists>h resp. fst (proxy demo_config (js ''id'') 0 (demo_request ''GET'' ''/api/audit'' ''k1'') empty_limiter) =
     PassThrough h resp \<and> h KEY_LABEL_HEADER \<noteq> Some (js ''root'')"
proof -
  obtain h resp where h: "fst (proxy demo_config (js ''id'') 0
      (demo_request ''GET'' ''/api/audit'' ''k1'') empty_limiter) = PassThrough h resp"
    using demo_pass by blast
  from attribution_not_spoofable [OF h] have "h KEY_LABEL_HEADER \<noteq> Some (js ''root'')"
    by (auto simp: demo_entries demo_request_def)
  with h show ?thesis by blast
qed

text \<open>
  Without API keys the gate fails closed in production: every request for a gated route is
  answered 503 and leaves the limiter untouched, an issuer key on the relay route excepted.
\<close>

theorem production_fails_closed:
  assumes "apiKeys cfg = []" and "isProduction cfg" and "\<not> isPublicRequest (rq_path r) (rq_method r)"
    and "starts_with (rq_path r) (js ''/api/'')" and "rq_method r \<noteq> js ''OPTIONS''"
    and "issuer_key_for cfg r = None"
  shows "\<exists>resp. proxy cfg fresh now r s = (Denied resp, s) \<and> rs_status resp = 503"
  using assms by (simp add: proxy_def authenticate_def deny_def)

theorem production_fails_closed_witness:
  "\<exists>resp. proxy (load_config (\<lambda>_. None) [''NODE_ENV'' \<mapsto> js '' production '']) (js ''id'') 0
     (demo_request ''GET'' ''/api/audit'' ''k1'') empty_limiter = (Denied resp, empty_limiter) \<and> rs_status resp = 503"
proof (rule production_fails_closed)
  let ?cfg = "load_config (\<lambda>_. None) [''NODE_ENV'' \<mapsto> js '' production '']"
  show "apiKeys ?cfg = []" "isProduction ?cfg" by code_simp+
qed (simp_all add: demo_request_def isPublicRequest_def PUBLIC_PATHS_def issuer_key_for_def
    ISSUER_KEY_ROUTE_def public_get_pattern_def agents_prefix_def starts_with_def js_def)

end
