(* ===== verification/Db_Schema.thy ===== *)
theory Db_Schema
  imports Http_Model
begin

text \<open>
  The Postgres tables of \<open>src/src/lib/db/schema.ts\<close>: one record per row type, one list of rows
  per table. Columns with a fixed set of values are datatypes, nullable columns are options,
  timestamps are instants and \<open>jsonb\<close> columns are JSON values. A \<open>uuid\<close> column stores and
  compares the value, not its spelling: \<open>uuid_value\<close> is the lower-case form Postgres returns.
\<close>

definition uuid_value :: "jstring \<Rightarrow> jstring" where
  "uuid_value s = map (\<lambda>c. if is_upper c then c + 32 else c) s"

datatype agent_status = Active | Expired | Deregistered | Inactive

record agent =
  ag_aid :: jstring
  ag_displayName :: jstring
  ag_handshakeEndpoint :: jstring
  ag_offeredCaps :: "jstring list"
  ag_manifestJson :: jstring
  ag_manifestExpiresAt :: "instant option"
  ag_status :: agent_status
  ag_registeredAt :: instant
  ag_lastEnrolledAt :: "instant option"
  ag_lastSeenAt :: "instant option"
  ag_org :: "jstring option"
  ag_cloud :: "jstring option"
  ag_namespace :: jstring
  ag_metadata :: json

datatype session_status = Started | Complete | SessionFailed

record handshake_session =
  hs_sessionId :: jstring
  hs_aidA :: "jstring option"
  hs_aidB :: "jstring option"
  hs_status :: session_status
  hs_grants :: "jstring list"
  hs_runId :: "jstring option"
  hs_boundary :: "jstring option"
  hs_error :: "jstring option"
  hs_startedAt :: "instant option"
  hs_completedAt :: "instant option"
  hs_createdAt :: instant
  hs_updatedAt :: instant

text \<open>\<open>AuditEventRecord\<close> of \<open>audit/stream.ts\<close>; a stored row adds its insert time.\<close>

record audit_event =
  ev_id :: jstring
  ev_type :: jstring
  ev_ts :: instant
  ev_aidA :: "jstring option"
  ev_aidB :: "jstring option"
  ev_sessionId :: "jstring option"
  ev_runId :: "jstring option"
  ev_grants :: "jstring list option"
  ev_payload :: json
  ev_source :: "jstring option"

record audit_event_row = audit_event +
  ev_createdAt :: instant

record revocation_entry =
  re_jti :: jstring
  re_revokedAt :: instant
  re_reason :: "jstring option"
  re_iss :: "jstring option"
  re_createdAt :: instant

record webhook =
  wh_id :: jstring
  wh_url :: jstring
  wh_events :: "jstring list"
  wh_secret :: jstring
  wh_active :: bool
  wh_createdAt :: instant
  wh_updatedAt :: instant

datatype delivery_status = Pending | Delivered | DeliveryFailed

record webhook_delivery =
  wd_id :: jstring
  wd_webhookId :: jstring
  wd_eventType :: jstring
  wd_payload :: audit_event
  wd_body :: "jstring option"
  wd_signature :: "jstring option"
  wd_status :: delivery_status
  wd_attempts :: nat
  wd_statusCode :: "nat option"
  wd_error :: "jstring option"
  wd_deliveredAt :: "instant option"
  wd_nextRetryAt :: "instant option"
  wd_createdAt :: instant

record admin_audit_row =
  aa_id :: jstring
  aa_action :: jstring
  aa_actorId :: "jstring option"
  aa_targetId :: "jstring option"
  aa_details :: json
  aa_requestId :: "jstring option"
  aa_createdAt :: instant

record issued_tct =
  it_jti :: jstring
  it_issuerAid :: jstring
  it_subjectAid :: jstring
  it_audienceAid :: jstring
  it_grants :: "jstring list"
  it_bindingCnf :: "jstring option"
  it_issuedAt :: instant
  it_expiresAt :: "instant option"
  it_sessionId :: "jstring option"
  it_revoked :: bool
  it_revokedAt :: "instant option"
  it_createdAt :: instant

datatype revoked_reason = Explicit | ParentRevoked

record delegation =
  dg_jti :: jstring
  dg_parentJti :: jstring
  dg_delegatorAid :: jstring
  dg_delegateeAid :: jstring
  dg_scope :: "jstring list"
  dg_issuedAt :: instant
  dg_expiresAt :: "instant option"
  dg_revoked :: bool
  dg_revokedAt :: "instant option"
  dg_revokedReason :: "revoked_reason option"
  dg_createdAt :: instant

record trust_anchor =
  ta_id :: jstring
  ta_namespace :: jstring
  ta_issuerUrl :: jstring
  ta_jwksUrl :: "jstring option"
  ta_jwksCache :: "json option"
  ta_jwksCachedAt :: "instant option"
  ta_label :: "jstring option"
  ta_addedBy :: "jstring option"
  ta_createdAt :: instant
  ta_updatedAt :: instant

record pinned_key =
  pk_namespace :: jstring
  pk_aid :: jstring
  pk_pubkey :: jstring
  pk_label :: "jstring option"
  pk_addedBy :: "jstring option"
  pk_expiresAt :: "instant option"
  pk_createdAt :: instant
  pk_updatedAt :: instant

record idempotency_row =
  ik_scope :: jstring
  ik_key :: jstring
  ik_responseStatus :: nat
  ik_responseBody :: json
  ik_createdAt :: instant

record enrollment_jti =
  ej_jti :: jstring
  ej_expiresAt :: instant
  ej_createdAt :: instant

record db =
  agents :: "agent list"
  handshake_sessions :: "handshake_session list"
  audit_events :: "audit_event_row list"
  revocation_entries :: "revocation_entry list"
  webhooks :: "webhook list"
  webhook_deliveries :: "webhook_delivery list"
  admin_audit_log :: "admin_audit_row list"
  issued_tcts :: "issued_tct list"
  delegations :: "delegation list"
  trust_anchors :: "trust_anchor list"
  pinned_keys :: "pinned_key list"
  idempotency_keys :: "idempotency_row list"
  enrollment_jtis :: "enrollment_jti list"

definition empty_db :: db where
  "empty_db = \<lparr>agents = [], handshake_sessions = [], audit_events = [], revocation_entries = [],
     webhooks = [], webhook_deliveries = [], admin_audit_log = [], issued_tcts = [], delegations = [],
     trust_anchors = [], pinned_keys = [], idempotency_keys = [], enrollment_jtis = []\<rparr>"

text \<open>The primary keys and the unique index the schema declares.\<close>

definition idem_key :: "idempotency_row \<Rightarrow> jstring \<times> jstring" where
  "idem_key r = (ik_scope r, ik_key r)"

definition pin_key :: "pinned_key \<Rightarrow> jstring \<times> jstring" where
  "pin_key r = (pk_namespace r, pk_aid r)"

definition anchor_key :: "trust_anchor \<Rightarrow> jstring \<times> jstring" where
  "anchor_key r = (ta_namespace r, ta_issuerUrl r)"

definition db_keys_ok :: "db \<Rightarrow> bool" where
  "db_keys_ok d \<longleftrightarrow> unique_key ag_aid (agents d) \<and> unique_key hs_sessionId (handshake_sessions d) \<and>
     unique_key ev_id (audit_events d) \<and> unique_key re_jti (revocation_entries d) \<and>
     unique_key wh_id (webhooks d) \<and> unique_key wd_id (webhook_deliveries d) \<and>
     unique_key it_jti (issued_tcts d) \<and> unique_key dg_jti (delegations d) \<and>
     unique_key anchor_key (trust_anchors d) \<and> unique_key pin_key (pinned_keys d) \<and>
     unique_key idem_key (idempotency_keys d) \<and> unique_key ej_jti (enrollment_jtis d)"

end
