(* ===== verification/Validation.thy ===== *)
theory Validation
  imports App_Config
begin

text \<open>
  Request validation, \<open>src/src/lib/http/validate.ts\<close> and \<open>read-body.ts\<close>: the UUID patterns,
  the column and query-parameter checks, the bounded body reader and the JSON body parse. A
  regular expression is the list of its one-unit classes. A body stream is the list of chunks
  the reader delivers. \<open>JSON.parse\<close> with the UTF-8 decoding before it is the parameter
  \<open>parse_json\<close>, \<open>None\<close> when it throws.
\<close>

section \<open>UUID patterns\<close>

fun matches :: "(code_unit \<Rightarrow> bool) list \<Rightarrow> jstring \<Rightarrow> bool" where
  "matches [] [] = True"
| "matches (p # ps) (c # cs) = (p c \<and> matches ps cs)"
| "matches ps cs = False"

definition is_dash :: "code_unit \<Rightarrow> bool" where "is_dash c \<longleftrightarrow> c = cu (CHR ''-'')"

definition uuid_pattern ::
  "(code_unit \<Rightarrow> bool) \<Rightarrow> (code_unit \<Rightarrow> bool) \<Rightarrow> (code_unit \<Rightarrow> bool) \<Rightarrow> (code_unit \<Rightarrow> bool) list" where
  "uuid_pattern hex version variant =
     replicate 8 hex @ [is_dash] @ replicate 4 hex @ [is_dash] @ [version] @ replicate 3 hex @
     [is_dash] @ [variant] @ replicate 3 hex @ [is_dash] @ replicate 12 hex"

text \<open>\<open>JTI_UUID_RE\<close> is case-insensitive, \<open>JTI_V4_RE\<close> is not.\<close>

definition JTI_UUID_RE :: "jstring \<Rightarrow> bool" where
  "JTI_UUID_RE = matches (uuid_pattern is_any_hex (\<lambda>c. 49 \<le> c \<and> c \<le> 53)
     (\<lambda>c. c = 56 \<or> c = 57 \<or> c = 97 \<or> c = 98 \<or> c = 65 \<or> c = 66))"

definition JTI_V4_RE :: "jstring \<Rightarrow> bool" where
  "JTI_V4_RE = matches (uuid_pattern is_lower_hex (\<lambda>c. c = 52)
     (\<lambda>c. c = 56 \<or> c = 57 \<or> c = 97 \<or> c = 98))"

definition ANY_UUID_RE :: "jstring \<Rightarrow> bool" where
  "ANY_UUID_RE = matches (uuid_pattern is_any_hex is_any_hex is_any_hex)"

definition isUuid :: "json option \<Rightarrow> bool" where
  "isUuid v = (case as_string v of Some s \<Rightarrow> ANY_UUID_RE s | None \<Rightarrow> False)"

definition invalidId :: http_response where
  "invalidId = json_response 400 (error_body ''id must be a UUID'' ''ID_INVALID'')"

section \<open>Strings bound for a column\<close>

definition is_high_surrogate :: "code_unit \<Rightarrow> bool" where
  "is_high_surrogate c \<longleftrightarrow> 0xD800 \<le> c \<and> c \<le> 0xDBFF"

definition is_low_surrogate :: "code_unit \<Rightarrow> bool" where
  "is_low_surrogate c \<longleftrightarrow> 0xDC00 \<le> c \<and> c \<le> 0xDFFF"

text \<open>\<open>[...s].length\<close>: a surrogate pair is one code point, a lone surrogate is one.\<close>

fun code_points :: "jstring \<Rightarrow> nat" where
  "code_points [] = 0"
| "code_points [c] = 1"
| "code_points (c # d # s) =
     (if is_high_surrogate c \<and> is_low_surrogate d then Suc (code_points s) else Suc (code_points (d # s)))"

text \<open>\<open>Buffer.byteLength(s, 'utf8')\<close>.\<close>

fun utf8_length :: "jstring \<Rightarrow> nat" where
  "utf8_length [] = 0"
| "utf8_length [c] = (if c < 0x80 then 1 else if c < 0x800 then 2 else 3)"
| "utf8_length (c # d # s) =
     (if is_high_surrogate c \<and> is_low_surrogate d then 4 + utf8_length s
      else (if c < 0x80 then 1 else if c < 0x800 then 2 else 3) + utf8_length (d # s))"

text \<open>\<open>s.isWellFormed()\<close>: no lone surrogate.\<close>

fun well_formed :: "jstring \<Rightarrow> bool" where
  "well_formed [] = True"
| "well_formed [c] = (\<not> is_high_surrogate c \<and> \<not> is_low_surrogate c)"
| "well_formed (c # d # s) =
     (if is_high_surrogate c then is_low_surrogate d \<and> well_formed s
      else \<not> is_low_surrogate c \<and> well_formed (d # s))"

datatype column_problem = HasNul | TooManyChars nat | TooManyBytes nat

definition has_nul :: "jstring \<Rightarrow> bool" where
  "has_nul s \<longleftrightarrow> 0 \<in> set s"

definition checkColumnString :: "jstring \<Rightarrow> nat \<Rightarrow> nat option \<Rightarrow> column_problem option" where
  "checkColumnString value mx maxBytes =
     (if has_nul value then Some HasNul
      else if code_points value > mx then Some (TooManyChars mx)
      else case maxBytes of
             Some b \<Rightarrow> if utf8_length value > b then Some (TooManyBytes b) else None
           | None \<Rightarrow> None)"

definition column_message :: "jstring \<Rightarrow> column_problem \<Rightarrow> jstring" where
  "column_message field p = (case p of
     HasNul \<Rightarrow> field @ js '' must not contain a NUL character''
   | TooManyChars n \<Rightarrow> field @ js '' exceeds '' @ decimal n @ js '' character limit''
   | TooManyBytes n \<Rightarrow> field @ js '' exceeds '' @ decimal n @ js '' byte limit'')"

definition checkQueryParam :: "jstring option \<Rightarrow> column_problem option" where
  "checkQueryParam v = (case v of Some s \<Rightarrow> if has_nul s then Some HasNul else None | None \<Rightarrow> None)"

text \<open>What \<open>varchar(n)\<close> stores: at most n characters, none of them U+0000; NULL always.\<close>

definition column_fits :: "nat \<Rightarrow> jstring option \<Rightarrow> bool" where
  "column_fits n v = (case v of None \<Rightarrow> True | Some s \<Rightarrow> checkColumnString s n None = None)"

definition badRequest :: "jstring \<Rightarrow> string \<Rightarrow> http_response" where
  "badRequest msg code = json_response 400 (jobj [(''error'', JStr msg), (''code'', jlit code)])"

section \<open>Bodies\<close>

type_synonym byte = "8 word"

definition MANIFEST_BODY_MAX_BYTES :: nat where "MANIFEST_BODY_MAX_BYTES = 256 * 1024"
definition ADMIN_JSON_MAX_BYTES :: nat where "ADMIN_JSON_MAX_BYTES = 64 * 1024"

text \<open>
  \<open>readBodyTextWithLimit\<close> over the chunks of the stream, \<open>None\<close> where the reader yields no
  value; \<open>Inl n\<close> is \<open>BodyTooLargeError\<close>, thrown after \<open>n\<close> chunks were taken from the stream.
\<close>

fun read_chunks :: "nat \<Rightarrow> nat \<Rightarrow> nat \<Rightarrow> byte list \<Rightarrow> byte list option list \<Rightarrow> nat + byte list" where
  "read_chunks maxBytes taken tot acc [] = Inr acc"
| "read_chunks maxBytes taken tot acc (None # cs) = read_chunks maxBytes (Suc taken) tot acc cs"
| "read_chunks maxBytes taken tot acc (Some v # cs) =
     (if tot + length v > maxBytes then Inl (Suc taken)
      else read_chunks maxBytes (Suc taken) (tot + length v) (acc @ v) cs)"

definition readBodyTextWithLimit :: "nat \<Rightarrow> byte list option list \<Rightarrow> nat + byte list" where
  "readBodyTextWithLimit maxBytes chunks = read_chunks maxBytes 0 0 [] chunks"

definition payloadTooLarge :: "nat \<Rightarrow> http_response" where
  "payloadTooLarge maxBytes = json_response 413
     (jobj [(''error'', JStr (js ''request body exceeds '' @ decimal maxBytes @ js '' bytes'')),
            (''code'', jlit ''PAYLOAD_TOO_LARGE'')])"

definition declared_length :: "(jstring \<Rightarrow> int option) \<Rightarrow> http_request \<Rightarrow> int option" where
  "declared_length to_number r =
     (case hdr r ''content-length'' of None \<Rightarrow> Some 0 | Some s \<Rightarrow> to_number s)"

definition readLimitedBody ::
  "(jstring \<Rightarrow> int option) \<Rightarrow> http_request \<Rightarrow> nat \<Rightarrow> byte list option list \<Rightarrow> http_response + byte list" where
  "readLimitedBody to_number r maxBytes chunks =
     (let declared = declared_length to_number r
      in if declared \<noteq> None \<and> the declared > int maxBytes then Inl (payloadTooLarge maxBytes)
         else case readBodyTextWithLimit maxBytes chunks of
                Inl n \<Rightarrow> Inl (payloadTooLarge maxBytes)
              | Inr bytes \<Rightarrow> Inr bytes)"

definition readJsonObject ::
  "(jstring \<Rightarrow> int option) \<Rightarrow> (byte list \<Rightarrow> json option) \<Rightarrow> http_request \<Rightarrow> byte list option list \<Rightarrow>
     http_response + json" where
  "readJsonObject to_number parse_json r chunks =
     (case readLimitedBody to_number r ADMIN_JSON_MAX_BYTES chunks of
        Inl resp \<Rightarrow> Inl resp
      | Inr bytes \<Rightarrow>
          (case parse_json bytes of
             None \<Rightarrow> Inl (badRequest (js ''body must be JSON'') ''BODY_INVALID'')
           | Some v \<Rightarrow>
               if \<not> is_plain_object v then Inl (badRequest (js ''body must be a JSON object'') ''BODY_INVALID'')
               else Inr v))"

text \<open>
  \<open>isUniqueViolation\<close>: the \<open>code\<close> of an error and of its causes, outermost first; the walk is
  bounded to five errors.
\<close>

definition isUniqueViolation :: "jstring option list \<Rightarrow> bool" where
  "isUniqueViolation chain \<longleftrightarrow> Some (js ''23505'') \<in> set (take 5 chain)"

definition isHttpUrl :: "json option \<Rightarrow> bool" where
  "isHttpUrl v = (case as_string v of
     Some s \<Rightarrow> starts_with s (js ''http://'') \<or> starts_with s (js ''https://'') | None \<Rightarrow> False)"

section \<open>Lemmas\<close>

lemma matches_length: "matches ps s \<Longrightarrow> length s = length ps"
  by (induction ps s rule: matches.induct) auto

lemma matches_mono:
  "matches ps s \<Longrightarrow> list_all2 (\<lambda>p q. \<forall>c. p c \<longrightarrow> q c) ps qs \<Longrightarrow> matches qs s"
proof (induction ps s arbitrary: qs rule: matches.induct)
  case (2 p ps c cs)
  then show ?case by (cases qs) auto
qed auto

lemma list_all2_replicates: "list_all2 P (replicate n x) (replicate n y) \<longleftrightarrow> n = 0 \<or> P x y"
  by (induction n) auto

lemma JTI_V4_is_JTI: "JTI_V4_RE s \<Longrightarrow> JTI_UUID_RE s"
  unfolding JTI_V4_RE_def JTI_UUID_RE_def
  by (erule matches_mono)
     (auto simp: uuid_pattern_def is_any_hex_def list_all2_replicates intro!: list_all2_appendI)

lemma code_points_le_length: "code_points s \<le> length s"
  by (induction s rule: code_points.induct) auto

text \<open>The bytes a run of chunks holds.\<close>

definition chunk_bytes :: "byte list option list \<Rightarrow> byte list" where
  "chunk_bytes cs = concat (map (\<lambda>c. case c of None \<Rightarrow> [] | Some v \<Rightarrow> v) cs)"

lemma chunk_bytes_simps [simp]:
  "chunk_bytes [] = []" "chunk_bytes (None # cs) = chunk_bytes cs"
  "chunk_bytes (Some v # cs) = v @ chunk_bytes cs"
  by (simp_all add: chunk_bytes_def)

lemma read_chunks_spec:
  assumes "tot \<le> mx"
  shows "read_chunks mx taken tot acc cs =
    (if tot + length (chunk_bytes cs) \<le> mx then Inr (acc @ chunk_bytes cs)
     else read_chunks mx taken tot acc cs) \<and>
    (tot + length (chunk_bytes cs) > mx \<longrightarrow>
       (\<exists>n. read_chunks mx taken tot acc cs = Inl (taken + Suc n) \<and> n < length cs \<and>
          tot + length (chunk_bytes (take n cs)) \<le> mx))"
  using assms
proof (induction mx taken tot acc cs rule: read_chunks.induct)
  case (2 mx taken tot acc cs)
  then show ?case by (cases "tot + length (chunk_bytes cs) \<le> mx") (auto intro: exI [of _ "Suc _"])
next
  case (3 mx taken tot acc v cs)
  show ?case
  proof (cases "tot + length v > mx")
    case True
    with "3.prems" show ?thesis by (auto intro!: exI [of _ 0])
  next
    case False
    with "3.IH" show ?thesis
      by (cases "tot + length (chunk_bytes (Some v # cs)) \<le> mx")
         (auto simp: add.assoc intro: exI [of _ "Suc _"])
  qed
qed simp

section \<open>Properties\<close>

text \<open>
  The body reader enforces its ceiling on the bytes actually read: it returns the whole
  body exactly when the body fits, and otherwise stops at the first chunk past the ceiling,
  having buffered at most \<open>maxBytes\<close> bytes.
\<close>

theorem body_reader_bound:
  "(length (chunk_bytes cs) \<le> maxBytes \<longrightarrow> readBodyTextWithLimit maxBytes cs = Inr (chunk_bytes cs)) \<and>
   (length (chunk_bytes cs) > maxBytes \<longrightarrow>
      (\<exists>n. readBodyTextWithLimit maxBytes cs = Inl (Suc n) \<and> n < length cs \<and>
         length (chunk_bytes (take n cs)) \<le> maxBytes))"
  using read_chunks_spec [of 0 maxBytes 0 "[]" cs]
  by (auto simp: readBodyTextWithLimit_def)

theorem body_reader_bound_witness:
  "readBodyTextWithLimit 3 [Some [1, 2], None, Some [3]] = Inr [1, 2, 3] \<and>
   (\<exists>n. readBodyTextWithLimit 3 [Some [1, 2], Some [3, 4], Some [5]] = Inl (Suc n) \<and> n < 3)"
  using body_reader_bound [of "[Some [1, 2], None, Some [3]]" 3]
    body_reader_bound [of "[Some [1, 2], Some [3, 4], Some [5]]" 3]
  by auto

end
