(* ===== verification/Admin_Audit.thy ===== *)
theory Admin_Audit
  imports Request_Gate Db_Schema Validation
begin

text \<open>
  The admin audit trail: \<open>src/src/lib/audit-log/actor.ts\<close> (who acts), \<open>audit-log/service.ts\<close>
  (the rows) and the handler of \<open>GET /api/audit\<close>. An insert that the database refuses, because
  it is down or a value does not fit its column, only bumps the failure counter.
\<close>

section \<open>Actors\<close>

text \<open>\<open>sha256_hex\<close> is the hex digest of \<open>createHash('sha256').update(token)\<close>.\<close>

definition actorIdFromAuthHeader :: "(jstring \<Rightarrow> jstring) \<Rightarrow> jstring option \<Rightarrow> jstring option" where
  "actorIdFromAuthHeader sha256_hex authHeader =
     (if blank authHeader then None
      else let a = the authHeader;
               token = (if starts_with a (js ''Bearer '') then drop 7 a else a)
           in if token = [] then None else Some (js ''apikey:'' @ take 16 (sha256_hex token)))"

definition actorIdForKeyLabel :: "jstring \<Rightarrow> jstring" where
  "actorIdForKeyLabel label = js ''key:'' @ label"

record audit_context =
  ac_actorId :: "jstring option"
  ac_requestId :: "jstring option"
  ac_clientIp :: "jstring option"

definition auditContext :: "headers \<Rightarrow> jstring option \<Rightarrow> audit_context" where
  "auditContext h fallbackActor =
     (let label = h KEY_LABEL_HEADER; rid = h (js ''x-request-id''); ip = h CLIENT_IP_FORWARD_HEADER
      in \<lparr>ac_actorId = (if \<not> blank label then Some (actorIdForKeyLabel (the label))
                       else if \<not> blank fallbackActor then fallbackActor else None),
          ac_requestId = (if blank rid then None else rid),
          ac_clientIp = (if blank ip then None else ip)\<rparr>)"

section \<open>Rows\<close>

record admin_audit_entry =
  ae_action :: jstring
  ae_targetId :: "jstring option"
  ae_details :: "jobject option"
  ae_context :: audit_context

text \<open>\<open>{ ...o, k: v }\<close>\<close>

definition obj_put :: "jstring \<Rightarrow> json \<Rightarrow> jobject \<Rightarrow> jobject" where
  "obj_put k v ps =
     (if k \<in> fst ` set ps then map (\<lambda>p. if fst p = k then (k, v) else p) ps else ps @ [(k, v)])"

definition admin_row :: "instant \<Rightarrow> jstring \<Rightarrow> admin_audit_entry \<Rightarrow> admin_audit_row" where
  "admin_row now uid e =
     (let base = (case ae_details e of None \<Rightarrow> [] | Some ps \<Rightarrow> ps)
      in \<lparr>aa_id = uid, aa_action = ae_action e, aa_actorId = ac_actorId (ae_context e),
          aa_targetId = ae_targetId e,
          aa_details = JObj (if blank (ac_clientIp (ae_context e)) then base
             else obj_put (js ''client_ip'') (JStr (the (ac_clientIp (ae_context e)))) base),
          aa_requestId = ac_requestId (ae_context e), aa_createdAt = now\<rparr>)"

text \<open>The column limits of \<open>admin_audit_log\<close>; its \<open>details\<close> hold no unstorable text in any caller.\<close>

definition admin_row_storable :: "admin_audit_row \<Rightarrow> bool" where
  "admin_row_storable r \<longleftrightarrow> column_fits 128 (Some (aa_action r)) \<and> column_fits 255 (aa_actorId r) \<and>
     column_fits 512 (aa_targetId r) \<and> column_fits 255 (aa_requestId r)"

record audit_sink =
  sink_rows :: "admin_audit_row list"
  adminAuditInsertFailures :: nat

definition writeAdminAudit :: "bool \<Rightarrow> instant \<Rightarrow> jstring \<Rightarrow> admin_audit_entry \<Rightarrow> audit_sink \<Rightarrow> audit_sink" where
  "writeAdminAudit db_down now uid e s =
     (let r = admin_row now uid e
      in if db_down \<or> \<not> admin_row_storable r
         then s\<lparr>adminAuditInsertFailures := adminAuditInsertFailures s + 1\<rparr>
         else s\<lparr>sink_rows := sink_rows s @ [r]\<rparr>)"

definition listAdminAudit :: "int \<Rightarrow> int \<Rightarrow> admin_audit_row list \<Rightarrow> admin_audit_row list" where
  "listAdminAudit limit offset t = page aa_createdAt (min (max limit 1) 1000) (max offset 0) t"

definition audit_GET :: "(jstring \<Rightarrow> int option) \<Rightarrow> search_params \<Rightarrow> admin_audit_row list \<Rightarrow> admin_audit_row list" where
  "audit_GET to_number q t =
     (let pg = parsePagination to_number (q ''limit'') (q ''offset'') 100 1000
      in listAdminAudit (pg_limit pg) (pg_offset pg) t)"

section \<open>Properties\<close>

lemma map_of_replace:
  "map_of (map (\<lambda>p. if fst p = k then (k, v) else p) ps) x =
     (if x = k \<and> k \<in> fst ` set ps then Some v else map_of ps x)"
proof (induction ps)
  case (Cons p ps)
  then show ?case by (cases p; cases "x = k"; cases "fst p = x"; simp)
qed simp

lemma map_of_obj_put [simp]: "map_of (obj_put k v ps) = (map_of ps)(k \<mapsto> v)"
proof (cases "k \<in> fst ` set ps")
  case True
  then have "obj_put k v ps = map (\<lambda>p. if fst p = k then (k, v) else p) ps"
    unfolding obj_put_def by (rule if_P)
  with True show ?thesis by (intro ext) (simp add: map_of_replace)
next
  case False
  then have "map_of ps k = None" by (simp add: map_of_eq_None_iff)
  then have "(map_of ps)(k \<mapsto> v) = [k \<mapsto> v] ++ map_of ps"
    by (intro ext) (simp add: map_add_def split: option.split)
  moreover have "obj_put k v ps = ps @ [(k, v)]" using False unfolding obj_put_def by (rule if_not_P)
  ultimately show ?thesis by simp
qed

lemma auditContext_actor:
  "ac_actorId (auditContext h None) = (if blank (h KEY_LABEL_HEADER) then None
     else Some (actorIdForKeyLabel (the (h KEY_LABEL_HEADER))))"
  by (simp add: auditContext_def Let_def)

text \<open>
  An admin action is attributed to the key that made it, end to end: when the gate lets a
  request to a gated route through, the row written with the context of the forwarded headers
  names \<open>key:\<close> and the label of the configured key whose secret is the request's bearer token,
  and its \<open>client_ip\<close> is the address the gate resolved, whatever headers the client sent.
\<close>

theorem audit_row_names_the_key:
  assumes "fst (proxy cfg fresh now r s) = PassThrough h resp"
    and "\<not> isPublicRequest (rq_path r) (rq_method r)" and "rq_path r \<noteq> ISSUER_KEY_ROUTE"
    and "apiKeys cfg \<noteq> []" and "ae_context e = auditContext h None"
  shows "\<exists>token label. bearer_token r = Some token \<and>
    labelIndex (apiKeyEntries cfg) token = Some label \<and>
    aa_actorId (admin_row now uid e) = Some (actorIdForKeyLabel label) \<and>
    (getClientIp cfg r \<noteq> js ''unknown'' \<and> getClientIp cfg r \<noteq> [] \<longrightarrow>
       get (aa_details (admin_row now uid e)) ''client_ip'' = Some (JStr (getClientIp cfg r)))"
proof -
  obtain l i where auth: "authenticate cfg r = Authenticated l i"
    and pass: "passThrough cfg fresh r l i = PassThrough h resp"
    using proxy_passD [OF assms(1)] by blast
  have "issuer_key_for cfg r = None" using assms(3) by (simp add: issuer_key_for_def)
  with authenticate_cases [OF auth] assms(2,4)
  obtain t where t: "bearer_token r = Some t" "labelIndex (apiKeyEntries cfg) t = l" "\<not> blank l" by auto
  note h = passThrough_attribution [OF pass]
  have "aa_actorId (admin_row now uid e) = Some (actorIdForKeyLabel (the l))"
    using assms(5) h(1) t(3) by (simp add: admin_row_def Let_def auditContext_actor)
  moreover have "getClientIp cfg r \<noteq> js ''unknown'' \<and> getClientIp cfg r \<noteq> [] \<longrightarrow>
      get (aa_details (admin_row now uid e)) ''client_ip'' = Some (JStr (getClientIp cfg r))"
    using assms(5) h(3) by (simp add: admin_row_def Let_def auditContext_def)
  moreover have "l = Some (the l)" using t(3) by (cases l) auto
  ultimately show ?thesis using t by metis
qed

theorem audit_row_names_the_key_witness:
  "\<exists>e. aa_actorId (admin_row 0 (js ''u'') e) = Some (js ''key:ops'')"
proof -
  obtain h resp where h: "fst (proxy demo_config (js ''id'') 0
      (demo_request ''GET'' ''/api/audit'' ''k1'') empty_limiter) = PassThrough h resp"
    using demo_pass by blast
  let ?r = "demo_request ''GET'' ''/api/audit'' ''k1''"
  let ?e = "\<lparr>ae_action = js ''agent.deregister'', ae_targetId = None, ae_details = None,
    ae_context = auditContext h None\<rparr>"
  have "\<not> isPublicRequest (rq_path ?r) (rq_method ?r)" "apiKeys demo_config \<noteq> []"
    "rq_path ?r \<noteq> ISSUER_KEY_ROUTE" "ae_context ?e = auditContext h None"
    by (simp_all add: demo_request_def apiKeys_def demo_entries isPublicRequest_def PUBLIC_PATHS_def
        public_get_pattern_def agents_prefix_def starts_with_def js_def ISSUER_KEY_ROUTE_def)
  from audit_row_names_the_key [OF h this(1) this(3) this(2) this(4), of "js ''u''"]
  show ?thesis by (intro exI [of _ ?e])
    (auto simp: demo_entries actorIdForKeyLabel_def js_append [symmetric] split: if_splits)
qed

lemma writeAdminAudit_accounts:
  "length (sink_rows (writeAdminAudit down now uid e s)) + adminAuditInsertFailures (writeAdminAudit down now uid e s)
     = Suc (length (sink_rows s) + adminAuditInsertFailures s)"
  by (simp add: writeAdminAudit_def Let_def)

end
