(* ===== verification/Event_Ids.thy ===== *)
theory Event_Ids
  imports Validation "HOL-Library.Multiset"
begin

text \<open>
  Content-derived event ids, \<open>src/src/lib/audit/event-id.ts\<close>, and the signed-content keys of
  \<open>signed-content.ts\<close>. \<open>canonicalJson\<close> is modelled twice: with the explicit stack of the source
  and as a structural recursion; the first theorem says they agree. Parameters: \<open>decode_json\<close>
  (base64url decoding followed by \<open>JSON.parse\<close>, \<open>None\<close> when it throws), \<open>num_repr\<close> (how
  \<open>JSON.stringify\<close> prints a finite number), \<open>date_parse\<close> (the time value of \<open>new Date(s)\<close>) and
  the SHA-256 function.
\<close>

unbundle bit_operations_syntax

section \<open>Signed content\<close>

definition b64url_char :: "code_unit \<Rightarrow> bool" where
  "b64url_char c \<longleftrightarrow> is_alnum c \<or> c = cu (CHR ''_'') \<or> c = cu (CHR ''-'')"

definition b64url_segment :: "jstring \<Rightarrow> bool" where
  "b64url_segment s \<longleftrightarrow> s \<noteq> [] \<and> list_all b64url_char s"

definition jwsSigningInput :: "(jstring \<Rightarrow> json option) \<Rightarrow> jstring \<Rightarrow> jstring option" where
  "jwsSigningInput decode_json s =
     (case split_on (cu (CHR ''.'')) s of
        [h, p, sig] \<Rightarrow>
          (if b64url_segment h \<and> b64url_segment p \<and> b64url_segment sig then
             (case decode_json h of
                Some v \<Rightarrow>
                  (if is_plain_object v \<and> as_string (get v ''alg'') \<noteq> None
                   then Some (h @ js ''.'' @ p) else None)
              | None \<Rightarrow> None)
           else None)
      | _ \<Rightarrow> None)"

definition is_obj_prop :: "jobject \<Rightarrow> string \<Rightarrow> bool" where
  "is_obj_prop ps k \<longleftrightarrow> (case map_of ps (js k) of Some v \<Rightarrow> is_object v | None \<Rightarrow> False)"

definition isEnvelopeSignature :: "jobject \<Rightarrow> jstring \<Rightarrow> bool" where
  "isEnvelopeSignature ps key \<longleftrightarrow> key = js ''signature'' \<and>
     as_string (map_of ps (js ''signature'')) \<noteq> None \<and>
     (is_obj_prop ps ''manifest'' \<or> is_obj_prop ps ''revocation_list'')"

section \<open>\<open>JSON.stringify\<close> of strings\<close>

definition hex_digit :: "nat \<Rightarrow> code_unit" where
  "hex_digit n = (if n < 10 then of_nat (48 + n) else of_nat (87 + n))"

definition unicode_escape :: "code_unit \<Rightarrow> jstring" where
  "unicode_escape c =
     (let n = unat c in js [CHR 0x5C, CHR ''u''] @
        [hex_digit (n div 4096 mod 16), hex_digit (n div 256 mod 16),
         hex_digit (n div 16 mod 16), hex_digit (n mod 16)])"

definition quote_unit :: "code_unit \<Rightarrow> jstring" where
  "quote_unit c =
     (if c = 8 then js [CHR 0x5C, CHR ''b''] else if c = 9 then js [CHR 0x5C, CHR ''t'']
      else if c = 10 then js [CHR 0x5C, CHR ''n''] else if c = 12 then js [CHR 0x5C, CHR ''f'']
      else if c = 13 then js [CHR 0x5C, CHR ''r''] else if c = 34 then js [CHR 0x5C, CHR 0x22]
      else if c = 92 then js [CHR 0x5C, CHR 0x5C]
      else if c < 32 \<or> is_high_surrogate c \<or> is_low_surrogate c then unicode_escape c
      else [c])"

fun quote_units :: "jstring \<Rightarrow> jstring" where
  "quote_units [] = []"
| "quote_units [c] = quote_unit c"
| "quote_units (c # d # s) =
     (if is_high_surrogate c \<and> is_low_surrogate d then c # d # quote_units s
      else quote_unit c @ quote_units (d # s))"

definition json_quote :: "jstring \<Rightarrow> jstring" where
  "json_quote s = js [CHR 0x22] @ quote_units s @ js [CHR 0x22]"

section \<open>Canonical JSON\<close>

definition scalar_text ::
  "(jstring \<Rightarrow> json option) \<Rightarrow> (rat \<Rightarrow> jstring) \<Rightarrow> bool \<Rightarrow> json \<Rightarrow> jstring" where
  "scalar_text decode_json num_repr signedContent v =
     (case v of
        JStr s \<Rightarrow>
          (case (if signedContent then jwsSigningInput decode_json s else None) of
             Some si \<Rightarrow> json_quote (js ''jws-signing-input:'' @ si)
           | None \<Rightarrow> json_quote s)
      | JBool b \<Rightarrow> (if b then js ''true'' else js ''false'')
      | JNum (JFin q) \<Rightarrow> num_repr q
      | _ \<Rightarrow> js ''null'')"

text \<open>The members that are written, in code-unit order of their keys.\<close>

definition canon_members :: "bool \<Rightarrow> jobject \<Rightarrow> jobject" where
  "canon_members signedContent ps =
     sort_key fst (filter (\<lambda>p. \<not> (signedContent \<and> isEnvelopeSignature ps (fst p))) ps)"

datatype frame = Lit jstring | Val json

fun array_frames :: "json list \<Rightarrow> frame list" where
  "array_frames [] = []"
| "array_frames [v] = [Val v]"
| "array_frames (v # vs) = Val v # Lit (js '','') # array_frames vs"

fun member_frames :: "jobject \<Rightarrow> frame list" where
  "member_frames [] = []"
| "member_frames [(k, v)] = [Lit (json_quote k @ js '':''), Val v]"
| "member_frames ((k, v) # ps) =
     Lit (json_quote k @ js '':'') # Val v # Lit (js '','') # member_frames ps"

fun json_weight :: "json \<Rightarrow> nat" where
  "json_weight (JArr vs) = 3 + sum_list (map (\<lambda>v. json_weight v + 1) vs)"
| "json_weight (JObj ps) = 3 + sum_list (map (\<lambda>p. json_weight (snd p) + 2) ps)"
| "json_weight v = 1"

fun frame_weight :: "frame \<Rightarrow> nat" where
  "frame_weight (Lit s) = 1"
| "frame_weight (Val v) = json_weight v"

lemma array_frames_weight:
  "sum_list (map frame_weight (array_frames vs)) \<le> sum_list (map (\<lambda>v. json_weight v + 1) vs)"
  by (induction vs rule: array_frames.induct) auto

lemma member_frames_weight:
  "sum_list (map frame_weight (member_frames ps)) \<le> sum_list (map (\<lambda>p. json_weight (snd p) + 2) ps)"
  by (induction ps rule: member_frames.induct) auto

lemma sum_list_filter_le: "sum_list (map f (filter P xs)) \<le> sum_list (map (f :: 'a \<Rightarrow> nat) xs)"
  by (induction xs) auto

lemma sum_list_sort_key: "sum_list (map (f :: 'a \<Rightarrow> nat) (sort_key g xs)) = sum_list (map f xs)"
proof -
  have "sum_mset (mset (map f (sort_key g xs))) = sum_mset (mset (map f xs))" by simp
  then show ?thesis unfolding sum_mset_sum_list .
qed

lemma canon_members_weight:
  "sum_list (map (f :: jstring \<times> json \<Rightarrow> nat) (canon_members sc ps)) \<le> sum_list (map f ps)"
  unfolding canon_members_def sum_list_sort_key by (rule sum_list_filter_le)

text \<open>The stack of the source, its top first; every popped frame appends to \<open>out\<close>.\<close>

function canon_loop ::
  "(jstring \<Rightarrow> json option) \<Rightarrow> (rat \<Rightarrow> jstring) \<Rightarrow> bool \<Rightarrow> frame list \<Rightarrow> jstring list \<Rightarrow> jstring list" where
  "canon_loop dj nr sc [] out = out"
| "canon_loop dj nr sc (Lit s # stack) out = canon_loop dj nr sc stack (out @ [s])"
| "canon_loop dj nr sc (Val (JArr vs) # stack) out =
     canon_loop dj nr sc (array_frames vs @ Lit (js '']'') # stack) (out @ [js ''[''])"
| "canon_loop dj nr sc (Val (JObj ps) # stack) out =
     canon_loop dj nr sc (member_frames (canon_members sc ps) @ Lit (js ''}'') # stack) (out @ [js ''{''])"
| "canon_loop dj nr sc (Val JNull # stack) out =
     canon_loop dj nr sc stack (out @ [scalar_text dj nr sc JNull])"
| "canon_loop dj nr sc (Val (JBool b) # stack) out =
     canon_loop dj nr sc stack (out @ [scalar_text dj nr sc (JBool b)])"
| "canon_loop dj nr sc (Val (JNum n) # stack) out =
     canon_loop dj nr sc stack (out @ [scalar_text dj nr sc (JNum n)])"
| "canon_loop dj nr sc (Val (JStr s) # stack) out =
     canon_loop dj nr sc stack (out @ [scalar_text dj nr sc (JStr s)])"
  by pat_completeness auto
termination
proof (relation "measure (\<lambda>(dj, nr, sc, stack, out). sum_list (map frame_weight stack))", goal_cases)
  case (3 dj nr sc vs stack out)
  then show ?case using array_frames_weight [of vs] by simp
next
  case (4 dj nr sc ps stack out)
  have "sum_list (map frame_weight (member_frames (canon_members sc ps))) \<le>
      sum_list (map (\<lambda>p. json_weight (snd p) + 2) ps)"
    using member_frames_weight canon_members_weight by (rule order_trans)
  then show ?case by simp
qed auto

definition canonicalJson ::
  "(jstring \<Rightarrow> json option) \<Rightarrow> (rat \<Rightarrow> jstring) \<Rightarrow> bool \<Rightarrow> json \<Rightarrow> jstring" where
  "canonicalJson dj nr sc v = concat (canon_loop dj nr sc [Val v] [])"

section \<open>The recursive reading\<close>

fun commas :: "jstring list \<Rightarrow> jstring" where
  "commas [] = []"
| "commas [s] = s"
| "commas (s # ss) = s @ js '','' @ commas ss"

function canon :: "(jstring \<Rightarrow> json option) \<Rightarrow> (rat \<Rightarrow> jstring) \<Rightarrow> bool \<Rightarrow> json \<Rightarrow> jstring" where
  "canon dj nr sc (JArr vs) = js ''['' @ commas (map (canon dj nr sc) vs) @ js '']''"
| "canon dj nr sc (JObj ps) = js ''{'' @
     commas (map (\<lambda>p. json_quote (fst p) @ js '':'' @ canon dj nr sc (snd p)) (canon_members sc ps)) @ js ''}''"
| "canon dj nr sc JNull = scalar_text dj nr sc JNull"
| "canon dj nr sc (JBool b) = scalar_text dj nr sc (JBool b)"
| "canon dj nr sc (JNum n) = scalar_text dj nr sc (JNum n)"
| "canon dj nr sc (JStr s) = scalar_text dj nr sc (JStr s)"
  by pat_completeness auto
termination
proof (relation "measure (\<lambda>(dj, nr, sc, v). json_weight v)", goal_cases)
  case (2 dj nr sc vs v)
  then have "json_weight v + 1 \<le> sum_list (map (\<lambda>v. json_weight v + 1) vs)"
    by (intro member_le_sum_list) auto
  then show ?case by simp
next
  case (3 dj nr sc ps p)
  then have "p \<in> set ps" by (auto simp: canon_members_def)
  then have "json_weight (snd p) + 2 \<le> sum_list (map (\<lambda>p. json_weight (snd p) + 2) ps)"
    by (intro member_le_sum_list) (auto simp: image_iff intro: bexI [of _ p])
  then show ?case by simp
qed auto

fun frame_text :: "(jstring \<Rightarrow> json option) \<Rightarrow> (rat \<Rightarrow> jstring) \<Rightarrow> bool \<Rightarrow> frame \<Rightarrow> jstring" where
  "frame_text dj nr sc (Lit s) = s"
| "frame_text dj nr sc (Val v) = canon dj nr sc v"

lemma array_frames_text:
  "concat (map (frame_text dj nr sc) (array_frames vs)) = commas (map (canon dj nr sc) vs)"
  by (induction vs rule: array_frames.induct) auto

lemma member_frames_text:
  "concat (map (frame_text dj nr sc) (member_frames ps)) =
     commas (map (\<lambda>p. json_quote (fst p) @ js '':'' @ canon dj nr sc (snd p)) ps)"
  by (induction ps rule: member_frames.induct) auto

lemma canon_loop_text:
  "concat (canon_loop dj nr sc stack out) =
     concat out @ concat (map (frame_text dj nr sc) stack)"
  by (induction dj nr sc stack out rule: canon_loop.induct)
     (simp_all add: array_frames_text member_frames_text)

section \<open>Same signed content\<close>

text \<open>
  Two parsed values with the same signed content: they may differ in the order of object
  members, in the signature segment of a compact JWS, and in the detached signature of an
  envelope, at any depth.
\<close>

inductive same_content :: "(jstring \<Rightarrow> json option) \<Rightarrow> json \<Rightarrow> json \<Rightarrow> bool" for dj where
  same_scalar: "\<not> is_object v \<Longrightarrow> same_content dj v v"
| same_jws: "jwsSigningInput dj a \<noteq> None \<Longrightarrow> jwsSigningInput dj a = jwsSigningInput dj b \<Longrightarrow>
    same_content dj (JStr a) (JStr b)"
| same_arr: "list_all2 (same_content dj) vs ws \<Longrightarrow> same_content dj (JArr vs) (JArr ws)"
| same_obj: "distinct (map fst ps) \<Longrightarrow> distinct (map fst qs) \<Longrightarrow> fst ` set ps = fst ` set qs \<Longrightarrow>
    (\<And>k. isEnvelopeSignature ps k = isEnvelopeSignature qs k) \<Longrightarrow>
    (\<And>k v w. (k, v) \<in> set ps \<Longrightarrow> (k, w) \<in> set qs \<Longrightarrow> \<not> isEnvelopeSignature ps k \<Longrightarrow>
       same_content dj v w) \<Longrightarrow>
    same_content dj (JObj ps) (JObj qs)"

inductive_cases same_content_objE: "same_content dj (JObj ps) w"
inductive_cases same_content_arrE: "same_content dj (JArr vs) w"

lemma canon_members_keys:
  assumes "distinct (map fst ps)"
  shows "sorted (map fst (canon_members sc ps)) \<and> distinct (map fst (canon_members sc ps)) \<and>
    fst ` set (canon_members sc ps) = {k \<in> fst ` set ps. \<not> (sc \<and> isEnvelopeSignature ps k)} \<and>
    set (canon_members sc ps) \<subseteq> set ps"
proof -
  let ?f = "filter (\<lambda>p. \<not> (sc \<and> isEnvelopeSignature ps (fst p))) ps"
  have "distinct (map fst ?f)" using assms by (rule distinct_map_filter)
  moreover have "mset (map fst (sort_key fst ?f)) = mset (map fst ?f)"
    by simp
  ultimately have "distinct (map fst (sort_key fst ?f))"
    using mset_eq_imp_distinct_iff by blast
  then show ?thesis by (auto simp: canon_members_def)
qed

lemma canon_same: "same_content dj v w \<Longrightarrow> canon dj nr True v = canon dj nr True w"
proof (induction rule: same_content.induct)
  case (same_jws a b)
  then show ?case by (auto simp: scalar_text_def)
next
  case (same_arr vs ws)
  then have "map (canon dj nr True) vs = map (canon dj nr True) ws"
    by (auto simp: list_all2_conv_all_nth intro: nth_equalityI)
  then show ?case by simp
next
  case (same_obj ps qs)
  let ?A = "canon_members True ps" and ?B = "canon_members True qs"
  note env = same_obj(4)
  note A = canon_members_keys [OF same_obj(1), of True] and B = canon_members_keys [OF same_obj(2), of True]
  have "set (map fst ?A) = set (map fst ?B)" using A B same_obj(3) env by simp
  then have keys: "map fst ?A = map fst ?B"
    using A B by (intro sorted_distinct_set_unique) blast+
  have len: "length ?A = length ?B" using keys by (metis length_map)
  have "json_quote (fst (?A ! i)) @ js '':'' @ canon dj nr True (snd (?A ! i)) =
      json_quote (fst (?B ! i)) @ js '':'' @ canon dj nr True (snd (?B ! i))" if "i < length ?A" for i
  proof -
    have k: "fst (?A ! i) = fst (?B ! i)" using keys len that by (metis nth_map)
    have "?A ! i \<in> set ps" "?B ! i \<in> set qs" using A B len that nth_mem by (metis subsetD)+
    moreover have "\<not> isEnvelopeSignature ps (fst (?A ! i))"
      using nth_mem [OF that] by (simp add: canon_members_def)
    ultimately have "canon dj nr True (snd (?A ! i)) = canon dj nr True (snd (?B ! i))"
      using same_obj.IH k by (metis prod.collapse)
    with k show ?thesis by simp
  qed
  with len have "map (\<lambda>p. json_quote (fst p) @ js '':'' @ canon dj nr True (snd p)) ?A =
      map (\<lambda>p. json_quote (fst p) @ js '':'' @ canon dj nr True (snd p)) ?B"
    by (intro nth_equalityI) simp_all
  then show ?case by (simp only: canon.simps)
qed simp

section \<open>Timestamps and ids\<close>

text \<open>
  \<open>new Date(x)\<close> of a finite number: \<open>None\<close> beyond the ECMAScript range, else truncated towards
  zero. \<open>inStorableRange\<close> is UTC year 0001 to 9999.
\<close>

definition time_clip :: "rat \<Rightarrow> instant option" where
  "time_clip x = (if \<bar>x\<bar> > 8640000000000000 then None else Some (if x \<ge> 0 then \<lfloor>x\<rfloor> else - \<lfloor>- x\<rfloor>))"

definition inStorableRange :: "instant option \<Rightarrow> bool" where
  "inStorableRange d = (case d of None \<Rightarrow> False
     | Some t \<Rightarrow> - 62135596800000 \<le> t \<and> t \<le> 253402300799999)"

definition parseEventTimestamp :: "(jstring \<Rightarrow> instant option) \<Rightarrow> json option \<Rightarrow> instant option" where
  "parseEventTimestamp date_parse raw =
     (case raw of
        Some (JStr s) \<Rightarrow> if inStorableRange (date_parse s) then date_parse s else None
      | Some (JNum (JFin q)) \<Rightarrow>
          (let d = time_clip (if q < 1000000000000 then q * 1000 else q)
           in if inStorableRange d then d else None)
      | _ \<Rightarrow> None)"

definition hex_byte :: "byte \<Rightarrow> jstring" where
  "hex_byte b = [hex_digit (unat b div 16), hex_digit (unat b mod 16)]"

definition uuid_of_hex :: "jstring \<Rightarrow> jstring" where
  "uuid_of_hex x = take 8 x @ js ''-'' @ take 4 (drop 8 x) @ js ''-'' @ take 4 (drop 12 x) @ js ''-'' @
     take 4 (drop 16 x) @ js ''-'' @ take 12 (drop 20 x)"

definition uuidV8 :: "byte list \<Rightarrow> jstring" where
  "uuidV8 digest =
     (let b = take 16 digest;
          b1 = b[6 := (b ! 6 AND 0x0F) OR 0x80];
          b2 = b1[8 := (b1 ! 8 AND 0x3F) OR 0x80]
      in uuid_of_hex (concat (map hex_byte b2)))"

definition EVENT_ID_RECIPE_TAG :: jstring where "EVENT_ID_RECIPE_TAG = js ''aitp-event:v2''"

definition eventIdFor ::
  "(jstring \<Rightarrow> json option) \<Rightarrow> (rat \<Rightarrow> jstring) \<Rightarrow> (jstring \<Rightarrow> instant option) \<Rightarrow> (jstring \<Rightarrow> byte list) \<Rightarrow>
     jstring \<Rightarrow> json \<Rightarrow> jstring option \<Rightarrow> jstring" where
  "eventIdFor dj nr date_parse sha256 randomUUID rawEvent producerKey =
     (if parseEventTimestamp date_parse (get rawEvent ''ts'') = None then randomUUID
      else uuidV8 (sha256 (EVENT_ID_RECIPE_TAG @ [0] @ (case producerKey of None \<Rightarrow> [] | Some k \<Rightarrow> k) @ [0] @
             canonicalJson dj nr True rawEvent)))"

lemma hex_digit_lower: "n < 16 \<Longrightarrow> is_lower_hex (hex_digit n)"
proof -
  have "\<forall>n \<in> set [0..<16]. is_lower_hex (hex_digit n)" by code_simp
  then show "n < 16 \<Longrightarrow> is_lower_hex (hex_digit n)" by simp
qed

lemma hex_byte_lower: "list_all is_lower_hex (hex_byte b) \<and> length (hex_byte b) = 2"
proof -
  have "unat b < 2 ^ 8" using unsigned_less [of b] by simp
  then show ?thesis by (simp add: hex_byte_def hex_digit_lower)
qed

lemma masked_or:
  assumes "m AND v = 0" and "unat m + unat v < 256"
  shows "unat ((b AND m) OR (v :: byte)) = unat v + unat (b AND m) \<and> unat (b AND m) \<le> unat m"
proof -
  have le: "unat (b AND m) \<le> unat m" by (rule word_and_le1 [THEN word_le_nat_alt [THEN iffD1]])
  have "(b AND m) AND v = 0" using assms(1) by (simp add: and.assoc)
  then have "(b AND m) OR v = (b AND m) + v" by (metis add_0 word_plus_and_or)
  with le assms(2) show ?thesis by (simp add: unat_word_ariths)
qed

lemma length_hex: "length (concat (map hex_byte bs)) = 2 * length bs"
  by (induction bs) (auto simp: hex_byte_def)

lemma nth_hex: "i < length bs \<Longrightarrow> concat (map hex_byte bs) ! (2 * i) = hex_digit (unat (bs ! i) div 16)"
  by (induction bs arbitrary: i) (auto simp: hex_byte_def less_Suc_eq_0_disj)

text \<open>Sixteen bytes stamped with a version and the 10xx variant print as a UUID of that version.\<close>

lemma stamped_hex:
  assumes "16 \<le> length digest" and "v = 0x50 \<or> v = (0x80 :: byte)"
    and "b1 = (take 16 digest)[6 := (take 16 digest ! 6 AND 0x0F) OR v]"
    and "b = b1[8 := (b1 ! 8 AND 0x3F) OR 0x80]" and "x = concat (map hex_byte b)"
  shows "length x = 32 \<and> list_all is_lower_hex x \<and> x ! 12 = hex_digit (unat v div 16) \<and>
    x ! 16 \<in> {56, 57, 97, 98}"
proof -
  have len: "length b = 16" using assms by simp
  have "b ! 6 = (take 16 digest ! 6 AND 0x0F) OR v" using assms by simp
  then have "unat (b ! 6) = unat v + unat (take 16 digest ! 6 AND 0x0F)" "unat (take 16 digest ! 6 AND 0x0F) \<le> 15"
    using masked_or [of "0x0F" v "take 16 digest ! 6"] assms(2) by auto
  then have 12: "unat (b ! 6) div 16 = unat v div 16" using assms(2) by auto
  have "b ! 8 = (b1 ! 8 AND 0x3F) OR 0x80" using assms by simp
  with masked_or [of "0x3F" "0x80" "b1 ! 8"]
  have "128 \<le> unat (b ! 8)" "unat (b ! 8) \<le> 128 + 63" by auto
  then have "8 \<le> unat (b ! 8) div 16" "unat (b ! 8) div 16 \<le> 11" by auto
  then have "unat (b ! 8) div 16 \<in> {8, 9, 10, 11}" by auto
  with 12 nth_hex [of 6 b] nth_hex [of 8 b] len assms(5)
  have "x ! 12 = hex_digit (unat v div 16)" "x ! 16 \<in> {56, 57, 97, 98}" by (auto simp: hex_digit_def)
  moreover have "list_all is_lower_hex x" using hex_byte_lower assms(5) by (auto simp: list_all_iff)
  moreover have "length x = 32" using len assms(5) by (simp add: length_hex)
  ultimately show ?thesis by simp
qed

lemma matches_append:
  "length ps = length s \<Longrightarrow> matches (ps @ qs) (s @ t) \<longleftrightarrow> matches ps s \<and> matches qs t"
  by (induction ps s rule: list_induct2) auto

lemma matches_replicate: "matches (replicate n p) s \<longleftrightarrow> length s = n \<and> list_all p s"
proof (induction n arbitrary: s)
  case 0
  then show ?case by (cases s) auto
next
  case (Suc n)
  then show ?case by (cases s) auto
qed

lemma uuid_of_hex_matches:
  assumes "length x = 32" and "list_all is_lower_hex x" and "ver (x ! 12)" and "var (x ! 16)"
    and "\<And>c. is_lower_hex c \<Longrightarrow> hex c"
  shows "matches (uuid_pattern hex ver var) (uuid_of_hex x)"
proof -
  have all: "list_all hex x" using assms(2,5) by (auto simp: list_all_iff)
  then have hex: "list_all hex (take n (drop m x))" for m n
    by (auto simp: list_all_iff dest: in_set_takeD in_set_dropD)
  have hex1: "list_all hex (take n x)" for n using all by (auto simp: list_all_iff dest: in_set_takeD)
  have "drop 12 x = x ! 12 # drop 13 x" "drop 16 x = x ! 16 # drop 17 x"
    using assms(1) Cons_nth_drop_Suc [of 12 x] Cons_nth_drop_Suc [of 16 x] by simp_all
  then have d: "take 4 (drop 12 x) = [x ! 12] @ take 3 (drop 13 x)"
      "take 4 (drop 16 x) = [x ! 16] @ take 3 (drop 17 x)" by simp_all
  show ?thesis
    unfolding uuid_of_hex_def uuid_pattern_def d append_assoc
    using assms(1,3,4) hex hex1 hex [of 12 20] by (simp add: matches_append matches_replicate is_dash_def js_Cons)
qed

section \<open>Properties\<close>

text \<open>
  C13. The explicit stack of \<open>canonicalJson\<close>, which always empties, writes exactly what the
  recursive definition of canonical JSON writes.
\<close>

theorem canonicalJson_eq: "canonicalJson dj nr sc v = canon dj nr sc v"
  by (simp add: canonicalJson_def canon_loop_text)

text \<open>
  A re-sent event is recognised: two raw events with the same signed content (members in
  any order, token signatures and envelope signatures re-encoded), the same timestamp and the
  same producer get the same id, unless the event has no valid timestamp and its id is random.
\<close>

theorem eventId_same_content:
  assumes "same_content dj raw raw'" and "get raw ''ts'' = get raw' ''ts''"
    and "parseEventTimestamp date_parse (get raw ''ts'') \<noteq> None"
  shows "eventIdFor dj nr date_parse sha256 r1 raw producer = eventIdFor dj nr date_parse sha256 r2 raw' producer"
  using assms(2,3) canon_same [OF assms(1), of nr] by (auto simp: eventIdFor_def canonicalJson_eq)

definition demo_raw :: "bool \<Rightarrow> json" where
  "demo_raw swapped = (let a = (''type'', jlit ''x''); b = (''ts'', jint 1700000000)
     in jobj (if swapped then [b, a] else [a, b]))"

theorem eventId_same_content_witness:
  "eventIdFor (\<lambda>_. None) (\<lambda>_. js ''0'') (\<lambda>_. None) (\<lambda>_. replicate 32 1) (js ''r1'') (demo_raw False) None =
   eventIdFor (\<lambda>_. None) (\<lambda>_. js ''0'') (\<lambda>_. None) (\<lambda>_. replicate 32 1) (js ''r2'') (demo_raw True) None"
proof (rule eventId_same_content)
  show "same_content (\<lambda>_. None) (demo_raw False) (demo_raw True)"
    unfolding demo_raw_def jobj_def Let_def
    by (rule same_obj) (auto simp: isEnvelopeSignature_def intro: same_scalar)
  show "parseEventTimestamp (\<lambda>_. None) (get (demo_raw False) ''ts'') \<noteq> None"
    by (simp add: demo_raw_def parseEventTimestamp_def time_clip_def inStorableRange_def Let_def)
qed (simp add: demo_raw_def Let_def)

text \<open>
  A content-derived id is a canonical RFC 9562 UUID of version 8 with the 10xx variant, so
  the \<open>uuid\<close> column accepts it, for any digest of at least 16 bytes.
\<close>

theorem uuidV8_shape:
  assumes "16 \<le> length digest"
  shows "matches (uuid_pattern is_lower_hex (\<lambda>c. c = 56) (\<lambda>c. c \<in> {56, 57, 97, 98})) (uuidV8 digest)"
proof -
  let ?b1 = "(take 16 digest)[6 := (take 16 digest ! 6 AND 0x0F) OR 0x80]"
  let ?b = "?b1[8 := (?b1 ! 8 AND 0x3F) OR 0x80]"
  have "uuidV8 digest = uuid_of_hex (concat (map hex_byte ?b))" by (simp add: uuidV8_def Let_def)
  moreover note stamped_hex [OF assms _ refl refl refl, of "0x80"]
  ultimately show ?thesis by (simp add: uuid_of_hex_matches hex_digit_def)
qed

theorem uuidV8_shape_witness:
  "matches (uuid_pattern is_lower_hex (\<lambda>c. c = 56) (\<lambda>c. c \<in> {56, 57, 97, 98}))
     (uuidV8 (replicate 32 0xFF))"
  by (rule uuidV8_shape) simp

end
