(* ===== verification/Event_Stream.thy ===== *)
theory Event_Stream
  imports Db_Schema App_Config
begin

text \<open>
  The live event stream: the in-memory bus of \<open>src/src/lib/audit/stream.ts\<close>, the connection
  counters of \<open>sse-metrics.ts\<close> and the connections of \<open>GET /api/events/stream\<close>. The bus keeps a
  bounded backlog and its listeners are the open connections; a connection records what it has
  sent. A write to a stream whose controller is closed throws, so every write takes the set of
  broken connections. \<open>start\<close> runs without interruption, so nothing is published between
  subscribing and replaying the backlog.
\<close>

section \<open>The event bus\<close>

record event_bus =
  backlog :: "audit_event list"
  maxBacklog :: int
  bus_dropped :: nat

definition new_bus :: "int \<Rightarrow> event_bus" where
  "new_bus mx = \<lparr>backlog = [], maxBacklog = mx, bus_dropped = 0\<rparr>"

text \<open>The buffering half of \<open>publish\<close>; the listeners are notified by the caller below.\<close>

definition bus_push :: "audit_event \<Rightarrow> event_bus \<Rightarrow> event_bus" where
  "bus_push e b =
     (let bl = backlog b @ [e]
      in if int (length bl) > maxBacklog b
         then b\<lparr>backlog := tl bl, bus_dropped := bus_dropped b + 1\<rparr>
         else b\<lparr>backlog := bl\<rparr>)"

text \<open>\<open>slice(-limit)\<close>: a limit of 0 is \<open>slice(-0)\<close>, the whole backlog.\<close>

definition getBacklog :: "nat \<Rightarrow> event_bus \<Rightarrow> audit_event list" where
  "getBacklog limit b = (if limit = 0 then backlog b else drop (length (backlog b) - limit) (backlog b))"

definition getDroppedCount :: "event_bus \<Rightarrow> nat" where
  "getDroppedCount b = bus_dropped b"

section \<open>Connections\<close>

record stream_filter =
  sf_type :: "jstring option"
  sf_runId :: "jstring option"
  sf_aid :: "jstring option"

definition event_matches :: "stream_filter \<Rightarrow> audit_event \<Rightarrow> bool" where
  "event_matches f e \<longleftrightarrow>
     (blank (sf_type f) \<or> ev_type e = the (sf_type f)) \<and>
     (blank (sf_runId f) \<or> ev_runId e = sf_runId f) \<and>
     (blank (sf_aid f) \<or> ev_aidA e = sf_aid f \<or> ev_aidB e = sf_aid f)"

record sse_connection =
  cn_id :: nat
  cn_filter :: stream_filter
  cn_seen :: "jstring list"
  cn_sent :: "audit_event list"
  cn_closed :: bool

record sse_metrics =
  sse_open :: int
  openedTotal :: nat
  rejectedTotal :: nat

record stream_state = event_bus +
  metrics :: sse_metrics
  connections :: "sse_connection list"
  next_id :: nat

definition init_stream :: "app_config \<Rightarrow> stream_state" where
  "init_stream cfg = \<lparr>backlog = [], maxBacklog = maxAuditEventsInMemory cfg, bus_dropped = 0,
     metrics = \<lparr>sse_open = 0, openedTotal = 0, rejectedTotal = 0\<rparr>, connections = [], next_id = 0\<rparr>"

definition acquireSseSlot :: "sse_metrics \<Rightarrow> sse_metrics" where
  "acquireSseSlot m = m\<lparr>sse_open := sse_open m + 1, openedTotal := openedTotal m + 1\<rparr>"

definition releaseSseSlot :: "sse_metrics \<Rightarrow> sse_metrics" where
  "releaseSseSlot m = m\<lparr>sse_open := max 0 (sse_open m - 1)\<rparr>"

definition recordSseRejected :: "sse_metrics \<Rightarrow> sse_metrics" where
  "recordSseRejected m = m\<lparr>rejectedTotal := rejectedTotal m + 1\<rparr>"

text \<open>
  \<open>cleanup\<close> is idempotent: the first call marks the connection closed, gives the slot back and
  unsubscribes (a closed connection no longer listens); later calls do nothing.
\<close>

definition cleanup :: "sse_connection \<Rightarrow> sse_metrics \<Rightarrow> sse_connection \<times> sse_metrics" where
  "cleanup c m = (if cn_closed c then (c, m) else (c\<lparr>cn_closed := True\<rparr>, releaseSseSlot m))"

definition sendEvent :: "bool \<Rightarrow> audit_event \<Rightarrow> sse_connection \<Rightarrow> sse_metrics \<Rightarrow> sse_connection \<times> sse_metrics" where
  "sendEvent broken e c m =
     (if ev_id e \<in> set (cn_seen c) then (c, m)
      else let c1 = c\<lparr>cn_seen := ev_id e # cn_seen c\<rparr>
           in if broken then cleanup c1 m else (c1\<lparr>cn_sent := cn_sent c1 @ [e]\<rparr>, m))"

fun send_all :: "bool \<Rightarrow> audit_event list \<Rightarrow> sse_connection \<Rightarrow> sse_metrics \<Rightarrow> sse_connection \<times> sse_metrics" where
  "send_all broken [] c m = (c, m)"
| "send_all broken (e # es) c m =
     (let (c1, m1) = sendEvent broken e c m in send_all broken es c1 m1)"

fun notify :: "nat list \<Rightarrow> audit_event \<Rightarrow> sse_connection list \<Rightarrow> sse_metrics \<Rightarrow> sse_connection list \<times> sse_metrics" where
  "notify broken e [] m = ([], m)"
| "notify broken e (c # cs) m =
     (let (c1, m1) = (if cn_closed c \<or> \<not> event_matches (cn_filter c) e then (c, m)
                      else sendEvent (cn_id c \<in> set broken) e c m);
          (cs1, m2) = notify broken e cs m1
      in (c1 # cs1, m2))"

fun close_conn :: "nat \<Rightarrow> sse_connection list \<Rightarrow> sse_metrics \<Rightarrow> sse_connection list \<times> sse_metrics" where
  "close_conn i [] m = ([], m)"
| "close_conn i (c # cs) m =
     (if cn_id c = i then (let (c1, m1) = cleanup c m in (c1 # cs, m1))
      else let (cs1, m1) = close_conn i cs m in (c # cs1, m1))"

section \<open>Steps\<close>

datatype stream_op =
    Publish audit_event "nat list"     \<comment> \<open>\<open>eventBus.publish\<close>, with the connections whose write throws\<close>
  | Connect stream_filter bool         \<comment> \<open>\<open>GET /api/events/stream\<close>, and whether its writes throw\<close>
  | Disconnect nat                     \<comment> \<open>abort, cancel or a heartbeat that finds the stream gone\<close>

definition publish :: "audit_event \<Rightarrow> nat list \<Rightarrow> stream_state \<Rightarrow> stream_state" where
  "publish e broken s =
     (let b = bus_push e (event_bus.truncate s);
          (cs, m) = notify broken e (connections s) (metrics s)
      in s\<lparr>backlog := backlog b, bus_dropped := bus_dropped b, connections := cs, metrics := m\<rparr>)"

definition sse_capacity_response :: http_response where
  "sse_capacity_response = \<lparr>rs_status = 503,
     rs_body = error_body ''too many open SSE connections; retry after current streams drain'' ''SSE_CAPACITY'',
     rs_headers = [js ''content-type'' \<mapsto> js ''application/json'', js ''retry-after'' \<mapsto> js ''30'']\<rparr>"

definition connect :: "app_config \<Rightarrow> stream_filter \<Rightarrow> bool \<Rightarrow> stream_state \<Rightarrow> (http_response + nat) \<times> stream_state" where
  "connect cfg f broken s =
     (if sse_open (metrics s) \<ge> maxSseConnections cfg then
        (Inl sse_capacity_response, s\<lparr>metrics := recordSseRejected (metrics s)\<rparr>)
      else
        let m = acquireSseSlot (metrics s);
            c = \<lparr>cn_id = next_id s, cn_filter = f, cn_seen = [], cn_sent = [], cn_closed = False\<rparr>;
            (c1, m1) = send_all broken (filter (event_matches f) (getBacklog 100 (event_bus.truncate s))) c m
        in (Inr (next_id s),
            s\<lparr>metrics := m1, connections := connections s @ [c1], next_id := next_id s + 1\<rparr>))"

fun stream_step :: "app_config \<Rightarrow> stream_state \<Rightarrow> stream_op \<Rightarrow> stream_state" where
  "stream_step cfg s (Publish e broken) = publish e broken s"
| "stream_step cfg s (Connect f broken) = snd (connect cfg f broken s)"
| "stream_step cfg s (Disconnect i) =
     (let (cs, m) = close_conn i (connections s) (metrics s) in s\<lparr>connections := cs, metrics := m\<rparr>)"

section \<open>Invariant\<close>

definition open_conns :: "sse_connection list \<Rightarrow> int" where
  "open_conns cs = int (length (filter (\<lambda>c. \<not> cn_closed c) cs))"

definition conn_ok :: "sse_connection \<Rightarrow> bool" where
  "conn_ok c \<longleftrightarrow> distinct (map ev_id (cn_sent c)) \<and> ev_id ` set (cn_sent c) \<subseteq> set (cn_seen c) \<and>
     (\<forall>e \<in> set (cn_sent c). event_matches (cn_filter c) e)"

definition stream_ok :: "app_config \<Rightarrow> stream_state \<Rightarrow> bool" where
  "stream_ok cfg s \<longleftrightarrow> sse_open (metrics s) = open_conns (connections s) \<and>
     sse_open (metrics s) \<le> max 0 (maxSseConnections cfg) \<and> (\<forall>c \<in> set (connections s). conn_ok c)"

lemma open_conns_simps [simp]:
  "open_conns [] = 0" "open_conns (c # cs) = (if cn_closed c then 0 else 1) + open_conns cs"
  "open_conns (cs @ ds) = open_conns cs + open_conns ds"
  by (simp_all add: open_conns_def)

lemma open_conns_nonneg: "0 \<le> open_conns cs"
  by (simp add: open_conns_def)

lemma open_conns_head: "open_conns (c # cs) \<le> n \<Longrightarrow> open_conns [c] \<le> n"
  using open_conns_nonneg [of cs] by simp

text \<open>A send keeps the connection sound and moves the gauge exactly with the closed flag.\<close>

definition gauge_moves :: "sse_connection \<Rightarrow> sse_metrics \<Rightarrow> sse_connection \<times> sse_metrics \<Rightarrow> bool" where
  "gauge_moves c m r \<longleftrightarrow>
     (open_conns [c] \<le> sse_open m \<longrightarrow>
        sse_open (snd r) - open_conns [fst r] = sse_open m - open_conns [c] \<and> sse_open (snd r) \<le> sse_open m)"

lemma cleanup_gauge: "gauge_moves c m (cleanup c m)"
  by (simp add: gauge_moves_def cleanup_def releaseSseSlot_def)

lemma cleanup_ok [simp]: "conn_ok (fst (cleanup c m)) \<longleftrightarrow> conn_ok c"
  by (simp add: cleanup_def conn_ok_def)

lemma sendEvent_ok:
  "conn_ok c \<Longrightarrow> event_matches (cn_filter c) e \<Longrightarrow> conn_ok (fst (sendEvent broken e c m))"
  by (auto simp: sendEvent_def cleanup_def conn_ok_def Let_def)

lemma sendEvent_gauge: "gauge_moves c m (sendEvent broken e c m)"
  by (auto simp: sendEvent_def cleanup_def releaseSseSlot_def gauge_moves_def Let_def)

lemma sendEvent_filter [simp]: "cn_filter (fst (sendEvent broken e c m)) = cn_filter c"
  by (simp add: sendEvent_def cleanup_def Let_def)

lemma send_all_ok:
  "conn_ok c \<Longrightarrow> \<forall>e \<in> set es. event_matches (cn_filter c) e \<Longrightarrow>
   conn_ok (fst (send_all broken es c m)) \<and> gauge_moves c m (send_all broken es c m)"
proof (induction es arbitrary: c m)
  case Nil
  then show ?case by (simp add: gauge_moves_def)
next
  case (Cons e es)
  obtain c1 m1 where s: "sendEvent broken e c m = (c1, m1)" by fastforce
  with Cons.prems have "conn_ok c1" "cn_filter c1 = cn_filter c"
    using sendEvent_ok [of c e broken m] sendEvent_filter [of broken e c m] by auto
  with Cons have "conn_ok (fst (send_all broken es c1 m1)) \<and> gauge_moves c1 m1 (send_all broken es c1 m1)"
    by simp
  moreover have "gauge_moves c m (c1, m1)" using sendEvent_gauge [of c m broken e] s by simp
  ultimately show ?case using s by (auto simp: gauge_moves_def)
qed

lemma notify_ok:
  "\<forall>c \<in> set cs. conn_ok c \<Longrightarrow> open_conns cs \<le> sse_open m \<Longrightarrow> notify broken e cs m = (cs1, m1) \<Longrightarrow>
   (\<forall>c \<in> set cs1. conn_ok c) \<and> sse_open m1 - open_conns cs1 = sse_open m - open_conns cs \<and>
   sse_open m1 \<le> sse_open m"
proof (induction cs arbitrary: m cs1 m1)
  case (Cons c cs)
  let ?r = "if cn_closed c \<or> \<not> event_matches (cn_filter c) e then (c, m)
            else sendEvent (cn_id c \<in> set broken) e c m"
  obtain c1 m2 where r: "?r = (c1, m2)" by fastforce
  obtain cs2 m3 where n: "notify broken e cs m2 = (cs2, m3)" by fastforce
  have ok1: "conn_ok c1" and g: "gauge_moves c m (c1, m2)"
    using r Cons.prems(1) sendEvent_ok [of c e "cn_id c \<in> set broken" m]
      sendEvent_gauge [of c m "cn_id c \<in> set broken" e]
    by (auto simp: gauge_moves_def split: if_splits)
  have "open_conns [c] \<le> sse_open m" using Cons.prems(2) by (rule open_conns_head)
  with g have moved: "sse_open m2 - open_conns [c1] = sse_open m - open_conns [c]" "sse_open m2 \<le> sse_open m"
    by (simp_all add: gauge_moves_def)
  with Cons.prems(2) have "open_conns cs \<le> sse_open m2"
    using open_conns_nonneg [of "[c1]"] by simp
  with Cons.IH [of m2 cs2 m3] Cons.prems(1) n
  have "(\<forall>c \<in> set cs2. conn_ok c) \<and> sse_open m3 - open_conns cs2 = sse_open m2 - open_conns cs \<and>
    sse_open m3 \<le> sse_open m2" by simp
  moreover have "cs1 = c1 # cs2" "m1 = m3" using Cons.prems(3) r n by auto
  ultimately show ?case using ok1 moved by auto
qed simp

lemma close_conn_ok:
  "\<forall>c \<in> set cs. conn_ok c \<Longrightarrow> open_conns cs \<le> sse_open m \<Longrightarrow> close_conn i cs m = (cs1, m1) \<Longrightarrow>
   (\<forall>c \<in> set cs1. conn_ok c) \<and> sse_open m1 - open_conns cs1 = sse_open m - open_conns cs \<and>
   sse_open m1 \<le> sse_open m"
proof (induction cs arbitrary: m cs1 m1)
  case (Cons c cs)
  show ?case
  proof (cases "cn_id c = i")
    case True
    have "open_conns [c] \<le> sse_open m" using Cons.prems(2) by (rule open_conns_head)
    moreover obtain c1 m2 where cl: "cleanup c m = (c1, m2)" by fastforce
    ultimately show ?thesis
      using cleanup_gauge [of c m] cleanup_ok [of c m] True Cons.prems by (auto simp: gauge_moves_def)
  next
    case False
    with Cons.prems obtain cs2 where "close_conn i cs m = (cs2, m1)" "cs1 = c # cs2"
      by (auto split: prod.splits)
    with Cons.IH [of m cs2 m1] Cons.prems show ?thesis by (auto split: if_splits)
  qed
qed simp

lemma stream_step_ok [inv_intros]: "stream_ok cfg s \<Longrightarrow> stream_ok cfg (stream_step cfg s op)"
proof (cases op)
  case (Publish e broken)
  assume ok: "stream_ok cfg s"
  obtain cs m where n: "notify broken e (connections s) (metrics s) = (cs, m)" by fastforce
  from notify_ok [OF _ _ n] ok n Publish show ?thesis
    by (auto simp: stream_ok_def publish_def Let_def)
next
  case (Connect f broken)
  assume ok: "stream_ok cfg s"
  let ?c = "\<lparr>cn_id = next_id s, cn_filter = f, cn_seen = [], cn_sent = [], cn_closed = False\<rparr>"
  let ?m = "acquireSseSlot (metrics s)"
  let ?es = "filter (event_matches f) (getBacklog 100 (event_bus.truncate s))"
  obtain c1 m1 where r: "send_all broken ?es ?c ?m = (c1, m1)" by fastforce
  have "conn_ok ?c" by (simp add: conn_ok_def)
  with send_all_ok [of ?c ?es broken ?m] r have "conn_ok c1" "gauge_moves ?c ?m (c1, m1)" by auto
  with ok r Connect show ?thesis
    using open_conns_nonneg [of "connections s"]
    by (auto simp: stream_ok_def connect_def Let_def gauge_moves_def acquireSseSlot_def recordSseRejected_def)
next
  case (Disconnect i)
  assume ok: "stream_ok cfg s"
  obtain cs m where n: "close_conn i (connections s) (metrics s) = (cs, m)" by fastforce
  from close_conn_ok [OF _ _ n] ok n Disconnect show ?thesis
    by (auto simp: stream_ok_def)
qed

interpretation sse: machine "stream_step cfg" "stream_ok cfg" for cfg
  by unfold_locales (rule stream_step_ok)

text \<open>The backlog is the newest part of what was published.\<close>

fun published :: "stream_op list \<Rightarrow> audit_event list" where
  "published [] = []"
| "published (Publish e broken # ops) = e # published ops"
| "published (op # ops) = published ops"

lemma stream_step_backlog:
  "backlog (stream_step cfg s op) = (case op of Publish e broken \<Rightarrow> backlog (bus_push e (event_bus.truncate s)) | _ \<Rightarrow> backlog s)"
  "bus_dropped (stream_step cfg s op) = (case op of Publish e broken \<Rightarrow> bus_dropped (bus_push e (event_bus.truncate s)) | _ \<Rightarrow> bus_dropped s)"
  "maxBacklog (stream_step cfg s op) = maxBacklog s"
  by (cases op; auto simp: publish_def connect_def Let_def split: prod.splits)+

lemma bus_push_truncate [simp]:
  "backlog (bus_push e (event_bus.truncate s)) =
     (if int (length (backlog s) + 1) > maxBacklog s then tl (backlog s @ [e]) else backlog s @ [e])"
  "bus_dropped (bus_push e (event_bus.truncate s)) =
     bus_dropped s + (if int (length (backlog s) + 1) > maxBacklog s then 1 else 0)"
  by (simp_all add: bus_push_def event_bus.truncate_def Let_def)

definition buffered :: "stream_state \<Rightarrow> audit_event list \<Rightarrow> bool" where
  "buffered s all \<longleftrightarrow> backlog s = drop (bus_dropped s) all \<and>
     bus_dropped s + length (backlog s) = length all \<and>
     int (length (backlog s)) = min (int (length all)) (max 0 (maxBacklog s))"

lemma tl_drop_snoc: "d \<le> length xs \<Longrightarrow> tl (drop d xs @ [e]) = drop (Suc d) (xs @ [e])"
proof -
  assume "d \<le> length xs"
  then have "drop d xs @ [e] = drop d (xs @ [e])" by simp
  then show ?thesis by (simp only: drop_Suc tl_drop)
qed

lemma buffered_step: "buffered s all \<Longrightarrow> buffered (stream_step cfg s op) (all @ published [op])"
proof (cases op)
  case (Publish e broken)
  assume b: "buffered s all"
  have steps: "backlog (stream_step cfg s op) =
      (if int (length (backlog s) + 1) > maxBacklog s then tl (backlog s @ [e]) else backlog s @ [e])"
    "bus_dropped (stream_step cfg s op) =
      bus_dropped s + (if int (length (backlog s) + 1) > maxBacklog s then 1 else 0)"
    "maxBacklog (stream_step cfg s op) = maxBacklog s" "published [op] = [e]"
    using stream_step_backlog [of cfg s op] Publish by (simp_all del: stream_step.simps)
  from b have "bus_dropped s \<le> length all" by (simp add: buffered_def)
  from tl_drop_snoc [OF this] b show ?thesis
    by (auto simp: buffered_def steps simp del: stream_step.simps drop_append)
qed (use stream_step_backlog [of cfg s op] in \<open>simp_all add: buffered_def del: stream_step.simps\<close>)

lemma buffered_run: "buffered s all \<Longrightarrow> buffered (foldl (stream_step cfg) s ops) (all @ published ops)"
proof (induction ops arbitrary: s all)
  case (Cons op ops)
  from Cons.IH [OF buffered_step [OF Cons.prems]]
  have "buffered (foldl (stream_step cfg) (stream_step cfg s op) ops) (all @ published [op] @ published ops)"
    by simp
  moreover have "published [op] @ published ops = published (op # ops)" by (cases op) simp_all
  ultimately show ?case by simp
qed simp

lemma maxBacklog_run: "maxBacklog (foldl (stream_step cfg) s ops) = maxBacklog s"
  by (induction ops arbitrary: s) (simp_all add: stream_step_backlog del: stream_step.simps)

text \<open>
  C33. Whatever is published, connected and disconnected, and whichever writes fail, the number
  of live streams never exceeds \<open>maxSseConnections\<close>, the gauge of \<open>sse-metrics.ts\<close> is exactly
  the number of streams that are not closed, and every stream has been sent each event at most
  once, only events its filter accepts.
\<close>

theorem sse_gauge_and_dedup:
  "let s = foldl (stream_step cfg) (init_stream cfg) ops in
     sse_open (metrics s) = int (length (filter (\<lambda>c. \<not> cn_closed c) (connections s))) \<and>
     sse_open (metrics s) \<le> max 0 (maxSseConnections cfg) \<and>
     list_all (\<lambda>c. distinct (map ev_id (cn_sent c)) \<and> list_all (event_matches (cn_filter c)) (cn_sent c))
       (connections s)"
proof -
  have "stream_ok cfg (init_stream cfg)" by (simp add: stream_ok_def init_stream_def)
  then have "stream_ok cfg (foldl (stream_step cfg) (init_stream cfg) ops)" by (rule sse.run_inv)
  then show ?thesis by (simp add: stream_ok_def conn_ok_def open_conns_def Let_def list_all_iff)
qed

text \<open>
  The backlog replayed to a new stream is the newest part of everything ever published: it
  holds exactly the last \<open>maxAuditEventsInMemory\<close> events in publication order, and the dropped
  counter accounts for every other one.
\<close>

theorem backlog_is_newest_published:
  "let s = foldl (stream_step cfg) (init_stream cfg) ops; all = published ops in
     backlog s = drop (length all - length (backlog s)) all \<and>
     length (backlog s) + getDroppedCount (event_bus.truncate s) = length all \<and>
     int (length (backlog s)) = min (int (length all)) (max 0 (maxAuditEventsInMemory cfg))"
proof -
  have "buffered (init_stream cfg) []" by (simp add: buffered_def init_stream_def)
  from buffered_run [OF this, of cfg ops]
  have "buffered (foldl (stream_step cfg) (init_stream cfg) ops) (published ops)" by simp
  moreover have "maxBacklog (foldl (stream_step cfg) (init_stream cfg) ops) = maxAuditEventsInMemory cfg"
    by (simp add: maxBacklog_run init_stream_def)
  ultimately show ?thesis
    by (simp add: buffered_def Let_def getDroppedCount_def event_bus.truncate_def)
qed

end
