(* ===== verification/Event_Store.thy ===== *)
theory Event_Store
  imports Db_Schema App_Config Validation
begin

text \<open>
  The stored audit trail: \<open>ingestOneEvent\<close>, \<open>ingestEvents\<close> and \<open>queryHistory\<close> of
  \<open>src/src/lib/audit/event-store.ts\<close> and the handler of \<open>GET /api/events/history\<close>. The table's
  primary key decides duplicates, so the batches of several replicas are a sequence of
  insert-if-absent operations; the interpretation \<open>event_rows\<close> gives them the laws of
  \<open>conflict_insert\<close>. Parsing a date string is the engine's \<open>date_parse\<close>.
\<close>

section \<open>Insert\<close>

definition toRow :: "instant \<Rightarrow> audit_event \<Rightarrow> audit_event_row" where
  "toRow now r = \<lparr>ev_id = ev_id r, ev_type = ev_type r, ev_ts = ev_ts r, ev_aidA = ev_aidA r,
     ev_aidB = ev_aidB r, ev_sessionId = ev_sessionId r, ev_runId = ev_runId r, ev_grants = ev_grants r,
     ev_payload = ev_payload r, ev_source = ev_source r, ev_createdAt = now\<rparr>"

definition ingestOneEvent :: "instant \<Rightarrow> audit_event \<Rightarrow> db \<Rightarrow> db" where
  "ingestOneEvent now r d = d\<lparr>audit_events := snd (insert_nothing ev_id (toRow now r) (audit_events d))\<rparr>"

definition ingestEvents :: "instant \<Rightarrow> audit_event list \<Rightarrow> db \<Rightarrow> jstring list \<times> db" where
  "ingestEvents now records d =
     (if records = [] then ([], d)
      else let (ids, t) = insert_batch (insert_nothing ev_id) ev_id (map (toRow now) records) (audit_events d)
           in (ids, d\<lparr>audit_events := t\<rparr>))"

interpretation event_rows: conflict_insert
  "insert_nothing ev_id" "\<lambda>t k. find_row ev_id k t" "ev_id :: audit_event_row \<Rightarrow> jstring"
  by unfold_locales (simp_all only: insert_nothing_laws not_False_eq_True)

lemma toRow_id [simp]: "ev_id (toRow now r) = ev_id r" "ev_id \<circ> toRow now = ev_id"
  by (auto simp: toRow_def)

lemma ingestEvents_eq:
  "ingestEvents now rs d =
     (fst (insert_batch (insert_nothing ev_id) ev_id (map (toRow now) rs) (audit_events d)),
      d\<lparr>audit_events := snd (insert_batch (insert_nothing ev_id) ev_id (map (toRow now) rs) (audit_events d))\<rparr>)"
  by (simp add: ingestEvents_def split: prod.split)

lemma ingestEvents_other [simp]:
  "webhooks (snd (ingestEvents now rs d)) = webhooks d"
  "agents (snd (ingestEvents now rs d)) = agents d"
  by (simp_all add: ingestEvents_eq)

text \<open>The ids a batch reports: those it names that were not stored, each once.\<close>

lemma ingestEvents_ids:
  "set (fst (ingestEvents now rs d)) = ev_id ` set rs - ev_id ` set (audit_events d)"
  "distinct (fst (ingestEvents now rs d))"
  using event_rows.batch_keys [of "map (toRow now) rs" "audit_events d"]
    event_rows.batch_distinct [of "map (toRow now) rs" "audit_events d"]
  by (simp_all add: ingestEvents_eq dom_find_row image_image image_comp)

lemma ingestEvents_stored:
  "ev_id ` set (audit_events (snd (ingestEvents now rs d))) = ev_id ` set rs \<union> ev_id ` set (audit_events d)"
  using event_rows.batch_dom [of "map (toRow now) rs" "audit_events d"]
  by (simp add: ingestEvents_eq dom_find_row image_image image_comp)

lemma ingestEvents_again:
  "ev_id ` set rs \<subseteq> ev_id ` set (audit_events d) \<Longrightarrow> ingestEvents now rs d = ([], d)"
  using event_rows.batch_again [of "map (toRow now) rs" "audit_events d"]
  by (simp add: ingestEvents_eq dom_find_row image_image image_comp)

lemma ingestEvents_keeps:
  "find_row ev_id k (audit_events d) = Some x \<Longrightarrow>
   find_row ev_id k (audit_events (snd (ingestEvents now rs d))) = Some x"
  by (simp add: ingestEvents_eq event_rows.batch_keeps)

lemma ingestOneEvent_batch: "ingestOneEvent now r d = snd (ingestEvents now [r] d)"
  by (simp add: ingestOneEvent_def ingestEvents_eq split: prod.split)

text \<open>The inserts of several requests and replicas, in the order the database commits them.\<close>

fun ingest_batches :: "(instant \<times> audit_event list) list \<Rightarrow> db \<Rightarrow> jstring list list \<times> db" where
  "ingest_batches [] d = ([], d)"
| "ingest_batches ((now, rs) # bs) d =
     (let (ids, d1) = ingestEvents now rs d; (rest, d2) = ingest_batches bs d1 in (ids # rest, d2))"

lemma ingest_batches_flat:
  "concat (fst (ingest_batches bs d)) =
     fst (insert_batch (insert_nothing ev_id) ev_id (concat (map (\<lambda>(now, rs). map (toRow now) rs) bs)) (audit_events d)) \<and>
   audit_events (snd (ingest_batches bs d)) =
     snd (insert_batch (insert_nothing ev_id) ev_id (concat (map (\<lambda>(now, rs). map (toRow now) rs) bs)) (audit_events d))"
proof (induction bs arbitrary: d)
  case (Cons b bs)
  obtain now rs where b: "b = (now, rs)" by fastforce
  show ?case using Cons.IH [of "snd (ingestEvents now rs d)"]
    by (simp add: b ingestEvents_eq event_rows.batch_append case_prod_unfold Let_def)
qed simp

section \<open>History\<close>

record history_filters =
  hf_type :: "jstring option"
  hf_aid :: "jstring option"
  hf_sessionId :: "jstring option"
  hf_runId :: "jstring option"
  hf_since :: "jstring option"
  hf_until :: "jstring option"
  hf_limit :: "int option"
  hf_offset :: "int option"

datatype invalid_filter = InvalidFilterError string jstring

definition parseIsoOrThrow :: "(jstring \<Rightarrow> instant option) \<Rightarrow> string \<Rightarrow> jstring \<Rightarrow> invalid_filter + instant" where
  "parseIsoOrThrow date_parse name raw =
     (case date_parse raw of None \<Rightarrow> Inl (InvalidFilterError name raw) | Some t \<Rightarrow> Inr t)"

text \<open>An absent or empty date filter adds no condition; a bad one throws.\<close>

definition date_filter :: "(jstring \<Rightarrow> instant option) \<Rightarrow> string \<Rightarrow> jstring option \<Rightarrow> invalid_filter + instant option" where
  "date_filter date_parse name v =
     (if blank v then Inr None
      else case parseIsoOrThrow date_parse name (the v) of Inl e \<Rightarrow> Inl e | Inr t \<Rightarrow> Inr (Some t))"

definition history_match ::
  "history_filters \<Rightarrow> instant option \<Rightarrow> instant option \<Rightarrow> audit_event_row \<Rightarrow> bool" where
  "history_match f since until r \<longleftrightarrow>
     (blank (hf_type f) \<or> hf_type f = Some (ev_type r)) \<and>
     (blank (hf_sessionId f) \<or> hf_sessionId f = ev_sessionId r) \<and>
     (blank (hf_runId f) \<or> hf_runId f = ev_runId r) \<and>
     (blank (hf_aid f) \<or> ev_aidA r = hf_aid f \<or> ev_aidB r = hf_aid f) \<and>
     (case since of None \<Rightarrow> True | Some t \<Rightarrow> t \<le> ev_ts r) \<and>
     (case until of None \<Rightarrow> True | Some t \<Rightarrow> ev_ts r \<le> t)"

definition queryHistory ::
  "(jstring \<Rightarrow> instant option) \<Rightarrow> history_filters \<Rightarrow> db \<Rightarrow> invalid_filter + audit_event_row list" where
  "queryHistory date_parse f d =
     (case date_filter date_parse ''since'' (hf_since f) of
        Inl e \<Rightarrow> Inl e
      | Inr since \<Rightarrow>
          (case date_filter date_parse ''until'' (hf_until f) of
             Inl e \<Rightarrow> Inl e
           | Inr until \<Rightarrow>
               (let lim = min (max (case hf_limit f of None \<Rightarrow> 100 | Some n \<Rightarrow> n) 1) 1000;
                    off = max (case hf_offset f of None \<Rightarrow> 0 | Some n \<Rightarrow> n) 0
                in Inr (page ev_ts lim off (filter (history_match f since until) (audit_events d))))))"

text \<open>The handler: \<open>Inr rows\<close> is the body \<open>{events: rows, count}\<close>.\<close>

definition history_filter_error :: "jstring \<Rightarrow> http_response" where
  "history_filter_error msg = json_response 400 (jobj [(''error'', JStr msg), (''code'', jlit ''FILTER_INVALID'')])"

definition nul_message :: "string \<Rightarrow> jstring" where
  "nul_message name = js (name @ '' must not contain a NUL character'')"

definition history_GET ::
  "(jstring \<Rightarrow> int option) \<Rightarrow> (jstring \<Rightarrow> instant option) \<Rightarrow> search_params \<Rightarrow> db \<Rightarrow>
     http_response + audit_event_row list" where
  "history_GET to_number date_parse q d =
     (let pg = parsePagination to_number (q ''limit'') (q ''offset'') 100 1000;
          sessionId = orelse (q ''session_id'') (q ''sessionId'');
          runId = orelse (q ''run_id'') (q ''runId'')
      in case find (\<lambda>(name, v). checkQueryParam v \<noteq> None)
                [(''type'', q ''type''), (''aid'', q ''aid''), (''session_id'', sessionId), (''run_id'', runId)] of
           Some (name, v) \<Rightarrow> Inl (history_filter_error (nul_message name))
         | None \<Rightarrow>
             (case queryHistory date_parse
                     \<lparr>hf_type = q ''type'', hf_aid = q ''aid'', hf_sessionId = sessionId, hf_runId = runId,
                      hf_since = q ''since'', hf_until = q ''until'', hf_limit = Some (pg_limit pg),
                      hf_offset = Some (pg_offset pg)\<rparr> d of
                Inl (InvalidFilterError name raw) \<Rightarrow>
                  Inl (history_filter_error
                    (js (name @ '' must be a parseable date string (ISO-8601 recommended); got '') @ raw))
              | Inr rows \<Rightarrow> Inr rows))"

section \<open>Properties\<close>

text \<open>
  C6. Exactly one insert wins an event id: over the batches of any number of requests and
  replicas, in any order, the ids reported as inserted are pairwise different, they are exactly
  the ids named that were not stored before, and every id named is stored at the end.
\<close>

theorem ingest_reports_each_id_once:
  "let (reported, d') = ingest_batches bs d; named = (\<Union>(now, rs) \<in> set bs. ev_id ` set rs) in
     distinct (concat reported) \<and>
     set (concat reported) = named - ev_id ` set (audit_events d) \<and>
     ev_id ` set (audit_events d') = named \<union> ev_id ` set (audit_events d)"
proof -
  let ?rows = "concat (map (\<lambda>(now, rs). map (toRow now) rs) bs)"
  have named: "ev_id ` set ?rows = (\<Union>(now, rs) \<in> set bs. ev_id ` set rs)"
    by (simp add: image_UN case_prod_unfold image_image)
  from ingest_batches_flat [of bs d] event_rows.batch_keys [of ?rows "audit_events d"]
    event_rows.batch_distinct [of ?rows "audit_events d"] event_rows.batch_dom [of ?rows "audit_events d"]
  show ?thesis unfolding named dom_find_row
    by (simp add: case_prod_unfold Let_def del: set_concat set_map)
qed

text \<open>
  Paging through the history is complete: walking the offsets in steps of the limit returns
  every stored event that matches the filters exactly once, newest first, and nothing else.
\<close>

theorem history_paging_complete:
  assumes "date_filter date_parse ''since'' (hf_since f) = Inr since"
    and "date_filter date_parse ''until'' (hf_until f) = Inr until"
    and "1 \<le> l" and "l \<le> 1000" and "length (audit_events d) \<le> n * nat l"
    and "unique_key ev_id (audit_events d)"
  shows "\<exists>pages. map (\<lambda>i. queryHistory date_parse (f\<lparr>hf_limit := Some l, hf_offset := Some (int i * l)\<rparr>) d) [0..<n] =
      map Inr pages \<and>
    set (concat pages) = {r \<in> set (audit_events d). history_match f since until r} \<and>
    distinct (map ev_id (concat pages)) \<and> sorted_wrt (\<lambda>a b. ev_ts b \<le> ev_ts a) (concat pages)"
proof -
  let ?rows = "filter (history_match f since until) (audit_events d)"
  let ?pages = "map (\<lambda>i. page ev_ts l (int i * l) ?rows) [0..<n]"
  have m: "history_match (f\<lparr>hf_limit := a, hf_offset := b\<rparr>) = history_match f" for a b
    by (simp add: history_match_def fun_eq_iff)
  have "length ?rows \<le> n * nat l"
    using assms(5) length_filter_le [of "history_match f since until" "audit_events d"] by linarith
  then have all: "concat ?pages = newest_first ev_ts ?rows"
    using assms(3) by (intro page_walk) simp_all
  have "map (\<lambda>i. queryHistory date_parse (f\<lparr>hf_limit := Some l, hf_offset := Some (int i * l)\<rparr>) d) [0..<n] =
      map Inr ?pages"
    using assms(1-4) by (simp add: queryHistory_def m Let_def)
  moreover have "distinct (map ev_id (newest_first ev_ts ?rows))"
    using assms(6) by (intro distinct_newest_first) (simp add: unique_key_def distinct_map_filter)
  moreover have "set (concat ?pages) = {r \<in> set (audit_events d). history_match f since until r}"
    unfolding all by auto
  ultimately show ?thesis
    using newest_first_sorted [of ev_ts ?rows] by (intro exI [of _ ?pages]) (simp add: all del: set_concat)
qed

definition demo_event :: "string \<Rightarrow> string \<Rightarrow> instant \<Rightarrow> audit_event" where
  "demo_event i ty ts = \<lparr>ev_id = js i, ev_type = js ty, ev_ts = ts, ev_aidA = Some (js ''aid:a''),
     ev_aidB = None, ev_sessionId = None, ev_runId = None, ev_grants = None, ev_payload = JObj [],
     ev_source = None\<rparr>"

definition demo_history :: db where
  "demo_history = empty_db\<lparr>audit_events := map (toRow 0) [demo_event ''1'' ''x'' 10, demo_event ''2'' ''x'' 30]\<rparr>"

definition no_filters :: history_filters where
  "no_filters = \<lparr>hf_type = None, hf_aid = None, hf_sessionId = None, hf_runId = None, hf_since = None,
     hf_until = None, hf_limit = None, hf_offset = None\<rparr>"

theorem history_paging_complete_witness:
  "\<exists>pages. map (\<lambda>i. queryHistory (\<lambda>_. None) (no_filters\<lparr>hf_limit := Some 1, hf_offset := Some (int i * 1)\<rparr>)
      demo_history) [0..<2] = map Inr pages \<and>
    set (concat pages) = {r \<in> set (audit_events demo_history). history_match no_filters None None r} \<and>
    distinct (map ev_id (concat pages)) \<and> sorted_wrt (\<lambda>a b. ev_ts b \<le> ev_ts a) (concat pages)"
  by (rule history_paging_complete)
    (simp_all add: no_filters_def date_filter_def demo_history_def empty_db_def unique_key_def demo_event_def)

end
