(* ===== verification/Session_Monitor.thy ===== *)
theory Session_Monitor
  imports Db_Schema Validation
begin

text \<open>
  The session projection, \<open>SessionMonitorService.onEvent\<close> of \<open>src/src/lib/sessions/monitor.ts\<close>:
  handshake events drive the rows of \<open>handshake_sessions\<close>. An error of the database, a value
  that does not fit its column or an outage, is caught and leaves the table as it was. The
  abstract contract is one small automaton per session; the refinement theorem says the table
  implements all of them side by side.
\<close>

section \<open>The projection\<close>

definition deriveBoundary :: "audit_event \<Rightarrow> jstring option" where
  "deriveBoundary e = as_string (get (ev_payload e) ''boundary'')"

definition session_storable :: "handshake_session \<Rightarrow> bool" where
  "session_storable r \<longleftrightarrow> column_fits 255 (Some (hs_sessionId r)) \<and> column_fits 512 (hs_aidA r) \<and>
     column_fits 512 (hs_aidB r) \<and> column_fits 255 (hs_runId r) \<and> column_fits 32 (hs_boundary r)"

definition started_row :: "instant \<Rightarrow> jstring \<Rightarrow> audit_event \<Rightarrow> handshake_session" where
  "started_row now sid e = \<lparr>hs_sessionId = sid, hs_aidA = ev_aidA e, hs_aidB = ev_aidB e,
     hs_status = Started, hs_grants = [], hs_runId = ev_runId e, hs_boundary = deriveBoundary e,
     hs_error = None, hs_startedAt = Some (ev_ts e), hs_completedAt = None, hs_createdAt = now,
     hs_updatedAt = now\<rparr>"

definition complete_row :: "instant \<Rightarrow> audit_event \<Rightarrow> handshake_session \<Rightarrow> handshake_session" where
  "complete_row now e r = r\<lparr>hs_status := Complete, hs_completedAt := Some (ev_ts e),
     hs_grants := (case ev_grants e of None \<Rightarrow> [] | Some g \<Rightarrow> g), hs_updatedAt := now\<rparr>"

definition failed_row :: "instant \<Rightarrow> audit_event \<Rightarrow> handshake_session \<Rightarrow> handshake_session" where
  "failed_row now e r = r\<lparr>hs_status := SessionFailed,
     hs_error := as_string (get (ev_payload e) ''error''), hs_updatedAt := now\<rparr>"

definition onSessionEvent ::
  "bool \<Rightarrow> instant \<Rightarrow> audit_event \<Rightarrow> handshake_session list \<Rightarrow> handshake_session list" where
  "onSessionEvent db_down now e t =
     (if blank (ev_sessionId e) \<or> db_down then t
      else let sid = the (ev_sessionId e)
           in if ev_type e = js ''handshake.started'' then
                (if session_storable (started_row now sid e)
                 then snd (insert_nothing hs_sessionId (started_row now sid e) t) else t)
              else if ev_type e = js ''handshake.complete'' then
                update_where (\<lambda>r. hs_sessionId r = sid) (complete_row now e) t
              else if ev_type e = js ''handshake.failed'' then
                update_where (\<lambda>r. hs_sessionId r = sid) (failed_row now e) t
              else t)"

section \<open>One session\<close>

text \<open>The contract of one session: the row it has, if any, before and after an event.\<close>

fun session_contract :: "bool \<times> instant \<times> audit_event \<Rightarrow> handshake_session option \<Rightarrow> handshake_session option" where
  "session_contract (down, now, e) None =
     (if \<not> down \<and> ev_type e = js ''handshake.started'' \<and> session_storable (started_row now (the (ev_sessionId e)) e)
      then Some (started_row now (the (ev_sessionId e)) e) else None)"
| "session_contract (down, now, e) (Some r) =
     (if down then Some r
      else if ev_type e = js ''handshake.complete'' then Some (complete_row now e r)
      else if ev_type e = js ''handshake.failed'' then Some (failed_row now e r) else Some r)"

definition concerns :: "jstring \<Rightarrow> bool \<times> instant \<times> audit_event \<Rightarrow> bool" where
  "concerns sid x \<longleftrightarrow> sid \<noteq> [] \<and> ev_sessionId (snd (snd x)) = Some sid"

definition session_run :: "(bool \<times> instant \<times> audit_event) list \<Rightarrow> handshake_session list \<Rightarrow> handshake_session list" where
  "session_run es t = foldl (\<lambda>t (down, now, e). onSessionEvent down now e t) t es"

lemma row_ids [simp]:
  "hs_sessionId (started_row now sid e) = sid" "hs_sessionId (complete_row now e r) = hs_sessionId r"
  "hs_sessionId (failed_row now e r) = hs_sessionId r"
  by (simp_all add: started_row_def complete_row_def failed_row_def)

lemma onSessionEvent_row:
  "find_row hs_sessionId sid (onSessionEvent down now e t) =
     (if concerns sid (down, now, e) then session_contract (down, now, e) (find_row hs_sessionId sid t)
      else find_row hs_sessionId sid t)"
proof (cases "ev_sessionId e")
  case None
  then show ?thesis by (simp add: onSessionEvent_def concerns_def)
next
  case (Some s)
  show ?thesis
  proof (cases "down \<or> s = []")
    case True
    with Some show ?thesis
      by (cases "find_row hs_sessionId sid t") (auto simp: onSessionEvent_def concerns_def)
  next
    case False
    then have "\<not> down" "s \<noteq> []" by simp_all
    with Some show ?thesis
      by (cases "find_row hs_sessionId sid t"; cases "s = sid")
        (simp_all add: onSessionEvent_def concerns_def Let_def find_row_insert_nothing find_row_update_key)
  qed
qed

lemma onSessionEvent_keys [inv_intros]:
  "unique_key hs_sessionId t \<Longrightarrow> unique_key hs_sessionId (onSessionEvent down now e t)"
  by (auto simp: onSessionEvent_def Let_def intro!: unique_key_insert_nothing unique_key_update_where)

interpretation sessions: machine
  "\<lambda>t (down, now, e). onSessionEvent down now e t" "unique_key hs_sessionId"
  by unfold_locales (auto intro: onSessionEvent_keys)

lemma session_run_row:
  "find_row hs_sessionId sid (session_run es t) =
     foldl (\<lambda>r x. session_contract x r) (find_row hs_sessionId sid t) (filter (concerns sid) es)"
  unfolding session_run_def
proof (induction es arbitrary: t)
  case (Cons x es)
  obtain down now e where "x = (down, now, e)" by (cases x) auto
  with Cons show ?case by (simp add: onSessionEvent_row)
qed simp

text \<open>Once started, a session keeps who started it, whatever is reported later.\<close>

definition same_start :: "handshake_session \<Rightarrow> handshake_session \<Rightarrow> bool" where
  "same_start a b \<longleftrightarrow> hs_sessionId a = hs_sessionId b \<and> hs_aidA a = hs_aidA b \<and> hs_aidB a = hs_aidB b \<and>
     hs_runId a = hs_runId b \<and> hs_boundary a = hs_boundary b \<and> hs_startedAt a = hs_startedAt b \<and>
     hs_createdAt a = hs_createdAt b"

lemma session_contract_keeps:
  "session_contract x (Some r) = Some r' \<Longrightarrow> same_start r r' \<and> (hs_status r' = Complete \<longrightarrow>
     hs_status r = Complete \<or> hs_completedAt r' \<noteq> None)"
  by (cases x) (auto simp: same_start_def complete_row_def failed_row_def split: if_splits)

lemma contract_run_keeps:
  "\<exists>r'. foldl (\<lambda>r x. session_contract x r) (Some r) xs = Some r' \<and> same_start r r'"
proof (induction xs arbitrary: r)
  case Nil
  then show ?case by (simp add: same_start_def)
next
  case (Cons x xs)
  have "session_contract x (Some r) \<noteq> None" by (cases x) simp
  then obtain r1 where r1: "session_contract x (Some r) = Some r1" by blast
  from Cons [of r1] obtain r' where "foldl (\<lambda>r x. session_contract x r) (Some r1) xs = Some r'" "same_start r1 r'"
    by blast
  with r1 session_contract_keeps [OF r1] show ?case by (auto simp: same_start_def)
qed

section \<open>Properties\<close>

text \<open>
  C14. The session table refines one automaton per session: after any sequence of events, with
  any of them failing in the database, the row of a session is what its own automaton reaches on
  exactly the events that carry its id, and a row that exists keeps its peers, run, boundary and
  start time through everything that follows.
\<close>

theorem sessions_refine_automaton:
  "find_row hs_sessionId sid (session_run es t) =
     foldl (\<lambda>r x. session_contract x r) (find_row hs_sessionId sid t) (filter (concerns sid) es) \<and>
   (case find_row hs_sessionId sid t of
      None \<Rightarrow> True
    | Some r \<Rightarrow> (case find_row hs_sessionId sid (session_run es t) of
                 None \<Rightarrow> False | Some r' \<Rightarrow> same_start r r'))"
proof (cases "find_row hs_sessionId sid t")
  case None
  then show ?thesis by (simp add: session_run_row)
next
  case (Some r)
  from contract_run_keeps [of r "filter (concerns sid) es"] Some show ?thesis
    by (auto simp: session_run_row)
qed

text \<open>
  The terminal updates are not guarded by the status they leave: sending an older event again
  moves a failed session back to complete, while its error stays on the row.
\<close>

lemma replay_moves_terminal_session:
  assumes "ev_type c = js ''handshake.complete''" and "ev_type f = js ''handshake.failed''"
    and "hs_sessionId r = sid" and "sid \<noteq> []" and "ev_sessionId c = Some sid" and "ev_sessionId f = Some sid"
  shows "map hs_status (session_run [(False, 1, c), (False, 2, f)] [r]) = [SessionFailed] \<and>
    map hs_status (session_run [(False, 1, c), (False, 2, f), (False, 3, c)] [r]) = [Complete]"
  using assms by (simp add: session_run_def onSessionEvent_def Let_def update_where_def complete_row_def failed_row_def)

end
