(* ===== verification/Tct_Parse.thy ===== *)
theory Tct_Parse
  imports Event_Ids App_Config
begin

text \<open>
  Reported tokens: the pure half of \<open>src/src/lib/tcts/monitor.ts\<close> (\<open>parseTct\<close>,
  \<open>parseDelegation\<close> and their readers) and \<open>src/src/lib/tcts/verify-observed.ts\<close>. Base64url
  decoding followed by \<open>JSON.parse\<close>, the SHA-1 digest and the two verifiers of the \<open>aitp\<close>
  package are parameters: \<open>decode_json\<close>, \<open>sha1\<close>, and the functions of \<open>artifact_sdk\<close>, which
  answer with the message of the error they throw, or nothing. \<open>toISOString\<close> throws on a time
  value beyond the ECMAScript range; that is \<open>Inl RangeError\<close>.
\<close>

datatype range_error = RangeError

section \<open>Readers\<close>

fun readString :: "json \<Rightarrow> string list \<Rightarrow> jstring option" where
  "readString o' [] = None"
| "readString o' (k # ks) =
     (case nonempty_string (get o' k) of Some s \<Rightarrow> Some s | None \<Rightarrow> readString o' ks)"

fun readStringArray :: "json \<Rightarrow> string list \<Rightarrow> jstring list" where
  "readStringArray o' [] = []"
| "readStringArray o' (k # ks) =
     (case string_array (get o' k) of Some ss \<Rightarrow> ss | None \<Rightarrow> readStringArray o' ks)"

fun readNumber :: "json \<Rightarrow> string list \<Rightarrow> rat option" where
  "readNumber o' [] = None"
| "readNumber o' (k # ks) =
     (case get o' k of Some (JNum (JFin q)) \<Rightarrow> Some q | _ \<Rightarrow> readNumber o' ks)"

definition epochToIso :: "rat option \<Rightarrow> range_error + instant option" where
  "epochToIso secs =
     (case secs of None \<Rightarrow> Inr None
      | Some q \<Rightarrow> (case time_clip (q * 1000) of None \<Rightarrow> Inl RangeError | Some t \<Rightarrow> Inr (Some t)))"

text \<open>\<open>a ?? b\<close> on property reads: absent and \<open>null\<close> fall through.\<close>

definition nullish_or :: "json option \<Rightarrow> json option \<Rightarrow> json option" where
  "nullish_or a b = (if a = None \<or> a = Some JNull then b else a)"

definition object_value :: "json option \<Rightarrow> json option" where
  "object_value v = (case v of Some x \<Rightarrow> if is_object x then Some x else None | None \<Rightarrow> None)"

definition readCnf :: "json \<Rightarrow> jstring option" where
  "readCnf claims =
     (let cnf = get claims ''cnf'';
          jkt = (case object_value cnf of Some c \<Rightarrow> nonempty_string (get c ''jkt'') | None \<Rightarrow> None);
          bound = (case object_value (get claims ''binding'') of
                     Some b \<Rightarrow> nonempty_string (get b ''cnf'') | None \<Rightarrow> None)
      in orelse jkt (orelse (nonempty_string cnf) bound))"

definition claimsOf :: "json \<Rightarrow> json" where
  "claimsOf raw = (case object_value (get raw ''claims'') of Some c \<Rightarrow> c | None \<Rightarrow> raw)"

definition decodeJwsClaims :: "(jstring \<Rightarrow> json option) \<Rightarrow> jstring option \<Rightarrow> json option" where
  "decodeJwsClaims decode_json jws =
     (case jws of None \<Rightarrow> None
      | Some s \<Rightarrow> (case split_on (cu (CHR ''.'')) s of
           h # seg # rest \<Rightarrow> if seg = [] then None else object_value (decode_json seg)
         | _ \<Rightarrow> None))"

definition embeddedVoucher :: "(jstring \<Rightarrow> json option) \<Rightarrow> json \<Rightarrow> jstring option" where
  "embeddedVoucher decode_json claims =
     (case as_string (get claims ''voucher'') of
        Some v \<Rightarrow> Some v
      | None \<Rightarrow> (case get claims ''chain'' of
           Some (JArr (c # cs)) \<Rightarrow>
             (case decodeJwsClaims decode_json (as_string (Some c)) of
                Some hop \<Rightarrow> as_string (get hop ''voucher'') | None \<Rightarrow> None)
         | _ \<Rightarrow> None))"

definition wrapperToken :: "json option \<Rightarrow> jstring option" where
  "wrapperToken w = (case object_value w of Some x \<Rightarrow> nonempty_string (get x ''token'') | None \<Rightarrow> None)"

definition syntheticDelegationJti ::
  "(jstring \<Rightarrow> json option) \<Rightarrow> (jstring \<Rightarrow> byte list) \<Rightarrow> jstring \<Rightarrow> jstring" where
  "syntheticDelegationJti decode_json sha1 token =
     (let content = (case jwsSigningInput decode_json token of Some s \<Rightarrow> s | None \<Rightarrow> token);
          b = take 16 (sha1 (js ''aitp-delegation:v2'' @ [0] @ content));
          b1 = b[6 := (b ! 6 AND 0x0F) OR 0x50];
          b2 = b1[8 := (b1 ! 8 AND 0x3F) OR 0x80]
      in uuid_of_hex (concat (map hex_byte b2)))"

section \<open>Parsers\<close>

record parsed_tct =
  pt_jti :: jstring
  pt_issuerAid :: jstring
  pt_subjectAid :: jstring
  pt_audienceAid :: jstring
  pt_grants :: "jstring list"
  pt_bindingCnf :: "jstring option"
  pt_issuedAt :: instant
  pt_expiresAt :: "instant option"

definition with_times ::
  "json \<Rightarrow> instant \<Rightarrow> (instant \<Rightarrow> instant option \<Rightarrow> 'a) \<Rightarrow> range_error + 'a option" where
  "with_times claims fallbackTs mk =
     (case epochToIso (readNumber claims [''iat'', ''issued_at'']) of
        Inl e \<Rightarrow> Inl e
      | Inr iat \<Rightarrow> (case epochToIso (readNumber claims [''exp'', ''expires_at'']) of
           Inl e \<Rightarrow> Inl e
         | Inr exp' \<Rightarrow> Inr (Some (mk (case iat of None \<Rightarrow> fallbackTs | Some t \<Rightarrow> t) exp'))))"

definition parseTct :: "json \<Rightarrow> instant \<Rightarrow> range_error + parsed_tct option" where
  "parseTct raw fallbackTs =
     (if \<not> is_object raw then Inr None
      else
        let claims = claimsOf raw;
            jti = readString claims [''jti''];
            issuer = readString claims [''iss'', ''issuer'', ''issuer_aid'', ''issuerAid''];
            subject = readString claims [''sub'', ''subject'', ''subject_aid'', ''subjectAid''];
            audience = readString claims [''aud'', ''audience'', ''audience_aid'', ''audienceAid'']
        in if jti = None \<or> \<not> JTI_UUID_RE (the jti) \<or> issuer = None \<or> subject = None then Inr None
           else with_times claims fallbackTs (\<lambda>issued exp'.
             \<lparr>pt_jti = the jti, pt_issuerAid = the issuer, pt_subjectAid = the subject,
              pt_audienceAid = (case audience of None \<Rightarrow> the subject | Some a \<Rightarrow> a),
              pt_grants = readStringArray claims [''grants''], pt_bindingCnf = readCnf claims,
              pt_issuedAt = issued, pt_expiresAt = exp'\<rparr>))"

record parsed_delegation =
  pd_jti :: jstring
  pd_parentJti :: jstring
  pd_delegatorAid :: jstring
  pd_delegateeAid :: jstring
  pd_scope :: "jstring list"
  pd_issuedAt :: instant
  pd_expiresAt :: "instant option"

definition delegation_wrapper :: "json \<Rightarrow> json option" where
  "delegation_wrapper payload = nullish_or (get payload ''tct'') (get payload ''delegation'')"

definition delegation_claims :: "json \<Rightarrow> json" where
  "delegation_claims payload =
     (case object_value (delegation_wrapper payload) of Some w \<Rightarrow> claimsOf w | None \<Rightarrow> claimsOf payload)"

definition delegation_parent :: "(jstring \<Rightarrow> json option) \<Rightarrow> json \<Rightarrow> jstring option" where
  "delegation_parent decode_json payload =
     (let claims = delegation_claims payload
      in orelse (orelse (readString payload [''parent_jti'', ''parentJti'', ''src_jti''])
                        (readString claims [''src_jti'', ''parent_jti'', ''parentJti'']))
           (case decodeJwsClaims decode_json (embeddedVoucher decode_json claims) of
              None \<Rightarrow> None | Some v \<Rightarrow> readString v [''src_jti'', ''parent_jti'']))"

definition delegation_jti ::
  "(jstring \<Rightarrow> json option) \<Rightarrow> (jstring \<Rightarrow> byte list) \<Rightarrow> json \<Rightarrow> jstring option" where
  "delegation_jti decode_json sha1 payload =
     orelse (orelse (readString payload [''jti'', ''child_jti''])
                    (readString (delegation_claims payload) [''jti'', ''child_jti'']))
       (map_option (syntheticDelegationJti decode_json sha1) (wrapperToken (delegation_wrapper payload)))"

definition parseDelegation ::
  "(jstring \<Rightarrow> json option) \<Rightarrow> (jstring \<Rightarrow> byte list) \<Rightarrow> json \<Rightarrow> instant \<Rightarrow>
     range_error + parsed_delegation option" where
  "parseDelegation decode_json sha1 payload fallbackTs =
     (let claims = delegation_claims payload;
          delegator = orelse (readString payload [''delegator_aid'', ''delegator''])
                             (readString claims [''delegator'', ''delegator_aid'', ''iss'']);
          delegatee = orelse (readString payload [''delegatee_aid'', ''delegatee''])
                             (readString claims [''delegatee'', ''delegatee_aid'', ''sub'']);
          parentJti = delegation_parent decode_json payload;
          jti = delegation_jti decode_json sha1 payload
      in if jti = None \<or> \<not> JTI_UUID_RE (the jti) \<or> parentJti = None \<or> \<not> JTI_UUID_RE (the parentJti)
         then Inr None
         else if delegator = None \<or> delegatee = None then Inr None
         else with_times claims fallbackTs (\<lambda>issued exp'.
           \<lparr>pd_jti = the jti, pd_parentJti = the parentJti, pd_delegatorAid = the delegator,
            pd_delegateeAid = the delegatee, pd_scope = readStringArray claims [''scope'', ''grants''],
            pd_issuedAt = issued, pd_expiresAt = exp'\<rparr>))"

section \<open>Verification of what was observed\<close>

record verification_outcome =
  attempted :: bool
  verified :: bool
  vo_error :: "jstring option"

record projection_decision =
  project :: bool
  pj_error :: "jstring option"

record artifact_sdk =
  sdk_verifyTct :: "jstring \<Rightarrow> jstring \<Rightarrow> jstring \<Rightarrow> jstring option"
  sdk_verifyDelegation :: "jstring \<Rightarrow> jstring \<Rightarrow> jstring list \<Rightarrow> jstring option"

definition NO_TOKEN :: verification_outcome where
  "NO_TOKEN = \<lparr>attempted = False, verified = False, vo_error = Some (js ''no signed token to verify'')\<rparr>"

definition decideProjection :: "verification_mode \<Rightarrow> verification_outcome \<Rightarrow> projection_decision" where
  "decideProjection mode outcome =
     (case mode of
        Off \<Rightarrow> \<lparr>project = True, pj_error = None\<rparr>
      | Strict \<Rightarrow>
          (if attempted outcome \<and> verified outcome then \<lparr>project = True, pj_error = None\<rparr>
           else \<lparr>project = False,
             pj_error = Some (case vo_error outcome of None \<Rightarrow> js ''verification failed'' | Some e \<Rightarrow> e)\<rparr>)
      | Warn \<Rightarrow>
          \<lparr>project = True,
           pj_error = (if attempted outcome \<and> \<not> verified outcome then vo_error outcome else None)\<rparr>)"

definition sdk_outcome :: "jstring option \<Rightarrow> verification_outcome" where
  "sdk_outcome thrown =
     (case thrown of None \<Rightarrow> \<lparr>attempted = True, verified = True, vo_error = None\<rparr>
      | Some e \<Rightarrow> \<lparr>attempted = True, verified = False, vo_error = Some e\<rparr>)"

definition verifyObservedTct :: "artifact_sdk \<Rightarrow> json \<Rightarrow> parsed_tct \<Rightarrow> verification_outcome" where
  "verifyObservedTct sdk raw parsed =
     (case wrapperToken (Some raw) of
        None \<Rightarrow> NO_TOKEN
      | Some token \<Rightarrow>
          (case pt_grants parsed of
             [] \<Rightarrow> \<lparr>attempted = True, verified = False,
                   vo_error = Some (js ''cannot verify: TCT carries no grant to check'')\<rparr>
           | g # gs \<Rightarrow> sdk_outcome (sdk_verifyTct sdk token g (pt_audienceAid parsed))))"

definition verifyObservedDelegation :: "artifact_sdk \<Rightarrow> json \<Rightarrow> jstring list \<Rightarrow> verification_outcome" where
  "verifyObservedDelegation sdk payload issuerManifests =
     (let wrapper = delegation_wrapper payload
      in case wrapperToken wrapper of
           None \<Rightarrow> NO_TOKEN
         | Some token \<Rightarrow>
             (case (case object_value wrapper of
                      Some w \<Rightarrow> (case object_value (get w ''claims'') of
                                  Some c \<Rightarrow> nonempty_string (get c ''aud'') | None \<Rightarrow> None)
                    | None \<Rightarrow> None) of
                None \<Rightarrow> \<lparr>attempted = True, verified = False,
                         vo_error = Some (js ''cannot verify: delegation claims carry no aud'')\<rparr>
              | Some aud \<Rightarrow> sdk_outcome (sdk_verifyDelegation sdk token aud issuerManifests)))"

definition gateObserved :: "verification_mode \<Rightarrow> verification_outcome \<Rightarrow> bool" where
  "gateObserved mode outcome = (mode = Off \<or> project (decideProjection mode outcome))"

section \<open>Lemmas\<close>

text \<open>The modes are ordered by how much they let through.\<close>

instantiation verification_mode :: linorder
begin

fun mode_rank :: "verification_mode \<Rightarrow> nat" where
  "mode_rank Off = 0"
| "mode_rank Warn = 1"
| "mode_rank Strict = 2"

definition less_eq_verification_mode :: "verification_mode \<Rightarrow> verification_mode \<Rightarrow> bool" where
  "less_eq_verification_mode a b \<longleftrightarrow> mode_rank a \<le> mode_rank b"

definition less_verification_mode :: "verification_mode \<Rightarrow> verification_mode \<Rightarrow> bool" where
  "less_verification_mode a b \<longleftrightarrow> mode_rank a < mode_rank b"

instance
proof
  fix a b :: verification_mode
  show "a \<le> b \<Longrightarrow> b \<le> a \<Longrightarrow> a = b"
    by (cases a; cases b) (simp_all add: less_eq_verification_mode_def)
qed (auto simp: less_eq_verification_mode_def less_verification_mode_def)

end

lemma gateObserved_antimono: "a \<le> b \<Longrightarrow> gateObserved b outcome \<Longrightarrow> gateObserved a outcome"
  by (cases a; cases b)
     (auto simp: gateObserved_def decideProjection_def less_eq_verification_mode_def split: if_splits)

lemma gateObserved_Strict: "gateObserved Strict outcome \<longleftrightarrow> attempted outcome \<and> verified outcome"
  by (simp add: gateObserved_def decideProjection_def)

lemma sdk_outcome_verified: "attempted (sdk_outcome r) \<and> (verified (sdk_outcome r) \<longleftrightarrow> r = None)"
  by (simp add: sdk_outcome_def split: option.split)

lemma verifyObservedTct_verified:
  "verified (verifyObservedTct sdk raw t) \<longleftrightarrow>
     (\<exists>token g gs. wrapperToken (Some raw) = Some token \<and> pt_grants t = g # gs \<and>
        sdk_verifyTct sdk token g (pt_audienceAid t) = None)"
  using sdk_outcome_verified
  by (auto simp: verifyObservedTct_def NO_TOKEN_def split: option.splits list.splits)

lemma readString_nonempty: "readString v ks = Some s \<Longrightarrow> s \<noteq> []"
  by (induction ks) (auto simp: nonempty_string_Some split: option.splits)

lemma orelse_Some: "orelse a b = Some x \<longleftrightarrow> a = Some x \<or> a = None \<and> b = Some x"
  by (cases a) auto

lemma with_times_Some:
  "with_times claims ts mk = Inr (Some x) \<Longrightarrow> \<exists>i e. x = mk i e"
  by (auto simp: with_times_def split: sum.splits)

text \<open>What a parsed TCT always satisfies.\<close>

lemma parseTct_Some:
  assumes "parseTct raw ts = Inr (Some t)"
  shows "JTI_UUID_RE (pt_jti t) \<and> pt_issuerAid t \<noteq> [] \<and> pt_subjectAid t \<noteq> [] \<and> pt_audienceAid t \<noteq> []"
  using assms
  by (auto simp: parseTct_def Let_def simp del: readString.simps readStringArray.simps
      split: if_splits option.splits dest!: with_times_Some dest: readString_nonempty)

lemma parseDelegation_Some:
  assumes "parseDelegation dj sha1 payload ts = Inr (Some t)"
  shows "JTI_UUID_RE (pd_jti t) \<and> JTI_UUID_RE (pd_parentJti t) \<and> pd_delegatorAid t \<noteq> [] \<and> pd_delegateeAid t \<noteq> []"
  using assms
  by (auto simp: parseDelegation_def Let_def orelse_Some simp del: readString.simps readStringArray.simps
      split: if_splits dest!: with_times_Some dest: readString_nonempty)

section \<open>Properties\<close>

text \<open>
  The two telemetry shapes are the same report: a v0.2 wrapper with a token projects exactly
  what its flat claims project, so a rollout with mixed SDK versions projects alike; and whatever
  parses has a well-formed token id and non-empty issuer, subject and audience.
\<close>

theorem parseTct_wrapper:
  assumes "is_plain_object claims" and "object_value (get claims ''claims'') = None"
  shows "parseTct (jobj [(''token'', JStr token), (''claims'', claims)]) ts = parseTct claims ts \<and>
    (\<forall>t. parseTct claims ts = Inr (Some t) \<longrightarrow>
       JTI_UUID_RE (pt_jti t) \<and> pt_issuerAid t \<noteq> [] \<and> pt_subjectAid t \<noteq> [] \<and> pt_audienceAid t \<noteq> [])"
proof -
  have obj: "is_object claims" using assms(1) by (cases claims) auto
  have "claimsOf (jobj [(''token'', JStr token), (''claims'', claims)]) = claims" "claimsOf claims = claims"
    using obj assms(2) by (simp_all add: claimsOf_def object_value_def)
  moreover have "is_object (jobj ps)" for ps by (simp add: jobj_def)
  ultimately have "parseTct (jobj [(''token'', JStr token), (''claims'', claims)]) ts = parseTct claims ts"
    using obj by (simp add: parseTct_def Let_def)
  with parseTct_Some show ?thesis by blast
qed

definition demo_jti :: jstring where "demo_jti = js ''00000000-0000-4000-8000-000000000001''"

definition demo_claims :: json where
  "demo_claims = jobj [(''jti'', JStr demo_jti), (''iss'', jlit ''aid:a''), (''sub'', jlit ''aid:b''),
     (''exp'', jint 2000000000)]"

lemma demo_jti_ok: "JTI_UUID_RE demo_jti"
  by code_simp

theorem parseTct_wrapper_witness:
  "\<exists>t. parseTct (jobj [(''token'', jlit ''x.y.z''), (''claims'', demo_claims)]) 0 = Inr (Some t) \<and>
     pt_audienceAid t = js ''aid:b''"
proof -
  have "is_plain_object demo_claims" "object_value (get demo_claims ''claims'') = None"
    by (simp_all add: demo_claims_def jobj_def object_value_def map_of_js)
  from parseTct_wrapper [OF this]
  have "parseTct (jobj [(''token'', jlit ''x.y.z''), (''claims'', demo_claims)]) 0 = parseTct demo_claims 0" ..
  moreover have "is_object demo_claims" by (simp add: demo_claims_def jobj_def)
  moreover have "claimsOf demo_claims = demo_claims"
    by (simp add: claimsOf_def demo_claims_def object_value_def)
  moreover have "demo_jti \<noteq> []" by (simp add: demo_jti_def)
  ultimately show ?thesis
    using demo_jti_ok
    by (simp add: parseTct_def Let_def with_times_def nonempty_string_def demo_claims_def
        epochToIso_def time_clip_def)
qed

text \<open>
  A single-hop delegation without an id of its own gets a stable one: the synthetic id is a
  well-formed version 5 UUID that every id check accepts, and re-reporting the token with another
  encoding of its signature segment gives the same id.
\<close>

theorem synthetic_jti_stable:
  assumes "\<And>x. 16 \<le> length (sha1 x)"
    and "jwsSigningInput dj token = Some content" and "jwsSigningInput dj token' = Some content"
  shows "JTI_UUID_RE (syntheticDelegationJti dj sha1 token) \<and>
    syntheticDelegationJti dj sha1 token ! 14 = cu (CHR ''5'') \<and>
    syntheticDelegationJti dj sha1 token' = syntheticDelegationJti dj sha1 token"
proof -
  let ?d = "sha1 (js ''aitp-delegation:v2'' @ [0] @ content)"
  let ?b1 = "(take 16 ?d)[6 := (take 16 ?d ! 6 AND 0x0F) OR 0x50]"
  let ?b = "?b1[8 := (?b1 ! 8 AND 0x3F) OR 0x80]"
  let ?x = "concat (map hex_byte ?b)"
  have id: "syntheticDelegationJti dj sha1 tok = uuid_of_hex ?x" if "jwsSigningInput dj tok = Some content" for tok
    using that by (simp add: syntheticDelegationJti_def Let_def)
  note x = stamped_hex [OF assms(1) _ refl refl refl, of "0x50"]
  have "matches (uuid_pattern is_any_hex (\<lambda>c. 49 \<le> c \<and> c \<le> 53)
      (\<lambda>c. c = 56 \<or> c = 57 \<or> c = 97 \<or> c = 98 \<or> c = 65 \<or> c = 66)) (uuid_of_hex ?x)"
    using x by (intro uuid_of_hex_matches) (auto simp: hex_digit_def is_any_hex_def)
  moreover have "uuid_of_hex ?x ! 14 = cu (CHR ''5'')"
  proof -
    have "uuid_of_hex ?x ! 14 = ?x ! 12"
      using x by (simp add: uuid_of_hex_def nth_append min_def)
    also have "\<dots> = cu (CHR ''5'')" using x by (simp add: hex_digit_def cu_def)
    finally show ?thesis .
  qed
  ultimately show ?thesis using id assms(2,3) by (simp add: JTI_UUID_RE_def)
qed

theorem synthetic_jti_stable_witness:
  "syntheticDelegationJti (\<lambda>_. Some (jobj [(''alg'', jlit ''E'')])) (\<lambda>_. replicate 20 1) (js ''h.p.s'') =
   syntheticDelegationJti (\<lambda>_. Some (jobj [(''alg'', jlit ''E'')])) (\<lambda>_. replicate 20 1) (js ''h.p.t'')"
proof -
  let ?dj = "\<lambda>_. Some (jobj [(''alg'', jlit ''E'')])"
  have "jwsSigningInput ?dj (js ''h.p.s'') = Some (js ''h.p'')" "jwsSigningInput ?dj (js ''h.p.t'') = Some (js ''h.p'')"
    by (simp_all add: jwsSigningInput_def js_Cons b64url_segment_def b64url_char_def is_alnum_def
        is_lower_def cu_def jobj_def map_of_js)
  from synthetic_jti_stable [OF _ this(2,1), of "\<lambda>_. replicate 20 1"] show ?thesis by simp
qed

end
