(* ===== verification/Tct_Monitor.thy ===== *)
theory Tct_Monitor
  imports Tct_Parse Db_Schema
begin

text \<open>
  The token projection, \<open>TctMonitorService\<close> of \<open>src/src/lib/tcts/monitor.ts\<close>: reported TCTs and
  delegations become rows, reported revocations mark a row and cascade to its descendants. The
  recursive query of the cascade is the executable \<open>descendants\<close>, iterated once per row of the
  table, which is enough to reach its fixed point; it is related to the inductive \<open>descends\<close>. An
  error (a time out of range, a value that does not fit its column) is caught by \<open>onEvent\<close> and
  ends the event: rows written before it stay, a transaction leaves nothing.
\<close>

section \<open>Rows\<close>

record tct_env =
  te_mode :: verification_mode
  te_decode :: "jstring \<Rightarrow> json option"
  te_sha1 :: "jstring \<Rightarrow> byte list"
  te_sdk :: artifact_sdk

definition tctRevokedAt :: "jstring \<Rightarrow> db \<Rightarrow> instant option" where
  "tctRevokedAt jti d = map_option re_revokedAt (find_row re_jti (uuid_value jti) (revocation_entries d))"

definition parentRevokedAt :: "jstring \<Rightarrow> db \<Rightarrow> instant option" where
  "parentRevokedAt parentJti d =
     orelse (tctRevokedAt parentJti d)
       (orelse (case find_row it_jti (uuid_value parentJti) (issued_tcts d) of
                  Some r \<Rightarrow> if it_revoked r then it_revokedAt r else None | None \<Rightarrow> None)
               (case find_row dg_jti (uuid_value parentJti) (delegations d) of
                  Some r \<Rightarrow> if dg_revoked r then dg_revokedAt r else None | None \<Rightarrow> None))"

definition instant_fits :: "instant option \<Rightarrow> bool" where
  "instant_fits t \<longleftrightarrow> t = None \<or> inStorableRange t"

definition tct_row :: "instant \<Rightarrow> audit_event \<Rightarrow> parsed_tct \<Rightarrow> db \<Rightarrow> issued_tct" where
  "tct_row now e t d =
     (let revokedAt = tctRevokedAt (pt_jti t) d
      in \<lparr>it_jti = uuid_value (pt_jti t), it_issuerAid = pt_issuerAid t, it_subjectAid = pt_subjectAid t,
          it_audienceAid = pt_audienceAid t, it_grants = pt_grants t, it_bindingCnf = pt_bindingCnf t,
          it_issuedAt = pt_issuedAt t, it_expiresAt = pt_expiresAt t, it_sessionId = ev_sessionId e,
          it_revoked = (revokedAt \<noteq> None), it_revokedAt = revokedAt, it_createdAt = now\<rparr>)"

definition tct_storable :: "issued_tct \<Rightarrow> bool" where
  "tct_storable r \<longleftrightarrow> column_fits 512 (Some (it_issuerAid r)) \<and> column_fits 512 (Some (it_subjectAid r)) \<and>
     column_fits 512 (Some (it_audienceAid r)) \<and> column_fits 128 (it_bindingCnf r) \<and>
     column_fits 255 (it_sessionId r) \<and> instant_fits (Some (it_issuedAt r)) \<and> instant_fits (it_expiresAt r)"

definition delegation_row :: "instant \<Rightarrow> parsed_delegation \<Rightarrow> db \<Rightarrow> delegation" where
  "delegation_row now t d =
     (let revokedAt = parentRevokedAt (pd_parentJti t) d
      in \<lparr>dg_jti = uuid_value (pd_jti t), dg_parentJti = uuid_value (pd_parentJti t),
          dg_delegatorAid = pd_delegatorAid t, dg_delegateeAid = pd_delegateeAid t, dg_scope = pd_scope t,
          dg_issuedAt = pd_issuedAt t, dg_expiresAt = pd_expiresAt t, dg_revoked = (revokedAt \<noteq> None),
          dg_revokedAt = revokedAt,
          dg_revokedReason = (if revokedAt \<noteq> None then Some ParentRevoked else None), dg_createdAt = now\<rparr>)"

definition delegation_storable :: "delegation \<Rightarrow> bool" where
  "delegation_storable r \<longleftrightarrow> column_fits 512 (Some (dg_delegatorAid r)) \<and>
     column_fits 512 (Some (dg_delegateeAid r)) \<and> instant_fits (Some (dg_issuedAt r)) \<and>
     instant_fits (dg_expiresAt r)"

section \<open>Descendants\<close>

definition children :: "delegation list \<Rightarrow> jstring list \<Rightarrow> jstring list" where
  "children rows ps = map dg_jti (filter (\<lambda>r. dg_parentJti r \<in> set ps) rows)"

fun descend :: "nat \<Rightarrow> delegation list \<Rightarrow> jstring list \<Rightarrow> jstring list" where
  "descend 0 rows found = found"
| "descend (Suc n) rows found =
     descend n rows (found @ filter (\<lambda>j. j \<notin> set found) (children rows found))"

definition descendants :: "delegation list \<Rightarrow> jstring \<Rightarrow> jstring list" where
  "descendants rows j = descend (length rows) rows (children rows [j])"

inductive descends :: "delegation list \<Rightarrow> jstring \<Rightarrow> jstring \<Rightarrow> bool" for rows j where
  descends_child: "r \<in> set rows \<Longrightarrow> dg_parentJti r = j \<Longrightarrow> descends rows j (dg_jti r)"
| descends_deeper: "descends rows j k \<Longrightarrow> r \<in> set rows \<Longrightarrow> dg_parentJti r = k \<Longrightarrow> descends rows j (dg_jti r)"

definition cascade :: "instant \<Rightarrow> jstring \<Rightarrow> delegation list \<Rightarrow> delegation list" where
  "cascade revokedAt j rows =
     (let ds = descendants rows j
      in update_where (\<lambda>r. \<not> dg_revoked r \<and> dg_jti r \<in> set ds)
           (\<lambda>r. r\<lparr>dg_revoked := True, dg_revokedAt := Some revokedAt, dg_revokedReason := Some ParentRevoked\<rparr>)
           rows)"

section \<open>Events\<close>

datatype projection_error = OutOfRange | RowRefused

definition tct_list :: "json \<Rightarrow> json list" where
  "tct_list payload =
     (case get payload ''tcts'' of
        Some (JArr ts) \<Rightarrow> ts
      | _ \<Rightarrow> (if truthy (get payload ''tct'') then [the (get payload ''tct'')] else []))"

fun recordIssuedTcts ::
  "tct_env \<Rightarrow> instant \<Rightarrow> audit_event \<Rightarrow> json list \<Rightarrow> db \<Rightarrow> projection_error option \<times> db" where
  "recordIssuedTcts env now e [] d = (None, d)"
| "recordIssuedTcts env now e (raw # raws) d =
     (case parseTct raw (ev_ts e) of
        Inl RangeError \<Rightarrow> (Some OutOfRange, d)
      | Inr None \<Rightarrow> recordIssuedTcts env now e raws d
      | Inr (Some t) \<Rightarrow>
          (if \<not> gateObserved (te_mode env) (verifyObservedTct (te_sdk env) raw t)
           then recordIssuedTcts env now e raws d
           else let row = tct_row now e t d
                in if \<not> tct_storable row then (Some RowRefused, d)
                   else recordIssuedTcts env now e raws
                     (d\<lparr>issued_tcts := snd (insert_nothing it_jti row (issued_tcts d))\<rparr>)))"

definition event_jti :: "audit_event \<Rightarrow> jstring option" where
  "event_jti e = (case readString (ev_payload e) [''jti''] of
     Some j \<Rightarrow> if JTI_UUID_RE j then Some (uuid_value j) else None | None \<Rightarrow> None)"

definition recordRevocation :: "audit_event \<Rightarrow> db \<Rightarrow> db" where
  "recordRevocation e d =
     (case event_jti e of
        None \<Rightarrow> d
      | Some j \<Rightarrow>
          d\<lparr>issued_tcts := update_where (\<lambda>r. it_jti r = j \<and> \<not> it_revoked r)
               (\<lambda>r. r\<lparr>it_revoked := True, it_revokedAt := Some (ev_ts e)\<rparr>) (issued_tcts d),
            delegations := cascade (ev_ts e) j (delegations d)\<rparr>)"

definition recordDelegation :: "tct_env \<Rightarrow> instant \<Rightarrow> audit_event \<Rightarrow> db \<Rightarrow> projection_error option \<times> db" where
  "recordDelegation env now e d =
     (case parseDelegation (te_decode env) (te_sha1 env) (ev_payload e) (ev_ts e) of
        Inl RangeError \<Rightarrow> (Some OutOfRange, d)
      | Inr None \<Rightarrow> (None, d)
      | Inr (Some t) \<Rightarrow>
          (let issuerManifests = (if te_mode env = Off then []
                 else case find_row ag_aid (pd_delegatorAid t) (agents d) of
                        None \<Rightarrow> [] | Some a \<Rightarrow> [ag_manifestJson a])
           in if \<not> gateObserved (te_mode env)
                   (verifyObservedDelegation (te_sdk env) (ev_payload e) issuerManifests)
              then (None, d)
              else let row = delegation_row now t d
                   in if \<not> delegation_storable row then (Some RowRefused, d)
                      else (None, d\<lparr>delegations := snd (insert_nothing dg_jti row (delegations d))\<rparr>)))"

definition recordDelegationRevocation :: "audit_event \<Rightarrow> db \<Rightarrow> db" where
  "recordDelegationRevocation e d =
     (case event_jti e of
        None \<Rightarrow> d
      | Some j \<Rightarrow>
          d\<lparr>delegations := cascade (ev_ts e) j
             (update_where (\<lambda>r. dg_jti r = j \<and> \<not> dg_revoked r)
               (\<lambda>r. r\<lparr>dg_revoked := True, dg_revokedAt := Some (ev_ts e), dg_revokedReason := Some Explicit\<rparr>)
               (delegations d))\<rparr>)"

definition onTctEvent :: "tct_env \<Rightarrow> instant \<Rightarrow> audit_event \<Rightarrow> db \<Rightarrow> db" where
  "onTctEvent env now e d =
     (if ev_type e = js ''tct.issued'' \<or> ev_type e = js ''handshake.complete'' then
        snd (recordIssuedTcts env now e (tct_list (ev_payload e)) d)
      else if ev_type e = js ''tct.revoked'' then recordRevocation e d
      else if ev_type e = js ''delegation.issued'' then snd (recordDelegation env now e d)
      else if ev_type e = js ''delegation.revoked'' then recordDelegationRevocation e d
      else d)"

definition tct_step :: "tct_env \<Rightarrow> db \<Rightarrow> instant \<times> audit_event \<Rightarrow> db" where
  "tct_step env d x = onTctEvent env (fst x) (snd x) d"

section \<open>Descendants: the fixed point\<close>

lemma children_iff: "k \<in> set (children rows ps) \<longleftrightarrow> (\<exists>r \<in> set rows. dg_parentJti r \<in> set ps \<and> dg_jti r = k)"
  by (auto simp: children_def)

definition closed_under :: "delegation list \<Rightarrow> jstring set \<Rightarrow> bool" where
  "closed_under rows S \<longleftrightarrow> (\<forall>r \<in> set rows. dg_parentJti r \<in> S \<longrightarrow> dg_jti r \<in> S)"

lemma descend_mono: "set found \<subseteq> set (descend n rows found)"
  by (induction n arbitrary: found) (auto, fastforce)

lemma descend_stable: "closed_under rows (set found) \<Longrightarrow> set (descend n rows found) = set found"
proof (induction n arbitrary: found)
  case (Suc n)
  then have "filter (\<lambda>j. j \<notin> set found) (children rows found) = []"
    by (auto simp: filter_empty_conv children_iff closed_under_def)
  with Suc show ?case by simp
qed simp

lemma descend_closed:
  "card (dg_jti ` set rows - set found) \<le> n \<Longrightarrow> closed_under rows (set (descend n rows found))"
proof (induction n arbitrary: found)
  case 0
  then have "dg_jti ` set rows \<subseteq> set found" by (simp add: card_eq_0_iff)
  then show ?case by (auto simp: closed_under_def)
next
  case (Suc n)
  let ?next = "found @ filter (\<lambda>j. j \<notin> set found) (children rows found)"
  show ?case
  proof (cases "closed_under rows (set found)")
    case True
    with descend_stable [OF this, of "Suc n"] show ?thesis by (simp add: closed_under_def)
  next
    case False
    then obtain k where k: "k \<in> set (children rows found)" "k \<notin> set found"
      by (auto simp: closed_under_def children_iff)
    then have "k \<in> dg_jti ` set rows" "k \<in> set ?next" by (auto simp: children_def)
    with k have "dg_jti ` set rows - set ?next \<subset> dg_jti ` set rows - set found" by auto
    then have "card (dg_jti ` set rows - set ?next) < card (dg_jti ` set rows - set found)"
      by (intro psubset_card_mono) auto
    with Suc show ?thesis by simp
  qed
qed

lemma descend_sound: "(\<And>k. k \<in> set found \<Longrightarrow> descends rows j k) \<Longrightarrow> k \<in> set (descend n rows found) \<Longrightarrow> descends rows j k"
proof (induction n arbitrary: found)
  case (Suc n)
  let ?next = "found @ filter (\<lambda>j. j \<notin> set found) (children rows found)"
  have "\<forall>k' \<in> set ?next. descends rows j k'"
    using Suc.prems(1) by (auto simp: children_iff intro: descends_deeper)
  then show ?case using Suc.IH [of ?next] Suc.prems(2) by simp
qed auto

lemma descendants_iff: "k \<in> set (descendants rows j) \<longleftrightarrow> descends rows j k"
proof
  show "k \<in> set (descendants rows j) \<Longrightarrow> descends rows j k"
    unfolding descendants_def by (rule descend_sound) (auto simp: children_iff intro: descends_child)
next
  have "card (dg_jti ` set rows - set (children rows [j])) \<le> length rows"
    by (meson card_image_le card_length card_mono Diff_subset finite_imageI finite_set le_trans)
  then have closed: "closed_under rows (set (descendants rows j))"
    unfolding descendants_def by (rule descend_closed)
  have first: "set (children rows [j]) \<subseteq> set (descendants rows j)"
    unfolding descendants_def by (rule descend_mono)
  show "descends rows j k \<Longrightarrow> k \<in> set (descendants rows j)"
  proof (induction rule: descends.induct)
    case (descends_child r)
    then have "dg_jti r \<in> set (children rows [j])" by (auto simp: children_iff)
    with first show ?case by blast
  qed (use closed in \<open>auto simp: closed_under_def\<close>)
qed

section \<open>Laws of the projection\<close>

lemma cascade_eq:
  "cascade revokedAt j rows =
     map (\<lambda>r. if \<not> dg_revoked r \<and> descends rows j (dg_jti r)
       then r\<lparr>dg_revoked := True, dg_revokedAt := Some revokedAt, dg_revokedReason := Some ParentRevoked\<rparr>
       else r) rows"
  by (simp add: cascade_def update_where_def descendants_iff)

lemma descends_mono:
  assumes "(\<lambda>r. (dg_jti r, dg_parentJti r)) ` set rows \<subseteq> (\<lambda>r. (dg_jti r, dg_parentJti r)) ` set rows'"
  shows "descends rows j k \<Longrightarrow> descends rows' j k"
proof (induction rule: descends.induct)
  case (descends_child r)
  then obtain r' where "r' \<in> set rows'" "dg_jti r' = dg_jti r" "dg_parentJti r' = dg_parentJti r"
    using assms by force
  with descends_child show ?case by (metis descends.descends_child)
next
  case (descends_deeper k r)
  then obtain r' where "r' \<in> set rows'" "dg_jti r' = dg_jti r" "dg_parentJti r' = dg_parentJti r"
    using assms by force
  with descends_deeper show ?case by (metis descends.descends_deeper)
qed

definition explicit_mark :: "instant \<Rightarrow> jstring \<Rightarrow> delegation list \<Rightarrow> delegation list" where
  "explicit_mark ts j = update_where (\<lambda>r. dg_jti r = j \<and> \<not> dg_revoked r)
     (\<lambda>r. r\<lparr>dg_revoked := True, dg_revokedAt := Some ts, dg_revokedReason := Some Explicit\<rparr>)"

lemma recordDelegationRevocation_eq:
  "recordDelegationRevocation e d = (case event_jti e of None \<Rightarrow> d
     | Some j \<Rightarrow> d\<lparr>delegations := cascade (ev_ts e) j (explicit_mark (ev_ts e) j (delegations d))\<rparr>)"
  by (simp add: recordDelegationRevocation_def explicit_mark_def split: option.split)

lemma explicit_mark_descends [simp]: "descends (explicit_mark ts j rows) = descends rows"
proof -
  have "map (\<lambda>r. (dg_jti r, dg_parentJti r)) (explicit_mark ts j rows) =
    map (\<lambda>r. (dg_jti r, dg_parentJti r)) rows"
    unfolding explicit_mark_def by (rule map_key_update_where) simp
  from arg_cong [OF this, of set]
  have same: "(\<lambda>r. (dg_jti r, dg_parentJti r)) ` set (explicit_mark ts j rows) =
    (\<lambda>r. (dg_jti r, dg_parentJti r)) ` set rows"
    by (simp only: set_map)
  show ?thesis
  proof (intro ext iffI)
    fix i k
    show "descends (explicit_mark ts j rows) i k \<Longrightarrow> descends rows i k"
      by (rule descends_mono [of "explicit_mark ts j rows"]) (simp_all only: same order_refl)
    show "descends rows i k \<Longrightarrow> descends (explicit_mark ts j rows) i k"
      by (rule descends_mono [of rows]) (simp_all only: same order_refl)
  qed
qed

text \<open>Revoked rows, as they are stored.\<close>

definition revoked_rows :: "db \<Rightarrow> (issued_tct + delegation) set" where
  "revoked_rows d = Inl ` {r \<in> set (issued_tcts d). it_revoked r} \<union> Inr ` {r \<in> set (delegations d). dg_revoked r}"

lemma update_where_keeps: "r \<in> set t \<Longrightarrow> \<not> p r \<Longrightarrow> r \<in> set (update_where p f t)"
  by (auto simp: set_update_where image_iff)

lemma insert_nothing_keeps: "r \<in> set t \<Longrightarrow> r \<in> set (snd (insert_nothing key x t))"
  by (simp add: insert_nothing_set)

lemma recordIssuedTcts_frame:
  "delegations (snd (recordIssuedTcts env now e raws d)) = delegations d \<and>
   revocation_entries (snd (recordIssuedTcts env now e raws d)) = revocation_entries d \<and>
   set (issued_tcts d) \<subseteq> set (issued_tcts (snd (recordIssuedTcts env now e raws d)))"
proof (induction raws arbitrary: d)
  case (Cons raw raws)
  have grow: "set (issued_tcts d) \<subseteq> set (snd (insert_nothing it_jti row (issued_tcts d)))" for row
    by (auto simp: insert_nothing_set)
  have "set (issued_tcts d) \<subseteq> set (issued_tcts (snd (recordIssuedTcts env now e raws
      (d\<lparr>issued_tcts := snd (insert_nothing it_jti row (issued_tcts d))\<rparr>))))" for row
    by (rule subset_trans [OF grow [of row]])
      (use Cons.IH [of "d\<lparr>issued_tcts := snd (insert_nothing it_jti row (issued_tcts d))\<rparr>"] in simp)
  with Cons.IH show ?case
    by (simp add: Let_def split: sum.split option.split range_error.split)
qed simp

lemma recordDelegation_frame:
  "issued_tcts (snd (recordDelegation env now e d)) = issued_tcts d \<and>
   revocation_entries (snd (recordDelegation env now e d)) = revocation_entries d \<and>
   set (delegations d) \<subseteq> set (delegations (snd (recordDelegation env now e d)))"
  by (auto simp: recordDelegation_def Let_def split: sum.split option.split range_error.split
      intro: insert_nothing_keeps)

lemma cascade_keeps: "r \<in> set rows \<Longrightarrow> dg_revoked r \<Longrightarrow> r \<in> set (cascade ts j rows)"
  by (auto simp: cascade_def Let_def intro: update_where_keeps)

lemma onTctEvent_marks [inv_intros]: "revoked_rows d \<subseteq> revoked_rows (onTctEvent env now e d)"
proof -
  have "revoked_rows d \<subseteq> revoked_rows (recordRevocation e d)"
    by (auto simp: revoked_rows_def recordRevocation_def split: option.split
        intro: cascade_keeps update_where_keeps)
  moreover have "revoked_rows d \<subseteq> revoked_rows (recordDelegationRevocation e d)"
    by (auto simp: revoked_rows_def recordDelegationRevocation_def split: option.split
        intro!: cascade_keeps update_where_keeps)
  moreover have "revoked_rows d \<subseteq> revoked_rows (snd (recordIssuedTcts env now e (tct_list (ev_payload e)) d))"
    using recordIssuedTcts_frame [of env now e "tct_list (ev_payload e)" d]
    by (auto simp: revoked_rows_def)
  moreover have "revoked_rows d \<subseteq> revoked_rows (snd (recordDelegation env now e d))"
    using recordDelegation_frame [of env now e d] by (auto simp: revoked_rows_def)
  ultimately show ?thesis by (simp add: onTctEvent_def)
qed

section \<open>Well-formed projections\<close>

definition tct_tables_ok :: "db \<Rightarrow> bool" where
  "tct_tables_ok d \<longleftrightarrow> unique_key it_jti (issued_tcts d) \<and> unique_key dg_jti (delegations d) \<and>
     (\<forall>r \<in> set (issued_tcts d). it_revoked r \<longrightarrow> it_revokedAt r \<noteq> None) \<and>
     (\<forall>r \<in> set (delegations d). dg_revoked r \<longrightarrow> dg_revokedAt r \<noteq> None)"

lemma tct_row_key [simp]: "it_jti (tct_row now e t d) = uuid_value (pt_jti t)"
  by (simp add: tct_row_def Let_def)

lemma delegation_row_key [simp]:
  "dg_jti (delegation_row now t d) = uuid_value (pd_jti t)"
  "dg_parentJti (delegation_row now t d) = uuid_value (pd_parentJti t)"
  "dg_revoked (delegation_row now t d) \<longleftrightarrow> parentRevokedAt (pd_parentJti t) d \<noteq> None"
  by (simp_all add: delegation_row_def Let_def)

lemma insert_tct_ok:
  "tct_tables_ok d \<Longrightarrow>
   tct_tables_ok (d\<lparr>issued_tcts := snd (insert_nothing it_jti (tct_row now e t d) (issued_tcts d))\<rparr>)"
  by (auto simp: tct_tables_ok_def insert_nothing_set tct_row_def Let_def intro: unique_key_insert_nothing)

lemma recordIssuedTcts_ok: "tct_tables_ok d \<Longrightarrow> tct_tables_ok (snd (recordIssuedTcts env now e raws d))"
  by (induction raws arbitrary: d)
     (auto simp: Let_def split: sum.split option.split range_error.split intro: insert_tct_ok)

lemma recordDelegation_ok: "tct_tables_ok d \<Longrightarrow> tct_tables_ok (snd (recordDelegation env now e d))"
  by (auto simp: recordDelegation_def Let_def tct_tables_ok_def insert_nothing_set delegation_row_def
      split: sum.split option.split range_error.split intro: unique_key_insert_nothing)

lemma mark_delegations_ok:
  "unique_key dg_jti rows \<Longrightarrow> unique_key dg_jti (cascade ts j rows) \<and> unique_key dg_jti (explicit_mark ts j rows)"
  by (auto simp: cascade_def explicit_mark_def Let_def intro!: unique_key_update_where)

lemma mark_delegations_stamped:
  "\<forall>r \<in> set rows. dg_revoked r \<longrightarrow> dg_revokedAt r \<noteq> None \<Longrightarrow>
   (\<forall>r \<in> set (cascade ts j rows). dg_revoked r \<longrightarrow> dg_revokedAt r \<noteq> None) \<and>
   (\<forall>r \<in> set (explicit_mark ts j rows). dg_revoked r \<longrightarrow> dg_revokedAt r \<noteq> None)"
  by (auto simp: cascade_def explicit_mark_def Let_def set_update_where)

lemma onTctEvent_ok [inv_intros]: "tct_tables_ok d \<Longrightarrow> tct_tables_ok (onTctEvent env now e d)"
proof -
  assume ok: "tct_tables_ok d"
  have dg: "unique_key dg_jti (delegations d)" "\<forall>r \<in> set (delegations d). dg_revoked r \<longrightarrow> dg_revokedAt r \<noteq> None"
    and it: "unique_key it_jti (issued_tcts d)" "\<forall>r \<in> set (issued_tcts d). it_revoked r \<longrightarrow> it_revokedAt r \<noteq> None"
    using ok unfolding tct_tables_ok_def by blast+
  have "tct_tables_ok (recordRevocation e d)"
  proof (cases "event_jti e")
    case (Some j)
    let ?t = "update_where (\<lambda>r. it_jti r = j \<and> \<not> it_revoked r)
      (\<lambda>r. r\<lparr>it_revoked := True, it_revokedAt := Some (ev_ts e)\<rparr>) (issued_tcts d)"
    have "unique_key it_jti ?t" using it(1) by (intro unique_key_update_where) simp_all
    moreover have "\<forall>r \<in> set ?t. it_revoked r \<longrightarrow> it_revokedAt r \<noteq> None"
      using it(2) by (auto simp: set_update_where)
    ultimately show ?thesis
      using Some mark_delegations_ok [OF dg(1)] mark_delegations_stamped [OF dg(2)]
      by (simp add: tct_tables_ok_def recordRevocation_def del: not_None_eq)
  qed (simp add: recordRevocation_def ok)
  moreover have "tct_tables_ok (recordDelegationRevocation e d)"
  proof (cases "event_jti e")
    case (Some j)
    note m = mark_delegations_ok [OF dg(1), of "ev_ts e" j, THEN conjunct2]
      mark_delegations_stamped [OF dg(2), of "ev_ts e" j, THEN conjunct2]
    show ?thesis
      using Some it mark_delegations_ok [OF m(1)] mark_delegations_stamped [OF m(2)]
      by (simp add: tct_tables_ok_def recordDelegationRevocation_eq del: not_None_eq)
  qed (simp add: recordDelegationRevocation_def ok)
  ultimately show ?thesis
    using ok by (simp add: onTctEvent_def recordIssuedTcts_ok recordDelegation_ok)
qed

interpretation tct_projection: marking_machine "tct_step env" tct_tables_ok revoked_rows for env
  by unfold_locales (simp_all add: tct_step_def onTctEvent_ok onTctEvent_marks)

section \<open>The revoked tree\<close>

definition revoked_jtis :: "db \<Rightarrow> jstring set" where
  "revoked_jtis d = re_jti ` set (revocation_entries d) \<union> it_jti ` {r \<in> set (issued_tcts d). it_revoked r} \<union>
     dg_jti ` {r \<in> set (delegations d). dg_revoked r}"

definition chain_closed :: "db \<Rightarrow> bool" where
  "chain_closed d \<longleftrightarrow> (\<forall>r \<in> set (delegations d). dg_parentJti r \<in> revoked_jtis d \<longrightarrow> dg_revoked r)"

lemma tctRevokedAt_iff: "tctRevokedAt j d \<noteq> None \<longleftrightarrow> uuid_value j \<in> re_jti ` set (revocation_entries d)"
  using find_row_None_iff [of re_jti "uuid_value j" "revocation_entries d"]
  by (auto simp: tctRevokedAt_def simp del: not_None_eq)

lemma revoked_found:
  assumes "unique_key key t" and "\<forall>r \<in> set t. p r \<longrightarrow> f r \<noteq> None"
  shows "(case find_row key k t of Some r \<Rightarrow> if p r then f r else None | None \<Rightarrow> None) \<noteq> None \<longleftrightarrow>
    k \<in> key ` {r \<in> set t. p r}"
proof (cases "find_row key k t")
  case None
  then have "k \<notin> key ` set t" by (simp add: find_row_None_iff)
  with None show ?thesis by auto
next
  case (Some r)
  then have r: "r \<in> set t" "key r = k" by (auto dest: find_row_SomeD)
  have same: "r' = r" if "r' \<in> set t" "key r' = k" for r'
    using find_row_unique [OF assms(1) that(1)] that(2) Some by simp
  show ?thesis
  proof (cases "p r")
    case True
    then have "k \<in> key ` {r \<in> set t. p r}" using r by blast
    with True Some r(1) assms(2) show ?thesis by simp
  next
    case False
    then have "k \<notin> key ` {r \<in> set t. p r}" using same by blast
    with False Some show ?thesis by simp
  qed
qed

lemma orelse_not_None: "orelse a b \<noteq> None \<longleftrightarrow> a \<noteq> None \<or> b \<noteq> None"
  by (cases a) auto

lemma parentRevokedAt_iff:
  "tct_tables_ok d \<Longrightarrow> parentRevokedAt j d \<noteq> None \<longleftrightarrow> uuid_value j \<in> revoked_jtis d"
  unfolding parentRevokedAt_def orelse_not_None tctRevokedAt_iff revoked_jtis_def tct_tables_ok_def
  using revoked_found [of it_jti "issued_tcts d" it_revoked it_revokedAt "uuid_value j"]
    revoked_found [of dg_jti "delegations d" dg_revoked dg_revokedAt "uuid_value j"]
  by blast

text \<open>A TCT row arrives revoked exactly when it has an entry, so it revokes nothing new.\<close>

lemma insert_tct_revoked:
  "revoked_jtis (d\<lparr>issued_tcts := snd (insert_nothing it_jti (tct_row now e t d) (issued_tcts d))\<rparr>) = revoked_jtis d"
  using tctRevokedAt_iff [of "pt_jti t" d]
  by (auto simp: revoked_jtis_def insert_nothing_set tct_row_def Let_def)

lemma recordIssuedTcts_revoked: "revoked_jtis (snd (recordIssuedTcts env now e raws d)) = revoked_jtis d"
  by (induction raws arbitrary: d)
     (simp_all add: Let_def insert_tct_revoked split: sum.split option.split range_error.split)

definition parent_first :: "tct_env \<Rightarrow> audit_event \<Rightarrow> db \<Rightarrow> bool" where
  "parent_first env e d \<longleftrightarrow> ev_type e = js ''delegation.issued'' \<longrightarrow>
     (case parseDelegation (te_decode env) (te_sha1 env) (ev_payload e) (ev_ts e) of
        Inr (Some t) \<Rightarrow> uuid_value (pd_jti t) \<notin> dg_parentJti ` set (delegations d)
      | _ \<Rightarrow> True)"

lemma cascade_closed:
  assumes "\<forall>r \<in> set rows. dg_parentJti r \<in> R \<longrightarrow> dg_revoked r"
  shows "\<forall>r \<in> set (cascade ts j rows).
    dg_parentJti r \<in> R \<union> {j} \<union> dg_jti ` {r \<in> set (cascade ts j rows). dg_revoked r \<and> descends rows j (dg_jti r)}
    \<longrightarrow> dg_revoked r"
proof (intro ballI impI)
  fix r assume r: "r \<in> set (cascade ts j rows)"
    and p: "dg_parentJti r \<in> R \<union> {j} \<union> dg_jti ` {r \<in> set (cascade ts j rows). dg_revoked r \<and> descends rows j (dg_jti r)}"
  obtain r0 where r0: "r0 \<in> set rows" "dg_jti r0 = dg_jti r" "dg_parentJti r0 = dg_parentJti r"
    and mark: "dg_revoked r \<longleftrightarrow> dg_revoked r0 \<or> descends rows j (dg_jti r0)"
    using r by (auto simp: cascade_eq split: if_splits)
  from p consider "dg_parentJti r \<in> R" | "dg_parentJti r = j" | "descends rows j (dg_parentJti r)" by auto
  then show "dg_revoked r"
  proof cases
    case 1
    with assms r0 mark show ?thesis by auto
  next
    case 2
    with r0 have "descends rows j (dg_jti r0)" by (intro descends_child) simp_all
    with mark show ?thesis by simp
  next
    case 3
    with r0 have "descends rows j (dg_jti r0)" by (intro descends_deeper) simp_all
    with mark show ?thesis by simp
  qed
qed

lemma cascade_jtis:
  "dg_jti ` {r \<in> set (cascade ts j rows). dg_revoked r} \<subseteq>
     dg_jti ` {r \<in> set rows. dg_revoked r} \<union>
     dg_jti ` {r \<in> set (cascade ts j rows). dg_revoked r \<and> descends rows j (dg_jti r)}"
proof
  fix k assume "k \<in> dg_jti ` {r \<in> set (cascade ts j rows). dg_revoked r}"
  then obtain r where r: "r \<in> set (cascade ts j rows)" "dg_revoked r" "k = dg_jti r" by auto
  then consider "r \<in> set rows" | "descends rows j (dg_jti r)"
    by (auto simp: cascade_eq split: if_splits)
  then show "k \<in> dg_jti ` {r \<in> set rows. dg_revoked r} \<union>
     dg_jti ` {r \<in> set (cascade ts j rows). dg_revoked r \<and> descends rows j (dg_jti r)}"
    by cases (use r in auto)
qed

lemma recordRevocation_closed: "chain_closed d \<Longrightarrow> chain_closed (recordRevocation e d)"
proof (cases "event_jti e")
  case (Some j)
  assume c: "chain_closed d"
  let ?d = "recordRevocation e d"
  let ?new = "dg_jti ` {r \<in> set (delegations ?d). dg_revoked r \<and> descends (delegations d) j (dg_jti r)}"
  have del: "delegations ?d = cascade (ev_ts e) j (delegations d)"
    using Some by (simp add: recordRevocation_def)
  have "it_jti ` {r \<in> set (issued_tcts ?d). it_revoked r} \<subseteq> it_jti ` {r \<in> set (issued_tcts d). it_revoked r} \<union> {j}"
    using Some by (auto simp: recordRevocation_def set_update_where)
  then have "revoked_jtis ?d \<subseteq> revoked_jtis d \<union> {j} \<union> ?new"
    using cascade_jtis [of "ev_ts e" j "delegations d"] Some
    unfolding revoked_jtis_def del by (auto simp: recordRevocation_def)
  with cascade_closed [of "delegations d" "revoked_jtis d" "ev_ts e" j] c show ?thesis
    unfolding chain_closed_def del by blast
qed (simp add: recordRevocation_def)

lemma union_chain:
  "Y \<subseteq> W \<union> J \<Longrightarrow> X \<subseteq> Y \<union> Z \<Longrightarrow> A \<union> B \<union> X \<subseteq> A \<union> B \<union> W \<union> J \<union> Z"
  by blast

lemma recordDelegationRevocation_closed: "chain_closed d \<Longrightarrow> chain_closed (recordDelegationRevocation e d)"
proof (cases "event_jti e")
  case (Some j)
  assume c: "chain_closed d"
  let ?d = "recordDelegationRevocation e d"
  let ?rows = "explicit_mark (ev_ts e) j (delegations d)"
  let ?new = "dg_jti ` {r \<in> set (delegations ?d). dg_revoked r \<and> descends ?rows j (dg_jti r)}"
  have del: "delegations ?d = cascade (ev_ts e) j ?rows"
    using Some by (simp add: recordDelegationRevocation_eq)
  have "dg_jti ` {r \<in> set ?rows. dg_revoked r} \<subseteq> dg_jti ` {r \<in> set (delegations d). dg_revoked r} \<union> {j}"
    by (auto simp: explicit_mark_def set_update_where)
  moreover have "dg_jti ` {r \<in> set (delegations ?d). dg_revoked r} \<subseteq>
      dg_jti ` {r \<in> set ?rows. dg_revoked r} \<union> ?new"
    unfolding del by (rule cascade_jtis)
  moreover have "revocation_entries ?d = revocation_entries d" "issued_tcts ?d = issued_tcts d"
    using Some by (simp_all add: recordDelegationRevocation_def)
  ultimately have sub: "revoked_jtis ?d \<subseteq> revoked_jtis d \<union> {j} \<union> ?new"
    unfolding revoked_jtis_def by (simp only:) (rule union_chain)
  have "\<forall>r \<in> set ?rows. dg_parentJti r \<in> revoked_jtis d \<longrightarrow> dg_revoked r"
    using c by (auto simp: chain_closed_def explicit_mark_def set_update_where)
  from cascade_closed [OF this, of "ev_ts e" j] sub show ?thesis
    unfolding chain_closed_def del by blast
qed (simp add: recordDelegationRevocation_def)

lemma recordDelegation_closed:
  assumes "tct_tables_ok d" and "chain_closed d" and "ev_type e = js ''delegation.issued''" and "parent_first env e d"
  shows "chain_closed (snd (recordDelegation env now e d))"
proof -
  have "chain_closed (d\<lparr>delegations := snd (insert_nothing dg_jti (delegation_row now t d) (delegations d))\<rparr>)"
    if "parseDelegation (te_decode env) (te_sha1 env) (ev_payload e) (ev_ts e) = Inr (Some t)" for t
  proof -
    let ?r = "delegation_row now t d"
    let ?d = "d\<lparr>delegations := snd (insert_nothing dg_jti ?r (delegations d))\<rparr>"
    have fresh: "uuid_value (pd_jti t) \<notin> dg_parentJti ` set (delegations d)"
      using assms(3,4) that by (simp add: parent_first_def)
    have "revoked_jtis ?d
        \<subseteq> revoked_jtis d \<union> (if dg_revoked ?r then {uuid_value (pd_jti t)} else {})"
      by (auto simp: revoked_jtis_def insert_nothing_set simp del: delegation_row_key(3) split: if_splits)
    then have sub: "revoked_jtis ?d \<subseteq> revoked_jtis d \<union> (if dg_revoked ?r then {uuid_value (pd_jti t)} else {})" .
    show ?thesis unfolding chain_closed_def
    proof (intro ballI impI)
      fix r assume r: "r \<in> set (delegations ?d)" and p: "dg_parentJti r \<in> revoked_jtis ?d"
      then consider "r \<in> set (delegations d)" | "r = ?r"
        by (auto simp: insert_nothing_set split: if_splits)
      then show "dg_revoked r"
      proof cases
        case 1
        with fresh have "dg_parentJti r \<noteq> uuid_value (pd_jti t)" by (metis imageI)
        moreover note subsetD [OF sub p]
        ultimately have "dg_parentJti r \<in> revoked_jtis d" by (simp del: delegation_row_key split: if_splits)
        with 1 assms(2) show ?thesis by (simp add: chain_closed_def)
      next
        case 2
        show ?thesis
        proof (rule ccontr)
          assume "\<not> dg_revoked r"
          with 2 sub p have "uuid_value (pd_parentJti t) \<in> revoked_jtis d" by auto
          with parentRevokedAt_iff [OF assms(1)] 2 \<open>\<not> dg_revoked r\<close> show False by auto
        qed
      qed
    qed
  qed
  with assms(2) show ?thesis
    by (simp add: recordDelegation_def Let_def split: sum.split option.split range_error.split)
qed

lemma onTctEvent_closed:
  assumes "tct_tables_ok d" and "chain_closed d" and "parent_first env e d"
  shows "chain_closed (onTctEvent env now e d)"
proof -
  have "chain_closed (snd (recordIssuedTcts env now e raws d))" for raws
    using assms(2) recordIssuedTcts_frame [of env now e raws d] recordIssuedTcts_revoked [of env now e raws d]
    by (simp add: chain_closed_def)
  then show ?thesis
    using assms recordDelegation_closed [of d e env now]
    by (simp add: onTctEvent_def recordRevocation_closed recordDelegationRevocation_closed)
qed

fun in_order :: "tct_env \<Rightarrow> (instant \<times> audit_event) list \<Rightarrow> db \<Rightarrow> bool" where
  "in_order env [] d = True"
| "in_order env (x # xs) d = (parent_first env (snd x) d \<and> in_order env xs (tct_step env d x))"

lemma run_closed:
  "tct_tables_ok d \<Longrightarrow> chain_closed d \<Longrightarrow> in_order env xs d \<Longrightarrow> chain_closed (foldl (tct_step env) d xs)"
  by (induction xs arbitrary: d) (auto simp: tct_step_def onTctEvent_ok onTctEvent_closed)

lemma closed_descends:
  assumes "chain_closed d" and "j \<in> revoked_jtis d" and "unique_key dg_jti (delegations d)"
  shows "descends (delegations d) j k \<Longrightarrow> \<forall>r \<in> set (delegations d). dg_jti r = k \<longrightarrow> dg_revoked r"
proof (induction rule: descends.induct)
  case (descends_child r)
  then have "dg_revoked r" using assms(1,2) by (auto simp: chain_closed_def)
  with descends_child(1) find_row_unique [OF assms(3)] show ?case by (metis option.inject)
next
  case (descends_deeper k r)
  have "k \<in> dg_jti ` set (delegations d)" using descends_deeper(1) by (cases) auto
  with descends_deeper(4) have "k \<in> revoked_jtis d" by (auto simp: revoked_jtis_def)
  then have "dg_revoked r" using assms(1) descends_deeper(2,3) by (auto simp: chain_closed_def)
  with descends_deeper(2) find_row_unique [OF assms(3)] show ?case by (metis option.inject)
qed

section \<open>Properties\<close>

text \<open>
  C3. A reported revocation marks exactly the token and its descendants: the recursive query of
  the cascade reaches precisely the delegations connected to the token by a chain of parents, of
  any length and even through cycles, marks those that were active with the event's time and the
  reason parent-revoked, and leaves every other row as it was.
\<close>

theorem revocation_cascade_exact:
  assumes "ev_type e = js ''tct.revoked''" and "event_jti e = Some j"
  shows "issued_tcts (onTctEvent env now e d) =
      map (\<lambda>r. if it_jti r = j \<and> \<not> it_revoked r
        then r\<lparr>it_revoked := True, it_revokedAt := Some (ev_ts e)\<rparr> else r) (issued_tcts d) \<and>
    delegations (onTctEvent env now e d) =
      map (\<lambda>r. if \<not> dg_revoked r \<and> descends (delegations d) j (dg_jti r)
        then r\<lparr>dg_revoked := True, dg_revokedAt := Some (ev_ts e), dg_revokedReason := Some ParentRevoked\<rparr>
        else r) (delegations d)"
  using assms by (simp add: onTctEvent_def recordRevocation_def cascade_eq update_where_def)

definition token_id :: "nat \<Rightarrow> jstring" where
  "token_id n = js ''00000000-0000-4000-8000-00000000000'' @ decimal n"

definition demo_tct_event :: "string \<Rightarrow> json \<Rightarrow> audit_event" where
  "demo_tct_event ty payload = \<lparr>ev_id = [], ev_type = js ty, ev_ts = 7, ev_aidA = None, ev_aidB = None,
     ev_sessionId = None, ev_runId = None, ev_grants = None, ev_payload = payload, ev_source = None\<rparr>"

definition demo_delegation :: "nat \<Rightarrow> nat \<Rightarrow> audit_event" where
  "demo_delegation p j = demo_tct_event ''delegation.issued''
     (jobj [(''parent_jti'', JStr (token_id p)), (''jti'', JStr (token_id j)),
            (''delegator'', jlit ''aid:a''), (''delegatee'', jlit ''aid:b'')])"

definition demo_revocation :: "nat \<Rightarrow> audit_event" where
  "demo_revocation j = demo_tct_event ''tct.revoked'' (jobj [(''jti'', JStr (token_id j))])"

definition demo_tct_env :: tct_env where
  "demo_tct_env = \<lparr>te_mode = Off, te_decode = \<lambda>_. None, te_sha1 = \<lambda>_. [],
     te_sdk = \<lparr>sdk_verifyTct = \<lambda>_ _ _. None, sdk_verifyDelegation = \<lambda>_ _ _. None\<rparr>\<rparr>"

lemma token_ids:
  "JTI_UUID_RE (token_id 2)" "JTI_UUID_RE (token_id 3)" "JTI_UUID_RE (token_id 4)"
  "uuid_value (token_id 2) = token_id 2" "uuid_value (token_id 3) = token_id 3"
  "uuid_value (token_id 4) = token_id 4"
  "token_id 2 \<noteq> token_id 3" "token_id 2 \<noteq> token_id 4" "token_id 3 \<noteq> token_id 4"
  by code_simp+

lemma token_id_nonempty [simp]: "token_id n \<noteq> []"
  by (simp add: token_id_def)

lemma demo_revocation_jti:
  "JTI_UUID_RE (token_id j) \<Longrightarrow> uuid_value (token_id j) = token_id j \<Longrightarrow>
   event_jti (demo_revocation j) = Some (token_id j)"
  by (simp add: event_jti_def demo_revocation_def demo_tct_event_def nonempty_string_def)

theorem revocation_cascade_exact_witness:
  "issued_tcts (onTctEvent demo_tct_env 9 (demo_revocation 2) empty_db) = [] \<and>
   ev_ts (demo_revocation 2) = 7"
  using revocation_cascade_exact [of "demo_revocation 2" "token_id 2" demo_tct_env 9 empty_db]
    demo_revocation_jti [OF token_ids(1,4)]
  by (simp add: demo_revocation_def demo_tct_event_def empty_db_def)

text \<open>
  Revocation is final: once a TCT or a delegation is stored as revoked, no event of any type,
  re-sent or new, changes its row in any column; the first revocation's time and reason stand.
\<close>

theorem revoked_rows_immutable:
  assumes "tct_tables_ok d" and "x \<in> revoked_rows d"
  shows "x \<in> revoked_rows (foldl (tct_step env) d events)"
  using assms by (rule tct_projection.run_marks_mem)

definition demo_revoked_tct :: issued_tct where
  "demo_revoked_tct = \<lparr>it_jti = token_id 2, it_issuerAid = js ''aid:a'', it_subjectAid = js ''aid:b'',
     it_audienceAid = js ''aid:b'', it_grants = [], it_bindingCnf = None, it_issuedAt = 1, it_expiresAt = None,
     it_sessionId = None, it_revoked = True, it_revokedAt = Some 5, it_createdAt = 2\<rparr>"

theorem revoked_rows_immutable_witness:
  "Inl demo_revoked_tct \<in> revoked_rows (foldl (tct_step demo_tct_env) (empty_db\<lparr>issued_tcts := [demo_revoked_tct]\<rparr>)
     [(9, demo_revocation 2)])"
  by (rule revoked_rows_immutable)
     (simp_all add: tct_tables_ok_def revoked_rows_def empty_db_def unique_key_def demo_revoked_tct_def)

text \<open>
  C5. No descendant of a revoked token stays active: starting from empty projections and any
  revocation entries, after any events in which no delegation is reported before the one it
  descends from, every delegation below a revoked token, however deep, is revoked. Revocations may
  come before or after the tokens they name.
\<close>

theorem revoked_tree_has_no_active_leaf:
  assumes "issued_tcts d = []" and "delegations d = []" and "in_order env events d"
    and "j \<in> revoked_jtis (foldl (tct_step env) d events)"
    and "r \<in> set (delegations (foldl (tct_step env) d events))"
    and "descends (delegations (foldl (tct_step env) d events)) j (dg_jti r)"
  shows "dg_revoked r"
proof -
  have ok: "tct_tables_ok d" using assms(1,2) by (simp add: tct_tables_ok_def unique_key_def)
  have "chain_closed d" using assms(2) by (simp add: chain_closed_def)
  then have "chain_closed (foldl (tct_step env) d events)" using ok assms(3) by (intro run_closed)
  moreover have "tct_tables_ok (foldl (tct_step env) d events)" using ok by (rule tct_projection.run_inv)
  ultimately show ?thesis using closed_descends [OF _ assms(4) _ assms(6)] assms(5)
    by (auto simp: tct_tables_ok_def)
qed

lemma demo_parse:
  assumes "JTI_UUID_RE (token_id p)" and "JTI_UUID_RE (token_id j)"
  shows "parseDelegation dj sha1 (ev_payload (demo_delegation p j)) ts =
    Inr (Some \<lparr>pd_jti = token_id j, pd_parentJti = token_id p, pd_delegatorAid = js ''aid:a'',
      pd_delegateeAid = js ''aid:b'', pd_scope = [], pd_issuedAt = ts, pd_expiresAt = None\<rparr>)"
  using assms
  by (simp add: demo_delegation_def demo_tct_event_def parseDelegation_def delegation_claims_def
      delegation_wrapper_def nullish_or_def object_value_def claimsOf_def delegation_parent_def
      delegation_jti_def nonempty_string_def with_times_def epochToIso_def Let_def)

lemma demo_step:
  assumes "JTI_UUID_RE (token_id p)" and "JTI_UUID_RE (token_id j)"
    and "uuid_value (token_id p) = token_id p" and "uuid_value (token_id j) = token_id j"
    and "token_id j \<notin> dg_jti ` set (delegations d)"
  shows "map (\<lambda>r. (dg_jti r, dg_parentJti r)) (delegations (tct_step demo_tct_env d (0, demo_delegation p j))) =
      map (\<lambda>r. (dg_jti r, dg_parentJti r)) (delegations d) @ [(token_id j, token_id p)] \<and>
    revocation_entries (tct_step demo_tct_env d (0, demo_delegation p j)) = revocation_entries d"
proof -
  have ty: "ev_type (demo_delegation p j) = js ''delegation.issued''" "ev_ts (demo_delegation p j) = 7"
    by (simp_all add: demo_delegation_def demo_tct_event_def)
  have fit: "column_fits 512 (Some (js ''aid:a''))" "column_fits 512 (Some (js ''aid:b''))"
    by code_simp+
  show ?thesis using assms
    by (simp add: tct_step_def onTctEvent_def ty recordDelegation_def demo_parse gateObserved_def
        demo_tct_env_def delegation_storable_def delegation_row_def Let_def fit instant_fits_def
        inStorableRange_def insert_nothing_def)
qed

definition demo_entry_db :: db where
  "demo_entry_db = empty_db\<lparr>revocation_entries := [\<lparr>re_jti = token_id 2, re_revokedAt = 3, re_reason = None,
     re_iss = None, re_createdAt = 3\<rparr>]\<rparr>"

theorem revoked_tree_has_no_active_leaf_witness:
  "list_all dg_revoked (delegations (foldl (tct_step demo_tct_env) demo_entry_db
     [(0, demo_delegation 2 3), (0, demo_delegation 3 4)]))"
proof -
  let ?es = "[(0, demo_delegation 2 3), (0, demo_delegation 3 4)] :: (instant \<times> audit_event) list"
  let ?d = "foldl (tct_step demo_tct_env) demo_entry_db ?es"
  have d0: "delegations demo_entry_db = []" "issued_tcts demo_entry_db = []"
    by (simp_all add: demo_entry_db_def empty_db_def)
  let ?d1 = "tct_step demo_tct_env demo_entry_db (0, demo_delegation 2 3)"
  have s1: "map (\<lambda>r. (dg_jti r, dg_parentJti r)) (delegations ?d1) = [(token_id 3, token_id 2)]"
    "revocation_entries ?d1 = revocation_entries demo_entry_db"
    using demo_step [OF token_ids(1,2,4,5), of demo_entry_db] by (simp_all add: d0)
  then obtain a where a: "delegations ?d1 = [a]" "dg_jti a = token_id 3" "dg_parentJti a = token_id 2"
    by (auto simp: map_eq_Cons_conv)
  have s2: "map (\<lambda>r. (dg_jti r, dg_parentJti r)) (delegations ?d) = [(token_id 3, token_id 2), (token_id 4, token_id 3)]"
    "revocation_entries ?d = revocation_entries demo_entry_db"
    using demo_step [OF token_ids(2,3,5,6), of ?d1] token_ids(9) s1 by (simp_all add: a)
  have ord: "in_order demo_tct_env ?es demo_entry_db"
    using token_ids a by (simp add: parent_first_def demo_parse d0)
  have root_revoked: "token_id 2 \<in> revoked_jtis ?d"
    unfolding revoked_jtis_def s2(2) by (simp add: demo_entry_db_def)
  have below: "descends (delegations ?d) (token_id 2) (dg_jti r)" if "r \<in> set (delegations ?d)" for r
  proof -
    obtain a b where ab: "delegations ?d = [a, b]" "dg_jti a = token_id 3" "dg_jti b = token_id 4"
      "dg_parentJti a = token_id 2" "dg_parentJti b = token_id 3"
      using s2(1) by (auto simp: map_eq_Cons_conv simp del: foldl_Cons)
    have "descends (delegations ?d) (token_id 2) (dg_jti a)"
      by (rule descends_child) (simp_all add: ab del: foldl_Cons)
    moreover then have "descends (delegations ?d) (token_id 2) (dg_jti b)"
      by (rule descends_deeper) (simp_all add: ab del: foldl_Cons)
    ultimately show ?thesis using that ab(1) by auto
  qed
  show ?thesis unfolding list_all_iff
    using revoked_tree_has_no_active_leaf [OF d0(2,1) ord root_revoked _ below] by blast
qed

lemma loop_records_only_verified:
  assumes "te_mode env = Strict"
  shows "r \<in> set (issued_tcts (snd (recordIssuedTcts env now e raws d))) \<Longrightarrow> it_jti r \<notin> it_jti ` set (issued_tcts d) \<Longrightarrow>
    \<exists>raw \<in> set raws. \<exists>t token g gs.
      parseTct raw (ev_ts e) = Inr (Some t) \<and> it_jti r = uuid_value (pt_jti t) \<and>
      wrapperToken (Some raw) = Some token \<and> pt_grants t = g # gs \<and>
      sdk_verifyTct (te_sdk env) token g (pt_audienceAid t) = None"
proof (induction raws arbitrary: d)
  case (Cons raw raws)
  show ?case
  proof (cases "parseTct raw (ev_ts e)")
    case (Inl x)
    with Cons.prems show ?thesis by (cases x) auto
  next
    case (Inr p)
    show ?thesis
    proof (cases p)
      case None
      with Inr Cons.prems Cons.IH [of d] show ?thesis by auto
    next
      case (Some t)
      let ?row = "tct_row now e t d"
      let ?d = "d\<lparr>issued_tcts := snd (insert_nothing it_jti ?row (issued_tcts d))\<rparr>"
      show ?thesis
      proof (cases "gateObserved Strict (verifyObservedTct (te_sdk env) raw t) \<and> tct_storable ?row")
        case False
        with Inr Some assms Cons.prems Cons.IH [of d] show ?thesis
          by (auto simp: Let_def split: if_splits)
      next
        case True
        then have ver: "\<exists>token g gs. wrapperToken (Some raw) = Some token \<and> pt_grants t = g # gs \<and>
            sdk_verifyTct (te_sdk env) token g (pt_audienceAid t) = None"
          using verifyObservedTct_verified by (simp add: gateObserved_Strict)
        show ?thesis
        proof (cases "it_jti r = uuid_value (pt_jti t)")
          case True
          with ver Inr Some show ?thesis by auto
        next
          case False
          with Cons.prems(2) have "it_jti r \<notin> it_jti ` set (issued_tcts ?d)"
            by (auto simp: insert_nothing_set split: if_splits)
          moreover have "r \<in> set (issued_tcts (snd (recordIssuedTcts env now e raws ?d)))"
            using Cons.prems(1) Inr Some True assms by (simp add: Let_def)
          ultimately show ?thesis using Cons.IH [of ?d] by auto
        qed
      qed
    qed
  qed
qed auto

lemma new_tct_from_loop:
  assumes "r \<in> set (issued_tcts (onTctEvent env now e d))" and "it_jti r \<notin> it_jti ` set (issued_tcts d)"
  shows "r \<in> set (issued_tcts (snd (recordIssuedTcts env now e (tct_list (ev_payload e)) d)))"
proof (rule ccontr)
  assume no: "\<not> ?thesis"
  have "it_jti ` set (issued_tcts (recordRevocation e d)) = it_jti ` set (issued_tcts d)"
    by (simp add: recordRevocation_def keys_update_where split: option.split)
  moreover have "issued_tcts (recordDelegationRevocation e d) = issued_tcts d"
    by (simp add: recordDelegationRevocation_def split: option.split)
  ultimately show False
    using assms no recordDelegation_frame [of env now e d]
    by (auto simp: onTctEvent_def split: if_splits)
qed


definition strict_env :: tct_env where
  "strict_env = demo_tct_env\<lparr>te_mode := Strict\<rparr>"

definition wrapped_tct :: "string \<Rightarrow> json" where
  "wrapped_tct iss = jobj [(''token'', jlit ''x.y.z''),
     (''claims'', jobj [(''jti'', JStr (token_id 2)), (''iss'', jlit iss), (''sub'', jlit ''aid:b''),
        (''grants'', JArr [jlit ''g''])])]"

lemma wrapped_tct_parse:
  "iss \<noteq> [] \<Longrightarrow> parseTct (wrapped_tct iss) 7 = Inr (Some \<lparr>pt_jti = token_id 2, pt_issuerAid = js iss,
     pt_subjectAid = js ''aid:b'', pt_audienceAid = js ''aid:b'', pt_grants = [js ''g''], pt_bindingCnf = None,
     pt_issuedAt = 7, pt_expiresAt = None\<rparr>)"
proof -
  assume "iss \<noteq> []"
  moreover have "is_object (jobj ps)" for ps by (simp add: jobj_def)
  ultimately show ?thesis
    using token_ids(1)
    by (simp add: parseTct_def wrapped_tct_def claimsOf_def object_value_def Let_def nonempty_string_def
        with_times_def epochToIso_def readCnf_def)
qed

lemma wrapped_tct_token: "wrapperToken (Some (wrapped_tct iss)) = Some (js ''x.y.z'')"
  by (simp add: wrapperToken_def wrapped_tct_def object_value_def nonempty_string_def jobj_def map_of_js)

definition wrapped_event :: "json list \<Rightarrow> audit_event" where
  "wrapped_event ts = demo_tct_event ''tct.issued'' (jobj [(''tcts'', JArr ts)])"

lemma strict_demo_rows:
  "map it_issuerAid (issued_tcts (onTctEvent strict_env 0 (wrapped_event [wrapped_tct ''aid:a'']) empty_db)) = [js ''aid:a'']"
proof -
  have "column_fits 512 (Some (js ''aid:a''))" "column_fits 512 (Some (js ''aid:b''))" by code_simp+
  then show ?thesis
    by (simp add: onTctEvent_def wrapped_event_def demo_tct_event_def tct_list_def wrapped_tct_parse
        gateObserved_Strict verifyObservedTct_def wrapped_tct_token strict_env_def demo_tct_env_def
        sdk_outcome_def tct_storable_def tct_row_def Let_def tctRevokedAt_def empty_db_def column_fits_def
        instant_fits_def inStorableRange_def insert_nothing_def)
qed


section \<open>What the projection does not do\<close>

text \<open>
  A delegation reported before the one it descends from stays active below a revoked token: the
  insert of the parent consults the token's entry, but nothing revisits the child.
\<close>

lemma late_parent_leaves_child_active:
  "map (\<lambda>r. (dg_jti r, dg_revoked r)) (delegations (foldl (tct_step demo_tct_env) demo_entry_db
     [(0, demo_delegation 3 4), (0, demo_delegation 2 3)])) = [(token_id 4, False), (token_id 3, True)]"
proof -
  have ty: "ev_type (demo_delegation p j) = js ''delegation.issued''" "ev_ts (demo_delegation p j) = 7" for p j
    by (simp_all add: demo_delegation_def demo_tct_event_def)
  have fit: "column_fits 512 (Some (js ''aid:a''))" "column_fits 512 (Some (js ''aid:b''))"
    by code_simp+
  show ?thesis using token_ids
    by (simp add: tct_step_def onTctEvent_def ty recordDelegation_def demo_parse gateObserved_def
        demo_tct_env_def delegation_storable_def delegation_row_def Let_def fit instant_fits_def
        inStorableRange_def insert_nothing_def demo_entry_db_def empty_db_def parentRevokedAt_def
        tctRevokedAt_def orelse_def)
qed

text \<open>
  One TCT whose \<open>exp\<close> is out of the range of a date ends the projection of its event: the valid
  TCT reported after it is not recorded, although entries that cannot be read are to be skipped.
\<close>

definition huge_exp_tct :: json where
  "huge_exp_tct = jobj [(''jti'', JStr (token_id 3)), (''iss'', jlit ''aid:a''), (''sub'', jlit ''aid:b''),
     (''exp'', jint 10000000000000)]"

lemma out_of_range_exp_aborts_event:
  "issued_tcts (onTctEvent demo_tct_env 0 (wrapped_event [huge_exp_tct, wrapped_tct ''aid:a'']) empty_db) = []"
proof -
  have "parseTct huge_exp_tct 7 = Inl RangeError"
    using token_ids(2)
    by (simp add: parseTct_def huge_exp_tct_def claimsOf_def object_value_def Let_def nonempty_string_def
        with_times_def epochToIso_def time_clip_def jobj_def map_of_js)
  then show ?thesis
    by (simp add: onTctEvent_def wrapped_event_def demo_tct_event_def tct_list_def empty_db_def)
qed

text \<open>
  Strict mode checks the token, not that the reported claims are the token's: the same token
  vouches for claims that name any issuer and any token id.
\<close>

lemma strict_does_not_bind_claims:
  "pt_grants t = pt_grants t' \<Longrightarrow> pt_audienceAid t = pt_audienceAid t' \<Longrightarrow>
   wrapperToken (Some raw) = wrapperToken (Some raw') \<Longrightarrow>
   gateObserved Strict (verifyObservedTct sdk raw t) = gateObserved Strict (verifyObservedTct sdk raw' t')"
  by (simp add: verifyObservedTct_def split: option.split list.split)

end
