(* ===== verification/Circuit_Breaker.thy ===== *)
theory Circuit_Breaker
  imports Prelude
begin

text \<open>
  The per-webhook circuit breaker, \<open>src/src/lib/webhooks/circuit-breaker.ts\<close>: the entries kept
  per webhook id, \<open>shouldAttempt\<close>, \<open>recordSuccess\<close>, \<open>recordFailure\<close>, \<open>reset\<close> and the snapshots.
  The clock is an argument. A three-constructor automaton is the abstract specification; the
  entries refine it. The last section shows what a probe that is never recorded does.
\<close>

section \<open>Entries and operations\<close>

datatype breaker_state = Closed | Open | HalfOpen

record breaker_config =
  failureThreshold :: int
  resetTimeoutMs :: int
  successThresholdToClose :: int

definition DEFAULT_CONFIG :: breaker_config where
  "DEFAULT_CONFIG = \<lparr>failureThreshold = 5, resetTimeoutMs = 60000, successThresholdToClose = 1\<rparr>"

record breaker_entry =
  br_state :: breaker_state
  failures :: int
  consecutiveSuccesses :: int
  openedAt :: "instant option"
  probeInFlight :: bool

type_synonym breaker = "jstring \<rightharpoonup> breaker_entry"

definition fresh_entry :: breaker_entry where
  "fresh_entry = \<lparr>br_state = Closed, failures = 0, consecutiveSuccesses = 0, openedAt = None,
     probeInFlight = False\<rparr>"

text \<open>\<open>entry(id)\<close>: the stored entry, or a fresh one that is stored on the way.\<close>

definition entry :: "breaker \<Rightarrow> jstring \<Rightarrow> breaker_entry" where
  "entry s w = (case s w of None \<Rightarrow> fresh_entry | Some e \<Rightarrow> e)"

definition shouldAttempt_entry :: "breaker_config \<Rightarrow> instant \<Rightarrow> breaker_entry \<Rightarrow> bool \<times> breaker_entry" where
  "shouldAttempt_entry cfg now e =
     (case br_state e of
        Closed \<Rightarrow> (True, e)
      | Open \<Rightarrow>
          (case openedAt e of
             Some t \<Rightarrow> if now - t \<ge> resetTimeoutMs cfg
                       then (True, e\<lparr>br_state := HalfOpen, probeInFlight := True\<rparr>) else (False, e)
           | None \<Rightarrow> (False, e))
      | HalfOpen \<Rightarrow>
          (if probeInFlight e then (False, e) else (True, e\<lparr>probeInFlight := True\<rparr>)))"

definition recordSuccess_entry :: "breaker_config \<Rightarrow> breaker_entry \<Rightarrow> breaker_entry" where
  "recordSuccess_entry cfg e0 =
     (let e = e0\<lparr>probeInFlight := False\<rparr>
      in if br_state e = HalfOpen then
           let e1 = e\<lparr>consecutiveSuccesses := consecutiveSuccesses e + 1\<rparr>
           in if consecutiveSuccesses e1 \<ge> successThresholdToClose cfg
              then e1\<lparr>br_state := Closed, failures := 0, openedAt := None\<rparr> else e1
         else e\<lparr>failures := 0, consecutiveSuccesses := 0\<rparr>)"

definition recordFailure_entry :: "breaker_config \<Rightarrow> instant \<Rightarrow> breaker_entry \<Rightarrow> breaker_entry" where
  "recordFailure_entry cfg now e0 =
     (let e = e0\<lparr>probeInFlight := False, consecutiveSuccesses := 0, failures := failures e0 + 1\<rparr>
      in if br_state e = Closed \<and> failures e \<ge> failureThreshold cfg
         then e\<lparr>br_state := Open, openedAt := Some now\<rparr>
         else if br_state e = HalfOpen then e\<lparr>br_state := Open, openedAt := Some now\<rparr>
         else e)"

definition shouldAttempt :: "breaker_config \<Rightarrow> instant \<Rightarrow> jstring \<Rightarrow> breaker \<Rightarrow> bool \<times> breaker" where
  "shouldAttempt cfg now w s =
     (let (ok, e) = shouldAttempt_entry cfg now (entry s w) in (ok, s(w \<mapsto> e)))"

definition recordSuccess :: "breaker_config \<Rightarrow> jstring \<Rightarrow> breaker \<Rightarrow> breaker" where
  "recordSuccess cfg w s = s(w \<mapsto> recordSuccess_entry cfg (entry s w))"

definition recordFailure :: "breaker_config \<Rightarrow> instant \<Rightarrow> jstring \<Rightarrow> breaker \<Rightarrow> breaker" where
  "recordFailure cfg now w s = s(w \<mapsto> recordFailure_entry cfg now (entry s w))"

definition breaker_reset :: "jstring \<Rightarrow> breaker \<Rightarrow> breaker" where
  "breaker_reset w s = s(w \<mapsto> fresh_entry)"

record breaker_snapshot =
  sn_state :: breaker_state
  sn_failures :: int
  sn_successes :: int
  sn_openedAt :: "instant option"
  nextProbeAt :: "instant option"

definition getSnapshot :: "breaker_config \<Rightarrow> breaker \<Rightarrow> jstring \<Rightarrow> breaker_snapshot" where
  "getSnapshot cfg s w =
     (let e = entry s w
      in \<lparr>sn_state = br_state e, sn_failures = failures e, sn_successes = consecutiveSuccesses e,
          sn_openedAt = openedAt e,
          nextProbeAt = (case openedAt e of
             Some t \<Rightarrow> if br_state e = Open then Some (t + resetTimeoutMs cfg) else None
           | None \<Rightarrow> None)\<rparr>)"

section \<open>Runs\<close>

datatype breaker_op =
    Attempt instant jstring
  | Success jstring
  | Failure instant jstring
  | Reset jstring

fun op_webhook :: "breaker_op \<Rightarrow> jstring" where
  "op_webhook (Attempt now w) = w"
| "op_webhook (Success w) = w"
| "op_webhook (Failure now w) = w"
| "op_webhook (Reset w) = w"

fun breaker_step :: "breaker_config \<Rightarrow> breaker \<Rightarrow> breaker_op \<Rightarrow> breaker" where
  "breaker_step cfg s (Attempt now w) = snd (shouldAttempt cfg now w s)"
| "breaker_step cfg s (Success w) = recordSuccess cfg w s"
| "breaker_step cfg s (Failure now w) = recordFailure cfg now w s"
| "breaker_step cfg s (Reset w) = breaker_reset w s"

lemmas breaker_defs = shouldAttempt_def recordSuccess_def recordFailure_def breaker_reset_def
  shouldAttempt_entry_def recordSuccess_entry_def recordFailure_entry_def fresh_entry_def Let_def

text \<open>
  What the entries always satisfy: an open or half-open entry knows when it opened, a probe is
  in flight only in the half-open state, and a closed entry is below the failure threshold.
\<close>

definition entry_ok :: "breaker_config \<Rightarrow> breaker_entry \<Rightarrow> bool" where
  "entry_ok cfg e \<longleftrightarrow> (br_state e = Closed \<longleftrightarrow> openedAt e = None) \<and>
     (probeInFlight e \<longrightarrow> br_state e = HalfOpen) \<and>
     (br_state e = Closed \<longrightarrow> failures e = 0 \<or> failures e < failureThreshold cfg)"

definition breaker_ok :: "breaker_config \<Rightarrow> breaker \<Rightarrow> bool" where
  "breaker_ok cfg s \<longleftrightarrow> (\<forall>w e. s w = Some e \<longrightarrow> entry_ok cfg e)"

lemma fresh_entry_ok [simp]: "entry_ok cfg fresh_entry"
  by (simp add: entry_ok_def fresh_entry_def)

lemma entry_ok_entry: "breaker_ok cfg s \<Longrightarrow> entry_ok cfg (entry s w)"
  by (auto simp: entry_def breaker_ok_def split: option.splits)

lemma entry_ops_ok [inv_intros]:
  assumes "entry_ok cfg e"
  shows "entry_ok cfg (snd (shouldAttempt_entry cfg now e))"
    and "entry_ok cfg (recordSuccess_entry cfg e)"
    and "entry_ok cfg (recordFailure_entry cfg now e)"
  using assms
  by (cases "br_state e"; auto simp: breaker_defs entry_ok_def split: option.splits)+

lemma breaker_step_ok [inv_intros]: "breaker_ok cfg s \<Longrightarrow> breaker_ok cfg (breaker_step cfg s op)"
  using entry_ops_ok [OF entry_ok_entry, of cfg s]
  by (cases op)
    (auto simp: breaker_ok_def shouldAttempt_def recordSuccess_def recordFailure_def
      breaker_reset_def split: prod.splits; metis snd_conv)+

interpretation breakers: machine "breaker_step cfg" "breaker_ok cfg" for cfg
  by unfold_locales (rule breaker_step_ok)

lemma breaker_step_other: "op_webhook op \<noteq> w \<Longrightarrow> entry (breaker_step cfg s op) w = entry s w"
  by (cases op) (auto simp: entry_def shouldAttempt_def recordSuccess_def recordFailure_def
      breaker_reset_def split: prod.splits)

section \<open>The abstract automaton\<close>

datatype circuit =
    Conducting int            \<comment> \<open>consecutive failures so far\<close>
  | Interrupted instant       \<comment> \<open>since when\<close>
  | Probing bool              \<comment> \<open>whether the one probe is out\<close>

fun circuit_attempt :: "breaker_config \<Rightarrow> instant \<Rightarrow> circuit \<Rightarrow> bool \<times> circuit" where
  "circuit_attempt cfg now (Conducting n) = (True, Conducting n)"
| "circuit_attempt cfg now (Interrupted t) =
     (if now \<ge> t + resetTimeoutMs cfg then (True, Probing True) else (False, Interrupted t))"
| "circuit_attempt cfg now (Probing out) = (\<not> out, Probing True)"

fun circuit_success :: "circuit \<Rightarrow> circuit" where
  "circuit_success (Conducting n) = Conducting 0"
| "circuit_success (Interrupted t) = Interrupted t"
| "circuit_success (Probing out) = Conducting 0"

fun circuit_failure :: "breaker_config \<Rightarrow> instant \<Rightarrow> circuit \<Rightarrow> circuit" where
  "circuit_failure cfg now (Conducting n) =
     (if n + 1 \<ge> failureThreshold cfg then Interrupted now else Conducting (n + 1))"
| "circuit_failure cfg now (Interrupted t) = Interrupted t"
| "circuit_failure cfg now (Probing out) = Interrupted now"

definition circuit_of :: "breaker_entry \<Rightarrow> circuit" where
  "circuit_of e = (case br_state e of
      Closed \<Rightarrow> Conducting (failures e)
    | Open \<Rightarrow> Interrupted (case openedAt e of Some t \<Rightarrow> t | None \<Rightarrow> 0)
    | HalfOpen \<Rightarrow> Probing (probeInFlight e))"

definition success_count_ok :: "breaker_entry \<Rightarrow> bool" where
  "success_count_ok e \<longleftrightarrow> 0 \<le> consecutiveSuccesses e"

section \<open>Properties\<close>

text \<open>
  C12. The entries implement the circuit automaton: with one success enough to close (the
  configured value), every operation on an entry is the automaton's step on its abstraction,
  the answer of \<open>shouldAttempt\<close> included.
\<close>

theorem breaker_refines_circuit:
  assumes "entry_ok cfg e" and "success_count_ok e" and "successThresholdToClose cfg = 1"
  shows "(fst (shouldAttempt_entry cfg now e), circuit_of (snd (shouldAttempt_entry cfg now e))) =
       circuit_attempt cfg now (circuit_of e) \<and>
     circuit_of (recordSuccess_entry cfg e) = circuit_success (circuit_of e) \<and>
     circuit_of (recordFailure_entry cfg now e) = circuit_failure cfg now (circuit_of e)"
  using assms
  by (cases "br_state e"; cases "openedAt e")
     (auto simp: breaker_defs entry_ok_def circuit_of_def success_count_ok_def)

theorem breaker_refines_circuit_witness:
  "circuit_of (recordFailure_entry DEFAULT_CONFIG 7 (fresh_entry\<lparr>failures := 4\<rparr>)) = Interrupted 7"
proof -
  have "entry_ok DEFAULT_CONFIG (fresh_entry\<lparr>failures := 4\<rparr>)"
    and "success_count_ok (fresh_entry\<lparr>failures := 4\<rparr>)" and "successThresholdToClose DEFAULT_CONFIG = 1"
    by (simp_all add: entry_ok_def fresh_entry_def DEFAULT_CONFIG_def success_count_ok_def)
  from breaker_refines_circuit [OF this, of 7] show ?thesis
    by (simp add: circuit_of_def fresh_entry_def DEFAULT_CONFIG_def)
qed

text \<open>
  Once a probe is out, only a recorded outcome or a reset of that webhook ends the half-open
  state: every further attempt is refused and changes nothing.
\<close>

fun records :: "jstring \<Rightarrow> breaker_op \<Rightarrow> bool" where
  "records w (Attempt now v) = False"
| "records w op = (op_webhook op = w)"

definition probe_out :: "breaker \<Rightarrow> jstring \<Rightarrow> bool" where
  "probe_out s w \<longleftrightarrow> br_state (entry s w) = HalfOpen \<and> probeInFlight (entry s w)"

lemma probe_out_refused: "probe_out s w \<Longrightarrow> \<not> fst (shouldAttempt cfg now w s)"
  by (simp add: probe_out_def shouldAttempt_def shouldAttempt_entry_def)

lemma probe_out_step:
  assumes "probe_out s w" and "\<not> records w op"
  shows "probe_out (breaker_step cfg s op) w"
proof (cases "op_webhook op = w")
  case True
  with assms(2) obtain now where op: "op = Attempt now w" by (cases op) auto
  from assms(1) have "shouldAttempt_entry cfg now (entry s w) = (False, entry s w)"
    by (simp add: probe_out_def shouldAttempt_entry_def)
  with op assms(1) show ?thesis by (simp add: probe_out_def shouldAttempt_def entry_def)
next
  case False
  with assms(1) show ?thesis by (simp add: probe_out_def breaker_step_other)
qed

lemma probe_out_run:
  "probe_out s w \<Longrightarrow> \<forall>op \<in> set ops. \<not> records w op \<Longrightarrow> probe_out (foldl (breaker_step cfg) s ops) w"
  by (induction ops arbitrary: s) (auto intro: probe_out_step)

text \<open>
  A half-open circuit lets exactly one probe through: from any state the breaker can reach
  in which the circuit of a webhook is open, an attempt allowed after the reset timeout is the
  last one allowed, however long the process runs, until an outcome of that webhook is recorded
  or the webhook is reset.
\<close>

theorem single_probe:
  assumes "s = foldl (breaker_step cfg) Map.empty history"
    and "br_state (entry s w) = Open" and "fst (shouldAttempt cfg t w s)"
    and "\<forall>op \<in> set ops. \<not> records w op"
  shows "\<not> fst (shouldAttempt cfg now w (foldl (breaker_step cfg) (snd (shouldAttempt cfg t w s)) ops)) \<and>
    (\<exists>t0. openedAt (entry s w) = Some t0 \<and> t \<ge> t0 + resetTimeoutMs cfg)"
proof -
  have "breaker_ok cfg s"
    unfolding assms(1) by (rule breakers.run_inv) (simp add: breaker_ok_def)
  then have ok: "entry_ok cfg (entry s w)" by (rule entry_ok_entry)
  with assms(2) obtain t0 where t0: "openedAt (entry s w) = Some t0"
    by (auto simp: entry_ok_def)
  with assms(2,3) have "t - t0 \<ge> resetTimeoutMs cfg"
    and "probe_out (snd (shouldAttempt cfg t w s)) w"
    by (auto simp: shouldAttempt_def shouldAttempt_entry_def probe_out_def entry_def split: if_splits)
  with t0 assms(4) probe_out_run probe_out_refused show ?thesis by fastforce
qed

definition opened_history :: "breaker_op list" where
  "opened_history = replicate 5 (Failure 0 (js ''w''))"

theorem single_probe_witness:
  "\<not> fst (shouldAttempt DEFAULT_CONFIG 99999999 (js ''w'')
      (foldl (breaker_step DEFAULT_CONFIG)
        (snd (shouldAttempt DEFAULT_CONFIG 60000 (js ''w'')
          (foldl (breaker_step DEFAULT_CONFIG) Map.empty opened_history)))
        [Attempt 70000 (js ''w''), Attempt 80000 (js ''v'')]))"
proof -
  let ?s = "foldl (breaker_step DEFAULT_CONFIG) Map.empty opened_history"
  have "br_state (entry ?s (js ''w'')) = Open" "fst (shouldAttempt DEFAULT_CONFIG 60000 (js ''w'') ?s)"
    by code_simp+
  from single_probe [OF refl this, of "[Attempt 70000 (js ''w''), Attempt 80000 (js ''v'')]"]
  show ?thesis by simp
qed

fun fail_times :: "breaker_config \<Rightarrow> instant list \<Rightarrow> breaker_entry \<Rightarrow> breaker_entry" where
  "fail_times cfg [] e = e"
| "fail_times cfg (t # ts) e = fail_times cfg ts (recordFailure_entry cfg t e)"

lemma fail_times_closed:
  "br_state e = Closed \<Longrightarrow> failures e + int (length ts) < failureThreshold cfg \<Longrightarrow>
   br_state (fail_times cfg ts e) = Closed \<and> failures (fail_times cfg ts e) = failures e + int (length ts)"
  by (induction ts arbitrary: e) (auto simp: recordFailure_entry_def Let_def)

lemma fail_times_append:
  "fail_times cfg (ts @ us) e = fail_times cfg us (fail_times cfg ts e)"
  by (induction ts arbitrary: e) auto

text \<open>
  The circuit opens after exactly \<open>failureThreshold\<close> consecutive failures: from a closed
  entry with no failures counted, \<open>n\<close> failures in a row leave it closed while \<open>n\<close> is below the
  threshold and open, dated at the last of them, when \<open>n\<close> reaches it; an attempt is then refused
  until the reset timeout has passed.
\<close>

theorem opens_at_threshold:
  assumes "br_state e = Closed" and "failures e = 0" and "int (length ts) + 1 = failureThreshold cfg"
  shows "br_state (fail_times cfg ts e) = Closed \<and>
    br_state (fail_times cfg (ts @ [t]) e) = Open \<and>
    openedAt (fail_times cfg (ts @ [t]) e) = Some t \<and>
    (\<forall>now. fst (shouldAttempt_entry cfg now (fail_times cfg (ts @ [t]) e)) \<longleftrightarrow> now \<ge> t + resetTimeoutMs cfg)"
proof -
  have c: "br_state (fail_times cfg ts e) = Closed" "failures (fail_times cfg ts e) = int (length ts)"
    using fail_times_closed [of e ts cfg] assms by simp_all
  have "fail_times cfg (ts @ [t]) e = recordFailure_entry cfg t (fail_times cfg ts e)"
    by (simp add: fail_times_append)
  with c assms(3) show ?thesis
    by (auto simp: recordFailure_entry_def Let_def shouldAttempt_entry_def)
qed

theorem opens_at_threshold_witness:
  "br_state (fail_times DEFAULT_CONFIG [1, 2, 3, 4] fresh_entry) = Closed \<and>
   br_state (fail_times DEFAULT_CONFIG ([1, 2, 3, 4] @ [5]) fresh_entry) = Open"
  using opens_at_threshold [of fresh_entry "[1, 2, 3, 4]" DEFAULT_CONFIG 5]
  by (simp add: fresh_entry_def DEFAULT_CONFIG_def)

end
