(* ===== verification/Url_Guard.thy ===== *)
theory Url_Guard
  imports App_Config Http_Model
begin

text \<open>
  The SSRF guard of outbound deliveries, \<open>src/src/lib/webhooks/url-guard.ts\<close>. Parsing a URL,
  recognising an IPv6 literal and resolving a name are the functions of \<open>net_env\<close> (\<open>None\<close> where
  the engine throws); everything the guard decides is modelled. The property relates the octet
  tests of the source to the CIDR blocks its comments name, on 32-bit addresses.
\<close>

unbundle bit_operations_syntax

record url_parts =
  url_protocol :: jstring
  url_hostname :: jstring

record net_env =
  parse_url :: "jstring \<Rightarrow> url_parts option"
  isIPv6 :: "jstring \<Rightarrow> bool"
  lookup :: "jstring \<Rightarrow> jstring list option"

text \<open>\<open>hostname.replace(/^\[|\]$/g, '')\<close>, as the other readers of a host name write it.\<close>

definition strip_brackets :: "jstring \<Rightarrow> jstring" where
  "strip_brackets h =
     (let a = (if starts_with h (js ''['') then drop 1 h else h)
      in if ends_with a (js '']'') then butlast a else a)"

definition dec_value :: "jstring \<Rightarrow> nat option" where
  "dec_value s = (if s \<noteq> [] \<and> list_all is_digit s
     then Some (foldl (\<lambda>n c. 10 * n + (unat c - 48)) 0 s) else None)"

definition dot :: code_unit where "dot = cu (CHR ''.'')"

text \<open>The IPv4 half of \<open>net.isIP\<close>: four decimal octets without leading zeros.\<close>

definition isIPv4 :: "jstring \<Rightarrow> bool" where
  "isIPv4 s \<longleftrightarrow> length (split_on dot s) = 4 \<and>
     list_all (\<lambda>p. case dec_value p of Some n \<Rightarrow> n \<le> 255 \<and> decimal n = p | None \<Rightarrow> False) (split_on dot s)"

definition isPrivateIpv4 :: "jstring \<Rightarrow> bool" where
  "isPrivateIpv4 ip =
     (case map dec_value (split_on dot ip) of
        [Some a, Some b, Some c, Some d] \<Rightarrow>
          (if a > 255 \<or> b > 255 \<or> c > 255 \<or> d > 255 then True
           else a = 0 \<or> a = 10 \<or> a = 127 \<or> (a = 169 \<and> b = 254) \<or> (a = 172 \<and> 16 \<le> b \<and> b \<le> 31) \<or>
                (a = 192 \<and> b = 168) \<or> (a = 100 \<and> 64 \<le> b \<and> b \<le> 127) \<or> 224 \<le> a)
      | _ \<Rightarrow> True)"

definition mapped_ipv4 :: "jstring \<Rightarrow> jstring option" where
  "mapped_ipv4 addr =
     (if starts_with addr (js ''::ffff:'') \<and> length (split_on dot (drop 7 addr)) = 4 \<and>
         list_all (\<lambda>p. 1 \<le> length p \<and> length p \<le> 3 \<and> list_all is_digit p) (split_on dot (drop 7 addr))
      then Some (drop 7 addr) else None)"

definition isPrivateIpv6 :: "jstring \<Rightarrow> bool" where
  "isPrivateIpv6 ip =
     (let addr = hd (split_on (cu (CHR ''%'')) (to_lower ip))
      in if addr = js ''::1'' \<or> addr = js ''::'' then True
         else case mapped_ipv4 addr of
                Some v4 \<Rightarrow> isPrivateIpv4 v4
              | None \<Rightarrow> starts_with addr (js ''fe80'') \<or> starts_with addr (js ''fc'') \<or>
                        starts_with addr (js ''fd'') \<or> starts_with addr (js ''ff''))"

definition isPrivateIp :: "net_env \<Rightarrow> jstring \<Rightarrow> bool" where
  "isPrivateIp net ip =
     (if isIPv4 ip then isPrivateIpv4 ip else if isIPv6 net ip then isPrivateIpv6 ip else True)"

datatype unsafe_url = NotAbsolute | BadScheme | NeedsHttps | NotAllowlisted | NonPublic
  | Unresolved jstring | NoAddresses jstring \<comment> \<open>with the host\<close>

fun unsafe_message :: "unsafe_url \<Rightarrow> jstring" where
  "unsafe_message NotAbsolute = js ''url is not a valid absolute URL''"
| "unsafe_message BadScheme = js ''url scheme must be http or https''"
| "unsafe_message NeedsHttps = js ''url must use https in production''"
| "unsafe_message NotAllowlisted = js ''url host is not in WEBHOOK_URL_ALLOWLIST''"
| "unsafe_message NonPublic = js ''url host resolves to a non-public address''"
| "unsafe_message (Unresolved host) = js ''url host '' @ host @ js '' could not be resolved''"
| "unsafe_message (NoAddresses host) = js ''url host '' @ host @ js '' resolved to no addresses''"

definition allowlisted :: "app_config \<Rightarrow> jstring \<Rightarrow> bool" where
  "allowlisted cfg hostname \<longleftrightarrow>
     (let host = to_lower hostname
      in list_ex (\<lambda>e. if starts_with e (js ''.'') then ends_with host e \<or> host = drop 1 e else host = e)
           (webhookUrlAllowlist cfg))"

text \<open>\<open>Some e\<close> is \<open>UnsafeWebhookUrlError\<close>; \<open>None\<close> returns.\<close>

definition assertSafeWebhookUrl :: "net_env \<Rightarrow> app_config \<Rightarrow> jstring \<Rightarrow> unsafe_url option" where
  "assertSafeWebhookUrl net cfg rawUrl =
     (case parse_url net rawUrl of
        None \<Rightarrow> Some NotAbsolute
      | Some url \<Rightarrow>
          (if url_protocol url \<noteq> js ''https:'' \<and> url_protocol url \<noteq> js ''http:'' then Some BadScheme
           else if isProduction cfg \<and> url_protocol url \<noteq> js ''https:'' then Some NeedsHttps
           else if webhookUrlAllowlist cfg \<noteq> [] \<and> \<not> allowlisted cfg (url_hostname url) then Some NotAllowlisted
           else
             let host = url_hostname url
             in if isIPv4 host \<or> isIPv6 net host then
                  (if isPrivateIp net host then Some NonPublic else None)
                else case lookup net host of
                       None \<Rightarrow> Some (Unresolved host)
                     | Some addresses \<Rightarrow>
                         (if addresses = [] then Some (NoAddresses host)
                          else if list_ex (isPrivateIp net) addresses then Some NonPublic
                          else None)))"

section \<open>Addresses\<close>

definition dotted :: "nat \<Rightarrow> nat \<Rightarrow> nat \<Rightarrow> nat \<Rightarrow> jstring" where
  "dotted a b c d = decimal a @ dot # decimal b @ dot # decimal c @ dot # decimal d"

definition ipv4_address :: "nat \<Rightarrow> nat \<Rightarrow> nat \<Rightarrow> nat \<Rightarrow> 32 word" where
  "ipv4_address a b c d = of_nat (((a * 256 + b) * 256 + c) * 256 + d)"

text \<open>The blocks the comments of the source name, as base address and prefix length.\<close>

definition private_blocks :: "(32 word \<times> nat) list" where
  "private_blocks =
     [(ipv4_address 0 0 0 0, 8), (ipv4_address 10 0 0 0, 8), (ipv4_address 127 0 0 0, 8),
      (ipv4_address 169 254 0 0, 16), (ipv4_address 172 16 0 0, 12), (ipv4_address 192 168 0 0, 16),
      (ipv4_address 100 64 0 0, 10), (ipv4_address 224 0 0 0, 3)]"

definition in_block :: "32 word \<Rightarrow> 32 word \<times> nat \<Rightarrow> bool" where
  "in_block addr blk \<longleftrightarrow> drop_bit (32 - snd blk) addr = drop_bit (32 - snd blk) (fst blk)"

lemma digit_unat: "k < 10 \<Longrightarrow> unat (of_nat (48 + k) :: code_unit) = 48 + k"
  by (simp add: unat_of_nat del: of_nat_add)

lemma decimal_digits: "list_all is_digit (decimal n)"
proof (induction n rule: decimal.induct)
  case (1 n)
  have d: "is_digit (of_nat (48 + k))" if "k < 10" for k
    using digit_unat [OF that] that by (simp add: is_digit_def word_le_nat_alt del: of_nat_add)
  show ?case
  proof (cases "n < 10")
    case True
    with d [of n] show ?thesis by (subst decimal.simps) simp
  next
    case False
    with 1 d [of "n mod 10"] show ?thesis by (subst decimal.simps) simp
  qed
qed

lemma dec_value_decimal [simp]: "dec_value (decimal n) = Some n"
proof -
  have u: "unat (of_nat (48 + k) :: code_unit) - 48 = k" if "k < 10" for k
    using digit_unat [OF that] by simp
  have "foldl (\<lambda>n c. 10 * n + (unat c - 48)) 0 (decimal n) = n"
  proof (induction n rule: decimal.induct)
    case (1 n)
    show ?case
    proof (cases "n < 10")
      case True
      with u [of n] show ?thesis by (subst decimal.simps) (simp del: of_nat_add)
    next
      case False
      with 1 u [of "n mod 10"] show ?thesis by (subst decimal.simps) (simp del: of_nat_add)
    qed
  qed
  then show ?thesis by (simp add: dec_value_def decimal_digits)
qed

lemma dot_not_digit: "dot \<notin> set (decimal n)"
proof
  assume "dot \<in> set (decimal n)"
  then have "is_digit dot" using decimal_digits [of n] by (simp add: list_all_iff)
  then show False by (simp add: dot_def cu_def is_digit_def)
qed

lemma split_dotted: "split_on dot (dotted a b c d) = [decimal a, decimal b, decimal c, decimal d]"
  by (simp add: dotted_def split_on_append split_on_plain dot_not_digit)

lemma isIPv4_dotted: "a < 256 \<Longrightarrow> b < 256 \<Longrightarrow> c < 256 \<Longrightarrow> d < 256 \<Longrightarrow> isIPv4 (dotted a b c d)"
  by (simp add: isIPv4_def split_dotted)

lemma unat_address:
  assumes "a < 256" "b < 256" "c < 256" "d < 256"
  shows "unat (ipv4_address a b c d) = ((a * 256 + b) * 256 + c) * 256 + d"
proof -
  have "((a * 256 + b) * 256 + c) * 256 + d < 2 ^ 32" using assms by simp
  then show ?thesis unfolding ipv4_address_def by (simp only: unat_of_nat) simp
qed

lemma in_block_nat: "in_block addr (base, p) \<longleftrightarrow> unat addr div 2 ^ (32 - p) = unat base div 2 ^ (32 - p)"
  by (simp only: in_block_def fst_conv snd_conv word_unat_eq_iff unat_drop_bit_eq)
    (simp only: drop_bit_eq_div)

lemma address_prefixes:
  fixes a b c d :: nat
  assumes "a < 256" "b < 256" "c < 256" "d < 256"
  defines "n \<equiv> ((a * 256 + b) * 256 + c) * 256 + d"
  shows "n div 2 ^ 24 = a" "n div 2 ^ 16 = a * 256 + b" "n div 2 ^ 20 = a * 16 + b div 16"
    "n div 2 ^ 22 = a * 4 + b div 64" "n div 2 ^ 29 = a div 32"
proof -
  have c: "(c * 256 + d) div 2 ^ 16 = 0" using assms by simp
  have n: "n = (a * 256 + b) * 2 ^ 16 + (c * 256 + d)" by (simp add: n_def)
  then show 16: "n div 2 ^ 16 = a * 256 + b" using c by simp
  have step: "n div 2 ^ (16 + k) = (a * 256 + b) div 2 ^ k" for k
    using 16 by (simp add: power_add div_mult2_eq)
  show "n div 2 ^ 24 = a" using step [of 8] assms by simp
  show "n div 2 ^ 20 = a * 16 + b div 16" using step [of 4] by simp
  show "n div 2 ^ 22 = a * 4 + b div 64" using step [of 6] by simp
  show "n div 2 ^ 29 = a div 32" using step [of 13] assms by (simp add: div_mult2_eq [of _ 256 32, simplified])
qed

lemma address_div:
  assumes "a < 256" "b < 256" "c < 256" "d < 256"
  shows "unat (ipv4_address a b c d) div 16777216 = a" "unat (ipv4_address a b c d) div 65536 = a * 256 + b"
    "unat (ipv4_address a b c d) div 1048576 = a * 16 + b div 16"
    "unat (ipv4_address a b c d) div 4194304 = a * 4 + b div 64"
    "unat (ipv4_address a b c d) div 536870912 = a div 32"
  using address_prefixes [OF assms] unfolding unat_address [OF assms] by simp_all

lemma octet_pairs:
  fixes a b x y :: nat
  shows "b < 256 \<Longrightarrow> y < 256 \<Longrightarrow> a * 256 + b = x * 256 + y \<longleftrightarrow> a = x \<and> b = y"
    and "b < 256 \<Longrightarrow> a * 16 + b div 16 = 2753 \<longleftrightarrow> a = 172 \<and> 16 \<le> b \<and> b \<le> 31"
    and "b < 256 \<Longrightarrow> a * 4 + b div 64 = 401 \<longleftrightarrow> a = 100 \<and> 64 \<le> b \<and> b \<le> 127"
    and "a < 256 \<Longrightarrow> a div 32 = 7 \<longleftrightarrow> 224 \<le> a"
proof -
  assume b: "b < 256"
  show "a * 256 + b = x * 256 + y \<longleftrightarrow> a = x \<and> b = y" if "y < 256"
  proof
    assume e: "a * 256 + b = x * 256 + y"
    have "(a * 256 + b) div 256 = a" "(x * 256 + y) div 256 = x" using b that by simp_all
    with e show "a = x \<and> b = y" by simp
  qed simp
  have q: "b div 16 < 16" "b div 64 < 4" using b by simp_all
  have "b div 16 = 1 \<longleftrightarrow> 16 \<le> b \<and> b \<le> 31" "b div 64 = 1 \<longleftrightarrow> 64 \<le> b \<and> b \<le> 127" by auto
  moreover have "q < 16 \<Longrightarrow> a * 16 + q = 2753 \<longleftrightarrow> a = 172 \<and> q = 1" for q :: nat by presburger
  moreover have "q < 4 \<Longrightarrow> a * 4 + q = 401 \<longleftrightarrow> a = 100 \<and> q = 1" for q :: nat by presburger
  ultimately show "a * 16 + b div 16 = 2753 \<longleftrightarrow> a = 172 \<and> 16 \<le> b \<and> b \<le> 31"
    and "a * 4 + b div 64 = 401 \<longleftrightarrow> a = 100 \<and> 64 \<le> b \<and> b \<le> 127" using q by simp_all
next
  show "a < 256 \<Longrightarrow> a div 32 = 7 \<longleftrightarrow> 224 \<le> a" by auto
qed

lemma in_some_block:
  assumes "a < 256" "b < 256" "c < 256" "d < 256"
  shows "x < 256 \<Longrightarrow> in_block (ipv4_address a b c d) (ipv4_address x 0 0 0, 8) \<longleftrightarrow> a = x"
    and "x < 256 \<Longrightarrow> y < 256 \<Longrightarrow>
      in_block (ipv4_address a b c d) (ipv4_address x y 0 0, 16) \<longleftrightarrow> a = x \<and> b = y"
    and "in_block (ipv4_address a b c d) (ipv4_address 172 16 0 0, 12) \<longleftrightarrow> a = 172 \<and> 16 \<le> b \<and> b \<le> 31"
    and "in_block (ipv4_address a b c d) (ipv4_address 100 64 0 0, 10) \<longleftrightarrow> a = 100 \<and> 64 \<le> b \<and> b \<le> 127"
    and "in_block (ipv4_address a b c d) (ipv4_address 224 0 0 0, 3) \<longleftrightarrow> 224 \<le> a"
proof -
  show "x < 256 \<Longrightarrow> in_block (ipv4_address a b c d) (ipv4_address x 0 0 0, 8) \<longleftrightarrow> a = x"
    using assms by (simp add: in_block_nat address_div)
  show "x < 256 \<Longrightarrow> y < 256 \<Longrightarrow>
      in_block (ipv4_address a b c d) (ipv4_address x y 0 0, 16) \<longleftrightarrow> a = x \<and> b = y"
    using assms by (simp add: in_block_nat address_div octet_pairs(1))
  show "in_block (ipv4_address a b c d) (ipv4_address 172 16 0 0, 12) \<longleftrightarrow> a = 172 \<and> 16 \<le> b \<and> b \<le> 31"
    using assms by (simp add: in_block_nat address_div octet_pairs(2))
  show "in_block (ipv4_address a b c d) (ipv4_address 100 64 0 0, 10) \<longleftrightarrow> a = 100 \<and> 64 \<le> b \<and> b \<le> 127"
    using assms by (simp add: in_block_nat address_div octet_pairs(3))
  show "in_block (ipv4_address a b c d) (ipv4_address 224 0 0 0, 3) \<longleftrightarrow> 224 \<le> a"
    using assms by (simp add: in_block_nat address_div octet_pairs(4))
qed

lemma private_is_block:
  assumes "a < 256" "b < 256" "c < 256" "d < 256"
  shows "isPrivateIpv4 (dotted a b c d) \<longleftrightarrow> list_ex (in_block (ipv4_address a b c d)) private_blocks"
  using assms by (simp add: isPrivateIpv4_def split_dotted private_blocks_def in_some_block [OF assms])

section \<open>Properties\<close>


definition demo_net :: net_env where
  "demo_net = \<lparr>parse_url = \<lambda>_. Some \<lparr>url_protocol = js ''https:'', url_hostname = js ''hooks.test''\<rparr>,
     isIPv6 = \<lambda>_. False, lookup = \<lambda>_. Some [dotted 93 184 215 14]\<rparr>"

definition demo_hook_config :: app_config where
  "demo_hook_config = load_config (\<lambda>_. None) Map.empty"

lemma demo_hook_config: "webhookUrlAllowlist demo_hook_config = []" "\<not> isProduction demo_hook_config"
  by code_simp+

lemma demo_net_safe: "assertSafeWebhookUrl demo_net demo_hook_config raw = None"
proof -
  have "\<not> isIPv4 (js ''hooks.test'')" by code_simp
  then show ?thesis
    by (simp add: assertSafeWebhookUrl_def demo_net_def demo_hook_config isPrivateIp_def isIPv4_dotted
        isPrivateIpv4_def split_dotted)
qed


text \<open>Link-local IPv6 is \<open>fe80::/10\<close>; the prefix test covers only its first sixteenth.\<close>

lemma link_local_fe90_passes: "\<not> isPrivateIpv6 (js ''fe90::1'') \<and> isPrivateIpv6 (js ''fe80::1'')"
  by code_simp

end
