(* ===== verification/Webhook_Service.thy ===== *)
theory Webhook_Service
  imports Circuit_Breaker Url_Guard Db_Schema Admin_Audit Event_Ids
begin

text \<open>
  Webhook deliveries, \<open>src/src/lib/webhooks/service.ts\<close>. \<open>attemptDelivery\<close> is asynchronous and
  several attempts, of the same delivery too, run interleaved: an attempt is a phase, one phase
  per stretch of code between two awaits, and \<open>hook_step\<close> runs one phase of one attempt, so every
  interleaving of the code is a list of steps. An exception anywhere in an attempt (the database,
  for instance) is \<open>Abort\<close>. HMAC, the serialisation of events and instants, DNS and the answer
  of \<open>fetch\<close> are parameters or inputs of a step.
\<close>

section \<open>Webhooks\<close>

definition FLUSH_BATCH_LIMIT :: nat where "FLUSH_BATCH_LIMIT = 500"

definition DELIVERABLE_EVENT_TYPES :: "jstring list" where
  "DELIVERABLE_EVENT_TYPES = [js ''agent.registered'', js ''agent.expired'', js ''agent.deregistered'',
     js ''handshake.complete'', js ''handshake.failed'', js ''tct.revoked'']"

record delivery_env =
  de_config :: app_config
  de_breaker :: breaker_config
  de_hmac :: "jstring \<Rightarrow> jstring \<Rightarrow> jstring"
  de_event_text :: "audit_event \<Rightarrow> jstring"
  de_iso :: "instant \<Rightarrow> jstring"

definition signPayload :: "delivery_env \<Rightarrow> jstring \<Rightarrow> jstring \<Rightarrow> jstring" where
  "signPayload env secret body = de_hmac env secret body"

definition signTimestampedPayload :: "delivery_env \<Rightarrow> jstring \<Rightarrow> jstring \<Rightarrow> jstring \<Rightarrow> jstring" where
  "signTimestampedPayload env secret timestamp body = de_hmac env secret (timestamp @ js ''.'' @ body)"

definition listActiveWebhooks :: "webhook list \<Rightarrow> webhook list" where
  "listActiveWebhooks ws = filter wh_active ws"

record webhook_input =
  wi_url :: jstring
  wi_events :: "jstring list"
  wi_secret :: "jstring option"
  wi_active :: "bool option"

definition createWebhook :: "instant \<Rightarrow> jstring \<Rightarrow> jstring \<Rightarrow> webhook_input \<Rightarrow> webhook list \<Rightarrow> webhook \<times> webhook list" where
  "createWebhook now uid freshSecret i ws =
     (let w = \<lparr>wh_id = uid, wh_url = wi_url i, wh_events = wi_events i,
               wh_secret = (case wi_secret i of None \<Rightarrow> freshSecret | Some s \<Rightarrow> s),
               wh_active = (case wi_active i of None \<Rightarrow> True | Some b \<Rightarrow> b),
               wh_createdAt = now, wh_updatedAt = now\<rparr>
      in (w, ws @ [w]))"

record webhook_patch =
  wp_url :: "jstring option"
  wp_events :: "jstring list option"
  wp_secret :: "jstring option"
  wp_active :: "bool option"

definition patched_webhook :: "instant \<Rightarrow> webhook_patch \<Rightarrow> webhook \<Rightarrow> webhook" where
  "patched_webhook now p w = w\<lparr>
     wh_url := (case wp_url p of None \<Rightarrow> wh_url w | Some u \<Rightarrow> u),
     wh_events := (case wp_events p of None \<Rightarrow> wh_events w | Some e \<Rightarrow> e),
     wh_secret := (case wp_secret p of None \<Rightarrow> wh_secret w | Some s \<Rightarrow> s),
     wh_active := (case wp_active p of None \<Rightarrow> wh_active w | Some b \<Rightarrow> b),
     wh_updatedAt := now\<rparr>"

definition updateWebhook :: "instant \<Rightarrow> jstring \<Rightarrow> webhook_patch \<Rightarrow> webhook list \<Rightarrow> webhook option \<times> webhook list" where
  "updateWebhook now i p ws =
     (let ws1 = update_where (\<lambda>w. wh_id w = i) (patched_webhook now p) ws in (find_row wh_id i ws1, ws1))"

text \<open>Deleting a webhook deletes its deliveries (\<open>onDelete: cascade\<close>).\<close>

definition deleteWebhook :: "jstring \<Rightarrow> webhook list \<Rightarrow> webhook_delivery list \<Rightarrow> bool \<times> webhook list \<times> webhook_delivery list" where
  "deleteWebhook i ws ds =
     (i \<in> wh_id ` set ws, filter (\<lambda>w. wh_id w \<noteq> i) ws, filter (\<lambda>r. wd_webhookId r \<noteq> i) ds)"

section \<open>Enqueue\<close>

definition buildCanonicalBody :: "delivery_env \<Rightarrow> jstring \<Rightarrow> audit_event \<Rightarrow> instant \<Rightarrow> jstring" where
  "buildCanonicalBody env deliveryId e enqueuedAt =
     js ''{\"deliveryId\":'' @ json_quote deliveryId @ js '',\"eventType\":'' @ json_quote (ev_type e) @
     js '',\"payload\":'' @ de_event_text env e @ js '',\"enqueuedAt\":'' @ json_quote (de_iso env enqueuedAt) @ js ''}''"

definition delivery_row :: "delivery_env \<Rightarrow> instant \<Rightarrow> jstring \<Rightarrow> webhook \<Rightarrow> audit_event \<Rightarrow> webhook_delivery" where
  "delivery_row env now did w e =
     (let body = buildCanonicalBody env did e now
      in \<lparr>wd_id = did, wd_webhookId = wh_id w, wd_eventType = ev_type e, wd_payload = e,
          wd_body = Some body, wd_signature = Some (signPayload env (wh_secret w) body),
          wd_status = Pending, wd_attempts = 0, wd_statusCode = None, wd_error = None,
          wd_deliveredAt = None, wd_nextRetryAt = None, wd_createdAt = now\<rparr>)"

text \<open>The webhooks an event goes to, of the list the batch fetched once.\<close>

definition dispatchWebhooksWithList :: "audit_event \<Rightarrow> webhook list \<Rightarrow> webhook list" where
  "dispatchWebhooksWithList e candidates =
     (if ev_type e \<notin> set DELIVERABLE_EVENT_TYPES then []
      else filter (\<lambda>w. wh_active w \<and> (wh_events w = [] \<or> ev_type e \<in> set (wh_events w))) candidates)"

section \<open>Attempts\<close>

datatype phase =
    Begin jstring
  | LoadWebhook webhook_delivery
  | MarkMissing jstring
  | Defer jstring breaker_state instant
  | Claim webhook_delivery webhook
  | Guarding webhook_delivery webhook nat jstring jstring
  | Blocked jstring unsafe_url
  | Awaiting webhook_delivery webhook nat
  | SaveDelivered jstring nat
  | GoneRow webhook_delivery webhook jstring
  | GoneDisable webhook_delivery webhook
  | GoneQueue webhook_delivery webhook bool
  | GoneAudit webhook_delivery webhook
  | SaveFailed jstring "nat option" "jstring option"
  | SaveRetry jstring "nat option" "jstring option" instant
  | Finished

datatype fetch_result = Response nat jstring | FetchError jstring

record step_input =
  si_now :: instant
  si_jitter :: int
  si_net :: net_env
  si_fetch :: fetch_result

record post =
  po_delivery :: jstring
  po_attempt :: nat
  po_url :: jstring
  po_body :: jstring
  po_signature :: jstring
  po_timestamp :: jstring
  po_timestamp_signature :: jstring

record hook_world =
  hw_webhooks :: "webhook list"
  hw_deliveries :: "webhook_delivery list"
  hw_breaker :: breaker
  hw_posts :: "post list"
  hw_audit :: "admin_audit_entry list"

definition set_delivery :: "jstring \<Rightarrow> (webhook_delivery \<Rightarrow> webhook_delivery) \<Rightarrow> hook_world \<Rightarrow> hook_world" where
  "set_delivery did f w = w\<lparr>hw_deliveries := update_where (\<lambda>r. wd_id r = did) f (hw_deliveries w)\<rparr>"

definition state_name :: "breaker_state \<Rightarrow> jstring" where
  "state_name s = (case s of Closed \<Rightarrow> js ''closed'' | Open \<Rightarrow> js ''open'' | HalfOpen \<Rightarrow> js ''half_open'')"

text \<open>The claim pins the attempt count that was read and the pending status.\<close>

definition claimable :: "webhook_delivery \<Rightarrow> webhook_delivery \<Rightarrow> bool" where
  "claimable read r \<longleftrightarrow> wd_id r = wd_id read \<and> wd_attempts r = wd_attempts read \<and> wd_status r = Pending"

definition delivery_text :: "delivery_env \<Rightarrow> webhook_delivery \<Rightarrow> webhook \<Rightarrow> jstring \<times> jstring" where
  "delivery_text env r w =
     (if \<not> blank (wd_body r) \<and> \<not> blank (wd_signature r) then (the (wd_body r), the (wd_signature r))
      else let body = buildCanonicalBody env (wd_id r) (wd_payload r) (wd_createdAt r)
           in (body, signPayload env (wh_secret w) body))"

definition backoffMs :: "nat \<Rightarrow> int" where
  "backoffMs attempts = 30000 * 4 ^ (attempts - 1)"

definition loaded_webhook ::
  "delivery_env \<Rightarrow> step_input \<Rightarrow> webhook_delivery \<Rightarrow> hook_world \<Rightarrow> phase \<times> hook_world" where
  "loaded_webhook env i r w =
     (case find_row wh_id (wd_webhookId r) (hw_webhooks w) of
        None \<Rightarrow> (MarkMissing (wd_id r), w)
      | Some wh \<Rightarrow>
          if \<not> wh_active wh then (MarkMissing (wd_id r), w)
          else
            let (ok, b) = shouldAttempt (de_breaker env) (si_now i) (wh_id wh) (hw_breaker w);
                snap = getSnapshot (de_breaker env) b (wh_id wh);
                baseMs = (case nextProbeAt snap of None \<Rightarrow> si_now i + 60000 | Some t \<Rightarrow> t)
            in (if ok then Claim r wh else Defer (wd_id r) (sn_state snap) (baseMs + si_jitter i),
                w\<lparr>hw_breaker := b\<rparr>))"

definition claimed :: "delivery_env \<Rightarrow> webhook_delivery \<Rightarrow> webhook \<Rightarrow> hook_world \<Rightarrow> phase \<times> hook_world" where
  "claimed env r wh w =
     (if \<not> list_ex (claimable r) (hw_deliveries w) then (Finished, w)
      else let (body, sig) = delivery_text env r wh
           in (Guarding r wh (wd_attempts r + 1) body sig,
               w\<lparr>hw_deliveries := update_where (claimable r)
                   (\<lambda>x. x\<lparr>wd_attempts := wd_attempts r + 1, wd_status := Pending\<rparr>) (hw_deliveries w)\<rparr>))"

definition answered :: "delivery_env \<Rightarrow> step_input \<Rightarrow> webhook_delivery \<Rightarrow> webhook \<Rightarrow> nat \<Rightarrow> hook_world \<Rightarrow> phase \<times> hook_world" where
  "answered env i r wh n w =
     (let (statusCode, error, ok) =
            (case si_fetch i of
               Response st text \<Rightarrow>
                 (if 200 \<le> st \<and> st \<le> 299 then (Some st, None, True)
                  else (Some st, Some (js ''non-2xx ('' @ decimal st @ js ''): '' @ take 200 text), False))
             | FetchError e \<Rightarrow> (None, Some e, False))
      in if ok then
           (SaveDelivered (wd_id r) (the statusCode),
            w\<lparr>hw_breaker := recordSuccess (de_breaker env) (wh_id wh) (hw_breaker w)\<rparr>)
         else if statusCode = Some 410 then
           (GoneRow r wh (the error), w\<lparr>hw_breaker := breaker_reset (wh_id wh) (hw_breaker w)\<rparr>)
         else
           (if int n \<ge> webhookRetryAttempts (de_config env) then SaveFailed (wd_id r) statusCode error
            else SaveRetry (wd_id r) statusCode error (si_now i + backoffMs n),
            w\<lparr>hw_breaker := recordFailure (de_breaker env) (si_now i) (wh_id wh) (hw_breaker w)\<rparr>))"

definition post_of :: "delivery_env \<Rightarrow> step_input \<Rightarrow> webhook_delivery \<Rightarrow> webhook \<Rightarrow> nat \<Rightarrow> jstring \<Rightarrow> jstring \<Rightarrow> post" where
  "post_of env i r wh n body sig =
     (let ts = num_str (si_now i div 1000)
      in \<lparr>po_delivery = wd_id r, po_attempt = n, po_url = wh_url wh, po_body = body, po_signature = sig,
          po_timestamp = ts, po_timestamp_signature = signTimestampedPayload env (wh_secret wh) ts body\<rparr>)"

definition unsubscribed_entry :: "webhook_delivery \<Rightarrow> webhook \<Rightarrow> admin_audit_entry" where
  "unsubscribed_entry r wh = \<lparr>ae_action = js ''webhook.unsubscribed'', ae_targetId = Some (wh_id wh),
     ae_details = Some [(js ''url'', JStr (wh_url wh)), (js ''deliveryId'', JStr (wd_id r)), (js ''statusCode'', jint 410)],
     ae_context = \<lparr>ac_actorId = Some (js ''system:webhook-delivery''), ac_requestId = None, ac_clientIp = None\<rparr>\<rparr>"

fun run_phase :: "delivery_env \<Rightarrow> step_input \<Rightarrow> phase \<Rightarrow> hook_world \<Rightarrow> phase \<times> hook_world" where
  "run_phase env i (Begin did) w =
     (case find_row wd_id did (hw_deliveries w) of
        None \<Rightarrow> (Finished, w)
      | Some r \<Rightarrow> if wd_status r = Delivered then (Finished, w) else (LoadWebhook r, w))"
| "run_phase env i (LoadWebhook r) w = loaded_webhook env i r w"
| "run_phase env i (MarkMissing did) w =
     (Finished, set_delivery did (\<lambda>r. r\<lparr>wd_status := DeliveryFailed,
        wd_error := Some (js ''webhook missing or inactive'')\<rparr>) w)"
| "run_phase env i (Defer did st retryAt) w =
     (Finished, set_delivery did (\<lambda>r. r\<lparr>wd_status := Pending,
        wd_error := Some (js ''circuit breaker '' @ state_name st), wd_nextRetryAt := Some retryAt\<rparr>) w)"
| "run_phase env i (Claim r wh) w = claimed env r wh w"
| "run_phase env i (Guarding r wh n body sig) w =
     (case assertSafeWebhookUrl (si_net i) (de_config env) (wh_url wh) of
        Some e \<Rightarrow> (Blocked (wd_id r) e, w)
      | None \<Rightarrow> (Awaiting r wh n, w\<lparr>hw_posts := hw_posts w @ [post_of env i r wh n body sig]\<rparr>))"
| "run_phase env i (Blocked did e) w =
     (Finished, set_delivery did (\<lambda>r. r\<lparr>wd_status := DeliveryFailed,
        wd_error := Some (js ''unsafe target: '' @ unsafe_message e), wd_nextRetryAt := None\<rparr>) w)"
| "run_phase env i (Awaiting r wh n) w = answered env i r wh n w"
| "run_phase env i (SaveDelivered did st) w =
     (Finished, set_delivery did (\<lambda>r. r\<lparr>wd_status := Delivered, wd_statusCode := Some st, wd_error := None,
        wd_deliveredAt := Some (si_now i), wd_nextRetryAt := None\<rparr>) w)"
| "run_phase env i (GoneRow r wh err) w =
     (GoneDisable r wh, set_delivery (wd_id r) (\<lambda>x. x\<lparr>wd_status := DeliveryFailed, wd_statusCode := Some 410,
        wd_error := Some err, wd_nextRetryAt := None\<rparr>) w)"
| "run_phase env i (GoneDisable r wh) w =
     (GoneQueue r wh (list_ex (\<lambda>x. wh_id x = wh_id wh \<and> wh_active x) (hw_webhooks w)),
      w\<lparr>hw_webhooks := update_where (\<lambda>x. wh_id x = wh_id wh \<and> wh_active x)
          (\<lambda>x. x\<lparr>wh_active := False, wh_updatedAt := si_now i\<rparr>) (hw_webhooks w)\<rparr>)"
| "run_phase env i (GoneQueue r wh disabled) w =
     (if disabled then GoneAudit r wh else Finished,
      w\<lparr>hw_deliveries := update_where (\<lambda>x. wd_webhookId x = wh_id wh \<and> wd_status x = Pending)
          (\<lambda>x. x\<lparr>wd_status := DeliveryFailed, wd_error := Some (js ''webhook unsubscribed (410 Gone)''),
                wd_nextRetryAt := None\<rparr>) (hw_deliveries w)\<rparr>)"
| "run_phase env i (GoneAudit r wh) w = (Finished, w\<lparr>hw_audit := hw_audit w @ [unsubscribed_entry r wh]\<rparr>)"
| "run_phase env i (SaveFailed did st err) w =
     (Finished, set_delivery did (\<lambda>r. r\<lparr>wd_status := DeliveryFailed, wd_statusCode := st, wd_error := err,
        wd_nextRetryAt := None\<rparr>) w)"
| "run_phase env i (SaveRetry did st err retryAt) w =
     (Finished, set_delivery did (\<lambda>r. r\<lparr>wd_status := Pending, wd_statusCode := st, wd_error := err,
        wd_nextRetryAt := Some retryAt\<rparr>) w)"
| "run_phase env i Finished w = (Finished, w)"

section \<open>Interleaved attempts\<close>

record hook_state = hook_world +
  hw_attempts :: "nat \<Rightarrow> phase"

datatype hook_op =
    Enqueue nat jstring webhook audit_event instant \<comment> \<open>\<open>enqueueDelivery\<close>: store the row, start an attempt\<close>
  | Spawn nat jstring                               \<comment> \<open>the reaper or a retry timer starts an attempt\<close>
  | Run nat step_input                              \<comment> \<open>an attempt runs to its next await\<close>
  | Abort nat                                       \<comment> \<open>an await of an attempt throws\<close>
  | Configure "webhook list"                        \<comment> \<open>the admin routes change the webhooks\<close>

definition with_world :: "hook_state \<Rightarrow> hook_world \<Rightarrow> hook_state" where
  "with_world s w = s\<lparr>hw_webhooks := hw_webhooks w, hw_deliveries := hw_deliveries w,
     hw_breaker := hw_breaker w, hw_posts := hw_posts w, hw_audit := hw_audit w\<rparr>"

fun hook_step :: "delivery_env \<Rightarrow> hook_state \<Rightarrow> hook_op \<Rightarrow> hook_state" where
  "hook_step env s (Enqueue p did w e now) =
     (if did \<in> wd_id ` set (hw_deliveries s) then s
      else s\<lparr>hw_deliveries := hw_deliveries s @ [delivery_row env now did w e],
             hw_attempts := (hw_attempts s)(p := Begin did)\<rparr>)"
| "hook_step env s (Spawn p did) = s\<lparr>hw_attempts := (hw_attempts s)(p := Begin did)\<rparr>"
| "hook_step env s (Run p i) =
     (let (ph, w) = run_phase env i (hw_attempts s p) (hook_world.truncate s)
      in (with_world s w)\<lparr>hw_attempts := (hw_attempts s)(p := ph)\<rparr>)"
| "hook_step env s (Abort p) = s\<lparr>hw_attempts := (hw_attempts s)(p := Finished)\<rparr>"
| "hook_step env s (Configure ws) = s\<lparr>hw_webhooks := ws\<rparr>"

definition init_hooks :: hook_state where
  "init_hooks = \<lparr>hw_webhooks = [], hw_deliveries = [], hw_breaker = Map.empty, hw_posts = [], hw_audit = [],
     hw_attempts = (\<lambda>_. Finished)\<rparr>"

definition flushDueRetries :: "instant \<Rightarrow> hook_world \<Rightarrow> jstring list" where
  "flushDueRetries now w = map wd_id (take FLUSH_BATCH_LIMIT (filter (\<lambda>r. wd_status r = Pending \<and>
     (case wd_nextRetryAt r of None \<Rightarrow> True | Some t \<Rightarrow> t \<le> now)) (hw_deliveries w)))"

section \<open>Claims\<close>

text \<open>What the steps may change of a delivery row: its attempt count, and nothing of its text.\<close>

type_synonym sealed = "nat \<times> jstring option \<times> jstring option"

definition seal_of :: "webhook_delivery \<Rightarrow> sealed" where
  "seal_of r = (wd_attempts r, wd_body r, wd_signature r)"

definition seals :: "webhook_delivery list \<Rightarrow> jstring \<Rightarrow> sealed option" where
  "seals ds did = map_option seal_of (find_row wd_id did ds)"

definition same_text :: "sealed \<Rightarrow> jstring \<Rightarrow> jstring \<Rightarrow> bool" where
  "same_text x body sig \<longleftrightarrow> fst (snd x) = Some body \<and> snd (snd x) = Some sig"

definition text_present :: "sealed \<Rightarrow> bool" where
  "text_present x \<longleftrightarrow> \<not> blank (fst (snd x)) \<and> \<not> blank (snd (snd x))"

text \<open>An attempt that has claimed number \<open>n\<close> of a delivery and has not posted yet.\<close>

fun holds_claim :: "phase \<Rightarrow> (jstring \<times> nat \<times> jstring \<times> jstring) option" where
  "holds_claim (Guarding r wh n body sig) = Some (wd_id r, n, body, sig)"
| "holds_claim _ = None"

text \<open>An attempt that carries the row it read and may still claim.\<close>

fun read_row :: "phase \<Rightarrow> webhook_delivery option" where
  "read_row (LoadWebhook r) = Some r"
| "read_row (Claim r wh) = Some r"
| "read_row _ = None"

definition claim_ok :: "(jstring \<Rightarrow> sealed option) \<Rightarrow> jstring \<Rightarrow> nat \<Rightarrow> jstring \<Rightarrow> jstring \<Rightarrow> bool" where
  "claim_ok att did n body sig \<longleftrightarrow> 1 \<le> n \<and> (case att did of None \<Rightarrow> False
     | Some x \<Rightarrow> n \<le> fst x \<and> same_text x body sig)"

definition post_key :: "post \<Rightarrow> jstring \<times> nat" where
  "post_key p = (po_delivery p, po_attempt p)"

definition hooks_inv :: "(jstring \<Rightarrow> sealed option) \<Rightarrow> (nat \<Rightarrow> phase) \<Rightarrow> post list \<Rightarrow> bool" where
  "hooks_inv att ph ps \<longleftrightarrow>
     (\<forall>did x. att did = Some x \<longrightarrow> text_present x) \<and>
     (\<forall>p r. read_row (ph p) = Some r \<longrightarrow>
        (\<exists>a. att (wd_id r) = Some (a, wd_body r, wd_signature r) \<and> wd_attempts r \<le> a)) \<and>
     (\<forall>p did n body sig. holds_claim (ph p) = Some (did, n, body, sig) \<longrightarrow>
        claim_ok att did n body sig \<and> (did, n) \<notin> post_key ` set ps) \<and>
     (\<forall>p q did n b s b' s'. holds_claim (ph p) = Some (did, n, b, s) \<longrightarrow>
        holds_claim (ph q) = Some (did, n, b', s') \<longrightarrow> p = q) \<and>
     distinct (map post_key ps) \<and>
     (\<forall>x \<in> set ps. claim_ok att (po_delivery x) (po_attempt x) (po_body x) (po_signature x))"

definition hooks_ok :: "hook_state \<Rightarrow> bool" where
  "hooks_ok s \<longleftrightarrow> unique_key wd_id (hw_deliveries s) \<and>
     hooks_inv (seals (hw_deliveries s)) (hw_attempts s) (hw_posts s)"

lemma seals_update_where:
  assumes "\<And>r. p r \<Longrightarrow> wd_id (f r) = wd_id r \<and> seal_of (f r) = seal_of r"
  shows "seals (update_where p f ds) = seals ds"
proof
  fix did
  have "find_row wd_id did (update_where p f ds) = map_option (\<lambda>r. if p r then f r else r) (find_row wd_id did ds)"
    using assms by (intro find_row_update_where) simp
  then show "seals (update_where p f ds) did = seals ds did"
    using assms by (cases "find_row wd_id did ds") (simp_all add: seals_def)
qed

lemma unique_update_where:
  "(\<And>r. p r \<Longrightarrow> wd_id (f r) = wd_id r) \<Longrightarrow> unique_key wd_id ds \<Longrightarrow> unique_key wd_id (update_where p f ds)"
  by (rule unique_key_update_where)

lemma seals_claim:
  assumes "unique_key wd_id ds" and "list_ex (claimable r) ds"
  shows "\<exists>x. seals ds (wd_id r) = Some x \<and> fst x = wd_attempts r \<and>
    seals (update_where (claimable r) (\<lambda>y. y\<lparr>wd_attempts := wd_attempts r + 1, wd_status := Pending\<rparr>) ds) =
      (seals ds)(wd_id r \<mapsto> (wd_attempts r + 1, snd x))"
proof -
  obtain y where y: "y \<in> set ds" "claimable r y" using assms(2) by (auto simp: list_ex_iff)
  let ?f = "\<lambda>y. y\<lparr>wd_attempts := wd_attempts r + 1, wd_status := Pending\<rparr>"
  have found: "find_row wd_id (wd_id r) ds = Some y"
    using find_row_unique [OF assms(1) y(1)] y(2) by (simp add: claimable_def)
  have "seals (update_where (claimable r) ?f ds) did = ((seals ds)(wd_id r \<mapsto> (wd_attempts r + 1, snd (seal_of y)))) did" for did
  proof -
    have upd: "find_row wd_id did (update_where (claimable r) ?f ds) =
        map_option (\<lambda>x. if claimable r x then ?f x else x) (find_row wd_id did ds)"
      by (rule find_row_update_where) simp
    then show ?thesis
    proof (cases "did = wd_id r")
      case True
      with found y(2) upd
      show ?thesis by (simp add: seals_def seal_of_def)
    next
      case False
      have "\<not> claimable r x" if "find_row wd_id did ds = Some x" for x
        using find_row_SomeD [OF that] False by (auto simp: claimable_def)
      with False upd
      show ?thesis by (cases "find_row wd_id did ds") (simp_all add: seals_def)
    qed
  qed
  with found y(2) show ?thesis
    by (intro exI [of _ "seal_of y"]) (auto simp: seals_def seal_of_def claimable_def)
qed

lemma hooks_invD:
  assumes "hooks_inv att ph ps"
  shows "att did = Some x \<Longrightarrow> text_present x"
    and "read_row (ph p) = Some r \<Longrightarrow> \<exists>a. att (wd_id r) = Some (a, wd_body r, wd_signature r) \<and> wd_attempts r \<le> a"
    and "holds_claim (ph p) = Some (did, n, body, sig) \<Longrightarrow> claim_ok att did n body sig \<and> (did, n) \<notin> post_key ` set ps"
    and "holds_claim (ph p) = Some (did, n, b, s) \<Longrightarrow> holds_claim (ph q) = Some (did, n, b', s') \<Longrightarrow> p = q"
    and "distinct (map post_key ps)"
    and "y \<in> set ps \<Longrightarrow> claim_ok att (po_delivery y) (po_attempt y) (po_body y) (po_signature y)"
  using assms unfolding hooks_inv_def by blast+

text \<open>Moving one attempt to a phase that carries nothing keeps the invariant.\<close>

lemma inv_quiet_phase:
  "hooks_inv att ph ps \<Longrightarrow> holds_claim x = None \<Longrightarrow>
   (\<And>r. read_row x = Some r \<Longrightarrow> \<exists>a. att (wd_id r) = Some (a, wd_body r, wd_signature r) \<and> wd_attempts r \<le> a) \<Longrightarrow>
   hooks_inv att (ph(p := x)) ps"
  unfolding hooks_inv_def by (auto split: if_splits)

lemma claim_ok_mono:
  "claim_ok att did n b s \<Longrightarrow> (\<And>x. att did = Some x \<Longrightarrow> \<exists>y. att' did = Some y \<and> fst x \<le> fst y \<and> snd y = snd x) \<Longrightarrow>
   claim_ok att' did n b s"
  by (cases "att did") (force simp: claim_ok_def same_text_def)+

lemma inv_claim:
  assumes inv: "hooks_inv att ph ps" and x: "att (wd_id r) = Some x" "fst x = wd_attempts r"
    and seal: "snd x = (Some body, Some sig)"
  shows "hooks_inv (att(wd_id r \<mapsto> (wd_attempts r + 1, snd x)))
    (ph(p := Guarding r wh (wd_attempts r + 1) body sig)) ps"
proof -
  let ?att = "att(wd_id r \<mapsto> (wd_attempts r + 1, snd x))"
  let ?ph = "ph(p := Guarding r wh (wd_attempts r + 1) body sig)"
  have grow: "\<exists>z. ?att did = Some z \<and> fst y \<le> fst z \<and> snd z = snd y" if "att did = Some y" for did y
    using that x by (cases x; cases y) auto
  have keep: "claim_ok ?att did n b s" if "claim_ok att did n b s" for did n b s
    using that grow by (rule claim_ok_mono)
  have below: "n \<le> wd_attempts r" if "claim_ok att (wd_id r) n b s" for n b s
    using that x by (auto simp: claim_ok_def)
  have present: "text_present (wd_attempts r + 1, snd x)"
    using hooks_invD(1) [OF inv x(1)] by (simp add: text_present_def)
  show ?thesis unfolding hooks_inv_def
  proof (intro conjI)
    show "\<forall>did z. ?att did = Some z \<longrightarrow> text_present z"
      using inv present by (auto simp: hooks_inv_def)
    show "\<forall>q r'. read_row (?ph q) = Some r' \<longrightarrow>
        (\<exists>a. ?att (wd_id r') = Some (a, wd_body r', wd_signature r') \<and> wd_attempts r' \<le> a)"
    proof (intro allI impI)
      fix q r' assume "read_row (?ph q) = Some r'"
      then have "read_row (ph q) = Some r'" by (auto split: if_splits)
      with hooks_invD(2) [OF inv] obtain a
        where a: "att (wd_id r') = Some (a, wd_body r', wd_signature r')" "wd_attempts r' \<le> a" by blast
      from grow [OF a(1)] obtain z where z: "?att (wd_id r') = Some z" "a \<le> fst z"
          "snd z = (wd_body r', wd_signature r')" by auto
      then have "?att (wd_id r') = Some (fst z, wd_body r', wd_signature r')" by (cases z) simp
      with z(2) a(2) show "\<exists>a. ?att (wd_id r') = Some (a, wd_body r', wd_signature r') \<and> wd_attempts r' \<le> a"
        by (intro exI [of _ "fst z"] conjI) simp_all
    qed
    show "\<forall>q did n b s. holds_claim (?ph q) = Some (did, n, b, s) \<longrightarrow>
        claim_ok ?att did n b s \<and> (did, n) \<notin> post_key ` set ps"
    proof (intro allI impI)
      fix q did n b s assume h: "holds_claim (?ph q) = Some (did, n, b, s)"
      show "claim_ok ?att did n b s \<and> (did, n) \<notin> post_key ` set ps"
      proof (cases "q = p")
        case True
        with h have e: "did = wd_id r" "n = wd_attempts r + 1" "b = body" "s = sig" by auto
        have "(wd_id r, wd_attempts r + 1) \<notin> post_key ` set ps"
        proof
          assume "(wd_id r, wd_attempts r + 1) \<in> post_key ` set ps"
          then obtain y where "y \<in> set ps" "po_delivery y = wd_id r" "po_attempt y = wd_attempts r + 1"
            by (auto simp: post_key_def)
          with hooks_invD(6) [OF inv, of y] below [of "po_attempt y" "po_body y" "po_signature y"] show False
            by simp
        qed
        with e seal show ?thesis by (simp add: claim_ok_def same_text_def)
      next
        case False
        with h have "holds_claim (ph q) = Some (did, n, b, s)" by simp
        with hooks_invD(3) [OF inv] keep show ?thesis by blast
      qed
    qed
    show "\<forall>q q' did n b s b' s'. holds_claim (?ph q) = Some (did, n, b, s) \<longrightarrow>
        holds_claim (?ph q') = Some (did, n, b', s') \<longrightarrow> q = q'"
    proof (intro allI impI)
      fix q q' did n b s b' s'
      assume h: "holds_claim (?ph q) = Some (did, n, b, s)" "holds_claim (?ph q') = Some (did, n, b', s')"
      have old: "n' \<le> wd_attempts r" if "holds_claim (ph q'') = Some (wd_id r, n', b'', s'')" for q'' n' b'' s''
      proof -
        from hooks_invD(3) [OF inv that] have "claim_ok att (wd_id r) n' b'' s''" ..
        then show ?thesis by (rule below)
      qed
      show "q = q'"
      proof (cases "q = p \<or> q' = p")
        case True
        with h old [of q n b s] old [of q' n b' s'] show ?thesis by (auto split: if_splits)
      next
        case False
        with h have "holds_claim (ph q) = Some (did, n, b, s)" "holds_claim (ph q') = Some (did, n, b', s')" by auto
        then show ?thesis by (rule hooks_invD(4) [OF inv])
      qed
    qed
    show "distinct (map post_key ps)" using inv by (simp add: hooks_inv_def)
    show "\<forall>y \<in> set ps. claim_ok ?att (po_delivery y) (po_attempt y) (po_body y) (po_signature y)"
      using inv keep by (simp add: hooks_inv_def)
  qed
qed

lemma inv_post:
  assumes "hooks_inv att ph ps" and "holds_claim (ph p) = Some (did, n, body, sig)"
    and "holds_claim x = None" "read_row x = None"
    and "po_delivery y = did" "po_attempt y = n" "po_body y = body" "po_signature y = sig"
  shows "hooks_inv att (ph(p := x)) (ps @ [y])"
proof -
  have "claim_ok att did n body sig" "(did, n) \<notin> post_key ` set ps"
    using hooks_invD(3) [OF assms(1,2)] by blast+
  moreover have "(did', n') \<noteq> (did, n)" if "q \<noteq> p" "holds_claim (ph q) = Some (did', n', b', s')" for q did' n' b' s'
    using hooks_invD(4) [OF assms(1,2)] that by blast
  ultimately show ?thesis
    using assms by (auto simp: hooks_inv_def post_key_def split: if_splits)
qed

text \<open>Every phase keeps the invariant.\<close>

definition world_ok :: "(nat \<Rightarrow> phase) \<Rightarrow> hook_world \<Rightarrow> bool" where
  "world_ok ph w \<longleftrightarrow> unique_key wd_id (hw_deliveries w) \<and> hooks_inv (seals (hw_deliveries w)) ph (hw_posts w)"

lemma world_quiet:
  assumes "world_ok ph w" and "hw_posts w' = hw_posts w"
    and "hw_deliveries w' = update_where g f (hw_deliveries w) \<or> hw_deliveries w' = hw_deliveries w"
    and "\<And>r. g r \<Longrightarrow> wd_id (f r) = wd_id r \<and> seal_of (f r) = seal_of r"
    and "holds_claim x = None" and "\<And>r. read_row x = Some r \<Longrightarrow> read_row (ph p) = Some r"
  shows "world_ok (ph(p := x)) w'"
proof -
  have "seals (hw_deliveries w') = seals (hw_deliveries w)" "unique_key wd_id (hw_deliveries w')"
    using assms(1,3,4) seals_update_where [of g f "hw_deliveries w"]
      unique_update_where [of g f "hw_deliveries w"] by (auto simp: world_ok_def)
  moreover have inv: "hooks_inv (seals (hw_deliveries w)) ph (hw_posts w)" using assms(1) by (simp add: world_ok_def)
  have "hooks_inv (seals (hw_deliveries w)) (ph(p := x)) (hw_posts w)"
    using inv assms(5) hooks_invD(2) [OF inv assms(6)] by (rule inv_quiet_phase)
  ultimately show ?thesis using assms(2) by (simp add: world_ok_def)
qed

lemma world_set_delivery:
  assumes "world_ok ph w" and "\<And>r. wd_id (f r) = wd_id r \<and> seal_of (f r) = seal_of r"
    and "holds_claim x = None" and "read_row x = None"
  shows "world_ok (ph(p := x)) (set_delivery did f w)"
  by (rule world_quiet [OF assms(1), where g = "\<lambda>r. wd_id r = did" and f = f])
     (use assms(2-4) in \<open>simp_all add: set_delivery_def\<close>)

lemma world_same_deliveries:
  assumes "world_ok ph w" and "hw_posts w' = hw_posts w" and "hw_deliveries w' = hw_deliveries w"
    and "holds_claim x = None" and "\<And>r. read_row x = Some r \<Longrightarrow> read_row (ph p) = Some r"
  shows "world_ok (ph(p := x)) w'"
  by (rule world_quiet [OF assms(1,2), where g = "\<lambda>_. False" and f = id]) (use assms(3-5) in simp_all)

lemma claimed_ok:
  assumes ok: "world_ok ph w" and p: "ph p = Claim r wh" and run: "claimed env r wh w = (x, w')"
  shows "world_ok (ph(p := x)) w'"
proof (cases "list_ex (claimable r) (hw_deliveries w)")
  case False
  with run have "x = Finished" "w' = w" by (simp_all add: claimed_def)
  with ok show ?thesis by (auto intro: world_same_deliveries)
next
  case True
  from ok have u: "unique_key wd_id (hw_deliveries w)" and inv: "hooks_inv (seals (hw_deliveries w)) ph (hw_posts w)"
    by (simp_all add: world_ok_def)
  let ?ds = "update_where (claimable r) (\<lambda>y. y\<lparr>wd_attempts := wd_attempts r + 1, wd_status := Pending\<rparr>) (hw_deliveries w)"
  obtain y where y: "seals (hw_deliveries w) (wd_id r) = Some y" "fst y = wd_attempts r"
      "seals ?ds = (seals (hw_deliveries w))(wd_id r \<mapsto> (wd_attempts r + 1, snd y))"
    using seals_claim [OF u True] by blast
  from hooks_invD(2) [OF inv, of p r] p y(1) have same: "snd y = (wd_body r, wd_signature r)" by auto
  from hooks_invD(1) [OF inv y(1)] same
  have "\<not> blank (wd_body r)" "\<not> blank (wd_signature r)" by (simp_all add: text_present_def)
  then obtain b s where bs: "wd_body r = Some b" "wd_signature r = Some s" "delivery_text env r wh = (b, s)"
    by (auto simp: delivery_text_def blank_def)
  with run True have x: "x = Guarding r wh (wd_attempts r + 1) b s" "w' = w\<lparr>hw_deliveries := ?ds\<rparr>"
    by (simp_all add: claimed_def)
  have "unique_key wd_id ?ds" using u by (rule unique_update_where [rotated]) simp
  moreover have "hooks_inv (seals ?ds) (ph(p := x)) (hw_posts w)"
    unfolding y(3) x(1) using inv y(1,2) same bs(1,2) by (intro inv_claim) simp_all
  ultimately show ?thesis by (simp add: world_ok_def x(2))
qed

lemma guarding_ok:
  assumes ok: "world_ok ph w" and p: "ph p = Guarding r wh n body sig"
    and run: "run_phase env i (Guarding r wh n body sig) w = (x, w')"
  shows "world_ok (ph(p := x)) w'"
proof (cases "assertSafeWebhookUrl (si_net i) (de_config env) (wh_url wh)")
  case (Some e)
  with run have "x = Blocked (wd_id r) e" "w' = w" by simp_all
  with ok show ?thesis by (auto intro: world_same_deliveries)
next
  case None
  let ?y = "post_of env i r wh n body sig"
  from None run have "x = Awaiting r wh n" "w' = w\<lparr>hw_posts := hw_posts w @ [?y]\<rparr>" by simp_all
  moreover have "hooks_inv (seals (hw_deliveries w)) (ph(p := Awaiting r wh n)) (hw_posts w @ [?y])"
    using ok p by (intro inv_post [where did = "wd_id r" and n = n and body = body and sig = sig])
      (simp_all add: world_ok_def post_of_def Let_def)
  ultimately show ?thesis using ok by (simp add: world_ok_def)
qed

lemma quiet_rows:
  "\<And>r. wd_id (r\<lparr>wd_status := a, wd_error := b\<rparr>) = wd_id r \<and> seal_of (r\<lparr>wd_status := a, wd_error := b\<rparr>) = seal_of r"
  by (simp add: seal_of_def)

lemma run_phase_ok:
  assumes ok: "world_ok ph w" and run: "run_phase env i (ph p) w = (x, w')"
  shows "world_ok (ph(p := x)) w'"
proof (cases "ph p")
  case (Begin did)
  have "world_ok (ph(p := LoadWebhook r)) w" if "find_row wd_id did (hw_deliveries w) = Some r" for r
  proof -
    have inv: "hooks_inv (seals (hw_deliveries w)) ph (hw_posts w)" and "unique_key wd_id (hw_deliveries w)"
      using ok by (simp_all add: world_ok_def)
    moreover have "hooks_inv (seals (hw_deliveries w)) (ph(p := LoadWebhook r)) (hw_posts w)"
      using inv find_row_SomeD [OF that] that by (intro inv_quiet_phase) (auto simp: seals_def seal_of_def)
    ultimately show ?thesis by (simp add: world_ok_def)
  qed
  with Begin run ok show ?thesis
    by (auto split: option.splits if_splits intro: world_same_deliveries)
next
  case (LoadWebhook r)
  with run have "hw_posts w' = hw_posts w \<and> hw_deliveries w' = hw_deliveries w \<and> holds_claim x = None \<and>
      (read_row x = None \<or> read_row x = Some r)"
    by (auto simp: loaded_webhook_def Let_def split: option.splits if_splits prod.splits)
  with ok LoadWebhook show ?thesis by (intro world_same_deliveries [OF ok]) auto
next
  case (Claim r wh)
  with run claimed_ok [OF ok Claim] show ?thesis by simp
next
  case (Guarding r wh n body sig)
  with run guarding_ok [OF ok Guarding] show ?thesis by simp
next
  case (Awaiting r wh n)
  with run have "hw_posts w' = hw_posts w \<and> hw_deliveries w' = hw_deliveries w \<and> holds_claim x = None \<and> read_row x = None"
    by (auto simp: answered_def Let_def split: fetch_result.splits if_splits)
  with ok show ?thesis by (intro world_same_deliveries [OF ok]) auto
next
  case (GoneDisable r wh)
  with run ok show ?thesis by (auto intro: world_same_deliveries)
next
  case (GoneQueue r wh disabled)
  with run have x: "holds_claim x = None" "read_row x = None" and w':
    "w' = w\<lparr>hw_deliveries := update_where (\<lambda>x. wd_webhookId x = wh_id wh \<and> wd_status x = Pending)
          (\<lambda>x. x\<lparr>wd_status := DeliveryFailed, wd_error := Some (js ''webhook unsubscribed (410 Gone)''),
                wd_nextRetryAt := None\<rparr>) (hw_deliveries w)\<rparr>"
    by (auto split: if_splits)
  show ?thesis
    by (rule world_quiet [OF ok, where g = "\<lambda>x. wd_webhookId x = wh_id wh \<and> wd_status x = Pending" and
      f = "\<lambda>x. x\<lparr>wd_status := DeliveryFailed, wd_error := Some (js ''webhook unsubscribed (410 Gone)''),
                wd_nextRetryAt := None\<rparr>"]) (simp_all add: w' x seal_of_def)
next
  case (GoneAudit r wh)
  with run ok show ?thesis by (auto intro: world_same_deliveries)
next
  case Finished
  with run ok show ?thesis by (auto intro: world_same_deliveries)
qed (use run ok in \<open>auto intro!: world_set_delivery simp: seal_of_def\<close>)

lemma truncate_world [simp]:
  "hw_deliveries (hook_world.truncate s) = hw_deliveries s" "hw_posts (hook_world.truncate s) = hw_posts s"
  "hw_webhooks (hook_world.truncate s) = hw_webhooks s" "hw_breaker (hook_world.truncate s) = hw_breaker s"
  "hw_audit (hook_world.truncate s) = hw_audit s"
  by (simp_all add: hook_world.truncate_def)

lemma hooks_ok_world: "hooks_ok s \<longleftrightarrow> world_ok (hw_attempts s) (hook_world.truncate s)"
  by (simp add: hooks_ok_def world_ok_def)

lemma json_text_nonempty: "buildCanonicalBody env did e now \<noteq> []"
  by (simp add: buildCanonicalBody_def)

lemma enqueue_ok:
  assumes "hooks_ok s" and "did \<notin> wd_id ` set (hw_deliveries s)" and "\<And>k b. de_hmac env k b \<noteq> []"
  shows "hooks_ok (s\<lparr>hw_deliveries := hw_deliveries s @ [delivery_row env now did w e],
             hw_attempts := (hw_attempts s)(p := Begin did)\<rparr>)"
proof -
  let ?r = "delivery_row env now did w e"
  let ?att = "seals (hw_deliveries s)"
  have id: "wd_id ?r = did" by (simp add: delivery_row_def Let_def)
  have none: "?att did = None" using assms(2) by (simp add: seals_def find_row_None_iff)
  have att: "seals (hw_deliveries s @ [?r]) = ?att(did \<mapsto> seal_of ?r)"
    using none by (auto simp: seals_def fun_eq_iff find_row_append id split: option.split)
  have txts: "text_present (seal_of ?r)"
    using assms(3) json_text_nonempty by (simp add: delivery_row_def text_present_def seal_of_def signPayload_def Let_def)
  have inv: "hooks_inv ?att (hw_attempts s) (hw_posts s)" using assms(1) by (simp add: hooks_ok_def)
  have "claim_ok (?att(did \<mapsto> seal_of ?r)) d n b g" if "claim_ok ?att d n b g" for d n b g
    using that by (rule claim_ok_mono) (use none in auto)
  then have "hooks_inv (?att(did \<mapsto> seal_of ?r)) (hw_attempts s) (hw_posts s)"
    using inv none txts unfolding hooks_inv_def by (auto split: if_splits) (metis option.distinct(1))+
  then have "hooks_inv (?att(did \<mapsto> seal_of ?r)) ((hw_attempts s)(p := Begin did)) (hw_posts s)"
    by (rule inv_quiet_phase) simp_all
  moreover have "unique_key wd_id (hw_deliveries s @ [?r])"
    using assms(1,2) by (simp add: hooks_ok_def unique_key_def id)
  ultimately show ?thesis by (simp add: hooks_ok_def att)
qed

lemma hook_step_ok [inv_intros]:
  assumes "hooks_ok s" and "\<And>k b. de_hmac env k b \<noteq> []"
  shows "hooks_ok (hook_step env s op)"
proof (cases op)
  case (Enqueue p did w e now)
  with assms enqueue_ok show ?thesis by simp
next
  case (Spawn p did)
  have "world_ok ((hw_attempts s)(p := Begin did)) (hook_world.truncate s)"
    using assms(1) by (intro world_same_deliveries [where w = "hook_world.truncate s"]) (simp_all add: hooks_ok_world)
  with Spawn show ?thesis by (simp add: hooks_ok_def world_ok_def)
next
  case (Run p i)
  obtain x w' where r: "run_phase env i (hw_attempts s p) (hook_world.truncate s) = (x, w')" by fastforce
  have "world_ok ((hw_attempts s)(p := x)) w'" using assms(1) r by (intro run_phase_ok) (simp_all add: hooks_ok_world)
  with Run r show ?thesis by (simp add: hooks_ok_def world_ok_def with_world_def)
next
  case (Abort p)
  have "world_ok ((hw_attempts s)(p := Finished)) (hook_world.truncate s)"
    using assms(1) by (intro world_same_deliveries [where w = "hook_world.truncate s"]) (simp_all add: hooks_ok_world)
  with Abort show ?thesis by (simp add: hooks_ok_def world_ok_def)
next
  case (Configure ws)
  with assms(1) show ?thesis by (simp add: hooks_ok_def)
qed

lemma init_hooks_ok [simp]: "hooks_ok init_hooks"
  by (simp add: hooks_ok_def init_hooks_def hooks_inv_def unique_key_def seals_def)

interpretation hooks: machine "hook_step env" "\<lambda>s. (\<forall>k b. de_hmac env k b \<noteq> []) \<longrightarrow> hooks_ok s" for env
  by unfold_locales (auto intro: hook_step_ok)

text \<open>One attempt on its own: its phases in a row, each with its input.\<close>

fun attempt_run :: "delivery_env \<Rightarrow> step_input list \<Rightarrow> phase \<Rightarrow> hook_world \<Rightarrow> phase \<times> hook_world" where
  "attempt_run env [] ph w = (ph, w)"
| "attempt_run env (i # is) ph w = (let (ph1, w1) = run_phase env i ph w in attempt_run env is ph1 w1)"

definition attempt_starts :: "delivery_env \<Rightarrow> step_input \<Rightarrow> webhook_delivery \<Rightarrow> webhook \<Rightarrow> hook_world \<Rightarrow> bool" where
  "attempt_starts env i r wh w \<longleftrightarrow>
     find_row wd_id (wd_id r) (hw_deliveries w) = Some r \<and> wd_status r = Pending \<and>
     find_row wh_id (wd_webhookId r) (hw_webhooks w) = Some wh \<and> wh_active wh \<and>
     fst (shouldAttempt (de_breaker env) (si_now i) (wh_id wh) (hw_breaker w)) \<and>
     assertSafeWebhookUrl (si_net i) (de_config env) (wh_url wh) = None"

definition after_claim :: "delivery_env \<Rightarrow> step_input \<Rightarrow> webhook_delivery \<Rightarrow> webhook \<Rightarrow> hook_world \<Rightarrow> hook_world" where
  "after_claim env i r wh w =
     w\<lparr>hw_breaker := snd (shouldAttempt (de_breaker env) (si_now i) (wh_id wh) (hw_breaker w)),
       hw_deliveries := update_where (claimable r)
         (\<lambda>x. x\<lparr>wd_attempts := wd_attempts r + 1, wd_status := Pending\<rparr>) (hw_deliveries w),
       hw_posts := hw_posts w @ [post_of env i r wh (wd_attempts r + 1)
         (fst (delivery_text env r wh)) (snd (delivery_text env r wh))]\<rparr>"

lemma claimable_self: "find_row wd_id (wd_id r) ds = Some r \<Longrightarrow> wd_status r = Pending \<Longrightarrow> list_ex (claimable r) ds"
  by (auto simp: list_ex_iff claimable_def dest: find_row_SomeD)

text \<open>The first four phases of an attempt that nothing stops: one post, and the claim.\<close>

lemma attempt_prefix:
  assumes "attempt_starts env i r wh w"
  shows "attempt_run env (i # i # i # i # is) (Begin (wd_id r)) w =
    attempt_run env is (Awaiting r wh (wd_attempts r + 1)) (after_claim env i r wh w)"
proof -
  obtain b where b: "shouldAttempt (de_breaker env) (si_now i) (wh_id wh) (hw_breaker w) = (True, b)"
    using assms by (cases "shouldAttempt (de_breaker env) (si_now i) (wh_id wh) (hw_breaker w)")
      (auto simp: attempt_starts_def)
  with assms claimable_self [of r "hw_deliveries w"] show ?thesis
    by (cases "delivery_text env r wh")
      (simp add: attempt_starts_def loaded_webhook_def claimed_def Let_def after_claim_def)
qed

lemma claimed_row:
  assumes "find_row wd_id (wd_id r) ds = Some r" and "wd_status r = Pending"
  shows "find_row wd_id (wd_id r) (update_where (claimable r)
      (\<lambda>x. x\<lparr>wd_attempts := wd_attempts r + 1, wd_status := Pending\<rparr>) ds) =
    Some (r\<lparr>wd_attempts := wd_attempts r + 1\<rparr>)"
proof -
  have "find_row wd_id (wd_id r) (update_where (claimable r)
      (\<lambda>x. x\<lparr>wd_attempts := wd_attempts r + 1, wd_status := Pending\<rparr>) ds) =
    map_option (\<lambda>x. if claimable r x then x\<lparr>wd_attempts := wd_attempts r + 1, wd_status := Pending\<rparr> else x)
      (find_row wd_id (wd_id r) ds)"
    by (rule find_row_update_where) simp
  with assms show ?thesis by (simp add: claimable_def)
qed

section \<open>Properties\<close>

text \<open>
  C2. Deliveries are claimed exclusively and sealed at enqueue: however the attempts of all
  deliveries interleave, fail and restart, each attempt number of a delivery is posted at most
  once, never beyond the stored counter, and every post of a delivery carries the body and
  signature stored when it was enqueued, so a receiver sees the same signature on every retry.
\<close>

theorem posts_once_and_sealed:
  assumes "\<And>k b. de_hmac env k b \<noteq> []"
  shows "let s = foldl (hook_step env) init_hooks ops in
    distinct (map (\<lambda>p. (po_delivery p, po_attempt p)) (hw_posts s)) \<and>
    (\<forall>p \<in> set (hw_posts s). \<exists>r \<in> set (hw_deliveries s). wd_id r = po_delivery p \<and>
       1 \<le> po_attempt p \<and> po_attempt p \<le> wd_attempts r \<and>
       wd_body r = Some (po_body p) \<and> wd_signature r = Some (po_signature p))"
proof -
  let ?s = "foldl (hook_step env) init_hooks ops"
  have "(\<forall>k b. de_hmac env k b \<noteq> []) \<longrightarrow> hooks_ok ?s" by (rule hooks.run_inv) simp
  with assms have inv: "hooks_inv (seals (hw_deliveries ?s)) (hw_attempts ?s) (hw_posts ?s)"
    by (simp add: hooks_ok_def)
  have "\<exists>r \<in> set (hw_deliveries ?s). wd_id r = po_delivery p \<and> 1 \<le> po_attempt p \<and> po_attempt p \<le> wd_attempts r \<and>
       wd_body r = Some (po_body p) \<and> wd_signature r = Some (po_signature p)"
    if "p \<in> set (hw_posts ?s)" for p
    using hooks_invD(6) [OF inv that]
    by (auto simp: claim_ok_def seals_def seal_of_def same_text_def split: option.splits dest: find_row_SomeD)
  with hooks_invD(5) [OF inv] show ?thesis by (simp add: Let_def post_key_def [abs_def])
qed

definition demo_delivery_env :: delivery_env where
  "demo_delivery_env = \<lparr>de_config = demo_hook_config, de_breaker = DEFAULT_CONFIG, de_hmac = \<lambda>k b. js ''sig'',
     de_event_text = \<lambda>_. js ''{}'', de_iso = \<lambda>_. js ''t''\<rparr>"

definition demo_hook :: webhook where
  "demo_hook = \<lparr>wh_id = js ''w'', wh_url = js ''https://hooks.test/'', wh_events = [], wh_secret = js ''k'',
     wh_active = True, wh_createdAt = 0, wh_updatedAt = 0\<rparr>"

definition demo_hook_event :: audit_event where
  "demo_hook_event = \<lparr>ev_id = js ''e'', ev_type = js ''tct.revoked'', ev_ts = 0, ev_aidA = None, ev_aidB = None,
     ev_sessionId = None, ev_runId = None, ev_grants = None, ev_payload = JObj [], ev_source = None\<rparr>"

definition demo_input :: "nat \<Rightarrow> step_input" where
  "demo_input st = \<lparr>si_now = 1000, si_jitter = 0, si_net = demo_net, si_fetch = Response st []\<rparr>"

definition demo_row :: webhook_delivery where
  "demo_row = delivery_row demo_delivery_env 0 (js ''d'') demo_hook demo_hook_event"

definition demo_world :: hook_world where
  "demo_world = \<lparr>hw_webhooks = [demo_hook], hw_deliveries = [demo_row], hw_breaker = Map.empty, hw_posts = [],
     hw_audit = []\<rparr>"

lemma demo_row_simps [simp]:
  "wd_id demo_row = js ''d''" "wd_status demo_row = Pending" "wd_webhookId demo_row = js ''w''"
  "wd_attempts demo_row = 0" "wh_id demo_hook = js ''w''" "wh_active demo_hook"
  by (simp_all add: demo_row_def delivery_row_def demo_hook_def Let_def)

lemma demo_attempt_starts: "attempt_starts demo_delivery_env (demo_input st) demo_row demo_hook demo_world"
  by (simp add: attempt_starts_def demo_world_def demo_input_def demo_delivery_env_def demo_net_safe
      shouldAttempt_def entry_def shouldAttempt_entry_def fresh_entry_def)

theorem posts_once_and_sealed_witness:
  "distinct (map (\<lambda>p. (po_delivery p, po_attempt p)) (hw_posts (foldl (hook_step demo_delivery_env) init_hooks
     [Configure [demo_hook], Enqueue 0 (js ''d'') demo_hook demo_hook_event 0, Run 0 (demo_input 200)])))"
proof -
  have "de_hmac demo_delivery_env k b \<noteq> []" for k b by (simp add: demo_delivery_env_def)
  from posts_once_and_sealed [OF this, of "[Configure [demo_hook], Enqueue 0 (js ''d'') demo_hook demo_hook_event 0,
    Run 0 (demo_input 200)]"] show ?thesis by (simp only: Let_def)
qed

text \<open>
  C37. A failed attempt is counted, recorded and rescheduled: when the receiver answers neither
  2xx nor 410, the delivery has made exactly one post, its attempt count has grown by one, the
  breaker has one more failure, and the row waits for a retry after 30 s times four to the number
  of earlier attempts, unless the configured number of attempts is used up: then it is failed for
  good with no retry due.
\<close>

theorem failed_attempt_reschedules:
  assumes "attempt_starts env i r wh w" and "si_fetch i = Response st body"
    and "\<not> (200 \<le> st \<and> st \<le> 299)" and "st \<noteq> 410"
  shows "\<exists>w' r'. attempt_run env (replicate 6 i) (Begin (wd_id r)) w = (Finished, w') \<and>
    length (hw_posts w') = Suc (length (hw_posts w)) \<and>
    find_row wd_id (wd_id r) (hw_deliveries w') = Some r' \<and> wd_attempts r' = wd_attempts r + 1 \<and>
    wd_statusCode r' = Some st \<and>
    (if int (wd_attempts r + 1) \<ge> webhookRetryAttempts (de_config env)
     then wd_status r' = DeliveryFailed \<and> wd_nextRetryAt r' = None
     else wd_status r' = Pending \<and> wd_nextRetryAt r' = Some (si_now i + 30000 * 4 ^ wd_attempts r)) \<and>
    hw_breaker w' = recordFailure (de_breaker env) (si_now i) (wh_id wh)
      (snd (shouldAttempt (de_breaker env) (si_now i) (wh_id wh) (hw_breaker w)))"
proof -
  have six: "replicate 6 i = i # i # i # i # [i, i]" by (simp add: numeral_eq_Suc)
  have row: "find_row wd_id (wd_id r) (hw_deliveries (after_claim env i r wh w)) = Some (r\<lparr>wd_attempts := wd_attempts r + 1\<rparr>)"
    using assms(1) claimed_row [of r "hw_deliveries w"] by (simp add: after_claim_def attempt_starts_def)
  show ?thesis
    unfolding six attempt_prefix [OF assms(1)] using assms(2-4) row
    by (auto simp: answered_def set_delivery_def find_row_update_key backoffMs_def after_claim_def)
qed

theorem failed_attempt_reschedules_witness:
  "\<exists>w' r'. attempt_run demo_delivery_env (replicate 6 (demo_input 500)) (Begin (js ''d'')) demo_world = (Finished, w') \<and>
     find_row wd_id (js ''d'') (hw_deliveries w') = Some r' \<and> wd_attempts r' = 1"
  using failed_attempt_reschedules [OF demo_attempt_starts, of 500 500 "[]"] by (auto simp: demo_input_def)

text \<open>
  A 410 answer unsubscribes: the attempt ends with the webhook inactive, none of its
  deliveries pending, its breaker closed afresh, and exactly one audit entry, by the delivery
  system, naming the webhook.
\<close>

theorem gone_unsubscribes:
  assumes "attempt_starts env i r wh w" and "si_fetch i = Response 410 body"
  shows "\<exists>w'. attempt_run env (replicate 9 i) (Begin (wd_id r)) w = (Finished, w') \<and>
    list_all (\<lambda>x. wh_id x = wh_id wh \<longrightarrow> \<not> wh_active x) (hw_webhooks w') \<and>
    list_all (\<lambda>x. wd_webhookId x = wh_id wh \<longrightarrow> wd_status x \<noteq> Pending) (hw_deliveries w') \<and>
    entry (hw_breaker w') (wh_id wh) = fresh_entry \<and>
    hw_audit w' = hw_audit w @ [unsubscribed_entry r wh]"
proof -
  have nine: "replicate 9 i = i # i # i # i # [i, i, i, i, i]" by (simp add: numeral_eq_Suc)
  have "wh \<in> set (hw_webhooks w)" "wh_active wh"
    using assms(1) by (auto simp: attempt_starts_def dest: find_row_SomeD)
  then have "list_ex (\<lambda>x. wh_id x = wh_id wh \<and> wh_active x) (hw_webhooks w)" by (auto simp: list_ex_iff)
  then show ?thesis
    unfolding nine attempt_prefix [OF assms(1)] using assms(2)
    by (simp add: answered_def set_delivery_def after_claim_def breaker_reset_def entry_def)
      (auto simp: list_all_iff set_update_where)
qed

theorem gone_unsubscribes_witness:
  "\<exists>w'. attempt_run demo_delivery_env (replicate 9 (demo_input 410)) (Begin (js ''d'')) demo_world = (Finished, w') \<and>
     hw_audit w' = [unsubscribed_entry demo_row demo_hook]"
  using gone_unsubscribes [OF demo_attempt_starts, of 410 "[]"] by (auto simp: demo_input_def demo_world_def)

section \<open>What the attempts do not ensure\<close>

text \<open>
  A half-open probe that the URL guard stops is never recorded, and a name that does not resolve
  for a moment is enough to stop it: the attempt ends, the circuit stays half-open with its probe
  out, and from then on every attempt for that webhook is refused until an operator resets it or
  the process restarts.
\<close>

lemma blocked_probe_wedges_breaker:
  assumes "find_row wd_id (wd_id r) (hw_deliveries w) = Some r" and "wd_status r = Pending"
    and "find_row wh_id (wd_webhookId r) (hw_webhooks w) = Some wh" and "wh_active wh"
    and "br_state (entry (hw_breaker w) (wh_id wh)) = Open"
    and "fst (shouldAttempt (de_breaker env) (si_now i) (wh_id wh) (hw_breaker w))"
    and "assertSafeWebhookUrl (si_net i) (de_config env) (wh_url wh) = Some e"
  shows "\<exists>w'. attempt_run env (replicate 5 i) (Begin (wd_id r)) w = (Finished, w') \<and> hw_posts w' = hw_posts w \<and>
    (\<forall>ops now. (\<forall>op \<in> set ops. \<not> records (wh_id wh) op) \<longrightarrow>
       \<not> fst (shouldAttempt cfg now (wh_id wh) (foldl (breaker_step cfg) (hw_breaker w') ops)))"
proof -
  obtain b where b: "shouldAttempt (de_breaker env) (si_now i) (wh_id wh) (hw_breaker w) = (True, b)"
    using assms(6) by (cases "shouldAttempt (de_breaker env) (si_now i) (wh_id wh) (hw_breaker w)") auto
  then have "probe_out b (wh_id wh)"
    using assms(5) by (auto simp: shouldAttempt_def shouldAttempt_entry_def probe_out_def entry_def
        split: option.splits if_splits prod.splits)
  then have "\<not> fst (shouldAttempt cfg now (wh_id wh) (foldl (breaker_step cfg) b ops))"
    if "\<forall>op \<in> set ops. \<not> records (wh_id wh) op" for ops now
    using that by (intro probe_out_refused probe_out_run)
  moreover have "replicate 5 i = [i, i, i, i, i]" by (simp add: numeral_eq_Suc)
  ultimately show ?thesis
    using assms(1-4,7) b claimable_self [OF assms(1,2)]
    by (cases "delivery_text env r wh") (simp add: loaded_webhook_def claimed_def Let_def set_delivery_def)
qed

text \<open>
  The claim stops only an attempt that read the row before the first one claimed it. The row of
  an attempt in flight is still pending with no retry time, so the reaper starts a second attempt
  that reads the new count and posts again, although the first one is answered with 200.
\<close>

lemma reaper_reposts_delivery_in_flight:
  "let s = foldl (hook_step demo_delivery_env) init_hooks
       ([Configure [demo_hook], Enqueue 0 (js ''d'') demo_hook demo_hook_event 0] @
        replicate 4 (Run 0 (demo_input 200)));
       due = flushDueRetries 1000 (hook_world.truncate s);
       t = foldl (hook_step demo_delivery_env) s
         (Spawn 1 (hd due) # replicate 4 (Run 1 (demo_input 200)) @ replicate 2 (Run 0 (demo_input 200)))
   in due = [js ''d''] \<and> map po_attempt (hw_posts t) = [1, 2] \<and> map wd_status (hw_deliveries t) = [Delivered]"
  by code_simp

end
