(* ===== verification/Idempotency.thy ===== *)
theory Idempotency
  imports Db_Schema Validation
begin

text \<open>
  \<open>withIdempotency\<close> of \<open>src/src/lib/idempotency.ts\<close>. Requests with the same key may run
  concurrently: a request is a phase between two awaits (look up, execute, persist, read the
  winner), and \<open>idem_step\<close> runs one phase of one request. What the handler answers is an input
  of the step that executes it, so nothing is assumed of the handler. \<open>jsonb\<close> is what the column
  makes of a body (it reorders keys); structural equality is \<open>deep_eq\<close>.
\<close>

record idempotent_result =
  ir_status :: nat
  ir_body :: json

record idem_response =
  id_status :: nat
  id_body :: "json option"
  id_replayed :: bool

definition MAX_KEY_LENGTH :: nat where "MAX_KEY_LENGTH = 255"

definition CACHEABLE_STATUSES :: "nat list" where
  "CACHEABLE_STATUSES = [200, 201, 202, 204, 400, 409, 422]"

definition isCacheable :: "nat \<Rightarrow> bool" where
  "isCacheable status \<longleftrightarrow> status \<in> set CACHEABLE_STATUSES"

definition normalizeKey :: "jstring \<Rightarrow> jstring option" where
  "normalizeKey raw =
     (if list_ex (\<lambda>c. c \<le> 0x1F) raw then None
      else if trim raw = [] then None
      else if length (trim raw) > MAX_KEY_LENGTH then None
      else Some (trim raw))"

definition NULL_BODY_STATUSES :: "nat list" where
  "NULL_BODY_STATUSES = [101, 204, 205, 304]"

definition makeResponse :: "nat \<Rightarrow> json \<Rightarrow> bool \<Rightarrow> idem_response" where
  "makeResponse status body replayed =
     \<lparr>id_status = status, id_body = (if status \<in> set NULL_BODY_STATUSES then None else Some body),
      id_replayed = replayed\<rparr>"

definition invalid_key_response :: idem_response where
  "invalid_key_response = makeResponse 400
     (error_body ''invalid Idempotency-Key header (empty, too long, or contains control characters)''
        ''IDEMPOTENCY_KEY_INVALID'') False"

text \<open>\<open>isDeepStrictEqual\<close> on JSON values: the order of members does not matter.\<close>

function deep_eq :: "json \<Rightarrow> json \<Rightarrow> bool" where
  "deep_eq JNull v = (v = JNull)"
| "deep_eq (JBool b) v = (v = JBool b)"
| "deep_eq (JNum n) v = (v = JNum n)"
| "deep_eq (JStr s) v = (v = JStr s)"
| "deep_eq (JArr xs) v = (case v of JArr ys \<Rightarrow> list_all2 deep_eq xs ys | _ \<Rightarrow> False)"
| "deep_eq (JObj ps) v = (case v of
      JObj qs \<Rightarrow> length ps = length qs \<and> list_all (\<lambda>p. case map_of qs (fst p) of
        None \<Rightarrow> False | Some w \<Rightarrow> deep_eq (snd p) w) ps
    | _ \<Rightarrow> False)"
  by pat_completeness auto
termination
proof (relation "measure (size \<circ> fst)", goal_cases)
  case 1
  then show ?case by simp
next
  case (2 xs v ys x y)
  then show ?case by (auto simp: less_Suc_eq_le intro: size_list_estimation' [where f = size] dest: size_list_estimation')
next
  case (3 ps v qs p w)
  then have "size (snd p) < size_list (size_prod (\<lambda>_. 0) size) ps + 1"
    by (induction ps) (auto split: prod.splits)
  then show ?case by (simp add: less_Suc_eq_le)
qed

section \<open>Requests\<close>

datatype idem_phase =
    Waiting                                          \<comment> \<open>not started\<close>
  | LookUp jstring jstring                           \<comment> \<open>scope and normalised key\<close>
  | Execute jstring jstring
  | ExecuteUnkeyed
  | Persist jstring jstring idempotent_result
  | ReadWinner jstring jstring idempotent_result
  | Answered idem_response

text \<open>What the environment decides in a step: the handler's answer, and whether the insert fails.\<close>

record idem_input =
  ii_now :: instant
  ii_result :: idempotent_result
  ii_insert_fails :: bool

definition idem_row :: "(json \<Rightarrow> json) \<Rightarrow> instant \<Rightarrow> jstring \<Rightarrow> jstring \<Rightarrow> idempotent_result \<Rightarrow> idempotency_row" where
  "idem_row jsonb now scope k r = \<lparr>ik_scope = scope, ik_key = k, ik_responseStatus = ir_status r,
     ik_responseBody = jsonb (ir_body r), ik_createdAt = now\<rparr>"

definition replay :: "idempotency_row \<Rightarrow> bool \<Rightarrow> idem_response" where
  "replay row replayed = makeResponse (ik_responseStatus row) (ik_responseBody row) replayed"

text \<open>The handler's own code up to its first await: the header decides the path.\<close>

definition idem_begin :: "jstring option \<Rightarrow> jstring \<Rightarrow> idem_phase" where
  "idem_begin header_value scope =
     (case header_value of
        None \<Rightarrow> ExecuteUnkeyed
      | Some raw \<Rightarrow> (case normalizeKey raw of
           None \<Rightarrow> Answered invalid_key_response | Some k \<Rightarrow> LookUp scope k))"

fun idem_phase_step ::
  "(json \<Rightarrow> json) \<Rightarrow> idem_input \<Rightarrow> idem_phase \<Rightarrow> idempotency_row list \<Rightarrow> idem_phase \<times> idempotency_row list" where
  "idem_phase_step jsonb i Waiting t = (Waiting, t)"
| "idem_phase_step jsonb i (LookUp scope k) t =
     (case find_row idem_key (scope, k) t of
        Some row \<Rightarrow> (Answered (replay row True), t) | None \<Rightarrow> (Execute scope k, t))"
| "idem_phase_step jsonb i (Execute scope k) t =
     (let r = ii_result i
      in if \<not> isCacheable (ir_status r) then (Answered (makeResponse (ir_status r) (ir_body r) False), t)
         else (Persist scope k r, t))"
| "idem_phase_step jsonb i ExecuteUnkeyed t =
     (let r = ii_result i in (Answered (makeResponse (ir_status r) (ir_body r) False), t))"
| "idem_phase_step jsonb i (Persist scope k r) t =
     (if ii_insert_fails i then (Answered (makeResponse (ir_status r) (ir_body r) False), t)
      else (ReadWinner scope k r, snd (insert_nothing idem_key (idem_row jsonb (ii_now i) scope k r) t)))"
| "idem_phase_step jsonb i (ReadWinner scope k r) t =
     (case find_row idem_key (scope, k) t of
        Some row \<Rightarrow>
          (let wonByUs = ik_responseStatus row = ir_status r \<and> deep_eq (ik_responseBody row) (ir_body r)
           in (Answered (replay row (\<not> wonByUs)), t))
      | None \<Rightarrow> (Answered (makeResponse (ir_status r) (ir_body r) False), t))"
| "idem_phase_step jsonb i (Answered resp) t = (Answered resp, t)"

text \<open>
  A request that nothing interleaves with, around a handler \<open>exec\<close> on a state of its own; the
  handler's \<open>None\<close> is a throw, which nothing here catches.
\<close>

definition after_exec ::
  "(json \<Rightarrow> json) \<Rightarrow> idem_input \<Rightarrow> idem_phase \<Rightarrow> idempotency_row list \<Rightarrow> idem_phase \<times> idempotency_row list" where
  "after_exec jsonb i ph t =
     (let (ph1, t1) = idem_phase_step jsonb i ph t; (ph2, t2) = idem_phase_step jsonb i ph1 t1
      in idem_phase_step jsonb i ph2 t2)"

definition withIdempotency ::
  "(json \<Rightarrow> json) \<Rightarrow> instant \<Rightarrow> bool \<Rightarrow> jstring option \<Rightarrow> jstring \<Rightarrow> ('s \<Rightarrow> idempotent_result option \<times> 's) \<Rightarrow>
     idempotency_row list \<Rightarrow> 's \<Rightarrow> idem_phase option \<times> idempotency_row list \<times> 's" where
  "withIdempotency jsonb now insertFails h scope exec t s =
     (let ph = idem_begin h scope;
          noInput = \<lparr>ii_now = now, ii_result = \<lparr>ir_status = 0, ir_body = JNull\<rparr>, ii_insert_fails = insertFails\<rparr>;
          ph1 = fst (idem_phase_step jsonb noInput ph t)
      in case (case ph of LookUp sc k \<Rightarrow> ph1 | _ \<Rightarrow> ph) of
           Answered r \<Rightarrow> (Some (Answered r), t, s)
         | ready \<Rightarrow>
             (case exec s of
                (None, s1) \<Rightarrow> (None, t, s1)
              | (Some r, s1) \<Rightarrow>
                  (let (ph2, t1) = after_exec jsonb (noInput\<lparr>ii_result := r\<rparr>) ready t
                   in (Some ph2, t1, s1))))"

record idem_state =
  idem_rows :: "idempotency_row list"
  idem_phases :: "nat \<Rightarrow> idem_phase"
  settled :: "(nat \<times> (jstring \<times> jstring) \<times> idem_response) list"
    \<comment> \<open>answers that come from a stored row, with the request and its key, in order\<close>

datatype idem_op =
    Arrive nat "jstring option" jstring   \<comment> \<open>a request with its header and scope\<close>
  | Proceed nat idem_input                \<comment> \<open>a request runs to its next await\<close>

fun settles :: "idem_phase \<Rightarrow> idem_phase \<Rightarrow> idempotency_row list \<Rightarrow> ((jstring \<times> jstring) \<times> idem_response) option" where
  "settles (LookUp scope k) (Answered resp) t = Some ((scope, k), resp)"
| "settles (ReadWinner scope k r) (Answered resp) t =
     (if find_row idem_key (scope, k) t = None then None else Some ((scope, k), resp))"
| "settles ph ph' t = None"

fun idem_step :: "(json \<Rightarrow> json) \<Rightarrow> idem_state \<Rightarrow> idem_op \<Rightarrow> idem_state" where
  "idem_step jsonb s (Arrive p h scope) = s\<lparr>idem_phases := (idem_phases s)(p := idem_begin h scope)\<rparr>"
| "idem_step jsonb s (Proceed p i) =
     (let (ph, t) = idem_phase_step jsonb i (idem_phases s p) (idem_rows s)
      in \<lparr>idem_rows = t, idem_phases = (idem_phases s)(p := ph),
          settled = settled s @ (case settles (idem_phases s p) ph t of
             None \<Rightarrow> [] | Some (k, resp) \<Rightarrow> [(p, k, resp)])\<rparr>)"

definition init_idem :: idem_state where
  "init_idem = \<lparr>idem_rows = [], idem_phases = \<lambda>_. Waiting, settled = []\<rparr>"

interpretation idem_rows: conflict_insert
  "insert_nothing idem_key" "\<lambda>t k. find_row idem_key k t" idem_key
  by unfold_locales (simp_all only: insert_nothing_laws not_False_eq_True)

section \<open>Invariant\<close>

definition answers_row :: "idem_response \<Rightarrow> idempotency_row \<Rightarrow> bool" where
  "answers_row resp row \<longleftrightarrow> id_status resp = ik_responseStatus row \<and>
     id_body resp = (if ik_responseStatus row \<in> set NULL_BODY_STATUSES then None else Some (ik_responseBody row))"

definition idem_ok :: "idem_state \<Rightarrow> bool" where
  "idem_ok s \<longleftrightarrow> (\<forall>(p, k, resp) \<in> set (settled s).
     \<exists>row. find_row idem_key k (idem_rows s) = Some row \<and> answers_row resp row)"

lemma idem_okD:
  "idem_ok s \<Longrightarrow> (p, k, resp) \<in> set (settled s) \<Longrightarrow>
   \<exists>row. find_row idem_key k (idem_rows s) = Some row \<and> answers_row resp row"
  by (fastforce simp: idem_ok_def split: option.splits)

lemma replay_answers [simp]: "answers_row (replay row b) row"
  by (simp add: answers_row_def replay_def makeResponse_def)

lemma phase_step_keeps:
  "find_row idem_key k t = Some row \<Longrightarrow>
   find_row idem_key k (snd (idem_phase_step jsonb i ph t)) = Some row"
  by (cases ph) (auto simp: Let_def idem_rows.ins_keeps split: option.split)

lemma settles_row:
  assumes "idem_phase_step jsonb i ph t = (ph', t')" and "settles ph ph' t' = Some (k, resp)"
  shows "\<exists>row. find_row idem_key k t' = Some row \<and> answers_row resp row"
  using assms
  by (cases ph) (auto simp: Let_def split: option.splits if_splits)

lemma idem_step_ok [inv_intros]: "idem_ok s \<Longrightarrow> idem_ok (idem_step jsonb s op)"
proof (cases op)
  case (Proceed p i)
  assume ok: "idem_ok s"
  obtain ph t where r: "idem_phase_step jsonb i (idem_phases s p) (idem_rows s) = (ph, t)" by fastforce
  have "\<exists>row. find_row idem_key k t = Some row \<and> answers_row resp row"
    if "(q, k, resp) \<in> set (settled s)" for q k resp
  proof -
    from idem_okD [OF ok that] obtain row
      where "find_row idem_key k (idem_rows s) = Some row" "answers_row resp row" by blast
    with phase_step_keeps [of k "idem_rows s" row jsonb i "idem_phases s p"] r show ?thesis by simp
  qed
  moreover have "\<exists>row. find_row idem_key k t = Some row \<and> answers_row resp row"
    if "settles (idem_phases s p) ph t = Some (k, resp)" for k resp
    by (rule settles_row [OF r that])
  ultimately show ?thesis
    using Proceed r unfolding idem_ok_def by (auto split: option.splits)
qed (simp add: idem_ok_def)

interpretation idem: marking_machine "idem_step jsonb" idem_ok
  "\<lambda>s. {(k, row). find_row idem_key k (idem_rows s) = Some row}" for jsonb
proof (unfold_locales)
  show "idem_ok s \<Longrightarrow> idem_ok (idem_step jsonb s op)" for s op by (rule idem_step_ok)
  show "{(k, row). find_row idem_key k (idem_rows s) = Some row} \<subseteq>
      {(k, row). find_row idem_key k (idem_rows (idem_step jsonb s op)) = Some row}" for s op
  proof (cases op)
    case (Proceed p i)
    then show ?thesis
      using phase_step_keeps [of _ "idem_rows s" _ jsonb i "idem_phases s p"]
      by (fastforce simp: Let_def split: prod.split)
  qed simp
qed

section \<open>Properties\<close>

text \<open>
  C10. One key, one answer: whatever requests run concurrently with an idempotency key of a scope,
  and whatever their handlers answer, all answers that come from the stored outcome, first
  attempts and replays alike, have the same status and the same body.
\<close>

theorem settled_answers_agree:
  assumes "(p, k, a) \<in> set (settled (foldl (idem_step jsonb) init_idem ops))"
    and "(q, k, b) \<in> set (settled (foldl (idem_step jsonb) init_idem ops))"
  shows "id_status a = id_status b \<and> id_body a = id_body b"
proof -
  have "idem_ok (foldl (idem_step jsonb) init_idem ops)"
    by (rule idem.run_inv) (simp add: idem_ok_def init_idem_def)
  from idem_okD [OF this assms(1)] idem_okD [OF this assms(2)] show ?thesis
    by (auto simp: answers_row_def)
qed

definition idem_result :: "nat \<Rightarrow> idem_input" where
  "idem_result n = \<lparr>ii_now = 0, ii_result = \<lparr>ir_status = 200, ir_body = jint (int n)\<rparr>, ii_insert_fails = False\<rparr>"

definition racing_ops :: "idem_op list" where
  "racing_ops = [Arrive 1 (Some (js ''key'')) (js ''s''), Arrive 2 (Some (js ''key'')) (js ''s''),
     Proceed 1 (idem_result 1), Proceed 2 (idem_result 2), Proceed 1 (idem_result 1), Proceed 2 (idem_result 2),
     Proceed 2 (idem_result 2), Proceed 1 (idem_result 1), Proceed 1 (idem_result 1), Proceed 2 (idem_result 2)]"

theorem settled_answers_agree_witness:
  "\<exists>a b. set (settled (foldl (idem_step id) init_idem racing_ops)) =
     {(1, (js ''s'', js ''key''), a), (2, (js ''s'', js ''key''), b)} \<and>
     id_status a = id_status b \<and> id_body a = id_body b"
proof -
  have "map fst (settled (foldl (idem_step id) init_idem racing_ops)) = [1, 2] \<and>
    map (fst \<circ> snd) (settled (foldl (idem_step id) init_idem racing_ops)) =
      [(js ''s'', js ''key''), (js ''s'', js ''key'')]"
    by code_simp
  then obtain a b where ab: "settled (foldl (idem_step id) init_idem racing_ops) =
      [(1, (js ''s'', js ''key''), a), (2, (js ''s'', js ''key''), b)]"
    by (auto simp: map_eq_Cons_conv)
  with settled_answers_agree [of 1 "(js ''s'', js ''key'')" a id racing_ops 2 b] show ?thesis by auto
qed

text \<open>
  A stored outcome is final and stops the handler: once an answer for a key is stored, no
  later operation changes it, and a request with that key that looks it up is answered with it,
  marked as replayed, without running its handler.
\<close>

theorem replay_skips_handler:
  assumes "find_row idem_key (scope, k) (idem_rows s) = Some row" and "idem_ok s"
    and "normalizeKey raw = Some k"
  shows "let s1 = foldl (idem_step jsonb) s ops;
             s2 = idem_step jsonb (idem_step jsonb s1 (Arrive p (Some raw) scope)) (Proceed p i)
    in find_row idem_key (scope, k) (idem_rows s1) = Some row \<and>
       idem_phases s2 p = Answered (makeResponse (ik_responseStatus row) (ik_responseBody row) True)"
proof -
  let ?s1 = "foldl (idem_step jsonb) s ops"
  have "((scope, k), row) \<in> {(k, row). find_row idem_key k (idem_rows ?s1) = Some row}"
    using assms(1,2) by (intro idem.run_marks_mem) auto
  then have "find_row idem_key (scope, k) (idem_rows ?s1) = Some row" by simp
  with assms(3) show ?thesis by (simp add: Let_def idem_begin_def replay_def)
qed

definition stored_idem :: idem_state where
  "stored_idem = init_idem\<lparr>idem_rows := [idem_row id 0 (js ''s'') (js ''key'')
     \<lparr>ir_status = 409, ir_body = JNull\<rparr>]\<rparr>"

theorem replay_skips_handler_witness:
  "idem_phases (idem_step id (idem_step id stored_idem (Arrive 7 (Some (js '' key '')) (js ''s'')))
     (Proceed 7 (idem_result 1))) 7 = Answered (makeResponse 409 JNull True)"
proof -
  let ?row = "idem_row id 0 (js ''s'') (js ''key'') \<lparr>ir_status = 409, ir_body = JNull\<rparr>"
  have "find_row idem_key (js ''s'', js ''key'') (idem_rows stored_idem) = Some ?row"
    by (simp add: stored_idem_def idem_row_def idem_key_def)
  moreover have "idem_ok stored_idem" by (simp add: idem_ok_def stored_idem_def init_idem_def)
  moreover have "normalizeKey (js '' key '') = Some (js ''key'')" by code_simp
  ultimately show ?thesis
    using replay_skips_handler [of "js ''s''" "js ''key''" stored_idem ?row "js '' key ''" id "[]" 7 "idem_result 1"]
    by (simp add: Let_def idem_row_def)
qed

end
