(* ===== verification/Fan_Out.thy ===== *)
theory Fan_Out
  imports Webhook_Service Event_Stream Event_Store
begin

text \<open>
  The fan-out of an audit event: stored, published to the live streams, queued for the webhooks
  that want it. These are the calls every route and job that emits an event makes
  (\<open>ingestOneEvent\<close>, \<open>eventBus.publish\<close>, \<open>dispatchWebhooks\<close>). The state is the database and the
  stream state of one process. An attempt of a queued delivery starts later; it is the subject
  of \<open>Webhook_Service\<close>. The id of a delivery (\<open>randomUUID\<close>) is a parameter.
\<close>

record cp_state =
  cp_db :: db
  cp_stream :: stream_state

record fan_env =
  fe_delivery :: delivery_env
  fe_broken :: "nat list"                        \<comment> \<open>streams whose writes throw\<close>
  fe_fresh :: "audit_event \<Rightarrow> webhook \<Rightarrow> jstring"

definition enqueueDelivery :: "fan_env \<Rightarrow> instant \<Rightarrow> audit_event \<Rightarrow> webhook \<Rightarrow> db \<Rightarrow> db" where
  "enqueueDelivery env now e w d =
     d\<lparr>webhook_deliveries := webhook_deliveries d @ [delivery_row (fe_delivery env) now (fe_fresh env e w) w e]\<rparr>"

definition dispatch_to :: "fan_env \<Rightarrow> instant \<Rightarrow> audit_event \<Rightarrow> webhook list \<Rightarrow> db \<Rightarrow> db" where
  "dispatch_to env now e candidates d =
     foldl (\<lambda>d w. enqueueDelivery env now e w d) d (dispatchWebhooksWithList e candidates)"

definition dispatchWebhooks :: "fan_env \<Rightarrow> instant \<Rightarrow> audit_event \<Rightarrow> db \<Rightarrow> db" where
  "dispatchWebhooks env now e d = dispatch_to env now e (listActiveWebhooks (webhooks d)) d"

definition publish_event :: "fan_env \<Rightarrow> audit_event \<Rightarrow> cp_state \<Rightarrow> cp_state" where
  "publish_event env e s = s\<lparr>cp_stream := publish e (fe_broken env) (cp_stream s)\<rparr>"

text \<open>Store, publish, dispatch: \<open>stored\<close> says whether the insert succeeds.\<close>

definition emit :: "fan_env \<Rightarrow> instant \<Rightarrow> bool \<Rightarrow> audit_event \<Rightarrow> cp_state \<Rightarrow> cp_state" where
  "emit env now stored e s =
     (let s1 = (if stored then s\<lparr>cp_db := ingestOneEvent now e (cp_db s)\<rparr> else s);
          s2 = publish_event env e s1
      in s2\<lparr>cp_db := dispatchWebhooks env now e (cp_db s2)\<rparr>)"

lemma enqueueDelivery_other [simp]:
  "agents (enqueueDelivery env now e w d) = agents d"
  "audit_events (enqueueDelivery env now e w d) = audit_events d"
  "webhooks (enqueueDelivery env now e w d) = webhooks d"
  "enrollment_jtis (enqueueDelivery env now e w d) = enrollment_jtis d"
  "idempotency_keys (enqueueDelivery env now e w d) = idempotency_keys d"
  by (simp_all add: enqueueDelivery_def)

lemma dispatch_to_deliveries:
  "dispatch_to env now e ws d = d\<lparr>webhook_deliveries := webhook_deliveries d @
     map (\<lambda>w. delivery_row (fe_delivery env) now (fe_fresh env e w) w e) (dispatchWebhooksWithList e ws)\<rparr>"
proof -
  have "foldl (\<lambda>d w. enqueueDelivery env now e w d) d xs = d\<lparr>webhook_deliveries := webhook_deliveries d @
     map (\<lambda>w. delivery_row (fe_delivery env) now (fe_fresh env e w) w e) xs\<rparr>" for xs
    by (induction xs arbitrary: d) (simp_all add: enqueueDelivery_def)
  then show ?thesis by (simp add: dispatch_to_def)
qed

lemma emit_frame [simp]:
  "agents (cp_db (emit env now stored e s)) = agents (cp_db s)"
  "enrollment_jtis (cp_db (emit env now stored e s)) = enrollment_jtis (cp_db s)"
  "idempotency_keys (cp_db (emit env now stored e s)) = idempotency_keys (cp_db s)"
  "webhooks (cp_db (emit env now stored e s)) = webhooks (cp_db s)"
  by (simp_all add: emit_def Let_def dispatchWebhooks_def dispatch_to_deliveries publish_event_def ingestOneEvent_def)

lemma foldl_emit_frame [simp]:
  "agents (cp_db (foldl (\<lambda>s x. emit env now (f x) (g x) s) s xs)) = agents (cp_db s)"
  by (induction xs arbitrary: s) simp_all

end
