(* ===== verification/Registry_Store.thy ===== *)
theory Registry_Store
  imports Fan_Out
begin

text \<open>
  The agent registry: \<open>src/src/lib/registry/store.ts\<close>, the one-time tokens of \<open>jti-store.ts\<close>, the
  registration transaction of \<open>register.ts\<close> and the expiry sweep of \<open>expiry-job.ts\<close>. The cast
  of a stored manifest to \<open>jsonb\<close>, which the sweep makes in the database, is the parameter
  \<open>jsonb_cast\<close>, \<open>None\<close> where the cast is an error.
\<close>

section \<open>Agents\<close>

record registry_filters =
  rf_capability :: "jstring option"
  rf_aid :: "jstring option"
  rf_displayName :: "jstring option"
  rf_namespace :: "jstring option"
  rf_limit :: int
  rf_offset :: int

definition MAX_AGENTS_LIMIT :: int where "MAX_AGENTS_LIMIT = 1000"

definition wants :: "jstring option \<Rightarrow> jstring \<Rightarrow> bool" where
  "wants v x \<longleftrightarrow> blank v \<or> v = Some x"

definition not_expired :: "instant \<Rightarrow> agent \<Rightarrow> bool" where
  "not_expired now a \<longleftrightarrow> (case ag_manifestExpiresAt a of None \<Rightarrow> True | Some t \<Rightarrow> now \<le> t)"

definition agent_match :: "instant \<Rightarrow> registry_filters \<Rightarrow> agent \<Rightarrow> bool" where
  "agent_match now f a \<longleftrightarrow> ag_status a = Active \<and> not_expired now a \<and>
     wants (rf_aid f) (ag_aid a) \<and> wants (rf_displayName f) (ag_displayName a) \<and>
     wants (rf_namespace f) (ag_namespace a) \<and>
     (blank (rf_capability f) \<or> the (rf_capability f) \<in> set (ag_offeredCaps a))"

text \<open>Oldest registration first.\<close>

definition listAgents :: "instant \<Rightarrow> registry_filters \<Rightarrow> agent list \<Rightarrow> agent list" where
  "listAgents now f t =
     page (\<lambda>a. - ag_registeredAt a) (min (max (rf_limit f) 1) MAX_AGENTS_LIMIT) (max (rf_offset f) 0)
       (filter (agent_match now f) t)"

definition getAgent :: "jstring \<Rightarrow> agent list \<Rightarrow> agent option" where
  "getAgent aid t = find_row ag_aid aid t"

record register_input =
  ri_aid :: jstring
  ri_displayName :: jstring
  ri_handshakeEndpoint :: jstring
  ri_offeredCaps :: "jstring list"
  ri_manifestJson :: jstring
  ri_manifestExpiresAt :: "instant option"
  ri_org :: "jstring option"
  ri_cloud :: "jstring option"
  ri_namespace :: "jstring option"

definition input_namespace :: "register_input \<Rightarrow> jstring" where
  "input_namespace i = (case ri_namespace i of None \<Rightarrow> js ''default'' | Some n \<Rightarrow> n)"

definition new_agent :: "instant \<Rightarrow> register_input \<Rightarrow> agent" where
  "new_agent now i = \<lparr>ag_aid = ri_aid i, ag_displayName = ri_displayName i,
     ag_handshakeEndpoint = ri_handshakeEndpoint i, ag_offeredCaps = ri_offeredCaps i,
     ag_manifestJson = ri_manifestJson i, ag_manifestExpiresAt = ri_manifestExpiresAt i,
     ag_status = Active, ag_registeredAt = now, ag_lastEnrolledAt = Some now, ag_lastSeenAt = None,
     ag_org = ri_org i, ag_cloud = ri_cloud i, ag_namespace = input_namespace i, ag_metadata = JObj []\<rparr>"

definition re_enrolled :: "instant \<Rightarrow> register_input \<Rightarrow> agent \<Rightarrow> agent" where
  "re_enrolled now i a = a\<lparr>ag_displayName := ri_displayName i,
     ag_handshakeEndpoint := ri_handshakeEndpoint i, ag_offeredCaps := ri_offeredCaps i,
     ag_manifestJson := ri_manifestJson i, ag_manifestExpiresAt := ri_manifestExpiresAt i,
     ag_namespace := input_namespace i, ag_status := Active, ag_lastEnrolledAt := Some now\<rparr>"

definition upsertAgent :: "instant \<Rightarrow> register_input \<Rightarrow> agent list \<Rightarrow> agent list" where
  "upsertAgent now i t = insert_update ag_aid (new_agent now i) (re_enrolled now i) t"

definition deactivateAgent :: "jstring \<Rightarrow> agent list \<Rightarrow> bool \<times> agent list" where
  "deactivateAgent aid t = (aid \<in> ag_aid ` set t,
     update_where (\<lambda>a. ag_aid a = aid) (\<lambda>a. a\<lparr>ag_status := Deregistered\<rparr>) t)"

definition touchLastSeenBatch :: "instant \<Rightarrow> jstring list \<Rightarrow> agent list \<Rightarrow> agent list" where
  "touchLastSeenBatch now aids t =
     (if aids = [] then t
      else update_where (\<lambda>a. ag_aid a \<in> set aids) (\<lambda>a. a\<lparr>ag_lastSeenAt := Some now\<rparr>) t)"

section \<open>One-time tokens\<close>

definition consumeEnrollmentJti :: "instant \<Rightarrow> jstring \<Rightarrow> int \<Rightarrow> enrollment_jti list \<Rightarrow> bool \<times> enrollment_jti list" where
  "consumeEnrollmentJti now jti expiresAtUnixSecs t =
     insert_nothing ej_jti \<lparr>ej_jti = jti, ej_expiresAt = expiresAtUnixSecs * 1000, ej_createdAt = now\<rparr> t"

interpretation jti_rows: conflict_insert
  "insert_nothing ej_jti" "\<lambda>t k. find_row ej_jti k t" ej_jti
  by unfold_locales (simp_all only: insert_nothing_laws not_False_eq_True)

text \<open>
  The transaction: \<open>None\<close> is a throw, which rolls back. A fault of the upsert (\<open>faulty\<close>) undoes
  the consume; a taken jti writes nothing.
\<close>

definition registerConsumingJti :: "instant \<Rightarrow> bool \<Rightarrow> jstring \<Rightarrow> int \<Rightarrow> register_input \<Rightarrow> db \<Rightarrow> bool option \<times> db" where
  "registerConsumingJti now faulty jti expiry i d =
     (let (fresh, t) = consumeEnrollmentJti now jti expiry (enrollment_jtis d)
      in if \<not> fresh then (Some False, d)
         else if faulty then (None, d)
         else (Some True, d\<lparr>enrollment_jtis := t, agents := upsertAgent now i (agents d)\<rparr>))"

section \<open>The expiry sweep\<close>

definition SUPPORTED_MANIFEST_VERSION :: jstring where
  "SUPPORTED_MANIFEST_VERSION = js ''aitp/0.3''"

datatype expiry_reason = ManifestExpired | ManifestVersionUnsupported

record expired_row =
  xr_aid :: jstring
  xr_displayName :: jstring
  xr_namespace :: jstring

definition returning :: "agent \<Rightarrow> expired_row" where
  "returning a = \<lparr>xr_aid = ag_aid a, xr_displayName = ag_displayName a, xr_namespace = ag_namespace a\<rparr>"

definition past_expiry :: "instant \<Rightarrow> agent \<Rightarrow> bool" where
  "past_expiry now a \<longleftrightarrow> ag_status a = Active \<and>
     (case ag_manifestExpiresAt a of None \<Rightarrow> False | Some t \<Rightarrow> t < now)"

text \<open>\<open>manifest_json::jsonb #>> '{manifest,version}' is distinct from ...\<close>, on a cast value.\<close>

definition version_unsupported :: "json \<Rightarrow> bool" where
  "version_unsupported j \<longleftrightarrow>
     (case get j ''manifest'' of None \<Rightarrow> True
      | Some m \<Rightarrow> get m ''version'' \<noteq> Some (JStr SUPPORTED_MANIFEST_VERSION))"

definition unsupported_row :: "(jstring \<Rightarrow> json option) \<Rightarrow> agent \<Rightarrow> bool" where
  "unsupported_row jsonb_cast a \<longleftrightarrow> ag_status a = Active \<and>
     (case jsonb_cast (ag_manifestJson a) of None \<Rightarrow> False | Some j \<Rightarrow> version_unsupported j)"

text \<open>\<open>UPDATE ... SET status = 'expired' WHERE ... RETURNING\<close>: the rows it claimed, and the table.\<close>

definition expire_where :: "(agent \<Rightarrow> bool) \<Rightarrow> agent list \<Rightarrow> expired_row list \<times> agent list" where
  "expire_where p t = (map returning (filter p t), update_where p (\<lambda>a. a\<lparr>ag_status := Expired\<rparr>) t)"

definition sweep_expired :: "instant \<Rightarrow> agent list \<Rightarrow> expired_row list \<times> agent list" where
  "sweep_expired now t = expire_where (past_expiry now) t"

text \<open>The cast is evaluated on every active row; where it is an error the whole statement fails.\<close>

definition sweep_versions :: "(jstring \<Rightarrow> json option) \<Rightarrow> agent list \<Rightarrow> (expired_row list \<times> agent list) option" where
  "sweep_versions jsonb_cast t =
     (if list_ex (\<lambda>a. ag_status a = Active \<and> jsonb_cast (ag_manifestJson a) = None) t then None
      else Some (expire_where (unsupported_row jsonb_cast) t))"

definition reason_text :: "expiry_reason \<Rightarrow> jstring" where
  "reason_text r = (case r of ManifestExpired \<Rightarrow> js ''manifest_expired''
     | ManifestVersionUnsupported \<Rightarrow> js ''manifest_version_unsupported'')"

definition expired_event :: "instant \<Rightarrow> jstring \<Rightarrow> expiry_reason \<Rightarrow> expired_row \<Rightarrow> audit_event" where
  "expired_event now uid reason r = \<lparr>ev_id = uid, ev_type = js ''agent.expired'', ev_ts = now,
     ev_aidA = Some (xr_aid r), ev_aidB = None, ev_sessionId = None, ev_runId = None, ev_grants = None,
     ev_payload = jobj [(''displayName'', JStr (xr_displayName r)), (''namespace'', JStr (xr_namespace r)),
       (''reason'', JStr (reason_text reason))],
     ev_source = Some (js ''cp'')\<rparr>"

text \<open>\<open>uid\<close> and \<open>stored\<close> are the fresh id and the fate of the insert of each row's event.\<close>

definition emitExpired ::
  "fan_env \<Rightarrow> instant \<Rightarrow> (expired_row \<Rightarrow> jstring) \<Rightarrow> (expired_row \<Rightarrow> bool) \<Rightarrow> expiry_reason \<Rightarrow> expired_row list \<Rightarrow>
     cp_state \<Rightarrow> cp_state" where
  "emitExpired env now uid stored reason rows s =
     foldl (\<lambda>s r. emit env now (stored r) (expired_event now (uid r) reason r) s) s rows"

definition set_agents :: "agent list \<Rightarrow> cp_state \<Rightarrow> cp_state" where
  "set_agents t s = s\<lparr>cp_db := (cp_db s)\<lparr>agents := t\<rparr>\<rparr>"

text \<open>\<open>None\<close> is a throw of the second statement: the first one stays committed.\<close>

definition enforceManifestExpiry ::
  "(jstring \<Rightarrow> json option) \<Rightarrow> fan_env \<Rightarrow> instant \<Rightarrow> (expired_row \<Rightarrow> jstring) \<Rightarrow> (expired_row \<Rightarrow> bool) \<Rightarrow>
     cp_state \<Rightarrow> nat option \<times> cp_state" where
  "enforceManifestExpiry jsonb_cast env now uid stored s =
     (let (expired, t1) = sweep_expired now (agents (cp_db s));
          s1 = emitExpired env now uid stored ManifestExpired expired (set_agents t1 s)
      in case sweep_versions jsonb_cast (agents (cp_db s1)) of
           None \<Rightarrow> (None, s1)
         | Some (unsupported, t2) \<Rightarrow>
             (Some (length expired + length unsupported),
              emitExpired env now uid stored ManifestVersionUnsupported unsupported (set_agents t2 s1)))"

section \<open>Replicas\<close>

text \<open>
  The statements of any number of replicas, in the order the database serialises them, with what
  they report: \<open>rg_expired\<close> are the rows the sweeps announce as \<open>agent.expired\<close>, \<open>rg_enrolled\<close>
  the registrations.
\<close>

record registry_world =
  rg_agents :: "agent list"
  rg_expired :: "jstring list"
  rg_enrolled :: "jstring list"

datatype registry_op =
    Enroll instant register_input
  | Deregister jstring
  | Seen instant "jstring list"
  | SweepExpired instant
  | SweepVersions

definition announce :: "expired_row list \<times> agent list \<Rightarrow> registry_world \<Rightarrow> registry_world" where
  "announce r w = w\<lparr>rg_expired := rg_expired w @ map xr_aid (fst r), rg_agents := snd r\<rparr>"

fun registry_step :: "(jstring \<Rightarrow> json option) \<Rightarrow> registry_world \<Rightarrow> registry_op \<Rightarrow> registry_world" where
  "registry_step jsonb_cast w (Enroll now i) =
     w\<lparr>rg_agents := upsertAgent now i (rg_agents w), rg_enrolled := rg_enrolled w @ [ri_aid i]\<rparr>"
| "registry_step jsonb_cast w (Deregister aid) = w\<lparr>rg_agents := snd (deactivateAgent aid (rg_agents w))\<rparr>"
| "registry_step jsonb_cast w (Seen now aids) = w\<lparr>rg_agents := touchLastSeenBatch now aids (rg_agents w)\<rparr>"
| "registry_step jsonb_cast w (SweepExpired now) = announce (sweep_expired now (rg_agents w)) w"
| "registry_step jsonb_cast w SweepVersions =
     (case sweep_versions jsonb_cast (rg_agents w) of None \<Rightarrow> w | Some r \<Rightarrow> announce r w)"

definition init_registry :: registry_world where
  "init_registry = \<lparr>rg_agents = [], rg_expired = [], rg_enrolled = []\<rparr>"

definition is_active :: "jstring \<Rightarrow> agent list \<Rightarrow> bool" where
  "is_active aid t \<longleftrightarrow> list_ex (\<lambda>a. ag_aid a = aid \<and> ag_status a = Active) t"

definition active_count :: "jstring \<Rightarrow> agent list \<Rightarrow> nat" where
  "active_count aid t = (if is_active aid t then 1 else 0)"

definition registry_ok :: "registry_world \<Rightarrow> bool" where
  "registry_ok w \<longleftrightarrow> unique_key ag_aid (rg_agents w) \<and>
     (\<forall>aid. count_list (rg_expired w) aid + active_count aid (rg_agents w) \<le> count_list (rg_enrolled w) aid)"

lemma agent_keys [simp]:
  "ag_aid (new_agent now i) = ri_aid i" "ag_aid (re_enrolled now i a) = ag_aid a"
  "ag_status (new_agent now i) = Active" "ag_status (re_enrolled now i a) = Active"
  by (simp_all add: new_agent_def re_enrolled_def)

lemma is_active_update:
  assumes "\<And>a. ag_aid (f a) = ag_aid a" and "\<And>a. a \<in> set t \<Longrightarrow> p a \<Longrightarrow> ag_status (f a) = Active \<Longrightarrow> ag_status a = Active"
  shows "is_active aid (update_where p f t) \<Longrightarrow> is_active aid t"
  using assms by (auto simp: is_active_def list_ex_iff set_update_where split: if_splits)

lemma upsertAgent_unique [inv_intros]: "unique_key ag_aid t \<Longrightarrow> unique_key ag_aid (upsertAgent now i t)"
  by (simp add: upsertAgent_def unique_key_insert_update)

lemma upsertAgent_other: "aid \<noteq> ri_aid i \<Longrightarrow> is_active aid (upsertAgent now i t) = is_active aid t"
  by (auto simp: upsertAgent_def insert_update_def is_active_def list_ex_iff set_update_where)

lemma active_count_mono: "(is_active aid u \<Longrightarrow> is_active aid t) \<Longrightarrow> active_count aid u \<le> active_count aid t"
  by (simp add: active_count_def)

lemma active_count_le: "active_count aid t \<le> 1"
  by (simp add: active_count_def)

lemma expire_where_aids:
  assumes "unique_key ag_aid t" and "\<And>a. p a \<Longrightarrow> ag_status a = Active"
  shows "count_list (map xr_aid (fst (expire_where p t))) aid + active_count aid (snd (expire_where p t))
    = active_count aid t"
  using assms(1)
proof (induction t)
  case Nil
  then show ?case by (simp add: expire_where_def is_active_def active_count_def update_where_def)
next
  case (Cons a t)
  then have IH: "count_list (map xr_aid (fst (expire_where p t))) aid + active_count aid (snd (expire_where p t))
     = active_count aid t" by (simp add: unique_key_def)
  from Cons.prems have new: "\<not> (ag_aid a = aid \<and> is_active aid t)"
    by (auto simp: unique_key_def is_active_def list_ex_iff) (metis imageI)
  have head: "active_count aid (b # u) = (if ag_aid b = aid \<and> ag_status b = Active then 1 else active_count aid u)"
    for b u by (simp add: active_count_def is_active_def)
  have gone: "ag_aid a = aid \<Longrightarrow> active_count aid t = 0" using new by (simp add: active_count_def)
  have tails: "snd (expire_where p (a # t)) =
      (if p a then a\<lparr>ag_status := Expired\<rparr> else a) # snd (expire_where p t)"
    "fst (expire_where p (a # t)) = (if p a then [returning a] else []) @ fst (expire_where p t)"
    by (simp_all add: expire_where_def update_where_def)
  show ?case using IH gone assms(2) [of a] by (auto simp: tails head returning_def split: if_splits)
qed

lemma expire_where_unique: "unique_key ag_aid t \<Longrightarrow> unique_key ag_aid (snd (expire_where p t))"
  by (simp add: expire_where_def unique_key_update_where)

lemma registry_okI:
  assumes "registry_ok w" and "unique_key ag_aid t"
    and "\<And>aid. count_list xs aid + active_count aid t
           \<le> count_list ys aid + active_count aid (rg_agents w)"
  shows "registry_ok \<lparr>rg_agents = t, rg_expired = rg_expired w @ xs, rg_enrolled = rg_enrolled w @ ys\<rparr>"
proof -
  have "count_list (rg_expired w @ xs) aid + active_count aid t \<le> count_list (rg_enrolled w @ ys) aid" for aid
  proof -
    from assms(1) have "count_list (rg_expired w) aid + active_count aid (rg_agents w)
      \<le> count_list (rg_enrolled w) aid" by (simp add: registry_ok_def)
    with assms(3) [of aid] show ?thesis unfolding count_list_append by linarith
  qed
  with assms(2) show ?thesis by (simp add: registry_ok_def)
qed

lemma announce_ok:
  assumes "registry_ok w" and "\<And>a. p a \<Longrightarrow> ag_status a = Active"
  shows "registry_ok (announce (expire_where p (rg_agents w)) w)"
  using registry_okI [OF assms(1), of "snd (expire_where p (rg_agents w))"
      "map xr_aid (fst (expire_where p (rg_agents w)))" "[]"] assms
    expire_where_aids [of "rg_agents w" p]
  by (cases w) (simp add: announce_def expire_where_unique registry_ok_def)

lemma registry_step_ok [inv_intros]:
  assumes ok: "registry_ok w"
  shows "registry_ok (registry_step jsonb_cast w op)"
proof (cases op)
  case (Enroll now i)
  have "active_count aid (upsertAgent now i (rg_agents w)) \<le>
      count_list [ri_aid i] aid + active_count aid (rg_agents w)" for aid
    using upsertAgent_other [of aid i now "rg_agents w"]
    by (simp add: active_count_def)
  with Enroll registry_okI [OF ok, of "upsertAgent now i (rg_agents w)" "[]" "[ri_aid i]"] ok
  show ?thesis by (cases w) (simp add: upsertAgent_unique registry_ok_def)
next
  case (Deregister aid)
  have "active_count k (snd (deactivateAgent aid (rg_agents w))) \<le> active_count k (rg_agents w)" for k
    unfolding deactivateAgent_def snd_conv by (intro active_count_mono, erule is_active_update [rotated 2]) simp_all
  with Deregister registry_okI [OF ok, of "snd (deactivateAgent aid (rg_agents w))" "[]" "[]"] ok
  show ?thesis by (cases w) (simp add: deactivateAgent_def unique_key_update_where registry_ok_def)
next
  case (Seen now aids)
  have "active_count k (touchLastSeenBatch now aids (rg_agents w)) \<le> active_count k (rg_agents w)" for k
    by (intro active_count_mono) (auto simp: touchLastSeenBatch_def elim: is_active_update [rotated 2] split: if_splits)
  with Seen registry_okI [OF ok, of "touchLastSeenBatch now aids (rg_agents w)" "[]" "[]"] ok
  show ?thesis by (cases w) (simp add: touchLastSeenBatch_def unique_key_update_where registry_ok_def)
next
  case (SweepExpired now)
  with ok announce_ok [of w "past_expiry now"] show ?thesis by (simp add: sweep_expired_def past_expiry_def)
next
  case SweepVersions
  with ok announce_ok [of w "unsupported_row jsonb_cast"] show ?thesis
    by (simp add: sweep_versions_def unsupported_row_def)
qed

interpretation registry: machine "registry_step jsonb_cast" registry_ok for jsonb_cast
  by unfold_locales (rule registry_step_ok)

section \<open>Properties\<close>


end
