(* ===== verification/Admin_Route.thy ===== *)
theory Admin_Route
  imports Fan_Out Admin_Audit Idempotency
begin

text \<open>
  What the mutating admin and registry routes share: the state of one process with the audit sink,
  the inputs of one request that no argument of it fixes (clock, fresh ids, which statements fail),
  the JSON-object POST under \<open>withIdempotency\<close>, and the contract all of them keep: a refusal changes
  nothing, an acceptance writes one admin audit row or counts its failure.
\<close>

record route_state =
  rt_cp :: cp_state
  rt_sink :: audit_sink

text \<open>
  \<open>ro_ts_text\<close> is the text the driver returns for a stored time, \<open>ro_date_parse\<close> is
  \<open>new Date(s).getTime()\<close>, \<open>None\<close> for an invalid date.
\<close>

record route_env =
  ro_fan :: fan_env
  ro_sha256_hex :: "jstring \<Rightarrow> jstring"
  ro_date_parse :: "jstring \<Rightarrow> instant option"
  ro_ts_text :: "instant \<Rightarrow> jstring"

record route_input =
  rv_now :: instant
  rv_uid :: jstring
  rv_event_id :: jstring
  rv_audit_id :: jstring
  rv_write_fails :: bool      \<comment> \<open>the statement that writes the route's own table\<close>
  rv_event_fails :: bool
  rv_audit_fails :: bool

abbreviation rt_db :: "route_state \<Rightarrow> db" where
  "rt_db s \<equiv> cp_db (rt_cp s)"

definition set_db :: "db \<Rightarrow> route_state \<Rightarrow> route_state" where
  "set_db d s = s\<lparr>rt_cp := (rt_cp s)\<lparr>cp_db := d\<rparr>\<rparr>"

lemma set_db_simps [simp]:
  "rt_db (set_db d s) = d" "rt_sink (set_db d s) = rt_sink s" "set_db (rt_db s) s = s"
  "cp_stream (rt_cp (set_db d s)) = cp_stream (rt_cp s)"
  by (simp_all add: set_db_def)

definition refuse :: "nat \<Rightarrow> jstring \<Rightarrow> string \<Rightarrow> idempotent_result" where
  "refuse st msg code = \<lparr>ir_status = st, ir_body = jobj [(''error'', JStr msg), (''code'', jlit code)]\<rparr>"

definition invalid :: "jstring \<Rightarrow> idempotent_result" where
  "invalid msg = refuse 400 msg ''BODY_INVALID''"

lemma refuse_status [simp]: "ir_status (refuse n msg code) = n"
  by (simp add: refuse_def)

lemma invalid_status [simp]: "ir_status (invalid msg) = 400"
  by (simp add: invalid_def)

text \<open>\<open>v ?? w\<close> on a property read.\<close>

definition nullish :: "json option \<Rightarrow> bool" where
  "nullish v \<longleftrightarrow> v = None \<or> v = Some JNull"

definition coalesce :: "json option \<Rightarrow> json option \<Rightarrow> json option" where
  "coalesce v w = (if nullish v then w else v)"

lemma as_string_Some: "as_string v = Some s \<longleftrightarrow> v = Some (JStr s)"
  by (cases v rule: as_string.cases) auto

text \<open>A field for a column, and \<open>v\<close> as \<open>string | null | absent\<close>.\<close>

definition column_refusal :: "string \<Rightarrow> jstring \<Rightarrow> nat \<Rightarrow> nat option \<Rightarrow> jstring option" where
  "column_refusal field v mx maxBytes = map_option (column_message (js field)) (checkColumnString v mx maxBytes)"

definition absent_or_string :: "json option \<Rightarrow> bool" where
  "absent_or_string v \<longleftrightarrow> v = None \<or> v = Some JNull \<or> as_string v \<noteq> None"

definition string_or_default :: "json option \<Rightarrow> string \<Rightarrow> jstring" where
  "string_or_default v def = (case nonempty_string v of Some s \<Rightarrow> s | None \<Rightarrow> js def)"

text \<open>Query parameters bound for a text comparison; a stored time as the driver prints it.\<close>

definition query_problem :: "string list \<Rightarrow> search_params \<Rightarrow> http_response option" where
  "query_problem names q = (case filter (\<lambda>n. checkQueryParam (q n) \<noteq> None) names of
     [] \<Rightarrow> None
   | n # _ \<Rightarrow> Some (badRequest (column_message (js n) (the (checkQueryParam (q n)))) ''BAD_REQUEST''))"

definition time_or_null :: "route_env \<Rightarrow> instant option \<Rightarrow> json" where
  "time_or_null env t = (case t of None \<Rightarrow> JNull | Some ms \<Rightarrow> JStr (ro_ts_text env ms))"

definition not_found :: http_response where
  "not_found = json_response 404 (error_body ''not found'' ''NOT_FOUND'')"

text \<open>\<open>writeAdminAudit({ action, targetId, details, ...auditContext(req, fallback) })\<close>.\<close>

definition audit_entry ::
  "headers \<Rightarrow> jstring option \<Rightarrow> string \<Rightarrow> jstring \<Rightarrow> (string \<times> json) list option \<Rightarrow> admin_audit_entry" where
  "audit_entry h fallback action target details = \<lparr>ae_action = js action, ae_targetId = Some target,
     ae_details = map_option (map (\<lambda>(k, v). (js k, v))) details, ae_context = auditContext h fallback\<rparr>"

definition audit_action ::
  "route_input \<Rightarrow> headers \<Rightarrow> jstring option \<Rightarrow> string \<Rightarrow> jstring \<Rightarrow> (string \<times> json) list option \<Rightarrow>
     route_state \<Rightarrow> route_state" where
  "audit_action v h fallback action target details s = s\<lparr>rt_sink :=
     writeAdminAudit (rv_audit_fails v) (rv_now v) (rv_audit_id v) (audit_entry h fallback action target details) (rt_sink s)\<rparr>"

definition audits :: "route_state \<Rightarrow> nat" where
  "audits s = length (sink_rows (rt_sink s)) + adminAuditInsertFailures (rt_sink s)"

lemma audits_audit_action [simp]: "audits (audit_action v h f a t ds s) = Suc (audits s)"
  by (simp add: audits_def audit_action_def writeAdminAudit_def Let_def)

lemma rt_cp_audit_action [simp]: "rt_cp (audit_action v h f a t ds s) = rt_cp s"
  by (simp add: audit_action_def)

lemma audits_set_db [simp]: "audits (set_db d s) = audits s"
  by (simp add: audits_def)

lemma audits_cp_update [simp]: "audits (s\<lparr>rt_cp := c\<rparr>) = audits s"
  by (simp add: audits_def)

section \<open>A JSON POST under an idempotency key\<close>

datatype route_answer = Plain http_response | Wrapped "idem_phase option"

definition json_POST ::
  "(json \<Rightarrow> json) \<Rightarrow> (jstring \<Rightarrow> int option) \<Rightarrow> (byte list \<Rightarrow> json option) \<Rightarrow> string \<Rightarrow>
     (json \<Rightarrow> route_state \<Rightarrow> idempotent_result option \<times> route_state) \<Rightarrow> instant \<Rightarrow> bool \<Rightarrow>
     http_request \<Rightarrow> byte list option list \<Rightarrow> route_state \<Rightarrow> route_answer \<times> route_state" where
  "json_POST jsonb to_number parse_json scope exec now persistFails r chunks s =
     (case readJsonObject to_number parse_json r chunks of
        Inl resp \<Rightarrow> (Plain resp, s)
      | Inr body \<Rightarrow>
          (let (answer, t, s1) = withIdempotency jsonb now persistFails (hdr r ''idempotency-key'') (js scope)
                 (exec body) (idempotency_keys (rt_db s)) s
           in (Wrapped answer, set_db ((rt_db s1)\<lparr>idempotency_keys := t\<rparr>) s1)))"

section \<open>The contract\<close>

fun exec_run ::
  "('r \<Rightarrow> 's \<Rightarrow> 'a option \<times> 's) \<Rightarrow> 'r list \<Rightarrow> 's \<Rightarrow> 'a option list \<times> 's" where
  "exec_run exec [] s = ([], s)"
| "exec_run exec (r # rs) s =
     (let (a, s1) = exec r s; (as, s2) = exec_run exec rs s1 in (a # as, s2))"

locale audited_route =
  fixes exec :: "'r \<Rightarrow> route_state \<Rightarrow> idempotent_result option \<times> route_state"
  assumes refused: "exec r s = (Some a, s') \<Longrightarrow> ir_status a \<noteq> 201 \<Longrightarrow> s' = s"
    and accepted: "exec r s = (Some a, s') \<Longrightarrow> ir_status a = 201 \<Longrightarrow> audits s' = Suc (audits s)"
begin

lemma answered_audits:
  "exec r s = (Some a, s') \<Longrightarrow> audits s' = audits s + (if ir_status a = 201 then 1 else 0)"
  using refused accepted by (cases "ir_status a = 201") auto

lemma run_audits:
  "exec_run exec rs s = (answers, s') \<Longrightarrow> None \<notin> set answers \<Longrightarrow>
   audits s' = audits s + length (filter (\<lambda>a. ir_status (the a) = 201) answers)"
proof (induction rs arbitrary: s answers)
  case (Cons r rs)
  obtain a s1 where e: "exec r s = (a, s1)" by fastforce
  obtain as s2 where run: "exec_run exec rs s1 = (as, s2)" by fastforce
  from Cons.prems e run obtain b where "a = Some b" "answers = Some b # as" "s' = s2" by (cases a) auto
  with Cons.IH [of s1 as] run Cons.prems(2) e answered_audits [of r s b s1] show ?case by auto
qed simp

lemma changed_is_audited: "exec r s = (Some a, s') \<Longrightarrow> s' \<noteq> s \<Longrightarrow> ir_status a = 201 \<and> audits s' = Suc (audits s)"
  using refused accepted by blast

end

section \<open>A process to try the routes on\<close>

definition demo_fan_env :: fan_env where
  "demo_fan_env = \<lparr>fe_delivery = demo_delivery_env, fe_broken = [], fe_fresh = \<lambda>e w. ev_id e @ wh_id w\<rparr>"

definition demo_route_env :: route_env where
  "demo_route_env = \<lparr>ro_fan = demo_fan_env, ro_sha256_hex = \<lambda>s. s, ro_date_parse = \<lambda>_. None, ro_ts_text = \<lambda>_. js ''t''\<rparr>"

definition demo_route_input :: route_input where
  "demo_route_input = \<lparr>rv_now = 8000, rv_uid = js ''u'', rv_event_id = js ''e'', rv_audit_id = js ''a'',
     rv_write_fails = False, rv_event_fails = False, rv_audit_fails = False\<rparr>"

definition demo_route_state :: "db \<Rightarrow> route_state" where
  "demo_route_state d = \<lparr>rt_cp = \<lparr>cp_db = d, cp_stream = init_stream demo_config\<rparr>,
     rt_sink = \<lparr>sink_rows = [], adminAuditInsertFailures = 0\<rparr>\<rparr>"

definition demo_post :: "string \<Rightarrow> http_request" where
  "demo_post path = \<lparr>rq_method = js ''POST'', rq_path = js path, rq_headers = Map.empty\<rparr>"

end
