(* ===== verification/Event_Ingest.thy ===== *)
theory Event_Ingest
  imports Registry_Store Session_Monitor Tct_Monitor Admin_Route
begin

text \<open>
  \<open>POST /api/events\<close>, \<open>src/src/app/api/events/route.ts\<close>: the batch of reported events is bounded,
  each item is normalised and checked, the storable ones get their content-derived id, are
  inserted if absent and fanned out. \<open>ingest_exec\<close> is the callback of \<open>withIdempotency\<close>: its
  \<open>None\<close> is a throw. The counters are those of \<open>src/src/lib/audit/ingest-metrics.ts\<close>.
\<close>

section \<open>The payload walk\<close>

datatype value_problem = TooDeep | NulChar | LoneSurrogate

definition MAX_PAYLOAD_DEPTH :: nat where "MAX_PAYLOAD_DEPTH = 64"
definition MAX_REPORTED_ERRORS :: nat where "MAX_REPORTED_ERRORS = 20"
definition MAX_BATCH_BYTES :: nat where "MAX_BATCH_BYTES = 256 * 1024"
definition MAX_EVENT_PAYLOAD_BYTES :: nat where "MAX_EVENT_PAYLOAD_BYTES = 64 * 1024"
definition MAX_BATCH_EVENTS :: nat where "MAX_BATCH_EVENTS = 500"

text \<open>
  The explicit stack of \<open>jsonValueProblem\<close>, its top first: children are pushed in order, so the
  last one is visited first. The flags are \<open>hasNul\<close> and \<open>hasLoneSurrogate\<close>.
\<close>

function jv_loop :: "(json \<times> nat) list \<Rightarrow> bool \<Rightarrow> bool \<Rightarrow> value_problem option" where
  "jv_loop [] n l = (if n then Some NulChar else if l then Some LoneSurrogate else None)"
| "jv_loop ((JStr s, d) # st) n l = jv_loop st (n \<or> has_nul s) (l \<or> \<not> well_formed s)"
| "jv_loop ((JNull, d) # st) n l = jv_loop st n l"
| "jv_loop ((JBool b, d) # st) n l = jv_loop st n l"
| "jv_loop ((JNum q, d) # st) n l = jv_loop st n l"
| "jv_loop ((JArr vs, d) # st) n l =
     (if d > MAX_PAYLOAD_DEPTH then Some TooDeep
      else jv_loop (rev (map (\<lambda>v. (v, d + 1)) vs) @ st) n l)"
| "jv_loop ((JObj ps, d) # st) n l =
     (if d > MAX_PAYLOAD_DEPTH then Some TooDeep
      else jv_loop (rev (map (\<lambda>p. (snd p, d + 1)) ps) @ st)
             (n \<or> list_ex (\<lambda>p. has_nul (fst p)) ps) (l \<or> list_ex (\<lambda>p. \<not> well_formed (fst p)) ps))"
  by pat_completeness auto
termination
proof (relation "measure (\<lambda>(st, n, l). sum_list (map (\<lambda>x. json_weight (fst x)) st))", goal_cases)
  case (6 vs d st n l)
  have "sum_list (map json_weight vs) \<le> sum_list (map (\<lambda>v. json_weight v + 1) vs)"
    by (intro sum_list_mono) simp
  then show ?case by (simp add: rev_map [symmetric] o_def sum_list_rev)
next
  case (7 ps d st n l)
  have "sum_list (map (\<lambda>p. json_weight (snd p)) ps) \<le> sum_list (map (\<lambda>p. json_weight (snd p) + 2) ps)"
    by (intro sum_list_mono) simp
  then show ?case by (simp add: rev_map [symmetric] o_def sum_list_rev)
qed simp_all

definition jsonValueProblem :: "json \<Rightarrow> value_problem option" where
  "jsonValueProblem v = jv_loop [(v, 1)] False False"

text \<open>The recursive reading: nesting depth, and every key and string of a value.\<close>

fun json_depth :: "json \<Rightarrow> nat" where
  "json_depth (JArr vs) = Suc (foldr max (map json_depth vs) 0)"
| "json_depth (JObj ps) = Suc (foldr max (map (\<lambda>p. json_depth (snd p)) ps) 0)"
| "json_depth v = 0"

fun json_texts :: "json \<Rightarrow> jstring list" where
  "json_texts (JStr s) = [s]"
| "json_texts (JArr vs) = concat (map json_texts vs)"
| "json_texts (JObj ps) = concat (map (\<lambda>p. fst p # json_texts (snd p)) ps)"
| "json_texts v = []"

definition any_text :: "(jstring \<Rightarrow> bool) \<Rightarrow> (json \<times> nat) list \<Rightarrow> bool" where
  "any_text P st \<longleftrightarrow> (\<exists>x \<in> set st. \<exists>s \<in> set (json_texts (fst x)). P s)"

definition any_deep :: "(json \<times> nat) list \<Rightarrow> bool" where
  "any_deep st \<longleftrightarrow> (\<exists>(v, d) \<in> set st. 0 < json_depth v \<and> MAX_PAYLOAD_DEPTH + 1 < d + json_depth v)"

lemma foldr_max_le: "foldr max (map f xs) 0 \<le> (n :: nat) \<longleftrightarrow> (\<forall>x \<in> set xs. f x \<le> n)"
  by (induction xs) auto

lemma foldr_max_less: "n < foldr max (map f xs) (0 :: nat) \<longleftrightarrow> (\<exists>x \<in> set xs. n < f x)"
  by (induction xs) (auto simp: less_max_iff_disj)

lemma any_text_simps [simp]:
  "any_text P [] = False"
  "any_text P (x # st) \<longleftrightarrow> (\<exists>s \<in> set (json_texts (fst x)). P s) \<or> any_text P st"
  "any_text P (st @ su) \<longleftrightarrow> any_text P st \<or> any_text P su"
  "any_text P (rev st) \<longleftrightarrow> any_text P st"
  by (auto simp: any_text_def)

lemma any_deep_simps [simp]:
  "any_deep [] = False"
  "any_deep ((v, d) # st) \<longleftrightarrow> 0 < json_depth v \<and> MAX_PAYLOAD_DEPTH + 1 < d + json_depth v \<or> any_deep st"
  "any_deep (st @ su) \<longleftrightarrow> any_deep st \<or> any_deep su"
  "any_deep (rev st) \<longleftrightarrow> any_deep st"
  by (auto simp: any_deep_def)

lemma deep_children:
  "d \<le> MAX_PAYLOAD_DEPTH \<Longrightarrow> any_deep (map (\<lambda>x. (f x, d + 1)) xs) \<longleftrightarrow>
   MAX_PAYLOAD_DEPTH + 1 < d + Suc (foldr max (map (\<lambda>x. json_depth (f x)) xs) 0)"
proof -
  assume d: "d \<le> MAX_PAYLOAD_DEPTH"
  have "MAX_PAYLOAD_DEPTH + 1 < d + Suc (foldr max (map (\<lambda>x. json_depth (f x)) xs) 0) \<longleftrightarrow>
      MAX_PAYLOAD_DEPTH - d < foldr max (map (\<lambda>x. json_depth (f x)) xs) 0" using d by auto
  also have "\<dots> \<longleftrightarrow> (\<exists>x \<in> set xs. MAX_PAYLOAD_DEPTH - d < json_depth (f x))" by (rule foldr_max_less)
  also have "\<dots> \<longleftrightarrow> any_deep (map (\<lambda>x. (f x, d + 1)) xs)" using d by (force simp: any_deep_def)
  finally show ?thesis by simp
qed

lemma text_children [simp]:
  "any_text P (map (\<lambda>x. (f x, d)) xs) \<longleftrightarrow> (\<exists>x \<in> set xs. \<exists>s \<in> set (json_texts (f x)). P s)"
  by (auto simp: any_text_def)

lemma text_object:
  "(\<exists>s \<in> set (json_texts (JObj ps)). P s) \<longleftrightarrow>
   list_ex (\<lambda>p. P (fst p)) ps \<or> (\<exists>p \<in> set ps. \<exists>s \<in> set (json_texts (snd p)). P s)"
  by (auto simp: list_ex_iff)

lemma text_array:
  "(\<exists>s \<in> set (json_texts (JArr vs)). P s) \<longleftrightarrow> (\<exists>v \<in> set vs. \<exists>s \<in> set (json_texts v). P s)"
  by auto

lemma jv_loop_reading:
  "jv_loop st n l =
     (if any_deep st then Some TooDeep
      else if n \<or> any_text has_nul st then Some NulChar
      else if l \<or> any_text (\<lambda>s. \<not> well_formed s) st then Some LoneSurrogate else None)"
proof (induction st n l rule: jv_loop.induct)
  case (6 vs d st n l)
  show ?case
  proof (cases "d > MAX_PAYLOAD_DEPTH")
    case False
    with 6 deep_children [of d "\<lambda>v. v" vs] show ?thesis
      by (simp add: text_array del: json_texts.simps)
  qed simp
next
  case (7 ps d st n l)
  show ?case
  proof (cases "d > MAX_PAYLOAD_DEPTH")
    case False
    with 7 deep_children [of d snd ps] show ?thesis
      by (simp add: text_object disj_ac del: json_texts.simps)
  qed simp
qed auto

section \<open>Items\<close>

definition pickString :: "json option list \<Rightarrow> jstring option" where
  "pickString vs = foldr (\<lambda>v rest. orelse (nonempty_string v) rest) vs None"

definition pickStringArray :: "json option \<Rightarrow> jstring list option" where
  "pickStringArray v = string_array v"

definition normalizeTimestamp :: "(jstring \<Rightarrow> instant option) \<Rightarrow> instant \<Rightarrow> json option \<Rightarrow> instant" where
  "normalizeTimestamp date_parse now raw =
     (case parseEventTimestamp date_parse raw of Some t \<Rightarrow> t | None \<Rightarrow> now)"

definition event_payload :: "json \<Rightarrow> json" where
  "event_payload raw = (case get raw ''payload'' of Some v \<Rightarrow> if is_object v then v else raw | None \<Rightarrow> raw)"

definition normalize :: "(jstring \<Rightarrow> instant option) \<Rightarrow> instant \<Rightarrow> json \<Rightarrow> jstring \<Rightarrow> audit_event" where
  "normalize date_parse now raw uid =
     (let playground = (case get raw ''playground'' of Some v \<Rightarrow> v | None \<Rightarrow> JObj [])
      in \<lparr>ev_id = uid,
          ev_type = (case as_string (get raw ''type'') of Some s \<Rightarrow> s | None \<Rightarrow> js ''unknown''),
          ev_ts = normalizeTimestamp date_parse now (get raw ''ts''),
          ev_aidA = pickString [get raw ''aidA'', get raw ''aid_a'', get raw ''initiator''],
          ev_aidB = pickString [get raw ''aidB'', get raw ''aid_b'', get raw ''target''],
          ev_sessionId = pickString [get raw ''sessionId'', get raw ''session_id''],
          ev_runId = pickString [get raw ''runId'', get raw ''run_id'', get playground ''run_id''],
          ev_grants = pickStringArray (get raw ''grants''),
          ev_payload = event_payload raw,
          ev_source = orelse (pickString [get raw ''source'']) (Some (js ''playground''))\<rparr>)"

record item_problem =
  ip_field :: jstring
  ip_reason :: jstring
  ip_tooDeep :: bool

definition value_message :: "jstring \<Rightarrow> value_problem \<Rightarrow> jstring" where
  "value_message field p = (case p of
     TooDeep \<Rightarrow> field @ js '' is nested too deep (more than '' @ decimal MAX_PAYLOAD_DEPTH @ js '' levels)''
   | NulChar \<Rightarrow> field @ js '' contains a NUL character''
   | LoneSurrogate \<Rightarrow> field @ js '' contains a lone UTF-16 surrogate'')"

definition value_item :: "string \<Rightarrow> value_problem \<Rightarrow> item_problem" where
  "value_item field p = \<lparr>ip_field = js field, ip_reason = value_message (js field) p, ip_tooDeep = (p = TooDeep)\<rparr>"

definition TEXT_FIELD_LIMITS :: "(string \<times> (audit_event \<Rightarrow> jstring option) \<times> nat) list" where
  "TEXT_FIELD_LIMITS = [(''type'', \<lambda>e. Some (ev_type e), 128), (''aidA'', ev_aidA, 512), (''aidB'', ev_aidB, 512),
     (''sessionId'', ev_sessionId, 255), (''runId'', ev_runId, 255), (''source'', ev_source, 128)]"

definition text_problem :: "audit_event \<Rightarrow> string \<times> (audit_event \<Rightarrow> jstring option) \<times> nat \<Rightarrow> item_problem option" where
  "text_problem e l = (case l of (field, read, mx) \<Rightarrow>
     (case read e of None \<Rightarrow> None
      | Some v \<Rightarrow> map_option (\<lambda>p. \<lparr>ip_field = js field, ip_reason = column_message (js field) p, ip_tooDeep = False\<rparr>)
                    (checkColumnString v mx None)))"

fun first_some :: "('a \<Rightarrow> 'b option) \<Rightarrow> 'a list \<Rightarrow> 'b option" where
  "first_some f [] = None"
| "first_some f (x # xs) = (case f x of Some y \<Rightarrow> Some y | None \<Rightarrow> first_some f xs)"

definition grants_problem :: "audit_event \<Rightarrow> value_problem option" where
  "grants_problem e = (case ev_grants e of None \<Rightarrow> None | Some g \<Rightarrow> jsonValueProblem (JArr (map JStr g)))"

definition itemProblem :: "audit_event \<Rightarrow> item_problem option" where
  "itemProblem e =
     (let payloadProblem = jsonValueProblem (ev_payload e)
      in if payloadProblem = Some TooDeep then Some (value_item ''payload'' TooDeep)
         else orelse (first_some (text_problem e) TEXT_FIELD_LIMITS)
                (orelse (map_option (value_item ''grants'') (grants_problem e))
                        (map_option (value_item ''payload'') payloadProblem)))"

section \<open>The batch\<close>

text \<open>\<open>JSON.stringify\<close>; \<open>num_repr\<close> prints a finite number.\<close>

fun stringify :: "(rat \<Rightarrow> jstring) \<Rightarrow> json \<Rightarrow> jstring" where
  "stringify num_repr JNull = js ''null''"
| "stringify num_repr (JBool b) = (if b then js ''true'' else js ''false'')"
| "stringify num_repr (JNum n) = (case n of JFin q \<Rightarrow> num_repr q | JInf b \<Rightarrow> js ''null'')"
| "stringify num_repr (JStr s) = json_quote s"
| "stringify num_repr (JArr vs) = js ''['' @ commas (map (stringify num_repr) vs) @ js '']''"
| "stringify num_repr (JObj ps) = js ''{'' @
     commas (map (\<lambda>p. json_quote (fst p) @ js '':'' @ stringify num_repr (snd p)) ps) @ js ''}''"

record ingest_env =
  ie_fan :: fan_env
  ie_tct :: tct_env
  ie_decode :: "jstring \<Rightarrow> json option"
  ie_num_repr :: "rat \<Rightarrow> jstring"
  ie_date_parse :: "jstring \<Rightarrow> instant option"
  ie_sha256 :: "jstring \<Rightarrow> byte list"

text \<open>What is outside one request: the clock, fresh ids and which statements fail.\<close>

record ingest_input =
  in_now :: instant
  in_producer :: "jstring option"                \<comment> \<open>\<open>actorIdFromAuthHeader\<close> of the request\<close>
  in_random :: "nat \<Rightarrow> jstring"
  in_insert_fails :: bool
  in_list_fails :: bool
  in_touch_fails :: bool
  in_session_down :: "audit_event \<Rightarrow> bool"
  in_dispatch_fails :: "audit_event \<Rightarrow> bool"

record ingest_state =
  ig_cp :: cp_state
  eventsDroppedTotal :: nat
  eventsDuplicateTotal :: nat

record candidate =
  ca_index :: nat
  ca_raw :: json
  ca_event :: audit_event
  ca_problem :: "item_problem option"

definition raw_events :: "json \<Rightarrow> json list" where
  "raw_events body = (case body of
     JArr vs \<Rightarrow> vs
   | _ \<Rightarrow> (case get body ''events'' of Some (JArr vs) \<Rightarrow> vs | _ \<Rightarrow> []))"

definition events_not_array :: "json \<Rightarrow> bool" where
  "events_not_array body \<longleftrightarrow> is_plain_object body \<and>
     (case get body ''events'' of None \<Rightarrow> False | Some JNull \<Rightarrow> False | Some (JArr vs) \<Rightarrow> False | Some v \<Rightarrow> True)"

definition candidates :: "ingest_env \<Rightarrow> ingest_input \<Rightarrow> json list \<Rightarrow> candidate list" where
  "candidates env i raws =
     map (\<lambda>(n, raw). let e = normalize (ie_date_parse env) (in_now i) raw []
                      in \<lparr>ca_index = n, ca_raw = raw, ca_event = e, ca_problem = itemProblem e\<rparr>)
       (filter (\<lambda>(n, raw). is_object raw) (List.enumerate 0 raws))"

definition too_deep :: "candidate \<Rightarrow> bool" where
  "too_deep c \<longleftrightarrow> (case ca_problem c of Some p \<Rightarrow> ip_tooDeep p | None \<Rightarrow> False)"

definition oversized :: "ingest_env \<Rightarrow> candidate \<Rightarrow> bool" where
  "oversized env c \<longleftrightarrow> \<not> too_deep c \<and>
     length (stringify (ie_num_repr env) (ev_payload (ca_event c))) > MAX_EVENT_PAYLOAD_BYTES"

definition with_id :: "ingest_env \<Rightarrow> ingest_input \<Rightarrow> candidate \<Rightarrow> audit_event" where
  "with_id env i c = (ca_event c)\<lparr>ev_id := eventIdFor (ie_decode env) (ie_num_repr env) (ie_date_parse env)
     (ie_sha256 env) (in_random i (ca_index c)) (ca_raw c) (in_producer i)\<rparr>"

definition error_entry :: "candidate \<Rightarrow> json" where
  "error_entry c = (case ca_problem c of
     Some p \<Rightarrow> jobj [(''index'', jint (int (ca_index c))), (''field'', JStr (ip_field p)), (''reason'', JStr (ip_reason p))]
   | None \<Rightarrow> JNull)"

fun unique_events :: "jstring list \<Rightarrow> audit_event list \<Rightarrow> audit_event list" where
  "unique_events seen [] = []"
| "unique_events seen (e # es) =
     (if ev_id e \<in> set seen then unique_events seen es else e # unique_events (ev_id e # seen) es)"

definition seen_aids :: "audit_event list \<Rightarrow> jstring list" where
  "seen_aids es = remdups (concat (map (\<lambda>e. (if blank (ev_aidA e) then [] else [the (ev_aidA e)]) @
     (if blank (ev_aidB e) then [] else [the (ev_aidB e)])) es))"

text \<open>One event of the projection loop; only an inserted one is published.\<close>

definition project_event :: "ingest_env \<Rightarrow> ingest_input \<Rightarrow> jstring list \<Rightarrow> cp_state \<Rightarrow> audit_event \<Rightarrow> cp_state" where
  "project_event env i insertedIds s e =
     (let s1 = (if ev_id e \<in> set insertedIds then publish_event (ie_fan env) e s else s);
          d1 = (cp_db s1)\<lparr>handshake_sessions :=
                 onSessionEvent (in_session_down i e) (in_now i) e (handshake_sessions (cp_db s1))\<rparr>
      in s1\<lparr>cp_db := onTctEvent (ie_tct env) (in_now i) e d1\<rparr>)"

definition dispatch_event :: "ingest_env \<Rightarrow> ingest_input \<Rightarrow> webhook list \<Rightarrow> db \<Rightarrow> audit_event \<Rightarrow> db" where
  "dispatch_event env i ws d e =
     (if in_dispatch_fails i e then d else dispatch_to (ie_fan env) (in_now i) e ws d)"

definition ingest_response :: "nat \<Rightarrow> nat \<Rightarrow> json list \<Rightarrow> nat \<Rightarrow> nat \<Rightarrow> idempotent_result" where
  "ingest_response ingested dropped errors inserted duplicates = \<lparr>ir_status = 200,
     ir_body = jobj [(''ingested'', jint (int ingested)), (''dropped'', jint (int dropped)), (''errors'', JArr errors),
       (''inserted'', jint (int inserted)), (''duplicates'', jint (int duplicates))]\<rparr>"

definition too_large :: "jstring \<Rightarrow> (string \<times> json) list \<Rightarrow> idempotent_result" where
  "too_large msg extra = \<lparr>ir_status = 413,
     ir_body = jobj ([(''error'', JStr msg), (''code'', jlit ''PAYLOAD_TOO_LARGE'')] @ extra)\<rparr>"

text \<open>What follows the insert: last-seen times, projections and publishing, webhook fan-out.\<close>

definition fan_out_batch ::
  "ingest_env \<Rightarrow> ingest_input \<Rightarrow> jstring list \<Rightarrow> audit_event list \<Rightarrow> cp_state \<Rightarrow> cp_state" where
  "fan_out_batch env i insertedIds es s =
     (let ws = (if in_list_fails i then [] else listActiveWebhooks (webhooks (cp_db s)));
          s1 = (if in_touch_fails i then s
                else set_agents (touchLastSeenBatch (in_now i) (seen_aids es) (agents (cp_db s))) s);
          s2 = foldl (project_event env i insertedIds) s1 es
      in s2\<lparr>cp_db := foldl (dispatch_event env i ws) (cp_db s2) (filter (\<lambda>e. ev_id e \<in> set insertedIds) es)\<rparr>)"

definition ingest_exec ::
  "ingest_env \<Rightarrow> ingest_input \<Rightarrow> json \<Rightarrow> ingest_state \<Rightarrow> idempotent_result option \<times> ingest_state" where
  "ingest_exec env i body s =
     (if events_not_array body then
        (Some \<lparr>ir_status = 400, ir_body = error_body ''events must be an array'' ''BODY_INVALID''\<rparr>, s)
      else if length (raw_events body) > MAX_BATCH_EVENTS then
        (Some (too_large (js ''batch exceeds '' @ decimal MAX_BATCH_EVENTS @ js '' events (got '' @
           decimal (length (raw_events body)) @ js '')'') []), s)
      else
        let cs = candidates env i (raw_events body)
        in case find (oversized env) cs of
             Some c \<Rightarrow>
               (Some (too_large (js ''event payload exceeds '' @ decimal MAX_EVENT_PAYLOAD_BYTES @ js '' bytes (got '' @
                  decimal (length (stringify (ie_num_repr env) (ev_payload (ca_event c)))) @ js '')'')
                  [(''eventType'', JStr (ev_type (ca_event c)))]), s)
           | None \<Rightarrow>
               (let bad = filter (\<lambda>c. ca_problem c \<noteq> None) cs;
                    normalized = map (with_id env i) (filter (\<lambda>c. ca_problem c = None) cs);
                    s1 = s\<lparr>eventsDroppedTotal := eventsDroppedTotal s + length bad\<rparr>;
                    es = unique_events [] normalized
                in if es \<noteq> [] \<and> in_insert_fails i then (None, s1)
                   else
                     let (insertedIds, d1) = ingestEvents (in_now i) es (cp_db (ig_cp s));
                         inserted = length insertedIds;
                         duplicates = length normalized - inserted
                     in (Some (ingest_response (length normalized) (length bad)
                                (map error_entry (take MAX_REPORTED_ERRORS bad)) inserted duplicates),
                         s1\<lparr>eventsDuplicateTotal := eventsDuplicateTotal s + duplicates,
                            ig_cp := fan_out_batch env i insertedIds es ((ig_cp s)\<lparr>cp_db := d1\<rparr>)\<rparr>)))"

text \<open>The route: the body is read and parsed before the idempotency wrapper runs.\<close>

definition with_cp_table :: "idempotency_row list \<Rightarrow> ingest_state \<Rightarrow> ingest_state" where
  "with_cp_table t s = s\<lparr>ig_cp := (ig_cp s)\<lparr>cp_db := (cp_db (ig_cp s))\<lparr>idempotency_keys := t\<rparr>\<rparr>\<rparr>"

definition events_POST ::
  "ingest_env \<Rightarrow> (json \<Rightarrow> json) \<Rightarrow> (jstring \<Rightarrow> int option) \<Rightarrow> (byte list \<Rightarrow> json option) \<Rightarrow> bool \<Rightarrow>
     ingest_input \<Rightarrow> http_request \<Rightarrow> byte list option list \<Rightarrow> ingest_state \<Rightarrow> route_answer \<times> ingest_state" where
  "events_POST env jsonb to_number parse_json persistFails i r chunks s =
     (case readLimitedBody to_number r MAX_BATCH_BYTES chunks of
        Inl resp \<Rightarrow> (Plain resp, s)
      | Inr bytes \<Rightarrow>
          (case parse_json bytes of
             None \<Rightarrow> (Plain (badRequest (js ''body must be JSON'') ''BODY_INVALID''), s)
           | Some body \<Rightarrow>
               (let (answer, t, s1) = withIdempotency jsonb (in_now i) persistFails (hdr r ''idempotency-key'')
                      (js ''events.ingest'') (ingest_exec env i body) (idempotency_keys (cp_db (ig_cp s))) s
                in (Wrapped answer, with_cp_table t s1))))"

section \<open>Lemmas\<close>

lemma unique_events_ids:
  "ev_id ` set (unique_events seen es) = ev_id ` set es - set seen"
  "distinct (map ev_id (unique_events seen es))"
proof -
  have ids: "ev_id ` set (unique_events seen es) = ev_id ` set es - set seen" for seen es
    by (induction es arbitrary: seen) auto
  show "ev_id ` set (unique_events seen es) = ev_id ` set es - set seen" by (rule ids)
  show "distinct (map ev_id (unique_events seen es))"
  proof (induction es arbitrary: seen)
    case (Cons e es)
    have "ev_id e \<notin> ev_id ` set (unique_events (ev_id e # seen) es)"
      unfolding ids by simp
    with Cons show ?case by simp
  qed simp
qed

text \<open>The projections write their own tables only.\<close>

lemma recordIssuedTcts_others:
  "let d' = snd (recordIssuedTcts env now e raws d) in
   audit_events d' = audit_events d \<and> webhook_deliveries d' = webhook_deliveries d \<and> agents d' = agents d"
proof (induction raws arbitrary: d)
  case (Cons raw raws)
  show ?case
  proof (cases "parseTct raw (ev_ts e)")
    case (Inl x)
    then show ?thesis by (cases x) simp
  next
    case (Inr y)
    with Cons show ?thesis by (cases y) (auto simp: Let_def)
  qed
qed simp

lemma onTctEvent_others [simp]:
  "audit_events (onTctEvent env now e d) = audit_events d"
  "webhook_deliveries (onTctEvent env now e d) = webhook_deliveries d"
  "agents (onTctEvent env now e d) = agents d"
proof -
  have "audit_events (snd (recordDelegation env now e d)) = audit_events d \<and>
    webhook_deliveries (snd (recordDelegation env now e d)) = webhook_deliveries d \<and>
    agents (snd (recordDelegation env now e d)) = agents d"
    by (auto simp: recordDelegation_def Let_def split: sum.split option.split range_error.split)
  then show
    "audit_events (onTctEvent env now e d) = audit_events d"
    "webhook_deliveries (onTctEvent env now e d) = webhook_deliveries d"
    "agents (onTctEvent env now e d) = agents d"
    using recordIssuedTcts_others [of env now e "tct_list (ev_payload e)" d]
    by (simp_all add: onTctEvent_def recordRevocation_def recordDelegationRevocation_def Let_def split: option.split)
qed

lemma project_events_frame:
  "audit_events (cp_db (foldl (project_event env i ids) s es)) = audit_events (cp_db s) \<and>
   webhook_deliveries (cp_db (foldl (project_event env i ids) s es)) = webhook_deliveries (cp_db s) \<and>
   cp_stream (foldl (project_event env i ids) s es) =
     foldl (\<lambda>t e. publish e (fe_broken (ie_fan env)) t) (cp_stream s) (filter (\<lambda>e. ev_id e \<in> set ids) es)"
proof (induction es arbitrary: s)
  case (Cons e es)
  then show ?case by (simp add: project_event_def Let_def publish_event_def)
qed simp

text \<open>The rows the fan-out of one event adds to the delivery queue.\<close>

definition queued :: "ingest_env \<Rightarrow> ingest_input \<Rightarrow> webhook list \<Rightarrow> audit_event \<Rightarrow> webhook_delivery list" where
  "queued env i ws e = (if in_dispatch_fails i e then []
     else map (\<lambda>w. delivery_row (fe_delivery (ie_fan env)) (in_now i) (fe_fresh (ie_fan env) e w) w e)
            (dispatchWebhooksWithList e ws))"

lemma dispatch_events_frame:
  "audit_events (foldl (dispatch_event env i ws) d es) = audit_events d \<and>
   webhook_deliveries (foldl (dispatch_event env i ws) d es) = webhook_deliveries d @ concat (map (queued env i ws) es)"
  by (induction es arbitrary: d) (auto simp: dispatch_event_def dispatch_to_deliveries queued_def)

lemma fan_out_batch_frame:
  "let s' = fan_out_batch env i ids es s;
       fresh = filter (\<lambda>e. ev_id e \<in> set ids) es;
       ws = (if in_list_fails i then [] else listActiveWebhooks (webhooks (cp_db s)))
   in audit_events (cp_db s') = audit_events (cp_db s) \<and>
      cp_stream s' = foldl (\<lambda>t e. publish e (fe_broken (ie_fan env)) t) (cp_stream s) fresh \<and>
      webhook_deliveries (cp_db s') = webhook_deliveries (cp_db s) @ concat (map (queued env i ws) fresh)"
  using project_events_frame [of env i ids "if in_touch_fails i then s
      else set_agents (touchLastSeenBatch (in_now i) (seen_aids es) (agents (cp_db s))) s" es]
  by (auto simp: fan_out_batch_def Let_def dispatch_events_frame set_agents_def)

lemma ingestEvents_fresh:
  assumes "distinct (map ev_id es)"
  shows "length (fst (ingestEvents now es d)) = length (filter (\<lambda>e. ev_id e \<notin> ev_id ` set (audit_events d)) es)"
    and "filter (\<lambda>e. ev_id e \<in> set (fst (ingestEvents now es d))) es =
      filter (\<lambda>e. ev_id e \<notin> ev_id ` set (audit_events d)) es"
proof -
  show eq: "filter (\<lambda>e. ev_id e \<in> set (fst (ingestEvents now es d))) es =
      filter (\<lambda>e. ev_id e \<notin> ev_id ` set (audit_events d)) es"
    by (rule filter_cong) (auto simp: ingestEvents_ids)
  have "length (fst (ingestEvents now es d)) = card (ev_id ` set es - ev_id ` set (audit_events d))"
    using distinct_card [OF ingestEvents_ids(2), of now es d] by (simp add: ingestEvents_ids(1))
  also have "ev_id ` set es - ev_id ` set (audit_events d) =
      ev_id ` set (filter (\<lambda>e. ev_id e \<notin> ev_id ` set (audit_events d)) es)" by auto
  also have "card \<dots> = length (filter (\<lambda>e. ev_id e \<notin> ev_id ` set (audit_events d)) es)"
    using distinct_card [of "map ev_id (filter (\<lambda>e. ev_id e \<notin> ev_id ` set (audit_events d)) es)"] assms
    by (simp add: distinct_map_filter)
  finally show "length (fst (ingestEvents now es d)) = length (filter (\<lambda>e. ev_id e \<notin> ev_id ` set (audit_events d)) es)" .
qed

text \<open>What a batch that is not refused does, in one statement.\<close>

definition storable :: "ingest_env \<Rightarrow> ingest_input \<Rightarrow> json \<Rightarrow> audit_event list" where
  "storable env i body = map (with_id env i) (filter (\<lambda>c. ca_problem c = None) (candidates env i (raw_events body)))"

definition fresh_events :: "audit_event list \<Rightarrow> db \<Rightarrow> audit_event list" where
  "fresh_events es d = filter (\<lambda>e. ev_id e \<notin> ev_id ` set (audit_events d)) (unique_events [] es)"

lemma fresh_events_le: "length (fresh_events es d) \<le> length es"
proof -
  have "length (unique_events seen es) \<le> length es" for seen
    by (induction es arbitrary: seen) (auto intro: le_SucI)
  then show ?thesis unfolding fresh_events_def by (rule order_trans [OF length_filter_le])
qed

lemma ingest_exec_success:
  assumes "ingest_exec env i body s = (Some r, s')" and "ir_status r = 200"
  shows "let es = storable env i body; bad = filter (\<lambda>c. ca_problem c \<noteq> None) (candidates env i (raw_events body));
       d = cp_db (ig_cp s); fresh = fresh_events es d;
       ws = (if in_list_fails i then [] else listActiveWebhooks (webhooks d))
    in r = ingest_response (length es) (length bad) (map error_entry (take MAX_REPORTED_ERRORS bad))
         (length fresh) (length es - length fresh) \<and>
       ev_id ` set (audit_events (cp_db (ig_cp s'))) = ev_id ` set (audit_events d) \<union> ev_id ` set es \<and>
       cp_stream (ig_cp s') = foldl (\<lambda>t e. publish e (fe_broken (ie_fan env)) t) (cp_stream (ig_cp s)) fresh \<and>
       webhook_deliveries (cp_db (ig_cp s')) = webhook_deliveries d @ concat (map (queued env i ws) fresh)"
proof -
  let ?es = "storable env i body"
  let ?u = "unique_events [] ?es"
  let ?bad = "filter (\<lambda>c. ca_problem c \<noteq> None) (candidates env i (raw_events body))"
  let ?d = "cp_db (ig_cp s)"
  obtain ids d1 where ing: "ingestEvents (in_now i) ?u ?d = (ids, d1)" by fastforce
  let ?s1 = "(ig_cp s)\<lparr>cp_db := d1\<rparr>"
  have run: "r = ingest_response (length ?es) (length ?bad) (map error_entry (take MAX_REPORTED_ERRORS ?bad))
        (length ids) (length ?es - length ids) \<and> ig_cp s' = fan_out_batch env i ids ?u ?s1"
    using assms ing
    by (auto simp: ingest_exec_def storable_def Let_def too_large_def split: if_splits option.splits)
  have dist: "distinct (map ev_id ?u)" by (rule unique_events_ids)
  have ids: "length ids = length (fresh_events ?es ?d)" "filter (\<lambda>e. ev_id e \<in> set ids) ?u = fresh_events ?es ?d"
    using ingestEvents_fresh [OF dist, of "in_now i" ?d] ing by (simp_all add: fresh_events_def)
  have d1: "webhook_deliveries d1 = webhook_deliveries ?d" "webhooks d1 = webhooks ?d"
    "ev_id ` set (audit_events d1) = ev_id ` set (audit_events ?d) \<union> ev_id ` set ?es"
    using ing ingestEvents_stored [of "in_now i" ?u ?d] unique_events_ids(1) [of "[]" ?es]
    by (auto simp: ingestEvents_eq)
  show ?thesis
    using run fan_out_batch_frame [of env i ids ?u ?s1] by (simp add: Let_def ids d1)
qed

lemma ingest_exec_refused:
  "ingest_exec env i body s = (Some r, s') \<Longrightarrow> ir_status r \<noteq> 200 \<Longrightarrow> s' = s"
  by (auto simp: ingest_exec_def ingest_response_def Let_def split: if_splits option.splits prod.splits)

lemma candidates_count:
  "length (candidates env i raws) = length (filter is_object raws)"
proof -
  have "length (filter (\<lambda>(n, raw). is_object raw) (List.enumerate k raws)) = length (filter is_object raws)" for k
    by (induction raws arbitrary: k) auto
  then show ?thesis by (simp add: candidates_def)
qed

text \<open>Events with a timestamp of their own normalise alike at any time and get the same id.\<close>

definition timestamped :: "ingest_env \<Rightarrow> json \<Rightarrow> bool" where
  "timestamped env raw \<longleftrightarrow> parseEventTimestamp (ie_date_parse env) (get raw ''ts'') \<noteq> None"

lemma candidates_same:
  assumes "\<And>raw. raw \<in> set raws \<Longrightarrow> is_object raw \<Longrightarrow> timestamped env raw"
  shows "candidates env i raws = candidates env i' raws"
proof -
  have "normalize (ie_date_parse env) (in_now i) raw [] = normalize (ie_date_parse env) (in_now i') raw []"
    if "(n, raw) \<in> set (List.enumerate 0 raws)" "is_object raw" for n raw
  proof -
    from that(1) have "raw \<in> set raws" by (auto simp: in_set_enumerate_eq)
    with assms that(2) have "timestamped env raw" by blast
    then show ?thesis by (auto simp: normalize_def normalizeTimestamp_def timestamped_def)
  qed
  then show ?thesis unfolding candidates_def by (intro map_cong) (auto simp: Let_def)
qed

lemma storable_same:
  assumes "\<And>raw. raw \<in> set (raw_events body) \<Longrightarrow> is_object raw \<Longrightarrow> timestamped env raw"
    and "in_producer i = in_producer i'"
  shows "storable env i body = storable env i' body"
proof -
  have ts: "timestamped env (ca_raw c)" if "c \<in> set (candidates env i' (raw_events body))" for c
    using that assms(1) by (auto simp: candidates_def Let_def in_set_enumerate_eq)
  have "with_id env i c = with_id env i' c" if "c \<in> set (candidates env i' (raw_events body))" for c
    using ts [OF that] assms(2) by (auto simp: with_id_def eventIdFor_def timestamped_def)
  moreover have "candidates env i (raw_events body) = candidates env i' (raw_events body)"
    by (rule candidates_same) (rule assms(1))
  ultimately show ?thesis unfolding storable_def by (intro map_cong) auto
qed

section \<open>Properties\<close>

text \<open>
  C25. The explicit-stack walk of a payload, which always ends, reports exactly what the recursive
  reading finds: nesting deeper than 64 levels before anything else, then a NUL in any key or
  string, then a lone surrogate; and a value it passes is safe for recursive code.
\<close>

theorem payload_walk_exact:
  "jsonValueProblem v =
     (if json_depth v > 64 then Some TooDeep
      else if list_ex has_nul (json_texts v) then Some NulChar
      else if list_ex (\<lambda>s. \<not> well_formed s) (json_texts v) then Some LoneSurrogate else None)"
  by (simp add: jsonValueProblem_def jv_loop_reading MAX_PAYLOAD_DEPTH_def list_ex_iff)

text \<open>
  A batch is all accounted for: a refused batch changes nothing, and an accepted one answers
  with counts that add up (storable plus dropped items are the objects sent, inserted plus
  duplicates are the storable ones, at most 20 errors are listed), stores every storable event,
  and publishes and queues exactly the events whose id was not stored before, each once, in the
  order they were sent.
\<close>

theorem batch_accounted:
  assumes "ingest_exec env i body s = (Some r, s')"
  shows "if ir_status r \<noteq> 200 then s' = s
    else let d = cp_db (ig_cp s); es = storable env i body; fresh = fresh_events es d;
      dropped = filter (\<lambda>c. ca_problem c \<noteq> None) (candidates env i (raw_events body));
      ws = (if in_list_fails i then [] else listActiveWebhooks (webhooks d))
    in r = ingest_response (length es) (length dropped) (map error_entry (take 20 dropped))
         (length fresh) (length es - length fresh) \<and>
       length es + length dropped = length (filter is_object (raw_events body)) \<and> length fresh \<le> length es \<and>
       ev_id ` set (audit_events (cp_db (ig_cp s'))) = ev_id ` set (audit_events d) \<union> ev_id ` set es \<and>
       distinct (map ev_id fresh) \<and> ev_id ` set fresh = ev_id ` set es - ev_id ` set (audit_events d) \<and>
       cp_stream (ig_cp s') = foldl (\<lambda>t e. publish e (fe_broken (ie_fan env)) t) (cp_stream (ig_cp s)) fresh \<and>
       webhook_deliveries (cp_db (ig_cp s')) = webhook_deliveries d @ concat (map (queued env i ws) fresh)"
proof (cases "ir_status r = 200")
  case True
  let ?cs = "candidates env i (raw_events body)"
  let ?es = "storable env i body"
  let ?fresh = "fresh_events ?es (cp_db (ig_cp s))"
  have len: "length ?es + length (filter (\<lambda>c. ca_problem c \<noteq> None) ?cs) = length (filter is_object (raw_events body))"
    using sum_length_filter_compl [of "\<lambda>c. ca_problem c = None" ?cs]
      candidates_count [of env i "raw_events body"] by (simp add: storable_def)
  have "ev_id ` set (filter (\<lambda>e. ev_id e \<notin> B) xs) = ev_id ` set xs - B" for B and xs :: "audit_event list"
    by auto
  then have ids: "distinct (map ev_id ?fresh)"
    "ev_id ` set ?fresh = ev_id ` set ?es - ev_id ` set (audit_events (cp_db (ig_cp s)))"
    using unique_events_ids [of "[]" ?es] by (simp_all add: fresh_events_def distinct_map_filter)
  have refused: "\<not> ir_status r \<noteq> 200" using True by simp
  from ingest_exec_success [OF assms True] len ids fresh_events_le [of ?es "cp_db (ig_cp s)"]
  show ?thesis unfolding if_not_P [OF refused] Let_def MAX_REPORTED_ERRORS_def by blast
qed (simp add: ingest_exec_refused [OF assms])

lemma candidates_payload:
  "c \<in> set (candidates env i raws) \<Longrightarrow> \<exists>raw \<in> set raws. ev_payload (ca_event c) = event_payload raw"
proof -
  have p: "ev_payload (normalize dp now raw uid) = event_payload raw" for dp now raw uid
    by (simp add: normalize_def Let_def)
  show "c \<in> set (candidates env i raws) \<Longrightarrow> \<exists>raw \<in> set raws. ev_payload (ca_event c) = event_payload raw"
    by (auto simp: candidates_def Let_def p in_set_enumerate_eq intro: bexI [OF _ nth_mem])
qed

lemma oversized_payload:
  "c \<in> set (candidates env i raws) \<Longrightarrow> oversized env c \<Longrightarrow>
   \<exists>raw \<in> set raws. length (stringify (ie_num_repr env) (event_payload raw)) > MAX_EVENT_PAYLOAD_BYTES"
  by (drule candidates_payload) (auto simp: oversized_def)

lemma ingest_exec_accepts:
  assumes "\<not> events_not_array body" and "length (raw_events body) \<le> MAX_BATCH_EVENTS"
    and small: "\<And>raw. raw \<in> set (raw_events body) \<Longrightarrow>
      length (stringify (ie_num_repr env) (event_payload raw)) \<le> MAX_EVENT_PAYLOAD_BYTES"
    and "\<not> in_insert_fails i"
  shows "\<exists>r s'. ingest_exec env i body s = (Some r, s') \<and> ir_status r = 200"
proof -
  have "find (oversized env) (candidates env i (raw_events body)) = None"
    using oversized_payload small by (fastforce simp: find_None_iff not_le [symmetric])
  with assms show ?thesis
    by (cases "ingestEvents (in_now i) (unique_events [] (storable env i body)) (cp_db (ig_cp s))")
      (simp add: ingest_exec_def Let_def storable_def ingest_response_def)
qed

definition demo_ingest_env :: ingest_env where
  "demo_ingest_env = \<lparr>ie_fan = demo_fan_env, ie_tct = demo_tct_env, ie_decode = \<lambda>_. None,
     ie_num_repr = \<lambda>_. js ''0'', ie_date_parse = \<lambda>_. None, ie_sha256 = \<lambda>_. replicate 32 1\<rparr>"

definition demo_ingest_input :: "instant \<Rightarrow> ingest_input" where
  "demo_ingest_input now = \<lparr>in_now = now, in_producer = None, in_random = \<lambda>n. js ''r'' @ decimal n,
     in_insert_fails = False, in_list_fails = False, in_touch_fails = False, in_session_down = \<lambda>_. False,
     in_dispatch_fails = \<lambda>_. False\<rparr>"

definition demo_ingest_state :: ingest_state where
  "demo_ingest_state = \<lparr>ig_cp = \<lparr>cp_db = empty_db,
     cp_stream = \<lparr>backlog = [], maxBacklog = 9, bus_dropped = 0,
       metrics = \<lparr>sse_open = 0, openedTotal = 0, rejectedTotal = 0\<rparr>, connections = [], next_id = 0\<rparr>\<rparr>,
     eventsDroppedTotal = 0, eventsDuplicateTotal = 0\<rparr>"

definition demo_batch :: json where
  "demo_batch = JArr [demo_raw False, JNull, demo_raw True]"

lemma demo_batch_accepted:
  "\<exists>r s'. ingest_exec demo_ingest_env (demo_ingest_input now) demo_batch s = (Some r, s') \<and> ir_status r = 200"
proof (rule ingest_exec_accepts)
  have "\<forall>raw \<in> set (raw_events demo_batch). length (stringify (\<lambda>_. js ''0'') (event_payload raw)) \<le> 40"
    by code_simp
  then show "raw \<in> set (raw_events demo_batch) \<Longrightarrow>
    length (stringify (ie_num_repr demo_ingest_env) (event_payload raw)) \<le> MAX_EVENT_PAYLOAD_BYTES" for raw
    by (force simp: demo_ingest_env_def MAX_EVENT_PAYLOAD_BYTES_def)
qed (simp_all add: demo_batch_def demo_ingest_input_def raw_events_def events_not_array_def MAX_BATCH_EVENTS_def)

theorem batch_accounted_witness:
  "\<exists>r s'. ingest_exec demo_ingest_env (demo_ingest_input 5) demo_batch demo_ingest_state = (Some r, s') \<and>
     length (storable demo_ingest_env (demo_ingest_input 5) demo_batch) +
       length (filter (\<lambda>c. ca_problem c \<noteq> None) (candidates demo_ingest_env (demo_ingest_input 5) (raw_events demo_batch))) = 2"
proof -
  obtain r s' where run: "ingest_exec demo_ingest_env (demo_ingest_input 5) demo_batch demo_ingest_state = (Some r, s')"
    and ok: "\<not> ir_status r \<noteq> 200" using demo_batch_accepted by blast
  have "length (filter is_object (raw_events demo_batch)) = 2"
    by (simp add: demo_batch_def raw_events_def demo_raw_def jobj_def Let_def)
  with batch_accounted [OF run, unfolded if_not_P [OF ok] Let_def] run show ?thesis by auto
qed


lemma demo_batch_timestamped:
  "\<forall>raw \<in> set (raw_events demo_batch). is_object raw \<longrightarrow> timestamped demo_ingest_env raw"
  by (simp add: demo_batch_def raw_events_def timestamped_def demo_ingest_env_def demo_raw_def
      parseEventTimestamp_def time_clip_def inStorableRange_def Let_def)


end
