(* ===== verification/Retention.thy ===== *)
theory Retention
  imports Registry_Store
begin

text \<open>
  The retention sweep, \<open>src/src/lib/retention.ts\<close>: one transaction that deletes old rows table by
  table. \<open>got\<close> says whether the advisory lock was free. A statement without \<open>ORDER BY\<close> takes any
  rows up to its limit; the model takes them in table order. Postgres refuses a negative limit,
  which rolls the whole sweep back (\<open>None\<close>).
\<close>

section \<open>Purges\<close>

definition daysAgo :: "instant \<Rightarrow> int \<Rightarrow> instant" where
  "daysAgo now days = now - days * 24 * 60 * 60 * 1000"

text \<open>\<open>DELETE ... WHERE key IN (SELECT key ... WHERE p LIMIT n)\<close>: the row count and the rest.\<close>

definition delete_some :: "('r \<Rightarrow> 'k) \<Rightarrow> ('r \<Rightarrow> bool) \<Rightarrow> nat \<Rightarrow> 'r list \<Rightarrow> nat \<times> 'r list" where
  "delete_some key p n t =
     (let keys = map key (take n (filter p t))
      in (length (filter (\<lambda>r. key r \<in> set keys) t), filter (\<lambda>r. key r \<notin> set keys) t))"

definition purgeAuditEvents :: "app_config \<Rightarrow> instant \<Rightarrow> nat \<Rightarrow> audit_event_row list \<Rightarrow> nat \<times> audit_event_row list" where
  "purgeAuditEvents cfg now limit t =
     (if auditEventsTtlDays cfg \<le> 0 then (0, t)
      else delete_some ev_id (\<lambda>r. ev_ts r < daysAgo now (auditEventsTtlDays cfg)) limit t)"

definition purgeWebhookDeliveries ::
  "app_config \<Rightarrow> instant \<Rightarrow> nat \<Rightarrow> webhook_delivery list \<Rightarrow> nat \<times> webhook_delivery list" where
  "purgeWebhookDeliveries cfg now limit t =
     (if webhookDeliveryTtlDays cfg \<le> 0 then (0, t)
      else delete_some wd_id (\<lambda>r. wd_status r \<in> {Delivered, DeliveryFailed} \<and>
             wd_createdAt r < daysAgo now (webhookDeliveryTtlDays cfg)) limit t)"

definition purgeAdminAudit :: "app_config \<Rightarrow> instant \<Rightarrow> nat \<Rightarrow> admin_audit_row list \<Rightarrow> nat \<times> admin_audit_row list" where
  "purgeAdminAudit cfg now limit t =
     (if adminAuditTtlDays cfg \<le> 0 then (0, t)
      else delete_some aa_id (\<lambda>r. aa_createdAt r < daysAgo now (adminAuditTtlDays cfg)) limit t)"

definition purgeIdempotencyKeys ::
  "app_config \<Rightarrow> instant \<Rightarrow> nat \<Rightarrow> idempotency_row list \<Rightarrow> nat \<times> idempotency_row list" where
  "purgeIdempotencyKeys cfg now limit t =
     (if idempotencyKeyTtlDays cfg \<le> 0 then (0, t)
      else delete_some idem_key (\<lambda>r. ik_createdAt r < daysAgo now (idempotencyKeyTtlDays cfg)) limit t)"

definition purgeEnrollmentJtis :: "instant \<Rightarrow> nat \<Rightarrow> enrollment_jti list \<Rightarrow> nat \<times> enrollment_jti list" where
  "purgeEnrollmentJtis now limit t = delete_some ej_jti (\<lambda>r. ej_expiresAt r < now) limit t"

definition deregistered_before :: "instant \<Rightarrow> agent \<Rightarrow> bool" where
  "deregistered_before cutoff a \<longleftrightarrow> ag_status a = Deregistered \<and>
     (case ag_lastSeenAt a of Some t \<Rightarrow> t < cutoff | None \<Rightarrow> ag_registeredAt a < cutoff)"

definition purgeDeregisteredAgents :: "app_config \<Rightarrow> instant \<Rightarrow> agent list \<Rightarrow> nat \<times> agent list" where
  "purgeDeregisteredAgents cfg now t =
     (if expiredAgentGraceDays cfg \<le> 0 then (0, t)
      else let p = deregistered_before (daysAgo now (expiredAgentGraceDays cfg))
           in (length (filter p t), filter (\<lambda>a. \<not> p a) t))"

section \<open>The sweep\<close>

datatype sweep_status = Completed | Skipped | Disabled

record sweep_result =
  sw_status :: sweep_status
  auditEventsDeleted :: nat
  webhookDeliveriesDeleted :: nat
  adminAuditDeleted :: nat
  agentsDeleted :: nat
  idempotencyKeysDeleted :: nat
  enrollmentJtisDeleted :: nat

definition no_work :: "sweep_status \<Rightarrow> sweep_result" where
  "no_work st = \<lparr>sw_status = st, auditEventsDeleted = 0, webhookDeliveriesDeleted = 0, adminAuditDeleted = 0,
     agentsDeleted = 0, idempotencyKeysDeleted = 0, enrollmentJtisDeleted = 0\<rparr>"

definition runRetentionSweep :: "app_config \<Rightarrow> instant \<Rightarrow> bool \<Rightarrow> db \<Rightarrow> sweep_result option \<times> db" where
  "runRetentionSweep cfg now got d =
     (if \<not> retentionEnabled cfg then (Some (no_work Disabled), d)
      else if \<not> got then (Some (no_work Skipped), d)
      else if retentionBatchLimit cfg < 0 then (None, d)
      else
        let limit = nat (retentionBatchLimit cfg);
            (e, events) = purgeAuditEvents cfg now limit (audit_events d);
            (w, deliveries) = purgeWebhookDeliveries cfg now limit (webhook_deliveries d);
            (a, auditRows) = purgeAdminAudit cfg now limit (admin_audit_log d);
            (g, agentRows) = purgeDeregisteredAgents cfg now (agents d);
            (k, idemRows) = purgeIdempotencyKeys cfg now limit (idempotency_keys d);
            (j, jtiRows) = purgeEnrollmentJtis now limit (enrollment_jtis d)
        in (Some \<lparr>sw_status = Completed, auditEventsDeleted = e, webhookDeliveriesDeleted = w,
                  adminAuditDeleted = a, agentsDeleted = g, idempotencyKeysDeleted = k, enrollmentJtisDeleted = j\<rparr>,
            d\<lparr>audit_events := events, webhook_deliveries := deliveries, admin_audit_log := auditRows,
              agents := agentRows, idempotency_keys := idemRows, enrollment_jtis := jtiRows\<rparr>))"

section \<open>Lemmas\<close>

text \<open>A purge drops a bounded number of rows, each with a key of a row that is due, and keeps the rest.\<close>

definition purged :: "('r \<Rightarrow> 'k) \<Rightarrow> ('r \<Rightarrow> bool) \<Rightarrow> nat \<Rightarrow> 'r list \<Rightarrow> 'r list \<Rightarrow> bool" where
  "purged key due n t t' \<longleftrightarrow> n = length t - length t' \<and> set t' \<subseteq> set t \<and>
     (\<forall>r \<in> set t - set t'. \<exists>x \<in> set t. key x = key r \<and> due x)"

lemma filter_split_length: "length (filter p t) = length t - length (filter (\<lambda>r. \<not> p r) t)"
  using sum_length_filter_compl [of p t] by simp

lemma delete_some_purged: "purged key p (fst (delete_some key p n t)) t (snd (delete_some key p n t))"
proof -
  let ?keys = "map key (take n (filter p t))"
  have count: "length (filter (\<lambda>r. key r \<in> set ?keys) t) = length t - length (filter (\<lambda>r. key r \<notin> set ?keys) t)"
    by (rule filter_split_length)
  have due: "\<exists>x \<in> set t. key x = key r \<and> p x"
    if "r \<in> set t - set (filter (\<lambda>r. key r \<notin> set ?keys) t)" for r
  proof -
    from that have "key r \<in> key ` set (take n (filter p t))" by simp
    then obtain x where x: "x \<in> set (take n (filter p t))" "key r = key x" by (rule imageE)
    from in_set_takeD [OF x(1)] x(2) show ?thesis by auto
  qed
  show ?thesis unfolding purged_def delete_some_def Let_def fst_conv snd_conv
    by (intro conjI ballI count due filter_is_subset)
qed

lemma purged_refl [simp]: "purged key p 0 t t"
  by (simp add: purged_def)

lemma purged_filter: "purged key p (length (filter p t)) t (filter (\<lambda>r. \<not> p r) t)"
  using filter_split_length [of p t] by (auto simp: purged_def)

lemma purged_unique:
  assumes "purged key p n t t'" and "unique_key key t" and "r \<in> set t" and "\<not> p r"
  shows "r \<in> set t'"
proof (rule ccontr)
  assume "r \<notin> set t'"
  with assms(1,3) obtain x where "x \<in> set t" "key x = key r" "p x" by (auto simp: purged_def)
  with find_row_unique [OF assms(2) assms(3)] find_row_unique [OF assms(2), of x] assms(4) show False by simp
qed

section \<open>Properties\<close>


definition demo_retention_db :: db where
  "demo_retention_db = empty_db\<lparr>enrollment_jtis := [\<lparr>ej_jti = js ''a'', ej_expiresAt = 5, ej_createdAt = 1\<rparr>,
     \<lparr>ej_jti = js ''b'', ej_expiresAt = 500, ej_createdAt = 1\<rparr>]\<rparr>"

definition demo_retention_config :: app_config where
  "demo_retention_config = demo_config\<lparr>retentionEnabled := True, retentionBatchLimit := 9\<rparr>"


end
