(* ===== verification/Enrollment.thy ===== *)
theory Enrollment
  imports Event_Ingest
begin

text \<open>
  Enrollment and registration of agents: the secret rules of
  \<open>src/src/lib/registry/enrollment-config.ts\<close>, the manifest checks of \<open>manifest-columns.ts\<close>, the
  enrollment tokens of \<open>enrollment.ts\<close>, the error classes of \<open>verify-error.ts\<close> with the counters of
  \<open>enroll-metrics.ts\<close>, and the handlers of \<open>POST /api/registry/enroll\<close> and
  \<open>POST /api/registry/agents\<close>. The aitp SDK's manifest verifier, \<open>JSON.parse\<close>, base64url, HMAC and
  SHA-256 are fields of \<open>enroll_env\<close>.
\<close>

section \<open>Configuration\<close>

definition ENROLLMENT_SECRET_MIN_LENGTH :: nat where "ENROLLMENT_SECRET_MIN_LENGTH = 32"

datatype secret_problem = SecretMissing | SecretTooShort nat

definition enrollmentSecretProblem :: "jstring \<Rightarrow> secret_problem option" where
  "enrollmentSecretProblem raw =
     (if raw = [] then Some SecretMissing
      else if length raw < ENROLLMENT_SECRET_MIN_LENGTH then Some (SecretTooShort (length raw)) else None)"

text \<open>The verdict of \<open>enrollmentSecretBootFailure\<close>: \<open>Some fatal\<close>, its text left out.\<close>

definition enrollmentSecretBootFailure :: "app_config \<Rightarrow> bool option" where
  "enrollmentSecretBootFailure cfg =
     (case enrollmentSecretProblem (enrollmentSecret cfg) of None \<Rightarrow> None | Some p \<Rightarrow> Some (isProduction cfg))"

definition insecureLocalhostDangerous :: "environment \<Rightarrow> bool" where
  "insecureLocalhostDangerous env \<longleftrightarrow>
     env ''AITP_INSECURE_LOCALHOST_DANGEROUS'' = Some (js ''true'') \<and>
     readNodeEnv env \<in> set RECOGNISED_DEVELOPMENT_NODE_ENVS"

section \<open>Manifest columns\<close>

definition AID_MAX :: nat where "AID_MAX = 512"
definition DISPLAY_NAME_MAX :: nat where "DISPLAY_NAME_MAX = 256"
definition NAMESPACE_MAX :: nat where "NAMESPACE_MAX = 128"
definition EXPIRES_AT_MIN_SECS :: rat where "EXPIRES_AT_MIN_SECS = -62135596800"
definition EXPIRES_AT_MAX_SECS :: rat where "EXPIRES_AT_MAX_SECS = 253402300799"

text \<open>The checks in order; a check that passes hands over to the next one.\<close>

definition string_column :: "json option \<Rightarrow> string \<Rightarrow> string \<Rightarrow> nat \<Rightarrow> jstring option" where
  "string_column v type_error field mx =
     (case as_string v of None \<Rightarrow> Some (js type_error)
      | Some s \<Rightarrow> map_option (column_message (js field)) (checkColumnString s mx None))"

definition display_name_field :: "json \<Rightarrow> string" where
  "display_name_field m = (if nullish (get m ''display_name'')
     then ''manifest.aid (used as the display name when manifest.display_name is absent)''
     else ''manifest.display_name'')"

definition endpoint_problem :: "json option \<Rightarrow> jstring option" where
  "endpoint_problem v = (case as_string v of
     None \<Rightarrow> Some (js ''manifest.handshake_endpoint must be a string'')
   | Some s \<Rightarrow> if has_nul s then Some (js ''manifest.handshake_endpoint must not contain a NUL character'') else None)"

definition capability_problem :: "json \<Rightarrow> jstring option" where
  "capability_problem v = (case v of
     JStr s \<Rightarrow>
       (if has_nul s then Some (js ''manifest.offered_capabilities entries must not contain a NUL character'')
        else if \<not> well_formed s then Some (js ''manifest.offered_capabilities entries must be well-formed Unicode'')
        else None)
   | _ \<Rightarrow> Some (js ''manifest.offered_capabilities must be an array of strings''))"

definition capabilities_problem :: "json option \<Rightarrow> jstring option" where
  "capabilities_problem v = (case coalesce v (Some (JArr [])) of
     Some (JArr caps) \<Rightarrow> first_some capability_problem caps
   | _ \<Rightarrow> Some (js ''manifest.offered_capabilities must be an array of strings''))"

definition expires_at_problem :: "json option \<Rightarrow> jstring option" where
  "expires_at_problem v =
     (if nullish v \<or> v = Some (JNum (JFin 0)) then None
      else case v of
             Some (JNum (JFin q)) \<Rightarrow>
               (if q < EXPIRES_AT_MIN_SECS \<or> q > EXPIRES_AT_MAX_SECS
                then Some (js ''manifest.expires_at must be a Unix timestamp in seconds between year 0001 and 9999'')
                else None)
           | _ \<Rightarrow> Some (js ''manifest.expires_at must be a Unix timestamp in seconds between year 0001 and 9999''))"

definition checkManifestColumns :: "json \<Rightarrow> jstring option" where
  "checkManifestColumns m =
     (if \<not> is_plain_object m then Some (js ''manifest must be an object'')
      else orelse (string_column (get m ''aid'') ''manifest.aid must be a string'' ''manifest.aid'' AID_MAX)
          (orelse (string_column (coalesce (get m ''display_name'') (get m ''aid''))
                     ''manifest.display_name must be a string when present'' (display_name_field m) DISPLAY_NAME_MAX)
             (orelse (endpoint_problem (get m ''handshake_endpoint''))
                (orelse (capabilities_problem (get m ''offered_capabilities''))
                        (expires_at_problem (get m ''expires_at''))))))"

section \<open>Tokens\<close>

definition REGISTRATION_EXPIRY_GUARD_MS :: int where "REGISTRATION_EXPIRY_GUARD_MS = 5 * 60 * 1000"
definition TOKEN_LIFETIME_SECS :: int where "TOKEN_LIFETIME_SECS = 300"

text \<open>What the SDK's verifier throws: the value of its \<open>code\<close> property and its message.\<close>

record sdk_error =
  se_code :: "json option"
  se_message :: jstring

record enroll_env =
  ee_config :: app_config
  ee_insecure :: bool                                     \<comment> \<open>\<open>insecureLocalhostDangerous\<close> of the process\<close>
  ee_verify :: "jstring \<Rightarrow> bool \<Rightarrow> sdk_error option"      \<comment> \<open>\<open>verifyManifestJson\<close>, \<open>None\<close> when it accepts\<close>
  ee_parse :: "jstring \<Rightarrow> json option"                    \<comment> \<open>\<open>JSON.parse\<close>\<close>
  ee_num_repr :: "rat \<Rightarrow> jstring"
  ee_b64url :: "jstring \<Rightarrow> jstring"                       \<comment> \<open>UTF-8, then base64url\<close>
  ee_unb64url :: "jstring \<Rightarrow> json option"                 \<comment> \<open>base64url, UTF-8, then \<open>JSON.parse\<close>\<close>
  ee_hmac :: "jstring \<Rightarrow> jstring \<Rightarrow> jstring"              \<comment> \<open>HMAC-SHA256 in base64url\<close>
  ee_digest :: "jstring \<Rightarrow> jstring"                       \<comment> \<open>SHA-256 in hex\<close>

definition manifestDigest :: "enroll_env \<Rightarrow> jstring \<Rightarrow> jstring" where
  "manifestDigest env body = ee_digest env body"

definition enrollment_payload :: "jstring \<Rightarrow> int \<Rightarrow> jstring \<Rightarrow> jstring \<Rightarrow> json" where
  "enrollment_payload aid now_secs jti msh = jobj
     [(''sub'', JStr aid), (''scope'', jlit ''register''), (''iat'', jint now_secs),
      (''exp'', jint (now_secs + TOKEN_LIFETIME_SECS)), (''jti'', JStr jti), (''msh'', JStr msh)]"

definition sign :: "enroll_env \<Rightarrow> json \<Rightarrow> jstring" where
  "sign env payload =
     (let data = ee_b64url env (stringify (ee_num_repr env) payload)
      in data @ js ''.'' @ ee_hmac env (enrollmentSecret (ee_config env)) data)"

datatype token_error = Malformed | BadSignature | NotJson | WrongScope | TokenExpired
  | WrongSubject | NoJti | NotBound | OtherManifest

definition verify :: "enroll_env \<Rightarrow> jstring \<Rightarrow> token_error + json" where
  "verify env token =
     (case split_on (cu (CHR ''.'')) token of
        [data, sig] \<Rightarrow>
          (if \<not> b64url_segment data \<or> \<not> b64url_segment sig then Inl Malformed
           else if sig \<noteq> ee_hmac env (enrollmentSecret (ee_config env)) data then Inl BadSignature
           else case ee_unb64url env data of None \<Rightarrow> Inl NotJson | Some p \<Rightarrow> Inr p)
      | _ \<Rightarrow> Inl Malformed)"

text \<open>\<open>n > v\<close>; \<open>sign\<close> only ever writes a number here, anything else compares as false.\<close>

definition exceeds :: "int \<Rightarrow> json option \<Rightarrow> bool" where
  "exceeds n v = (case v of Some (JNum (JFin q)) \<Rightarrow> rat_of_int n > q | Some (JNum (JInf negative)) \<Rightarrow> negative | _ \<Rightarrow> False)"

definition validateToken :: "enroll_env \<Rightarrow> instant \<Rightarrow> jstring \<Rightarrow> json option \<Rightarrow> jstring \<Rightarrow> token_error + json" where
  "validateToken env now token expectedAid body =
     (case verify env token of
        Inl e \<Rightarrow> Inl e
      | Inr p \<Rightarrow>
          (if get p ''scope'' \<noteq> Some (jlit ''register'') then Inl WrongScope
           else if exceeds (now div 1000) (get p ''exp'') then Inl TokenExpired
           else if get p ''sub'' \<noteq> expectedAid then Inl WrongSubject
           else if nonempty_string (get p ''jti'') = None then Inl NoJti
           else if nonempty_string (get p ''msh'') = None then Inl NotBound
           else if get p ''msh'' \<noteq> Some (JStr (manifestDigest env body)) then Inl OtherManifest
           else Inr p))"

record enrollment_result =
  er_token :: jstring
  er_expiresIn :: int
  er_aid :: jstring

datatype issue_error =
    SdkRejected sdk_error
  | ManifestRejected jstring string    \<comment> \<open>\<open>ManifestRejectedError\<close>: message and \<open>cpCode\<close>\<close>
  | InternalFault

definition expires_soon :: "instant \<Rightarrow> json option \<Rightarrow> bool" where
  "expires_soon now v = (case v of
     Some (JNum (JFin q)) \<Rightarrow> q * 1000 < rat_of_int (now + REGISTRATION_EXPIRY_GUARD_MS)
   | Some (JNum (JInf negative)) \<Rightarrow> negative | _ \<Rightarrow> False)"

definition manifest_expired_message :: jstring where
  "manifest_expired_message = js ''manifest expires_at is in the past or within 5 minutes '' @ [0x2014] @
     js '' re-issue with a longer TTL''"

definition verifyAndIssueToken :: "enroll_env \<Rightarrow> instant \<Rightarrow> jstring \<Rightarrow> jstring \<Rightarrow> issue_error + enrollment_result" where
  "verifyAndIssueToken env now uid body =
     (case ee_verify env body (ee_insecure env) of
        Some e \<Rightarrow> Inl (SdkRejected e)
      | None \<Rightarrow>
          (case ee_parse env body of
             None \<Rightarrow> Inl InternalFault
           | Some envelope \<Rightarrow>
               (case get envelope ''manifest'' of
                  None \<Rightarrow> Inl InternalFault
                | Some m \<Rightarrow>
                    if m = JNull then Inl InternalFault
                    else case as_string (get m ''aid'') of
                      None \<Rightarrow> Inl (ManifestRejected (js ''manifest.aid missing or not an AID string'') ''MANIFEST_INVALID'')
                    | Some aid \<Rightarrow>
                        (if \<not> starts_with aid (js ''aid:'') then
                           Inl (ManifestRejected (js ''manifest.aid missing or not an AID string'') ''MANIFEST_INVALID'')
                         else if expires_soon now (get m ''expires_at'') then
                           Inl (ManifestRejected manifest_expired_message ''MANIFEST_EXPIRED'')
                         else case checkManifestColumns m of
                           Some problem \<Rightarrow> Inl (ManifestRejected problem ''MANIFEST_INVALID'')
                         | None \<Rightarrow> Inr \<lparr>er_token = sign env (enrollment_payload aid (now div 1000) uid (manifestDigest env body)),
                                        er_expiresIn = TOKEN_LIFETIME_SECS, er_aid = aid\<rparr>))))"

text \<open>A value in a template literal.\<close>

fun to_string :: "(rat \<Rightarrow> jstring) \<Rightarrow> json \<Rightarrow> jstring" where
  "to_string num_repr JNull = js ''null''"
| "to_string num_repr (JBool b) = (if b then js ''true'' else js ''false'')"
| "to_string num_repr (JNum n) = (case n of
      JFin q \<Rightarrow> num_repr q | JInf negative \<Rightarrow> js (if negative then ''-Infinity'' else ''Infinity''))"
| "to_string num_repr (JStr s) = s"
| "to_string num_repr (JArr vs) = commas (map (\<lambda>v. if v = JNull then [] else to_string num_repr v) vs)"
| "to_string num_repr (JObj ps) = js ''[object Object]''"

definition interpolate :: "(rat \<Rightarrow> jstring) \<Rightarrow> json option \<Rightarrow> jstring" where
  "interpolate num_repr v = (case v of None \<Rightarrow> js ''undefined'' | Some w \<Rightarrow> to_string num_repr w)"

text \<open>The message of each token error, with the subjects a mismatch names.\<close>

definition token_message :: "(rat \<Rightarrow> jstring) \<Rightarrow> json option \<Rightarrow> json option \<Rightarrow> token_error \<Rightarrow> jstring" where
  "token_message num_repr sub expectedAid e = (case e of
     Malformed \<Rightarrow> js ''malformed enrollment token''
   | BadSignature \<Rightarrow> js ''token signature invalid''
   | NotJson \<Rightarrow> js ''token payload is not valid JSON''
   | WrongScope \<Rightarrow> js ''token scope must be register''
   | TokenExpired \<Rightarrow> js ''enrollment token expired''
   | WrongSubject \<Rightarrow> js ''token sub '' @ interpolate num_repr sub @
       js '' does not match manifest aid '' @ interpolate num_repr expectedAid
   | NoJti \<Rightarrow> js ''enrollment token missing jti''
   | NotBound \<Rightarrow> js ''enrollment token is not bound to a manifest '' @ [0x2014] @ js '' re-enroll to get a new token''
   | OtherManifest \<Rightarrow> js ''enrollment token was issued for a different manifest than the one submitted'')"

section \<open>\<open>POST /api/registry/enroll\<close>\<close>

definition MAX_VERIFY_CODE_LENGTH :: nat where "MAX_VERIFY_CODE_LENGTH = 64"

text \<open>\<open>sdkVerifyCode\<close> of an error the SDK threw; of any other error it is \<open>undefined\<close>.\<close>

definition sdkVerifyCode :: "sdk_error \<Rightarrow> jstring option" where
  "sdkVerifyCode e = (case as_string (se_code e) of
     None \<Rightarrow> None
   | Some raw \<Rightarrow> if trim raw = [] \<or> length raw > MAX_VERIFY_CODE_LENGTH then None else Some raw)"

definition KNOWN_VERIFY_CODES :: "jstring list" where
  "KNOWN_VERIFY_CODES = [js ''signature_invalid'', js ''pop_failed'', js ''aid_mismatch'', js ''expired'',
     js ''version_unknown'', js ''identity_hint_malformed'', js ''incompatible_identity_type'',
     js ''unknown_field'', js ''malformed'']"

definition failure_label :: "jstring option \<Rightarrow> jstring" where
  "failure_label verifyCode = (case verifyCode of
     None \<Rightarrow> js ''none''
   | Some c \<Rightarrow> if c \<in> set KNOWN_VERIFY_CODES then c else js ''other'')"

definition recordEnrollFailure :: "jstring option \<Rightarrow> (jstring \<Rightarrow> nat) \<Rightarrow> jstring \<Rightarrow> nat" where
  "recordEnrollFailure verifyCode totals =
     totals(failure_label verifyCode := totals (failure_label verifyCode) + 1)"

definition REJECTION_CODES :: "string list" where
  "REJECTION_CODES = [''MANIFEST_INVALID'', ''MANIFEST_EXPIRED'']"

definition enroll_precheck :: "json option \<Rightarrow> http_response option" where
  "enroll_precheck parsed = (case parsed of
     None \<Rightarrow> Some (badRequest (js ''body must be valid JSON'') ''BODY_INVALID'')
   | Some JNull \<Rightarrow> Some (badRequest (js ''body must be valid JSON'') ''BODY_INVALID'')
   | Some v \<Rightarrow>
       (case get v ''manifest'' of
          Some m \<Rightarrow> if is_object m then None else Some (badRequest
            (js (''body must be a ManifestEnvelope: {'' @ [CHR 0x22] @ ''manifest'' @ [CHR 0x22] @ '': {...}}'')) ''MANIFEST_INVALID'')
        | None \<Rightarrow> Some (badRequest
            (js (''body must be a ManifestEnvelope: {'' @ [CHR 0x22] @ ''manifest'' @ [CHR 0x22] @ '': {...}}'')) ''MANIFEST_INVALID'')))"

text \<open>\<open>None\<close> is a throw, which the framework answers with a 500.\<close>

definition enroll_POST ::
  "enroll_env \<Rightarrow> (jstring \<Rightarrow> int option) \<Rightarrow> (byte list \<Rightarrow> jstring) \<Rightarrow> instant \<Rightarrow> jstring \<Rightarrow> http_request \<Rightarrow>
     byte list option list \<Rightarrow> (jstring \<Rightarrow> nat) \<Rightarrow> http_response option \<times> (jstring \<Rightarrow> nat)" where
  "enroll_POST env to_number decode_text now uid r chunks totals =
     (case readLimitedBody to_number r MANIFEST_BODY_MAX_BYTES chunks of
        Inl resp \<Rightarrow> (Some resp, totals)
      | Inr bytes \<Rightarrow>
          let body = decode_text bytes
          in case enroll_precheck (ee_parse env body) of
               Some resp \<Rightarrow> (Some resp, totals)
             | None \<Rightarrow>
                 (if enrollmentSecretProblem (enrollmentSecret (ee_config env)) \<noteq> None then
                    (Some (json_response 503 (error_body ''enrollment is temporarily unavailable on this server''
                       ''SERVER_MISCONFIGURED'')), totals)
                  else case verifyAndIssueToken env now uid body of
                    Inr res \<Rightarrow> (Some (json_response 200 (jobj [(''token'', JStr (er_token res)),
                        (''expiresIn'', jint (er_expiresIn res)), (''aid'', JStr (er_aid res))])), totals)
                  | Inl (ManifestRejected msg cpCode) \<Rightarrow>
                      (Some (badRequest msg (if cpCode \<in> set REJECTION_CODES then cpCode else ''MANIFEST_INVALID'')),
                       recordEnrollFailure None totals)
                  | Inl (SdkRejected e) \<Rightarrow>
                      (case sdkVerifyCode e of
                         None \<Rightarrow> (None, totals)
                       | Some verifyCode \<Rightarrow>
                           (Some (json_response 400 (jobj [(''error'', JStr (se_message e)),
                              (''code'', if verifyCode = js ''expired'' then jlit ''MANIFEST_EXPIRED'' else jlit ''MANIFEST_INVALID''),
                              (''verifyCode'', JStr verifyCode)])),
                            recordEnrollFailure (Some verifyCode) totals))
                  | Inl InternalFault \<Rightarrow> (None, totals)))"

section \<open>Lemmas\<close>

lemma b64url_no_dot: "b64url_segment s \<Longrightarrow> cu (CHR ''.'') \<notin> set s"
proof -
  have "\<not> b64url_char (cu (CHR ''.''))" by code_simp
  then show "b64url_segment s \<Longrightarrow> cu (CHR ''.'') \<notin> set s" by (auto simp: b64url_segment_def list_all_iff)
qed

lemma split_on_two: "c \<notin> set a \<Longrightarrow> c \<notin> set b \<Longrightarrow> split_on c (a @ c # b) = [a, b]"
  by (simp add: split_on_append split_on_plain)

lemma split_on_join: "split_on c s = [a, b] \<Longrightarrow> s = a @ c # b"
proof -
  have ne: "split_on c s \<noteq> []" for s by (induction s) (auto split: list.splits)
  have one: "split_on c s = [a] \<Longrightarrow> s = a" for s a
    by (induction s arbitrary: a) (auto simp: ne split: if_splits list.splits)
  show "split_on c s = [a, b] \<Longrightarrow> s = a @ c # b"
    by (induction s arbitrary: a) (auto simp: ne one split: if_splits list.splits)
qed

lemma verify_Inr:
  "verify env token = Inr p \<longleftrightarrow>
   (\<exists>data. token = data @ js ''.'' @ ee_hmac env (enrollmentSecret (ee_config env)) data \<and>
      b64url_segment data \<and> b64url_segment (ee_hmac env (enrollmentSecret (ee_config env)) data) \<and>
      ee_unb64url env data = Some p)"
proof
  assume "verify env token = Inr p"
  then show "\<exists>data. token = data @ js ''.'' @ ee_hmac env (enrollmentSecret (ee_config env)) data \<and>
      b64url_segment data \<and> b64url_segment (ee_hmac env (enrollmentSecret (ee_config env)) data) \<and>
      ee_unb64url env data = Some p"
    by (auto simp: verify_def js_def dest!: split_on_join split: list.splits if_splits option.splits)
next
  assume "\<exists>data. token = data @ js ''.'' @ ee_hmac env (enrollmentSecret (ee_config env)) data \<and>
      b64url_segment data \<and> b64url_segment (ee_hmac env (enrollmentSecret (ee_config env)) data) \<and>
      ee_unb64url env data = Some p"
  then show "verify env token = Inr p"
    by (auto simp: verify_def js_def split_on_two b64url_no_dot)
qed

lemma validateToken_Inr:
  "validateToken env now token aid body = Inr p \<longleftrightarrow> verify env token = Inr p \<and>
     get p ''scope'' = Some (jlit ''register'') \<and> \<not> exceeds (now div 1000) (get p ''exp'') \<and> get p ''sub'' = aid \<and>
     nonempty_string (get p ''jti'') \<noteq> None \<and> nonempty_string (get p ''msh'') \<noteq> None \<and>
     get p ''msh'' = Some (JStr (manifestDigest env body))"
  by (auto simp: validateToken_def split: sum.splits)

lemma issued_token:
  "verifyAndIssueToken env now uid body = Inr res \<Longrightarrow>
   er_token res = sign env (enrollment_payload (er_aid res) (now div 1000) uid (manifestDigest env body))"
  by (auto simp: verifyAndIssueToken_def split: option.splits if_splits)

section \<open>Properties\<close>

text \<open>
  C26. An enrollment token opens exactly what it was issued for: the token minted for a manifest
  is accepted for that agent and exactly those manifest bytes until its 300 seconds have passed,
  and refused for any later time, other agent or body with another digest. Assumed of the
  libraries: base64url writes only its alphabet and decodes back to the payload, the MAC is
  base64url, digest and id are not empty.
\<close>

theorem token_roundtrip:
  assumes "verifyAndIssueToken env now uid body = Inr res"
    and "payload = enrollment_payload (er_aid res) (now div 1000) uid (manifestDigest env body)"
    and "ee_unb64url env (ee_b64url env (stringify (ee_num_repr env) payload)) = Some payload"
    and "b64url_segment (ee_b64url env (stringify (ee_num_repr env) payload))"
    and "\<And>data. b64url_segment (ee_hmac env (enrollmentSecret (ee_config env)) data)"
    and "uid \<noteq> []" and "ee_digest env body \<noteq> []"
  shows "validateToken env later (er_token res) (Some (JStr aid)) body' =
    (if later div 1000 > now div 1000 + 300 then Inl TokenExpired
     else if aid \<noteq> er_aid res then Inl WrongSubject
     else if ee_digest env body' \<noteq> ee_digest env body then Inl OtherManifest
     else Inr payload)"
proof -
  have "verify env (er_token res) = Inr payload"
    unfolding verify_Inr issued_token [OF assms(1)] sign_def Let_def assms(2) [symmetric]
    using assms(3-5) by blast
  moreover have "get payload ''scope'' = Some (jlit ''register'')" "get payload ''sub'' = Some (JStr (er_aid res))"
    "get payload ''jti'' = Some (JStr uid)" "get payload ''msh'' = Some (JStr (ee_digest env body))"
    "get payload ''exp'' = Some (jint (now div 1000 + 300))"
    by (simp_all add: assms(2) enrollment_payload_def manifestDigest_def TOKEN_LIFETIME_SECS_def)
  moreover have "exceeds n (Some (jint k)) \<longleftrightarrow> n > k" for n k by (simp add: exceeds_def)
  ultimately show ?thesis using assms(6,7)
    by (auto simp: validateToken_def manifestDigest_def nonempty_string_def simp del: of_int_add)
qed

definition demo_manifest :: json where
  "demo_manifest = jobj [(''version'', jlit ''aitp/0.3''), (''aid'', jlit ''aid:a''), (''handshake_endpoint'', jlit ''https://a'')]"

definition demo_enroll_env :: enroll_env where
  "demo_enroll_env = \<lparr>ee_config = demo_config\<lparr>enrollmentSecret := replicate 32 65\<rparr>, ee_insecure = False,
     ee_verify = \<lambda>_ _. None, ee_parse = \<lambda>_. Some (jobj [(''manifest'', demo_manifest)]), ee_num_repr = \<lambda>_. js ''0'',
     ee_b64url = \<lambda>_. js ''QQ'', ee_unb64url = \<lambda>_. Some (enrollment_payload (js ''aid:a'') 7 (js ''u'') (js ''d'')),
     ee_hmac = \<lambda>_ _. js ''mac'', ee_digest = \<lambda>_. js ''d''\<rparr>"

lemma demo_manifest_reads:
  "checkManifestColumns demo_manifest = None" "demo_manifest \<noteq> JNull" "is_plain_object demo_manifest"
  "get demo_manifest ''aid'' = Some (jlit ''aid:a'')" "get demo_manifest ''expires_at'' = None"
  "get demo_manifest ''version'' = Some (jlit ''aitp/0.3'')" "get demo_manifest ''extensions'' = None"
proof -
  have "\<not> has_nul (js ''aid:a'')" "\<not> has_nul (js ''https://a'')" "code_points (js ''aid:a'') = 5" by code_simp+
  then show "checkManifestColumns demo_manifest = None"
    by (simp add: checkManifestColumns_def demo_manifest_def string_column_def coalesce_def nullish_def
        checkColumnString_def AID_MAX_def DISPLAY_NAME_MAX_def endpoint_problem_def capabilities_problem_def
        expires_at_problem_def jobj_def js_def)
qed (simp_all add: demo_manifest_def jobj_def js_def)

lemma demo_issue:
  "verifyAndIssueToken demo_enroll_env 7000 (js ''u'') (js ''{}'') = Inr \<lparr>er_token = js ''QQ.mac'',
     er_expiresIn = 300, er_aid = js ''aid:a''\<rparr>"
proof -
  have "starts_with (js ''aid:a'') (js ''aid:'')" by code_simp
  moreover have "get (jobj [(''manifest'', demo_manifest)]) ''manifest'' = Some demo_manifest" by simp
  ultimately show ?thesis
    by (simp add: verifyAndIssueToken_def demo_enroll_env_def expires_soon_def sign_def TOKEN_LIFETIME_SECS_def
        demo_manifest_reads js_append [symmetric])
qed

lemma demo_token_valid:
  "validateToken demo_enroll_env 8000 (js ''QQ.mac'') (Some (jlit ''aid:a'')) body =
     Inr (enrollment_payload (js ''aid:a'') 7 (js ''u'') (js ''d''))"
proof -
  have "b64url_segment (js ''QQ'')" "b64url_segment (js ''mac'')" by code_simp+
  moreover have "js ''QQ.mac'' = js ''QQ'' @ js ''.'' @ js ''mac''" by (simp add: js_def)
  ultimately have "verify demo_enroll_env (js ''QQ.mac'') = Inr (enrollment_payload (js ''aid:a'') 7 (js ''u'') (js ''d''))"
    unfolding verify_Inr demo_enroll_env_def by auto
  then show ?thesis unfolding validateToken_Inr
    by (simp add: enrollment_payload_def manifestDigest_def demo_enroll_env_def TOKEN_LIFETIME_SECS_def
        nonempty_string_def exceeds_def)
qed

theorem token_roundtrip_witness:
  "validateToken demo_enroll_env 307999 (js ''QQ.mac'') (Some (jlit ''aid:a'')) (js ''{}'') =
     Inr (enrollment_payload (js ''aid:a'') 7 (js ''u'') (js ''d'')) \<and>
   validateToken demo_enroll_env 308000 (js ''QQ.mac'') (Some (jlit ''aid:a'')) (js ''{}'') = Inl TokenExpired"
proof -
  have "b64url_segment (js ''QQ'')" "b64url_segment (js ''mac'')" by code_simp+
  then have "validateToken demo_enroll_env later (js ''QQ.mac'') (Some (JStr aid)) body =
    (if later div 1000 > 307 then Inl TokenExpired else if aid \<noteq> js ''aid:a'' then Inl WrongSubject
     else Inr (enrollment_payload (js ''aid:a'') 7 (js ''u'') (js ''d'')))" for later aid body
    using token_roundtrip [OF demo_issue refl, of later aid body]
    by (simp add: demo_enroll_env_def manifestDigest_def)
  then show ?thesis by simp
qed

end
