(* ===== verification/Registration.thy ===== *)
theory Registration
  imports Enrollment Retention
begin

text \<open>
  The handler of \<open>POST /api/registry/agents\<close> and \<open>DELETE /api/registry/agents/:aid\<close>
  (\<open>src/src/app/api/registry/agents\<close>), and the life of a one-time token across replicas:
  registrations and retention sweeps in the order the database serialises them.
\<close>

section \<open>\<open>POST /api/registry/agents\<close>\<close>

definition register_token :: "http_request \<Rightarrow> jstring" where
  "register_token r = (let auth = (case hdr r ''authorization'' of None \<Rightarrow> [] | Some a \<Rightarrow> a)
     in if starts_with auth (js ''Bearer '') then drop 7 auth else auth)"

text \<open>\<open>envelope.manifest?.aid\<close>, and the manifest itself where the route goes on to read it.\<close>

definition manifest_of :: "json \<Rightarrow> json" where
  "manifest_of envelope = (case get envelope ''manifest'' of None \<Rightarrow> JNull | Some m \<Rightarrow> m)"

definition ext_namespace :: "json \<Rightarrow> json option" where
  "ext_namespace m = (case get m ''extensions'' of None \<Rightarrow> None | Some x \<Rightarrow> get x ''namespace'')"

definition namespace_problem :: "jstring option \<Rightarrow> json option \<Rightarrow> idempotent_result option" where
  "namespace_problem header_namespace ext =
     (case ext of
        Some v \<Rightarrow>
          (case v of
             JStr s \<Rightarrow>
               (if header_namespace \<noteq> None then None
                else map_option (\<lambda>p. refuse 400 (column_message (js ''manifest.extensions.namespace'') p) ''BODY_INVALID'')
                       (checkColumnString s NAMESPACE_MAX None))
           | _ \<Rightarrow> Some (refuse 400 (js ''manifest.extensions.namespace must be a string when present'') ''BODY_INVALID''))
      | None \<Rightarrow> None)"

definition header_problem :: "jstring option \<Rightarrow> idempotent_result option" where
  "header_problem header_namespace = (case header_namespace of
     None \<Rightarrow> None
   | Some s \<Rightarrow> map_option (\<lambda>p. refuse 400 (column_message (js ''X-Aitp-Namespace'') p) ''BAD_REQUEST'')
                 (checkColumnString s NAMESPACE_MAX None))"

definition version_problem :: "json \<Rightarrow> idempotent_result option" where
  "version_problem m = (if get m ''version'' = Some (JStr SUPPORTED_MANIFEST_VERSION) then None
     else Some (refuse 400 (js ''manifest.version must be '' @ SUPPORTED_MANIFEST_VERSION @ js '' '' @ [0x2014] @
            js '' re-enroll with a current SDK'') ''MANIFEST_INVALID''))"

text \<open>Here \<open>expires_at\<close> is tested for truth, so 0 is absent.\<close>

definition expiry_problem :: "instant \<Rightarrow> json \<Rightarrow> idempotent_result option" where
  "expiry_problem now m =
     (if truthy (get m ''expires_at'') \<and> expires_soon now (get m ''expires_at'')
      then Some (refuse 400 manifest_expired_message ''MANIFEST_EXPIRED'') else None)"

text \<open>Every check that comes before the token is consumed, in the order of the route.\<close>

definition register_checks ::
  "enroll_env \<Rightarrow> instant \<Rightarrow> http_request \<Rightarrow> jstring \<Rightarrow> idempotent_result + json \<times> json" where
  "register_checks env now r body =
     (case ee_parse env body of
        None \<Rightarrow> Inl (refuse 400 (js ''request body must be JSON ManifestEnvelope'') ''BODY_INVALID'')
      | Some envelope \<Rightarrow>
          if \<not> is_plain_object envelope then
            Inl (refuse 400 (js ''request body must be a JSON object (ManifestEnvelope)'') ''BODY_INVALID'')
          else
            let m = manifest_of envelope; aid = get m ''aid''
            in if \<not> truthy aid then Inl (refuse 400 (js ''missing manifest.aid'') ''BODY_INVALID'')
               else if enrollmentSecretProblem (enrollmentSecret (ee_config env)) \<noteq> None then
                 Inl (refuse 503 (js ''agent registration is temporarily unavailable on this server'') ''SERVER_MISCONFIGURED'')
               else case validateToken env now (register_token r) aid body of
                 Inl e \<Rightarrow> Inl (refuse 401 (token_message (ee_num_repr env)
                   (case verify env (register_token r) of Inr p \<Rightarrow> get p ''sub'' | Inl _ \<Rightarrow> None) aid e) ''TOKEN_INVALID'')
               | Inr payload \<Rightarrow>
                   (case orelse (header_problem (hdr r ''x-aitp-namespace''))
                          (orelse (map_option (\<lambda>msg. refuse 400 msg ''BODY_INVALID'') (checkManifestColumns m))
                             (orelse (version_problem m)
                                (orelse (expiry_problem now m)
                                   (namespace_problem (hdr r ''x-aitp-namespace'') (ext_namespace m))))) of
                      Some refusal \<Rightarrow> Inl refusal
                    | None \<Rightarrow> Inr (m, payload)))"

definition string_or :: "json option \<Rightarrow> jstring \<Rightarrow> jstring" where
  "string_or v s = (case as_string v of Some x \<Rightarrow> x | None \<Rightarrow> s)"

definition manifest_input :: "http_request \<Rightarrow> json \<Rightarrow> jstring \<Rightarrow> register_input" where
  "manifest_input r m body =
     (let aid = string_or (get m ''aid'') []
      in \<lparr>ri_aid = aid, ri_displayName = string_or (coalesce (get m ''display_name'') (get m ''aid'')) aid,
          ri_handshakeEndpoint = string_or (get m ''handshake_endpoint'') [],
          ri_offeredCaps = (case string_array (coalesce (get m ''offered_capabilities'') (Some (JArr []))) of
             Some cs \<Rightarrow> cs | None \<Rightarrow> []),
          ri_manifestJson = body,
          ri_manifestExpiresAt = (if truthy (get m ''expires_at'')
             then (case get m ''expires_at'' of Some (JNum (JFin q)) \<Rightarrow> time_clip (q * 1000) | _ \<Rightarrow> None) else None),
          ri_org = None, ri_cloud = None,
          ri_namespace = orelse (hdr r ''x-aitp-namespace'') (as_string (ext_namespace m))\<rparr>)"

definition registered_event :: "instant \<Rightarrow> jstring \<Rightarrow> register_input \<Rightarrow> audit_event" where
  "registered_event now uid i = \<lparr>ev_id = uid, ev_type = js ''agent.registered'', ev_ts = now,
     ev_aidA = Some (ri_aid i), ev_aidB = None, ev_sessionId = None, ev_runId = None, ev_grants = None,
     ev_payload = jobj [(''displayName'', JStr (ri_displayName i)), (''namespace'', JStr (input_namespace i))],
     ev_source = Some (js ''cp'')\<rparr>"

definition token_exp :: "json \<Rightarrow> int" where
  "token_exp p = (case get p ''exp'' of Some (JNum (JFin q)) \<Rightarrow> \<lfloor>q\<rfloor> | _ \<Rightarrow> 0)"

text \<open>The callback of \<open>withIdempotency\<close>; \<open>None\<close> is a throw, a 500.\<close>

definition register_exec ::
  "enroll_env \<Rightarrow> fan_env \<Rightarrow> route_input \<Rightarrow> http_request \<Rightarrow> jstring \<Rightarrow> route_state \<Rightarrow>
     idempotent_result option \<times> route_state" where
  "register_exec env fan v r body s =
     (case register_checks env (rv_now v) r body of
        Inl refusal \<Rightarrow> (Some refusal, s)
      | Inr (m, payload) \<Rightarrow>
          (let i = manifest_input r m body;
               (ok, d) = registerConsumingJti (rv_now v) (rv_write_fails v) (string_or (get payload ''jti'') [])
                           (token_exp payload) i (cp_db (rt_cp s));
               s1 = s\<lparr>rt_cp := (rt_cp s)\<lparr>cp_db := d\<rparr>\<rparr>
           in case ok of
                None \<Rightarrow> (None, s1)
              | Some False \<Rightarrow> (Some (refuse 401 (js ''enrollment token already used'') ''TOKEN_REPLAYED''), s1)
              | Some True \<Rightarrow>
                  (if rv_event_fails v then (None, s1)
                   else
                     (Some \<lparr>ir_status = 201, ir_body = jobj [(''aid'', JStr (ri_aid i)),
                         (''displayName'', JStr (ri_displayName i)),
                         (''registeredAt'', JStr (de_iso (fe_delivery fan) (rv_now v)))]\<rparr>,
                      audit_action v (rq_headers r) (Some (js ''enrollment-token'')) ''agent.register'' (ri_aid i) None
                        (s1\<lparr>rt_cp := emit fan (rv_now v) True (registered_event (rv_now v) (rv_event_id v) i) (rt_cp s1)\<rparr>)))))"

definition agents_POST ::
  "enroll_env \<Rightarrow> fan_env \<Rightarrow> (json \<Rightarrow> json) \<Rightarrow> (jstring \<Rightarrow> int option) \<Rightarrow> (byte list \<Rightarrow> jstring) \<Rightarrow>
     route_input \<Rightarrow> bool \<Rightarrow> http_request \<Rightarrow> byte list option list \<Rightarrow> route_state \<Rightarrow> route_answer \<times> route_state" where
  "agents_POST env fan jsonb to_number decode_text v persistFails r chunks s =
     (case readLimitedBody to_number r MANIFEST_BODY_MAX_BYTES chunks of
        Inl resp \<Rightarrow> (Plain resp, s)
      | Inr bytes \<Rightarrow>
          (let (answer, t, s1) = withIdempotency jsonb (rv_now v) persistFails (hdr r ''idempotency-key'')
                 (js ''agents.register'') (register_exec env fan v r (decode_text bytes)) (idempotency_keys (rt_db s)) s
           in (Wrapped answer, set_db ((rt_db s1)\<lparr>idempotency_keys := t\<rparr>) s1)))"

section \<open>\<open>DELETE /api/registry/agents/:aid\<close>\<close>

definition deregistered_event :: "instant \<Rightarrow> jstring \<Rightarrow> jstring \<Rightarrow> audit_event" where
  "deregistered_event now uid aid = \<lparr>ev_id = uid, ev_type = js ''agent.deregistered'', ev_ts = now,
     ev_aidA = Some aid, ev_aidB = None, ev_sessionId = None, ev_runId = None, ev_grants = None,
     ev_payload = jobj [(''reason'', jlit ''admin_deregister'')], ev_source = Some (js ''cp'')\<rparr>"

definition agent_DELETE ::
  "fan_env \<Rightarrow> route_input \<Rightarrow> http_request \<Rightarrow> jstring \<Rightarrow> route_state \<Rightarrow> http_response option \<times> route_state" where
  "agent_DELETE fan v r aid s =
     (let (ok, t) = deactivateAgent aid (agents (cp_db (rt_cp s)))
      in if \<not> ok then (Some (json_response 404 (error_body ''agent not found'' ''NOT_FOUND'')), s)
         else
           let s1 = audit_action v (rq_headers r) None ''agent.deregister'' aid None (s\<lparr>rt_cp := set_agents t (rt_cp s)\<rparr>)
           in if rv_event_fails v then (None, s1)
              else (Some (json_response 200 (jobj [(''aid'', JStr aid), (''status'', jlit ''deregistered'')])),
                    s1\<lparr>rt_cp := emit fan (rv_now v) True (deregistered_event (rv_now v) (rv_event_id v) aid) (rt_cp s1)\<rparr>))"

section \<open>The life of a token\<close>

text \<open>
  Presentations of tokens and sweeps of the consumed ids, over all replicas. A presentation is
  refused once \<open>validateToken\<close> sees it expired; what else it checks does not concern the id.
\<close>

datatype token_op =
    Present instant jstring int register_input bool   \<comment> \<open>jti, exp in seconds, input, whether the upsert fails\<close>
  | PurgeJtis instant nat

record token_world =
  tw_db :: db
  tw_registered :: "jstring list"

fun op_time :: "token_op \<Rightarrow> instant" where
  "op_time (Present now jti expiry i faulty) = now"
| "op_time (PurgeJtis now limit) = now"

fun token_step :: "token_world \<Rightarrow> token_op \<Rightarrow> token_world" where
  "token_step w (Present now jti expiry i faulty) =
     (if exceeds (now div 1000) (Some (jint expiry)) then w
      else let (ok, d) = registerConsumingJti now faulty jti expiry i (tw_db w)
           in w\<lparr>tw_db := d, tw_registered := (if ok = Some True then tw_registered w @ [jti] else tw_registered w)\<rparr>)"
| "token_step w (PurgeJtis now limit) =
     w\<lparr>tw_db := (tw_db w)\<lparr>enrollment_jtis := snd (purgeEnrollmentJtis now limit (enrollment_jtis (tw_db w)))\<rparr>\<rparr>"

lemma exceeds_jint [simp]: "exceeds n (Some (jint m)) \<longleftrightarrow> m < n"
  by (simp add: exceeds_def)

lemma find_row_filter_key:
  "find_row key k (filter (\<lambda>r. key r \<notin> K) t) = (if k \<in> K then None else find_row key k t)"
  by (induction t) auto

lemma purge_find:
  assumes "unique_key ej_jti t"
  shows "find_row ej_jti k (snd (purgeEnrollmentJtis now n t)) = find_row ej_jti k t \<or>
    find_row ej_jti k (snd (purgeEnrollmentJtis now n t)) = None \<and>
      (\<exists>row. find_row ej_jti k t = Some row \<and> ej_expiresAt row < now)"
proof (cases "k \<in> ej_jti ` set (take n (filter (\<lambda>r. ej_expiresAt r < now) t))")
  case True
  then obtain r where r: "r \<in> set (take n (filter (\<lambda>r. ej_expiresAt r < now) t))" "k = ej_jti r" by (rule imageE)
  from in_set_takeD [OF r(1)] have "r \<in> set t" "ej_expiresAt r < now" by simp_all
  with find_row_unique [OF assms, of r] r(2) True show ?thesis
    by (simp add: purgeEnrollmentJtis_def delete_some_def Let_def find_row_filter_key)
qed (simp add: purgeEnrollmentJtis_def delete_some_def Let_def find_row_filter_key)

lemma purge_unique: "unique_key ej_jti t \<Longrightarrow> unique_key ej_jti (snd (purgeEnrollmentJtis now n t))"
  by (simp add: purgeEnrollmentJtis_def delete_some_def Let_def unique_key_filter)

definition token_ok :: "jstring \<Rightarrow> int \<Rightarrow> instant \<Rightarrow> token_world \<Rightarrow> bool" where
  "token_ok jti expiry clock w \<longleftrightarrow> unique_key ej_jti (enrollment_jtis (tw_db w)) \<and>
     (case find_row ej_jti jti (enrollment_jtis (tw_db w)) of
        Some row \<Rightarrow> ej_expiresAt row = expiry * 1000 \<and> count_list (tw_registered w) jti \<le> 1
      | None \<Rightarrow> count_list (tw_registered w) jti = 0 \<or>
          count_list (tw_registered w) jti = 1 \<and> expiry * 1000 < clock)"

lemma token_ok_le: "token_ok jti expiry clock w \<Longrightarrow> count_list (tw_registered w) jti \<le> 1"
  by (auto simp: token_ok_def split: option.splits)

lemma token_ok_later: "token_ok jti expiry clock w \<Longrightarrow> clock \<le> clock' \<Longrightarrow> token_ok jti expiry clock' w"
  by (auto simp: token_ok_def split: option.splits)

text \<open>What the theorem asks of a presentation of the token: its \<open>exp\<close>, and not in its last second.\<close>

fun not_last_second :: "jstring \<Rightarrow> int \<Rightarrow> token_op \<Rightarrow> bool" where
  "not_last_second jti expiry (Present now j x i faulty) \<longleftrightarrow>
     j \<noteq> jti \<or> x = expiry \<and> (now \<le> expiry * 1000 \<or> expiry < now div 1000)"
| "not_last_second jti expiry (PurgeJtis now limit) \<longleftrightarrow> True"

lemma token_step_ok:
  assumes ok: "token_ok jti expiry clock w" and le: "clock \<le> op_time op" and op: "not_last_second jti expiry op"
  shows "token_ok jti expiry (op_time op) (token_step w op)"
proof (cases op)
  case (Present now j x i faulty)
  let ?t = "enrollment_jtis (tw_db w)"
  let ?row = "\<lparr>ej_jti = j, ej_expiresAt = x * 1000, ej_createdAt = now\<rparr>"
  from ok le Present have ok': "token_ok jti expiry now w" by (auto intro: token_ok_later)
  show ?thesis
  proof (cases "x < now div 1000 \<or> find_row ej_jti j ?t \<noteq> None \<or> faulty")
    case True
    then have "token_step w op = w"
      using Present jti_rows.conflict [where t = ?t and r = ?row] jti_rows.ins_flag [where t = ?t and r = ?row]
      by (cases w) (auto simp: registerConsumingJti_def consumeEnrollmentJti_def split: prod.splits)
    with ok' Present show ?thesis by simp
  next
    case False
    have reg: "token_step w op = w\<lparr>tw_db := (tw_db w)\<lparr>enrollment_jtis := snd (insert_nothing ej_jti ?row ?t),
        agents := upsertAgent now i (agents (tw_db w))\<rparr>, tw_registered := tw_registered w @ [j]\<rparr>"
    proof -
      have "insert_nothing ej_jti ?row ?t = (True, snd (insert_nothing ej_jti ?row ?t))"
        using False jti_rows.ins_flag [where t = ?t and r = ?row] by (simp add: prod_eq_iff)
      then obtain t' where "insert_nothing ej_jti ?row ?t = (True, t')" by blast
      with False Present show ?thesis by (simp add: registerConsumingJti_def consumeEnrollmentJti_def)
    qed
    have row: "find_row ej_jti k (snd (insert_nothing ej_jti ?row ?t)) =
        (if k = j then Some ?row else find_row ej_jti k ?t)" for k
      using False jti_rows.ins_row [where t = ?t and r = ?row, THEN fun_cong, of k] by auto
    have uniq: "unique_key ej_jti (snd (insert_nothing ej_jti ?row ?t))"
      using ok by (simp add: token_ok_def unique_key_insert_nothing)
    show ?thesis
    proof (cases "j = jti")
      case True
      with op Present False have "x = expiry" "now \<le> expiry * 1000" by auto
      moreover from ok' False True this(2) have "count_list (tw_registered w) jti = 0"
        by (auto simp: token_ok_def)
      ultimately show ?thesis unfolding reg using row [of jti] uniq True by (simp add: token_ok_def)
    next
      case other: False
      with ok' row [of jti] uniq show ?thesis unfolding reg by (simp add: token_ok_def Present split: option.splits)
    qed
  qed
next
  case (PurgeJtis now n)
  have "unique_key ej_jti (enrollment_jtis (tw_db w))" using ok by (simp add: token_ok_def)
  with purge_find [OF this, of jti now n] purge_unique [OF this, of now n] ok le PurgeJtis show ?thesis
    by (auto simp: token_ok_def split: option.splits)
qed

lemma token_run_ok:
  "token_ok jti expiry clock w \<Longrightarrow> sorted (map op_time ops) \<Longrightarrow> (\<And>op. op \<in> set ops \<Longrightarrow> clock \<le> op_time op) \<Longrightarrow>
   list_all (not_last_second jti expiry) ops \<Longrightarrow>
   \<exists>clock'. token_ok jti expiry clock' (foldl token_step w ops)"
proof (induction ops arbitrary: clock w)
  case (Cons op ops)
  have "token_ok jti expiry (op_time op) (token_step w op)"
    using Cons.prems(3) [of op] Cons.prems(1,4) by (intro token_step_ok) simp_all
  with Cons.IH [of "op_time op" "token_step w op"] Cons.prems show ?case by simp
qed auto

section \<open>Properties\<close>


definition demo_register_input :: register_input where
  "demo_register_input = \<lparr>ri_aid = js ''aid:a'', ri_displayName = js ''a'', ri_handshakeEndpoint = js ''https://a'',
     ri_offeredCaps = [], ri_manifestJson = js ''{}'', ri_manifestExpiresAt = None, ri_org = None, ri_cloud = None,
     ri_namespace = None\<rparr>"

definition replayed_token :: "instant \<Rightarrow> token_op list" where
  "replayed_token later = [Present 9000 (js ''j'') 10 demo_register_input False, PurgeJtis (later - 1) 9,
     Present later (js ''j'') 10 demo_register_input False]"


text \<open>
  The proviso is needed: the token is accepted until its last second has passed, the sweep drops
  the consumed id as soon as that second begins, and the token registers a second time.
\<close>

lemma swept_token_replays:
  "tw_registered (foldl token_step \<lparr>tw_db = empty_db, tw_registered = []\<rparr> (replayed_token 10500)) = [js ''j'', js ''j'']"
  by code_simp

lemma register_checks_Inr:
  assumes "register_checks env now r body = Inr (m, payload)"
  shows "validateToken env now (register_token r) (get m ''aid'') body = Inr payload \<and> checkManifestColumns m = None"
  using assms
  by (auto simp: register_checks_def Let_def orelse_def split: option.splits if_splits sum.splits)

lemma upsertAgent_row:
  "\<exists>a. find_row ag_aid (ri_aid i) (upsertAgent now i t) = Some a \<and> ag_status a = Active \<and>
     ag_manifestJson a = ri_manifestJson i \<and> ag_handshakeEndpoint a = ri_handshakeEndpoint i"
proof (cases "ri_aid i \<in> ag_aid ` set t")
  case True
  then obtain a where "find_row ag_aid (ri_aid i) t = Some a"
    using find_row_None_iff [of ag_aid "ri_aid i" t] by blast
  with True show ?thesis
    by (simp add: upsertAgent_def insert_update_def find_row_update_key) (simp add: re_enrolled_def)
next
  case False
  then have "find_row ag_aid (ri_aid i) t = None" by (simp add: find_row_None_iff)
  with False show ?thesis
    by (simp add: upsertAgent_def insert_update_def find_row_append) (simp add: new_agent_def)
qed

lemma register_refusal: "register_checks env now r body = Inl res \<Longrightarrow> ir_status res \<noteq> 201"
proof -
  have st: "ir_status (refuse n msg code) = n" for n msg code by (simp add: refuse_def)
  show "register_checks env now r body = Inl res \<Longrightarrow> ir_status res \<noteq> 201"
    by (auto simp: register_checks_def Let_def orelse_def header_problem_def version_problem_def expiry_problem_def
        namespace_problem_def st split: option.splits if_splits sum.splits json.splits)
qed

lemma registerConsumingJti_cases:
  "registerConsumingJti now faulty jti x i d =
     (if find_row ej_jti jti (enrollment_jtis d) \<noteq> None then (Some False, d)
      else if faulty then (None, d)
      else (Some True, d\<lparr>enrollment_jtis := enrollment_jtis d @ [\<lparr>ej_jti = jti, ej_expiresAt = x * 1000, ej_createdAt = now\<rparr>],
              agents := upsertAgent now i (agents d)\<rparr>))"
  by (auto simp: registerConsumingJti_def consumeEnrollmentJti_def insert_nothing_def find_row_None_iff)

text \<open>The handler keeps the contract of the admin routes.\<close>

interpretation register_route: audited_route "\<lambda>(v, r, body). register_exec env fan v r body" for env fan
proof unfold_locales
  fix x s a s'
  assume run: "(case x of (v, r, body) \<Rightarrow> register_exec env fan v r body) s = (Some a, s')"
  obtain v r body where x: "x = (v, r, body)" by (cases x) auto
  show "s' = s" if "ir_status a \<noteq> 201"
    using run that register_refusal [of env "rv_now v" r body]
    by (auto simp: x register_exec_def Let_def registerConsumingJti_cases split: sum.splits if_splits)
  show "audits s' = Suc (audits s)" if "ir_status a = 201"
    using run that register_refusal [of env "rv_now v" r body]
    by (auto simp: x register_exec_def Let_def registerConsumingJti_cases split: sum.splits if_splits)
qed

text \<open>
  Registration needs a signed, fresh, matching token, and a refusal spends nothing: a request
  that is not answered 201 (and does not fault) leaves the state as it was, the token included;
  one that is answered 201 carried a token with this server's MAC over a payload that is unexpired,
  names the manifest's agent and the digest of exactly this body, whose id was unused and is now
  consumed, and the agent is active with this body as its manifest.
\<close>

theorem registration_needs_fresh_token:
  assumes "register_exec env fan v r body s = (Some res, s')"
  shows "if ir_status res \<noteq> 201 then s' = s
    else \<exists>data payload m a.
      register_token r = data @ js ''.'' @ ee_hmac env (enrollmentSecret (ee_config env)) data \<and>
      ee_unb64url env data = Some payload \<and> \<not> exceeds (rv_now v div 1000) (get payload ''exp'') \<and>
      get payload ''sub'' = get m ''aid'' \<and> get payload ''msh'' = Some (JStr (manifestDigest env body)) \<and>
      checkManifestColumns m = None \<and>
      find_row ej_jti (string_or (get payload ''jti'') []) (enrollment_jtis (cp_db (rt_cp s))) = None \<and>
      find_row ej_jti (string_or (get payload ''jti'') []) (enrollment_jtis (cp_db (rt_cp s'))) \<noteq> None \<and>
      getAgent (string_or (get m ''aid'') []) (agents (cp_db (rt_cp s'))) = Some a \<and>
      ag_status a = Active \<and> ag_manifestJson a = body"
proof (cases "register_checks env (rv_now v) r body")
  case (Inl refusal)
  with assms register_refusal [OF Inl] show ?thesis by (simp add: register_exec_def)
next
  case (Inr mp)
  obtain m payload where mp: "mp = (m, payload)" by fastforce
  let ?i = "manifest_input r m body"
  let ?jti = "string_or (get payload ''jti'') []"
  let ?d = "cp_db (rt_cp s)"
  show ?thesis
  proof (cases "find_row ej_jti ?jti (enrollment_jtis ?d) = None")
    case False
    with assms Inr mp show ?thesis
      by (auto simp: register_exec_def registerConsumingJti_cases Let_def refuse_def)
  next
    case True
    with assms Inr mp have res: "ir_status res = 201" and
      s': "enrollment_jtis (cp_db (rt_cp s')) = enrollment_jtis ?d @ [\<lparr>ej_jti = ?jti, ej_expiresAt = token_exp payload * 1000, ej_createdAt = rv_now v\<rparr>]"
        "agents (cp_db (rt_cp s')) = upsertAgent (rv_now v) ?i (agents ?d)"
      by (auto simp: register_exec_def registerConsumingJti_cases Let_def split: if_splits)
    from register_checks_Inr [of env "rv_now v" r body m payload] Inr mp
    have val: "validateToken env (rv_now v) (register_token r) (get m ''aid'') body = Inr payload"
      and cols: "checkManifestColumns m = None" by simp_all
    from val obtain data where "register_token r = data @ js ''.'' @ ee_hmac env (enrollmentSecret (ee_config env)) data"
      "ee_unb64url env data = Some payload" unfolding validateToken_Inr verify_Inr by blast
    moreover have "ri_aid ?i = string_or (get m ''aid'') []" "ri_manifestJson ?i = body"
      by (simp_all add: manifest_input_def Let_def)
    moreover obtain a where "find_row ag_aid (ri_aid ?i) (upsertAgent (rv_now v) ?i (agents ?d)) = Some a"
      "ag_status a = Active" "ag_manifestJson a = ri_manifestJson ?i" using upsertAgent_row by blast
    moreover have "find_row ej_jti ?jti (enrollment_jtis (cp_db (rt_cp s'))) \<noteq> None"
      using True by (simp add: s' find_row_append)
    ultimately have "\<exists>data payload m a.
      register_token r = data @ js ''.'' @ ee_hmac env (enrollmentSecret (ee_config env)) data \<and>
      ee_unb64url env data = Some payload \<and> \<not> exceeds (rv_now v div 1000) (get payload ''exp'') \<and>
      get payload ''sub'' = get m ''aid'' \<and> get payload ''msh'' = Some (JStr (manifestDigest env body)) \<and>
      checkManifestColumns m = None \<and>
      find_row ej_jti (string_or (get payload ''jti'') []) (enrollment_jtis ?d) = None \<and>
      find_row ej_jti (string_or (get payload ''jti'') []) (enrollment_jtis (cp_db (rt_cp s'))) \<noteq> None \<and>
      getAgent (string_or (get m ''aid'') []) (agents (cp_db (rt_cp s'))) = Some a \<and>
      ag_status a = Active \<and> ag_manifestJson a = body"
      using val cols True unfolding validateToken_Inr getAgent_def s'(2) by metis
    with res show ?thesis by simp
  qed
qed

definition demo_register_env :: route_input where
  "demo_register_env = \<lparr>rv_now = 8000, rv_uid = [], rv_event_id = js ''e'', rv_audit_id = js ''a'', rv_write_fails = False,
     rv_event_fails = False, rv_audit_fails = False\<rparr>"

definition demo_register_request :: http_request where
  "demo_register_request = \<lparr>rq_method = js ''POST'', rq_path = js ''/api/registry/agents'',
     rq_headers = [js ''authorization'' \<mapsto> js ''QQ.mac'']\<rparr>"

definition demo_register_state :: route_state where
  "demo_register_state = \<lparr>rt_cp = ig_cp demo_ingest_state, rt_sink = \<lparr>sink_rows = [], adminAuditInsertFailures = 0\<rparr>\<rparr>"

abbreviation demo_registration :: "idempotent_result option \<times> route_state" where
  "demo_registration \<equiv> register_exec demo_enroll_env demo_fan_env demo_register_env demo_register_request (js ''{}'')
     demo_register_state"

lemma demo_registered:
  obtains res s' where "demo_registration = (Some res, s')" "ir_status res = 201"
    "get (ir_body res) ''aid'' = Some (JStr (js ''aid:a''))"
proof -
  let ?p = "enrollment_payload (js ''aid:a'') 7 (js ''u'') (js ''d'')"
  have tok: "register_token demo_register_request = js ''QQ.mac''" "hdr demo_register_request ''x-aitp-namespace'' = None"
    by (simp_all add: register_token_def demo_register_request_def hdr_def starts_with_def js_def)
  have secret: "enrollmentSecretProblem (enrollmentSecret (ee_config demo_enroll_env)) = None"
    by (simp add: enrollmentSecretProblem_def demo_enroll_env_def ENROLLMENT_SECRET_MIN_LENGTH_def)
  have parse: "ee_parse demo_enroll_env (js ''{}'') = Some (jobj [(''manifest'', demo_manifest)])"
    by (simp add: demo_enroll_env_def)
  have "register_checks demo_enroll_env 8000 demo_register_request (js ''{}'') = Inr (demo_manifest, ?p)"
    by (simp add: register_checks_def parse secret Let_def manifest_of_def demo_manifest_reads demo_token_valid tok
        header_problem_def version_problem_def SUPPORTED_MANIFEST_VERSION_def expiry_problem_def namespace_problem_def
        ext_namespace_def) (simp add: jobj_def)
  moreover have "ri_aid (manifest_input demo_register_request demo_manifest (js ''{}'')) = js ''aid:a''"
    by (simp add: manifest_input_def string_or_def demo_manifest_reads Let_def)
  ultimately show thesis
    by (intro that) (auto simp: register_exec_def registerConsumingJti_cases demo_register_env_def demo_register_state_def
        demo_ingest_state_def empty_db_def Let_def)
qed

theorem registration_needs_fresh_token_witness:
  "\<exists>res s' a. demo_registration = (Some res, s') \<and> ir_status res = 201 \<and>
     a \<in> set (agents (cp_db (rt_cp s'))) \<and> ag_manifestJson a = js ''{}''"
proof -
  obtain res s' where run: "demo_registration = (Some res, s')" "ir_status res = 201" by (rule demo_registered)
  then have "\<not> ir_status res \<noteq> 201" by simp
  from registration_needs_fresh_token [OF run(1), unfolded if_not_P [OF this]] obtain m a where
    "getAgent (string_or (get m ''aid'') []) (agents (cp_db (rt_cp s'))) = Some a" "ag_manifestJson a = js ''{}''" by blast
  then have "a \<in> set (agents (cp_db (rt_cp s')))" unfolding getAgent_def by (auto dest: find_row_SomeD)
  with run \<open>ag_manifestJson a = js ''{}''\<close> show ?thesis by blast
qed

end
