(* ===== verification/Revocation.thy ===== *)
theory Revocation
  imports Admin_Route Tct_Monitor "HOL-Library.Product_Lexorder"
begin

text \<open>
  Revocations: \<open>POST /api/revocation/entries\<close> records one, \<open>GET /api/revocations\<close> relays an
  issuer's own entries to it, \<open>GET /api/revocation/issuers\<close> counts them, and
  \<open>src/src/lib/revocation/relay-metrics.ts\<close> keeps the last pull per issuer key. The collation of a
  text column is the parameter \<open>rank\<close>; a \<open>uuid\<close> column orders by its bytes, which is the order of
  its lower-case text.
\<close>

section \<open>Recording\<close>

definition MIN_REVOKED_AT_MS :: instant where "MIN_REVOKED_AT_MS = 0"
definition MAX_REVOKED_AT_MS :: instant where "MAX_REVOKED_AT_MS = 253402300799999"

definition reason_problem :: "json option \<Rightarrow> jstring option" where
  "reason_problem v =
     (if nullish v then None
      else case as_string v of
        None \<Rightarrow> Some (js ''reason must be a string'')
      | Some s \<Rightarrow>
          if length s > 500 then Some (js ''reason exceeds 500 character limit'')
          else if has_nul s then Some (js ''reason must not contain a NUL character'') else None)"

definition iss_invalid :: "json option \<Rightarrow> bool" where
  "iss_invalid v \<longleftrightarrow> \<not> nullish v \<and> (case as_string v of None \<Rightarrow> True | Some s \<Rightarrow> \<not> AID_RE s)"

definition revoked_at :: "route_env \<Rightarrow> instant \<Rightarrow> json option \<Rightarrow> jstring + instant" where
  "revoked_at env now v =
     (case as_string v of
        None \<Rightarrow> Inr now
      | Some s \<Rightarrow>
          (case ro_date_parse env s of
             None \<Rightarrow> Inl (js ''revokedAt must be a parseable date string (ISO-8601 recommended)'')
           | Some ms \<Rightarrow>
               if \<not> (ms \<ge> MIN_REVOKED_AT_MS \<and> ms \<le> MAX_REVOKED_AT_MS) then
                 Inl (js ''revokedAt must be between 1970-01-01T00:00:00.000Z and 9999-12-31T23:59:59.999Z'')
               else Inr ms))"

text \<open>Who the entry is relayed to: the projected issuer, the stored one, or the given one.\<close>

definition issuer_for :: "jstring \<Rightarrow> jstring option \<Rightarrow> db \<Rightarrow> idempotent_result + jstring" where
  "issuer_for jti givenIss d =
     (let projectedIss = (case find_row it_jti (uuid_value jti) (issued_tcts d) of
            Some t \<Rightarrow> if AID_RE (it_issuerAid t) then Some (it_issuerAid t) else None | None \<Rightarrow> None);
          storedIss = (case find_row re_jti (uuid_value jti) (revocation_entries d) of
            Some e \<Rightarrow> re_iss e | None \<Rightarrow> None);
          knownIss = orelse projectedIss storedIss
      in if projectedIss \<noteq> None \<and> storedIss \<noteq> None \<and> projectedIss \<noteq> storedIss then
           Inl (refuse 409 (js ''the stored entry names a different issuer than the TCT recorded for this jti'') ''ISS_MISMATCH'')
         else if knownIss \<noteq> None \<and> givenIss \<noteq> None \<and> knownIss \<noteq> givenIss then
           Inl (refuse 409 (js ''iss does not match the issuer recorded for this jti'') ''ISS_MISMATCH'')
         else case orelse knownIss givenIss of
           None \<Rightarrow> Inl (refuse 400 (js ''iss is required: the CP has no TCT recorded for this jti'') ''ISS_REQUIRED'')
         | Some iss \<Rightarrow> Inr iss)"

record revocation_request =
  rr_jti :: jstring
  rr_reason :: "jstring option"
  rr_revokedAt :: instant
  rr_iss :: jstring

text \<open>Every check of the route, in its order.\<close>

definition revocation_checks ::
  "route_env \<Rightarrow> instant \<Rightarrow> json \<Rightarrow> db \<Rightarrow> idempotent_result + revocation_request" where
  "revocation_checks env now body d =
     (case as_string (get body ''jti'') of
        None \<Rightarrow> Inl (refuse 400 (js ''jti must be a lowercase UUID v4'') ''JTI_INVALID'')
      | Some jti \<Rightarrow>
          if \<not> JTI_V4_RE jti then Inl (refuse 400 (js ''jti must be a lowercase UUID v4'') ''JTI_INVALID'')
          else case reason_problem (get body ''reason'') of
            Some msg \<Rightarrow> Inl (invalid msg)
          | None \<Rightarrow>
              if iss_invalid (get body ''iss'') then
                Inl (refuse 400 (js ''iss must be an issuer AID (aid:...)'') ''ISS_INVALID'')
              else case revoked_at env now (get body ''revokedAt'') of
                Inl msg \<Rightarrow> Inl (invalid msg)
              | Inr ms \<Rightarrow>
                  (case issuer_for jti (as_string (get body ''iss'')) d of
                     Inl refusal \<Rightarrow> Inl refusal
                   | Inr iss \<Rightarrow> Inr \<lparr>rr_jti = jti, rr_reason = as_string (get body ''reason''),
                                    rr_revokedAt = ms, rr_iss = iss\<rparr>))"

definition record_entry :: "instant \<Rightarrow> revocation_request \<Rightarrow> revocation_entry list \<Rightarrow> revocation_entry list" where
  "record_entry now q t = insert_update re_jti
     \<lparr>re_jti = uuid_value (rr_jti q), re_revokedAt = rr_revokedAt q, re_reason = rr_reason q,
      re_iss = Some (rr_iss q), re_createdAt = now\<rparr>
     (\<lambda>e. if re_iss e = None then e\<lparr>re_iss := Some (rr_iss q)\<rparr> else e) t"

definition revocation_event :: "jstring \<Rightarrow> revocation_request \<Rightarrow> audit_event" where
  "revocation_event uid q = \<lparr>ev_id = uid, ev_type = js ''tct.revoked'', ev_ts = rr_revokedAt q, ev_aidA = None,
     ev_aidB = None, ev_sessionId = None, ev_runId = None, ev_grants = None,
     ev_payload = jobj [(''jti'', JStr (rr_jti q)), (''reason'', jopt (rr_reason q)), (''iss'', JStr (rr_iss q))],
     ev_source = Some (js ''cp'')\<rparr>"

text \<open>What follows the insert of the entry.\<close>

definition revocation_effects ::
  "route_env \<Rightarrow> tct_env \<Rightarrow> route_input \<Rightarrow> http_request \<Rightarrow> revocation_request \<Rightarrow> route_state \<Rightarrow> route_state" where
  "revocation_effects env tct v r q s =
     (let e = revocation_event (rv_event_id v) q;
          s1 = set_db (ingestOneEvent (rv_now v) e (rt_db s)) s;
          s2 = s1\<lparr>rt_cp := publish_event (ro_fan env) e (rt_cp s1)\<rparr>;
          s3 = set_db (onTctEvent tct (rv_now v) e (rt_db s2)) s2;
          s4 = set_db (dispatchWebhooks (ro_fan env) (rv_now v) e (rt_db s3)) s3
      in audit_action v (rq_headers r) None ''revocation.add'' (rr_jti q)
           (Some [(''reason'', jopt (rr_reason q)), (''iss'', JStr (rr_iss q))]) s4)"

definition revocation_exec ::
  "route_env \<Rightarrow> tct_env \<Rightarrow> route_input \<Rightarrow> http_request \<Rightarrow> json \<Rightarrow> route_state \<Rightarrow>
     idempotent_result option \<times> route_state" where
  "revocation_exec env tct v r body s =
     (case revocation_checks env (rv_now v) body (rt_db s) of
        Inl refusal \<Rightarrow> (Some refusal, s)
      | Inr q \<Rightarrow>
          (if rv_write_fails v then (None, s)
           else
             let s1 = set_db ((rt_db s)\<lparr>revocation_entries := record_entry (rv_now v) q (revocation_entries (rt_db s))\<rparr>) s
             in if rv_event_fails v then (None, s1)
                else (Some \<lparr>ir_status = 201, ir_body = jobj [(''jti'', JStr (rr_jti q)),
                        (''revokedAt'', JStr (de_iso (fe_delivery (ro_fan env)) (rr_revokedAt q))),
                        (''reason'', jopt (rr_reason q)), (''iss'', JStr (rr_iss q))]\<rparr>,
                      revocation_effects env tct v r q s1)))"

section \<open>Relaying\<close>

record issuer_pull =
  ip_aid :: jstring
  ip_secs :: int

type_synonym issuer_pulls = "jstring \<rightharpoonup> issuer_pull"

definition recordIssuerPull :: "jstring \<Rightarrow> jstring \<Rightarrow> instant \<Rightarrow> issuer_pulls \<Rightarrow> issuer_pulls" where
  "recordIssuerPull label aid nowMs pulls = pulls(label \<mapsto> \<lparr>ip_aid = aid, ip_secs = nowMs div 1000\<rparr>)"

definition relay_rows :: "jstring \<Rightarrow> revocation_entry list \<Rightarrow> revocation_entry list" where
  "relay_rows iss t = sort_key (\<lambda>e. (re_revokedAt e, re_jti e)) (filter (\<lambda>e. re_iss e = Some iss) t)"

definition relay_entry :: "revocation_entry \<Rightarrow> json" where
  "relay_entry e = jobj ([(''jti'', JStr (re_jti e)), (''revoked_at'', jint (re_revokedAt e div 1000))] @
     (case re_reason e of None \<Rightarrow> [] | Some s \<Rightarrow> [(''reason'', JStr s)]))"

definition with_headers :: "(string \<times> string) list \<Rightarrow> http_response \<Rightarrow> http_response" where
  "with_headers hs resp = resp\<lparr>rs_headers := map_of (map (\<lambda>(k, v). (js k, js v)) hs)\<rparr>"

definition revocations_GET ::
  "search_params \<Rightarrow> headers \<Rightarrow> instant \<Rightarrow> bool \<Rightarrow> revocation_entry list \<Rightarrow> issuer_pulls \<Rightarrow>
     http_response \<times> issuer_pulls" where
  "revocations_GET q h now dbFails t pulls =
     (case q ''iss'' of
        None \<Rightarrow> (badRequest (js ''iss must be an issuer AID (aid:...)'') ''ISS_INVALID'', pulls)
      | Some iss \<Rightarrow>
          if \<not> AID_RE iss then (badRequest (js ''iss must be an issuer AID (aid:...)'') ''ISS_INVALID'', pulls)
          else if h KEY_ISSUER_HEADER \<noteq> None \<and> h KEY_ISSUER_HEADER \<noteq> Some iss then
            (json_response 403 (error_body ''this key may only read its own issuer'' ''ISSUER_MISMATCH''), pulls)
          else if dbFails then
            (with_headers [(''cache-control'', ''no-store''), (''retry-after'', ''30'')]
               (json_response 503 (error_body ''revocation entries temporarily unavailable'' ''REVOCATION_UNAVAILABLE'')), pulls)
          else
            (with_headers [(''cache-control'', ''no-store'')]
               (json_response 200 (jobj [(''iss'', JStr iss), (''entries'', JArr (map relay_entry (relay_rows iss t)))])),
             (case h KEY_ISSUER_HEADER of
                Some bound \<Rightarrow> if blank (h KEY_LABEL_HEADER) then pulls
                  else recordIssuerPull (the (h KEY_LABEL_HEADER)) bound now pulls
              | None \<Rightarrow> pulls)))"

definition issuer_counts :: "(jstring \<Rightarrow> nat) \<Rightarrow> revocation_entry list \<Rightarrow> (jstring \<times> nat) list" where
  "issuer_counts rank t =
     (let isses = remdups (concat (map (\<lambda>e. case re_iss e of None \<Rightarrow> [] | Some iss \<Rightarrow> [iss]) t))
      in map (\<lambda>iss. (iss, length (filter (\<lambda>e. re_iss e = Some iss) t))) (sort_key rank isses))"

definition issuers_GET ::
  "(jstring \<Rightarrow> nat) \<Rightarrow> (jstring \<Rightarrow> int option) \<Rightarrow> search_params \<Rightarrow> revocation_entry list \<Rightarrow> http_response" where
  "issuers_GET rank to_number q t =
     (let pg = parsePagination to_number (q ''limit'') (q ''offset'') 100 1000;
          rows = take (nat (pg_limit pg)) (drop (nat (pg_offset pg)) (issuer_counts rank t))
      in with_headers [(''cache-control'', ''no-store'')]
           (json_response 200 (jobj [(''issuers'', JArr (map (\<lambda>(iss, n). jobj [(''iss'', JStr iss), (''entries'', jint (int n))]) rows)),
              (''limit'', jint (pg_limit pg)), (''offset'', jint (pg_offset pg))])))"

section \<open>Lemmas\<close>

lemma upper_to_lower: "is_upper c \<Longrightarrow> \<not> is_lower_hex c"
  unfolding is_upper_def is_lower_hex_def is_digit_def by unat_arith

lemma uuid_pattern_lower:
  "matches ps s \<Longrightarrow> (\<And>p c. p \<in> set ps \<Longrightarrow> p c \<Longrightarrow> \<not> is_upper c) \<Longrightarrow> uuid_value s = s"
proof (induction ps s rule: matches.induct)
  case (2 p ps c cs)
  then have "\<not> is_upper c" "uuid_value cs = cs" by auto
  then show ?case by (simp add: uuid_value_def)
qed (simp_all add: uuid_value_def)

lemma JTI_V4_uuid_value: "JTI_V4_RE s \<Longrightarrow> uuid_value s = s"
  unfolding JTI_V4_RE_def
proof (erule uuid_pattern_lower)
  fix p c assume "p \<in> set (uuid_pattern is_lower_hex (\<lambda>c. c = 52) (\<lambda>c. c = 56 \<or> c = 57 \<or> c = 97 \<or> c = 98))" "p c"
  then consider "is_lower_hex c" | "is_dash c" | "c = 52" | "c = 56 \<or> c = 57 \<or> c = 97 \<or> c = 98"
    by (auto simp: uuid_pattern_def)
  then show "\<not> is_upper c"
  proof cases
    case 1
    with upper_to_lower show ?thesis by blast
  next
    case 2
    then have "c = cu (CHR ''-'')" by (simp add: is_dash_def)
    moreover have "\<not> is_upper (cu (CHR ''-''))" by code_simp
    ultimately show ?thesis by simp
  qed (auto simp: is_upper_def)
qed

lemma issuer_for_Inr:
  "issuer_for jti given d = Inr iss \<Longrightarrow>
   (case find_row re_jti (uuid_value jti) (revocation_entries d) of Some e \<Rightarrow> re_iss e \<in> {None, Some iss} | None \<Rightarrow> True)"
  by (auto simp: issuer_for_def Let_def orelse_def split: option.splits if_splits)

lemma revocation_checks_Inr:
  assumes "revocation_checks env now body d = Inr q"
  shows "get body ''jti'' = Some (JStr (rr_jti q))" "JTI_V4_RE (rr_jti q)"
    "issuer_for (rr_jti q) (as_string (get body ''iss'')) d = Inr (rr_iss q)"
  using assms
  by (auto simp: revocation_checks_def as_string_Some split: option.splits if_splits sum.splits)

lemma revocation_checks_Inl: "revocation_checks env now body d = Inl a \<Longrightarrow> ir_status a \<noteq> 201"
  by (auto simp: revocation_checks_def issuer_for_def Let_def split: option.splits if_splits sum.splits)

interpretation revocation_route: audited_route "\<lambda>(v, r, body). revocation_exec env tct v r body" for env tct
  by unfold_locales
    (auto simp: revocation_exec_def revocation_effects_def Let_def dest: revocation_checks_Inl
      split: sum.splits if_splits)

lemma descends_keys:
  assumes "map (\<lambda>r. (dg_jti r, dg_parentJti r)) rows = map (\<lambda>r. (dg_jti r, dg_parentJti r)) rows'"
  shows "descends rows = descends rows'"
proof -
  from arg_cong [OF assms, of set]
  have "(\<lambda>r. (dg_jti r, dg_parentJti r)) ` set rows = (\<lambda>r. (dg_jti r, dg_parentJti r)) ` set rows'" by simp
  then show ?thesis by (intro ext iffI) (blast intro: descends_mono [OF equalityD1] descends_mono [OF equalityD2])+
qed

lemma cascade_descends [simp]: "descends (cascade ts j rows) = descends rows"
  by (rule descends_keys) (simp add: cascade_eq)

lemma record_entry_find:
  "find_row re_jti k (record_entry now q t) =
     (if k = uuid_value (rr_jti q) then
        Some (case find_row re_jti k t of
                None \<Rightarrow> \<lparr>re_jti = uuid_value (rr_jti q), re_revokedAt = rr_revokedAt q, re_reason = rr_reason q,
                         re_iss = Some (rr_iss q), re_createdAt = now\<rparr>
              | Some e \<Rightarrow> if re_iss e = None then e\<lparr>re_iss := Some (rr_iss q)\<rparr> else e)
      else find_row re_jti k t)"
proof (cases "uuid_value (rr_jti q) \<in> re_jti ` set t")
  case True
  then have "find_row re_jti (uuid_value (rr_jti q)) t \<noteq> None" by (simp add: find_row_None_iff)
  with True show ?thesis
    by (auto simp: record_entry_def insert_update_def find_row_update_key split: option.split)
next
  case False
  then have "find_row re_jti (uuid_value (rr_jti q)) t = None" by (simp add: find_row_None_iff)
  with False show ?thesis
    by (auto simp: record_entry_def insert_update_def find_row_append split: option.split)
qed

text \<open>What the effects leave in the tables.\<close>

lemma revocation_effects_tables:
  assumes "JTI_V4_RE (rr_jti q)"
  shows "revocation_entries (rt_db (revocation_effects env tct v r q s)) = revocation_entries (rt_db s)"
    and "issued_tcts (rt_db (revocation_effects env tct v r q s)) =
      update_where (\<lambda>t. it_jti t = rr_jti q \<and> \<not> it_revoked t)
        (\<lambda>t. t\<lparr>it_revoked := True, it_revokedAt := Some (rr_revokedAt q)\<rparr>) (issued_tcts (rt_db s))"
    and "delegations (rt_db (revocation_effects env tct v r q s)) =
      cascade (rr_revokedAt q) (rr_jti q) (delegations (rt_db s))"
proof -
  have "\<not> JTI_V4_RE []" by code_simp
  with assms have nonempty: "rr_jti q \<noteq> []" by metis
  have "event_jti (revocation_event (rv_event_id v) q) = Some (rr_jti q)"
    using assms JTI_V4_is_JTI [OF assms]
    using JTI_V4_uuid_value [OF assms] nonempty
    by (simp add: event_jti_def revocation_event_def nonempty_string_def)
  then show "revocation_entries (rt_db (revocation_effects env tct v r q s)) = revocation_entries (rt_db s)"
    "issued_tcts (rt_db (revocation_effects env tct v r q s)) =
      update_where (\<lambda>t. it_jti t = rr_jti q \<and> \<not> it_revoked t)
        (\<lambda>t. t\<lparr>it_revoked := True, it_revokedAt := Some (rr_revokedAt q)\<rparr>) (issued_tcts (rt_db s))"
    "delegations (rt_db (revocation_effects env tct v r q s)) =
      cascade (rr_revokedAt q) (rr_jti q) (delegations (rt_db s))"
    by (simp_all add: revocation_effects_def Let_def dispatchWebhooks_def dispatch_to_deliveries publish_event_def
        ingestOneEvent_def onTctEvent_def recordRevocation_def) (simp_all add: revocation_event_def)
qed

lemma revocation_exec_cases:
  assumes "revocation_exec env tct v r body s = (ans, s')"
  obtains (same) "s' = s" "\<And>a. ans = Some a \<Longrightarrow> ir_status a \<noteq> 201"
  | (stored) q where "revocation_checks env (rv_now v) body (rt_db s) = Inr q" "ans = None"
      "s' = set_db ((rt_db s)\<lparr>revocation_entries := record_entry (rv_now v) q (revocation_entries (rt_db s))\<rparr>) s"
  | (recorded) q a where "revocation_checks env (rv_now v) body (rt_db s) = Inr q" "ans = Some a" "ir_status a = 201"
      "get (ir_body a) ''jti'' = Some (JStr (rr_jti q))" "get (ir_body a) ''iss'' = Some (JStr (rr_iss q))"
      "s' = revocation_effects env tct v r q
        (set_db ((rt_db s)\<lparr>revocation_entries := record_entry (rv_now v) q (revocation_entries (rt_db s))\<rparr>) s)"
  using assms
  by (auto simp: revocation_exec_def Let_def dest: revocation_checks_Inl split: sum.splits if_splits)

section \<open>Published entries\<close>

definition entries_ok :: "db \<Rightarrow> bool" where
  "entries_ok d \<longleftrightarrow> unique_key re_jti (revocation_entries d) \<and>
     (\<forall>e \<in> set (revocation_entries d). case re_iss e of Some iss \<Rightarrow> AID_RE iss | None \<Rightarrow> True)"

text \<open>What an issuer is handed for an entry: id, time and reason.\<close>

definition published :: "db \<Rightarrow> (jstring \<times> jstring \<times> instant \<times> jstring option) set" where
  "published d = {(iss, re_jti e, re_revokedAt e, re_reason e) | iss e. e \<in> set (revocation_entries d) \<and> re_iss e = Some iss}"

definition revocation_step ::
  "route_env \<Rightarrow> tct_env \<Rightarrow> route_state \<Rightarrow> route_input \<times> http_request \<times> json \<Rightarrow> route_state" where
  "revocation_step env tct s x = (case x of (v, r, body) \<Rightarrow> snd (revocation_exec env tct v r body s))"

lemma issuer_for_AID:
  assumes "issuer_for jti given d = Inr iss" and "entries_ok d" and "\<And>g. given = Some g \<Longrightarrow> AID_RE g"
  shows "AID_RE iss"
proof -
  have "AID_RE i" if "find_row re_jti k (revocation_entries d) = Some e" "re_iss e = Some i" for k e i
    using find_row_SomeD [OF that(1)] that(2) assms(2) by (auto simp: entries_ok_def)
  with assms(1,3) show ?thesis
    by (auto simp: issuer_for_def Let_def orelse_def split: option.splits if_splits)
qed

lemma revocation_checks_AID:
  assumes "revocation_checks env now body d = Inr q" and "entries_ok d"
  shows "AID_RE (rr_iss q)"
proof -
  have "AID_RE g" if "as_string (get body ''iss'') = Some g" for g
    using assms(1) that by (auto simp: revocation_checks_def iss_invalid_def nullish_def as_string_Some
        split: option.splits if_splits sum.splits)
  with issuer_for_AID [OF revocation_checks_Inr(3) [OF assms(1)] assms(2)] show ?thesis .
qed

lemma record_entry_ok:
  "entries_ok d \<Longrightarrow> AID_RE (rr_iss q) \<Longrightarrow> entries_ok (d\<lparr>revocation_entries := record_entry now q (revocation_entries d)\<rparr>)"
  by (auto simp: entries_ok_def record_entry_def intro!: unique_key_insert_update)
     (auto simp: insert_update_def set_update_where split: if_splits)

lemma record_entry_keeps: "e \<in> set t \<Longrightarrow> re_iss e = Some iss \<Longrightarrow> e \<in> set (record_entry now q t)"
  by (auto simp: record_entry_def insert_update_def set_update_where image_iff intro!: bexI [of _ e])

lemma published_iff:
  "(iss, j, ts, why) \<in> published d \<longleftrightarrow>
     (\<exists>e \<in> set (revocation_entries d). re_iss e = Some iss \<and> re_jti e = j \<and> re_revokedAt e = ts \<and> re_reason e = why)"
  by (auto simp: published_def)

lemma record_entry_published:
  "published d \<subseteq> published (d\<lparr>revocation_entries := record_entry now q (revocation_entries d)\<rparr>)"
proof
  fix x assume "x \<in> published d"
  then obtain iss e where "e \<in> set (revocation_entries d)" "re_iss e = Some iss"
    "x = (iss, re_jti e, re_revokedAt e, re_reason e)" unfolding published_def by blast
  with record_entry_keeps [OF this(1,2), of now q]
  show "x \<in> published (d\<lparr>revocation_entries := record_entry now q (revocation_entries d)\<rparr>)"
    unfolding published_def by force
qed

lemma revocation_step_entries:
  obtains (same) "revocation_entries (rt_db (revocation_step env tct s x)) = revocation_entries (rt_db s)"
  | (recorded) now q body where "revocation_checks env now body (rt_db s) = Inr q"
      "revocation_entries (rt_db (revocation_step env tct s x)) = record_entry now q (revocation_entries (rt_db s))"
proof -
  obtain v r body where x: "x = (v, r, body)" by (cases x) auto
  obtain ans s' where run: "revocation_exec env tct v r body s = (ans, s')" by fastforce
  from run show thesis
  proof (cases rule: revocation_exec_cases)
    case same
    with run x show thesis by (intro that(1)) (simp add: revocation_step_def)
  next
    case (stored q)
    with run x show thesis by (intro that(2)) (simp_all add: revocation_step_def)
  next
    case (recorded q a)
    with run x revocation_checks_Inr(2) [OF recorded(1)] show thesis
      by (intro that(2)) (simp_all add: revocation_step_def revocation_effects_tables)
  qed
qed

interpretation revocations: marking_machine "revocation_step env tct" "\<lambda>s. entries_ok (rt_db s)" "\<lambda>s. published (rt_db s)"
  for env tct
proof unfold_locales
  fix s x assume ok: "entries_ok (rt_db s)"
  show "entries_ok (rt_db (revocation_step env tct s x))"
  proof (cases rule: revocation_step_entries [of env tct s x])
    case same
    with ok show ?thesis by (simp add: entries_ok_def)
  next
    case (recorded now q body)
    from record_entry_ok [OF ok revocation_checks_AID [OF recorded(1) ok]] recorded(2) show ?thesis
      by (simp add: entries_ok_def)
  qed
  show "published (rt_db s) \<subseteq> published (rt_db (revocation_step env tct s x))"
  proof (cases rule: revocation_step_entries [of env tct s x])
    case (recorded now q body)
    with record_entry_published [of "rt_db s" now q] show ?thesis by (simp add: published_def)
  qed (simp add: published_def)
qed

lemma set_relay_rows [simp]: "set (relay_rows iss t) = {e \<in> set t. re_iss e = Some iss}"
  by (auto simp: relay_rows_def)

definition demo_revocation_body :: json where
  "demo_revocation_body = jobj [(''jti'', JStr (token_id 2)), (''iss'', jlit ''aid:a'')]"

definition demo_delegation_row :: "nat \<Rightarrow> nat \<Rightarrow> delegation" where
  "demo_delegation_row p j = \<lparr>dg_jti = token_id j, dg_parentJti = token_id p, dg_delegatorAid = js ''aid:a'',
     dg_delegateeAid = js ''aid:b'', dg_scope = [], dg_issuedAt = 0, dg_expiresAt = None, dg_revoked = False,
     dg_revokedAt = None, dg_revokedReason = None, dg_createdAt = 0\<rparr>"

definition demo_revocation_db :: db where
  "demo_revocation_db = empty_db\<lparr>issued_tcts := [demo_revoked_tct\<lparr>it_revoked := False, it_revokedAt := None\<rparr>],
     delegations := [demo_delegation_row 2 3, demo_delegation_row 3 4]\<rparr>"

abbreviation demo_revocation_run :: "idempotent_result option \<times> route_state" where
  "demo_revocation_run \<equiv> revocation_exec demo_route_env demo_tct_env demo_route_input (demo_post ''/api/revocation/entries'')
     demo_revocation_body (demo_route_state demo_revocation_db)"

lemma demo_revocation_accepted:
  "\<exists>a s'. demo_revocation_run = (Some a, s') \<and> ir_status a = 201 \<and> get (ir_body a) ''iss'' = Some (jlit ''aid:a'')"
proof -
  have "JTI_V4_RE (token_id 2)" "AID_RE (js ''aid:a'')" by code_simp+
  then have "revocation_checks demo_route_env 8000 demo_revocation_body demo_revocation_db =
    Inr \<lparr>rr_jti = token_id 2, rr_reason = None, rr_revokedAt = 8000, rr_iss = js ''aid:a''\<rparr>"
    by (simp add: revocation_checks_def demo_revocation_body_def reason_problem_def iss_invalid_def nullish_def
        revoked_at_def issuer_for_def Let_def demo_revocation_db_def empty_db_def demo_revoked_tct_def token_ids)
  then show ?thesis
    by (simp add: revocation_exec_def demo_route_input_def demo_route_state_def Let_def)
qed

section \<open>Properties\<close>



text \<open>
  C8. An accepted revocation reaches its issuer and stays: whatever revocations follow, in whatever
  order and on whatever replica, the issuer's next pull (under its own key or an admin key)
  answers 200 with an entry for the token, and the time and reason published for it are the
  ones the entry had when the revocation was accepted.
\<close>

theorem accepted_revocation_is_relayed:
  assumes "entries_ok (rt_db s)" and "revocation_exec env tct v r body s = (Some a, s1)" and "ir_status a = 201"
    and "get (ir_body a) ''iss'' = Some (JStr iss)" and "h KEY_ISSUER_HEADER \<in> {None, Some iss}"
  shows "\<exists>jti e es. get body ''jti'' = Some (JStr jti) \<and> find_row re_jti jti (revocation_entries (rt_db s1)) = Some e \<and>
    rs_status (fst (revocations_GET [''iss'' \<mapsto> iss] h now False
      (revocation_entries (rt_db (foldl (revocation_step env tct) s1 later))) pulls)) = 200 \<and>
    get (rs_body (fst (revocations_GET [''iss'' \<mapsto> iss] h now False
      (revocation_entries (rt_db (foldl (revocation_step env tct) s1 later))) pulls))) ''entries'' = Some (JArr es) \<and>
    relay_entry e \<in> set es"
  using assms(2)
proof (cases rule: revocation_exec_cases)
  case same
  with assms(3) show ?thesis by auto
next
  case (recorded q b)
  let ?s2 = "foldl (revocation_step env tct) s1 later"
  note c = revocation_checks_Inr [OF recorded(1)]
  have iss: "rr_iss q = iss" using recorded(2,5) assms(4) by simp
  have aid: "AID_RE iss" using revocation_checks_AID [OF recorded(1) assms(1)] iss by simp
  have "s1 = revocation_step env tct s (v, r, body)" using assms(2) by (simp add: revocation_step_def)
  with revocations.step_inv [OF assms(1)] have ok: "entries_ok (rt_db s1)" by simp
  have "revocation_entries (rt_db s1) = record_entry (rv_now v) q (revocation_entries (rt_db s))"
    using recorded(6) by (simp add: revocation_effects_tables [OF c(2)])
  with issuer_for_Inr [OF c(3)] JTI_V4_uuid_value [OF c(2)] obtain e where
    e: "find_row re_jti (rr_jti q) (revocation_entries (rt_db s1)) = Some e" "re_iss e = Some iss"
    by (auto simp: record_entry_find iss split: option.splits)
  then have "(iss, re_jti e, re_revokedAt e, re_reason e) \<in> published (rt_db s1)"
    by (auto simp: published_def dest: find_row_SomeD)
  with revocations.run_marks_mem [OF ok] have "(iss, re_jti e, re_revokedAt e, re_reason e) \<in> published (rt_db ?s2)" .
  then obtain e2 where "e2 \<in> set (revocation_entries (rt_db ?s2))" "re_iss e2 = Some iss" "relay_entry e2 = relay_entry e"
    by (auto simp: published_def relay_entry_def)
  then have "relay_entry e \<in> set (map relay_entry (relay_rows iss (revocation_entries (rt_db ?s2))))"
    by (simp only: set_map set_relay_rows) (metis (mono_tags, lifting) imageI mem_Collect_eq)
  with e c(1) aid assms(5) show ?thesis
    by (intro exI [of _ "rr_jti q"]) (auto simp: revocations_GET_def with_headers_def json_response_def)
qed simp

theorem accepted_revocation_is_relayed_witness:
  "\<exists>a s1 es. demo_revocation_run = (Some a, s1) \<and> es \<noteq> [] \<and>
     get (rs_body (fst (revocations_GET [''iss'' \<mapsto> js ''aid:a''] Map.empty 0 False (revocation_entries (rt_db s1)) Map.empty)))
       ''entries'' = Some (JArr es)"
proof -
  obtain a s1 where run: "demo_revocation_run = (Some a, s1)" "ir_status a = 201" "get (ir_body a) ''iss'' = Some (jlit ''aid:a'')"
    using demo_revocation_accepted by blast
  have ok: "entries_ok (rt_db (demo_route_state demo_revocation_db))"
    by (simp add: entries_ok_def demo_route_state_def demo_revocation_db_def empty_db_def unique_key_def)
  have unbound: "Map.empty KEY_ISSUER_HEADER \<in> {None, Some (js ''aid:a'')}" by simp
  obtain e es where es: "get (rs_body (fst (revocations_GET [''iss'' \<mapsto> js ''aid:a''] Map.empty 0 False
      (revocation_entries (rt_db s1)) Map.empty))) ''entries'' = Some (JArr es)" "relay_entry e \<in> set es"
    using accepted_revocation_is_relayed [where later = "[]" and now = 0 and pulls = Map.empty, OF ok run unbound] by auto
  then have "es \<noteq> []" by auto
  with run(1) es(1) show ?thesis by blast
qed

text \<open>
  The relay answers an issuer's whole list and nothing else: a 200 is the list of exactly the
  entries recorded for the requested issuer, each once, ordered by time and then by id; the
  requested issuer is the one the key is bound to when it is bound; and when the table cannot be
  read the answer is a 503, never an empty list.
\<close>

theorem relay_serves_whole_list:
  assumes "rs_status (fst (revocations_GET q h now dbFails t pulls)) = 200"
  shows "\<not> dbFails \<and> (\<exists>iss. q ''iss'' = Some iss \<and> h KEY_ISSUER_HEADER \<in> {None, Some iss} \<and>
    get (rs_body (fst (revocations_GET q h now dbFails t pulls))) ''entries'' = Some (JArr (map relay_entry (relay_rows iss t))) \<and>
    mset (relay_rows iss t) = mset (filter (\<lambda>e. re_iss e = Some iss) t) \<and>
    sorted (map (\<lambda>e. (re_revokedAt e, re_jti e)) (relay_rows iss t)))"
proof -
  obtain iss where iss: "q ''iss'' = Some iss" "h KEY_ISSUER_HEADER \<in> {None, Some iss}" "\<not> dbFails"
    and resp: "fst (revocations_GET q h now dbFails t pulls) = with_headers [(''cache-control'', ''no-store'')]
      (json_response 200 (jobj [(''iss'', JStr iss), (''entries'', JArr (map relay_entry (relay_rows iss t)))]))"
    using assms by (auto simp: revocations_GET_def badRequest_def with_headers_def json_response_def
        split: option.splits if_splits)
  show ?thesis unfolding resp using iss(2) by (simp add: iss with_headers_def json_response_def) (simp add: relay_rows_def)
qed

theorem relay_serves_whole_list_witness:
  "get (rs_body (fst (revocations_GET [''iss'' \<mapsto> js ''aid:a''] [KEY_ISSUER_HEADER \<mapsto> js ''aid:a''] 0 False [] Map.empty)))
     ''entries'' = Some (JArr [])"
proof -
  have "AID_RE (js ''aid:a'')" by code_simp
  then have "rs_status (fst (revocations_GET [''iss'' \<mapsto> js ''aid:a''] [KEY_ISSUER_HEADER \<mapsto> js ''aid:a''] 0 False [] Map.empty)) = 200"
    by (simp add: revocations_GET_def with_headers_def json_response_def)
  from relay_serves_whole_list [OF this] show ?thesis by (auto simp: relay_rows_def)
qed

end
