(* ===== verification/Pinned_Keys.thy ===== *)
theory Pinned_Keys
  imports Admin_Route
begin

text \<open>
  The pinned-key trust store, \<open>src/src/app/api/pinned-keys/route.ts\<close>: lookup, upsert and removal
  of the Ed25519 key an operator pins for an agent in a namespace.
\<close>

section \<open>Lookup\<close>

definition PINNED_NAMESPACE_MAX :: nat where "PINNED_NAMESPACE_MAX = 128"
definition PINNED_AID_MAX :: nat where "PINNED_AID_MAX = 512"
definition LABEL_MAX :: nat where "LABEL_MAX = 128"
definition MIN_EXPIRES_AT_MS :: instant where "MIN_EXPIRES_AT_MS = -62135596800000"
definition MAX_EXPIRES_AT_MS :: instant where "MAX_EXPIRES_AT_MS = 253402300799999"

definition ED25519_PUBKEY_B64URL :: "jstring \<Rightarrow> bool" where
  "ED25519_PUBKEY_B64URL s \<longleftrightarrow> length s = 43 \<and>
     list_all (\<lambda>c. is_alnum c \<or> c = cu (CHR ''_'') \<or> c = cu (CHR ''-'')) s"

definition pinned_out :: "route_env \<Rightarrow> pinned_key \<Rightarrow> json" where
  "pinned_out env k = jobj [(''namespace'', JStr (pk_namespace k)), (''aid'', JStr (pk_aid k)),
     (''pubkey'', JStr (pk_pubkey k)), (''label'', jopt (pk_label k)), (''expiresAt'', time_or_null env (pk_expiresAt k)),
     (''addedBy'', jopt (pk_addedBy k)), (''createdAt'', JStr (ro_ts_text env (pk_createdAt k))),
     (''updatedAt'', JStr (ro_ts_text env (pk_updatedAt k)))]"

definition pinned_GET :: "route_env \<Rightarrow> search_params \<Rightarrow> pinned_key list \<Rightarrow> http_response" where
  "pinned_GET env q t =
     (case query_problem [''namespace'', ''aid''] q of
        Some resp \<Rightarrow> resp
      | None \<Rightarrow>
          if \<not> blank (q ''aid'') then
            (case find_row pin_key ((case q ''namespace'' of None \<Rightarrow> js ''default'' | Some n \<Rightarrow> n), the (q ''aid'')) t of
               None \<Rightarrow> not_found | Some k \<Rightarrow> json_response 200 (pinned_out env k))
          else
            json_response 200 (jobj [(''pinnedKeys'', JArr (map (pinned_out env) (newest_first pk_createdAt
              (if blank (q ''namespace'') then t else filter (\<lambda>k. pk_namespace k = the (q ''namespace'')) t))))]))"

section \<open>Upsert\<close>

definition expires_at_value :: "route_env \<Rightarrow> json option \<Rightarrow> jstring + instant option" where
  "expires_at_value env v =
     (case as_string v of
        None \<Rightarrow> Inr None
      | Some s \<Rightarrow>
          (case ro_date_parse env s of
             None \<Rightarrow> Inl (js ''expiresAt must be a parseable date'')
           | Some ms \<Rightarrow>
               if \<not> (ms \<ge> MIN_EXPIRES_AT_MS \<and> ms \<le> MAX_EXPIRES_AT_MS) then
                 Inl (js ''expiresAt must be between 0001-01-01T00:00:00.000Z and 9999-12-31T23:59:59.999Z'')
               else Inr (Some ms)))"

record pin_request =
  pr_namespace :: jstring
  pr_aid :: jstring
  pr_pubkey :: jstring
  pr_label :: "jstring option"
  pr_expiresAt :: "instant option"

text \<open>The checks in the route's order; the first that fails is the answer.\<close>

definition label_refusal :: "json option \<Rightarrow> nat \<Rightarrow> jstring option" where
  "label_refusal v mx = (case as_string v of None \<Rightarrow> None | Some s \<Rightarrow> column_refusal ''label'' s mx None)"

definition pin_checks :: "route_env \<Rightarrow> json \<Rightarrow> jstring + pin_request" where
  "pin_checks env body =
     (case nonempty_string (get body ''aid'') of
        None \<Rightarrow> Inl (js ''aid is required'')
      | Some aid \<Rightarrow>
          let namespace = string_or_default (get body ''namespace'') ''default'';
              pubkey = as_string (get body ''pubkey'')
          in case orelse (column_refusal ''aid'' aid PINNED_AID_MAX None)
                 (orelse (if (case pubkey of None \<Rightarrow> True | Some k \<Rightarrow> \<not> ED25519_PUBKEY_B64URL k)
                          then Some (js ''pubkey must be a 43-char base64url Ed25519 public key'') else None)
                 (orelse (column_refusal ''namespace'' namespace PINNED_NAMESPACE_MAX None)
                 (orelse (if \<not> absent_or_string (get body ''label'') then Some (js ''label must be a string or null'') else None)
                 (orelse (if \<not> absent_or_string (get body ''expiresAt'')
                          then Some (js ''expiresAt must be a string or null'') else None)
                         (label_refusal (get body ''label'') LABEL_MAX))))) of
               Some msg \<Rightarrow> Inl msg
             | None \<Rightarrow>
                 (case expires_at_value env (get body ''expiresAt'') of
                    Inl msg \<Rightarrow> Inl msg
                  | Inr expiresAt \<Rightarrow> Inr \<lparr>pr_namespace = namespace, pr_aid = aid, pr_pubkey = the pubkey,
                      pr_label = as_string (get body ''label''), pr_expiresAt = expiresAt\<rparr>))"

definition pin_upsert :: "instant \<Rightarrow> jstring option \<Rightarrow> pin_request \<Rightarrow> pinned_key list \<Rightarrow> pinned_key list" where
  "pin_upsert now addedBy p t = insert_update pin_key
     \<lparr>pk_namespace = pr_namespace p, pk_aid = pr_aid p, pk_pubkey = pr_pubkey p, pk_label = pr_label p,
      pk_addedBy = addedBy, pk_expiresAt = pr_expiresAt p, pk_createdAt = now, pk_updatedAt = now\<rparr>
     (\<lambda>k. k\<lparr>pk_pubkey := pr_pubkey p, pk_label := pr_label p, pk_expiresAt := pr_expiresAt p, pk_updatedAt := now\<rparr>) t"

definition pinned_exec ::
  "route_env \<Rightarrow> route_input \<Rightarrow> http_request \<Rightarrow> json \<Rightarrow> route_state \<Rightarrow> idempotent_result option \<times> route_state" where
  "pinned_exec env v r body s =
     (case pin_checks env body of
        Inl msg \<Rightarrow> (Some (invalid msg), s)
      | Inr p \<Rightarrow>
          (if rv_write_fails v then (None, s)
           else
             let t = pin_upsert (rv_now v) (actorIdFromAuthHeader (ro_sha256_hex env) (hdr r ''authorization'')) p
                       (pinned_keys (rt_db s))
             in (map_option (\<lambda>k. \<lparr>ir_status = 201, ir_body = pinned_out env k\<rparr>)
                   (find_row pin_key (pr_namespace p, pr_aid p) t),
                 audit_action v (rq_headers r) None ''pinned-key.upsert'' (pr_aid p)
                   (Some [(''namespace'', JStr (pr_namespace p))]) (set_db ((rt_db s)\<lparr>pinned_keys := t\<rparr>) s))))"

section \<open>Removal\<close>

definition pinned_DELETE ::
  "route_input \<Rightarrow> http_request \<Rightarrow> search_params \<Rightarrow> route_state \<Rightarrow> http_response \<times> route_state" where
  "pinned_DELETE v r q s =
     (case query_problem [''namespace'', ''aid''] q of
        Some resp \<Rightarrow> (resp, s)
      | None \<Rightarrow>
          let namespace = (case q ''namespace'' of None \<Rightarrow> js ''default'' | Some n \<Rightarrow> n)
          in if blank (q ''aid'') then (json_response 400 (error_body ''aid query param required'' ''BAD_REQUEST''), s)
             else if find_row pin_key (namespace, the (q ''aid'')) (pinned_keys (rt_db s)) = None then (not_found, s)
             else (json_response 204 JNull,
                   audit_action v (rq_headers r) None ''pinned-key.delete'' (the (q ''aid''))
                     (Some [(''namespace'', JStr namespace)])
                     (set_db ((rt_db s)\<lparr>pinned_keys :=
                        filter (\<lambda>k. pin_key k \<noteq> (namespace, the (q ''aid''))) (pinned_keys (rt_db s))\<rparr>) s)))"

section \<open>Lemmas\<close>

lemma pin_upsert_find:
  "find_row pin_key k (pin_upsert now addedBy p t) =
     (if k = (pr_namespace p, pr_aid p) then
        Some (case find_row pin_key k t of
                None \<Rightarrow> \<lparr>pk_namespace = pr_namespace p, pk_aid = pr_aid p, pk_pubkey = pr_pubkey p, pk_label = pr_label p,
                         pk_addedBy = addedBy, pk_expiresAt = pr_expiresAt p, pk_createdAt = now, pk_updatedAt = now\<rparr>
              | Some x \<Rightarrow> x\<lparr>pk_pubkey := pr_pubkey p, pk_label := pr_label p, pk_expiresAt := pr_expiresAt p, pk_updatedAt := now\<rparr>)
      else find_row pin_key k t)"
proof (cases "(pr_namespace p, pr_aid p) \<in> pin_key ` set t")
  case True
  then have "find_row pin_key (pr_namespace p, pr_aid p) t \<noteq> None" by (simp add: find_row_None_iff)
  moreover have "pin_key (x\<lparr>pk_pubkey := a, pk_label := b, pk_expiresAt := c, pk_updatedAt := d\<rparr>) = pin_key x" for x a b c d
    by (simp add: pin_key_def)
  ultimately show ?thesis using True
    by (auto simp: pin_upsert_def insert_update_def find_row_update_key split: option.split) (auto simp: pin_key_def)
next
  case False
  then have "find_row pin_key (pr_namespace p, pr_aid p) t = None" by (simp add: find_row_None_iff)
  with False show ?thesis
    by (auto simp: pin_upsert_def insert_update_def find_row_append split: option.split) (auto simp: pin_key_def)
qed

lemma pinned_exec_found:
  "find_row pin_key (pr_namespace p, pr_aid p) (pin_upsert now by p t) \<noteq> None"
  by (simp add: pin_upsert_find)

interpretation pinned_route: audited_route "\<lambda>(v, r, body). pinned_exec env v r body" for env
  by unfold_locales (auto simp: pinned_exec_def Let_def split: sum.splits if_splits)

lemma column_refusal_None: "column_refusal f v mx b = None \<Longrightarrow> \<not> has_nul v"
  by (auto simp: column_refusal_def checkColumnString_def split: if_splits)

lemma orelse_None: "orelse a b = None \<longleftrightarrow> a = None \<and> b = None"
  by (cases a) auto

lemma pin_checks_Inr:
  assumes "pin_checks env body = Inr p"
  shows "get body ''aid'' = Some (JStr (pr_aid p))" "pr_aid p \<noteq> []" "\<not> has_nul (pr_aid p)" "\<not> has_nul (pr_namespace p)"
    "get body ''pubkey'' = Some (JStr (pr_pubkey p))" "ED25519_PUBKEY_B64URL (pr_pubkey p)"
    "pr_namespace p = string_or_default (get body ''namespace'') ''default''"
    "pr_label p = as_string (get body ''label'')" "expires_at_value env (get body ''expiresAt'') = Inr (pr_expiresAt p)"
  using assms
  by (auto simp: pin_checks_def Let_def orelse_None nonempty_string_Some as_string_Some dest!: column_refusal_None
      split: option.splits if_splits sum.splits)

lemma lookup_query:
  "\<not> has_nul ns \<Longrightarrow> \<not> has_nul aid \<Longrightarrow> query_problem [''namespace'', ''aid''] [''namespace'' \<mapsto> ns, ''aid'' \<mapsto> aid] = None"
  by (simp add: query_problem_def checkQueryParam_def)

definition pinned_lookup :: "route_env \<Rightarrow> jstring \<Rightarrow> jstring \<Rightarrow> route_state \<Rightarrow> http_response" where
  "pinned_lookup env ns aid s = pinned_GET env [''namespace'' \<mapsto> ns, ''aid'' \<mapsto> aid] (pinned_keys (rt_db s))"

lemma pinned_lookup_eq:
  "\<not> has_nul ns \<Longrightarrow> \<not> has_nul aid \<Longrightarrow> aid \<noteq> [] \<Longrightarrow> pinned_lookup env ns aid s =
     (case find_row pin_key (ns, aid) (pinned_keys (rt_db s)) of None \<Rightarrow> not_found | Some k \<Rightarrow> json_response 200 (pinned_out env k))"
  by (simp add: pinned_lookup_def pinned_GET_def lookup_query)

section \<open>Properties\<close>

text \<open>
  A pinned key can be read back as it was posted, and pinning one key touches no other: when
  the upsert answers 201, the lookup under the posted namespace and agent answers 200 with the
  body the upsert answered, which holds the posted key, label and expiry (null where they were
  absent, whatever the row held before), and every other lookup answers as before.
\<close>

theorem pinned_key_roundtrip:
  assumes "pinned_exec env v r body s = (Some a, s')" and "ir_status a = 201"
  shows "\<exists>ns aid expires. get body ''aid'' = Some (JStr aid) \<and> ns = string_or_default (get body ''namespace'') ''default'' \<and>
    pinned_lookup env ns aid s' = json_response 200 (ir_body a) \<and>
    get (ir_body a) ''pubkey'' = get body ''pubkey'' \<and> get (ir_body a) ''label'' = Some (jopt (as_string (get body ''label''))) \<and>
    expires_at_value env (get body ''expiresAt'') = Inr expires \<and> get (ir_body a) ''expiresAt'' = Some (time_or_null env expires) \<and>
    (\<forall>ns' aid'. (ns', aid') \<noteq> (ns, aid) \<longrightarrow> \<not> has_nul ns' \<longrightarrow> \<not> has_nul aid' \<longrightarrow> aid' \<noteq> [] \<longrightarrow>
       pinned_lookup env ns' aid' s' = pinned_lookup env ns' aid' s)"
proof -
  obtain p where p: "pin_checks env body = Inr p" "\<not> rv_write_fails v"
    using assms by (auto simp: pinned_exec_def split: sum.splits if_splits)
  note c = pin_checks_Inr [OF p(1)]
  let ?t = "pin_upsert (rv_now v) (actorIdFromAuthHeader (ro_sha256_hex env) (hdr r ''authorization'')) p (pinned_keys (rt_db s))"
  obtain k where k: "find_row pin_key (pr_namespace p, pr_aid p) ?t = Some k" "pk_pubkey k = pr_pubkey p"
    "pk_label k = pr_label p" "pk_expiresAt k = pr_expiresAt p"
    by (auto simp: pin_upsert_find split: option.split)
  with assms(1) p have a: "ir_body a = pinned_out env k" and keys: "pinned_keys (rt_db s') = ?t"
    by (auto simp: pinned_exec_def Let_def)
  have "pinned_lookup env (pr_namespace p) (pr_aid p) s' = json_response 200 (ir_body a)"
    using c(2,3,4) k(1) by (simp add: pinned_lookup_eq keys a)
  moreover have "pinned_lookup env ns' aid' s' = pinned_lookup env ns' aid' s"
    if "(ns', aid') \<noteq> (pr_namespace p, pr_aid p)" "\<not> has_nul ns'" "\<not> has_nul aid'" "aid' \<noteq> []" for ns' aid'
    unfolding pinned_lookup_eq [OF that(2-4)] keys pin_upsert_find if_not_P [OF that(1)] ..
  ultimately show ?thesis using c(1,5,7,8,9) k(2,3,4)
    by (intro exI [of _ "pr_expiresAt p", THEN exI [of _ "pr_aid p", THEN exI [of _ "pr_namespace p"]]])
      (simp add: a pinned_out_def)
qed

definition demo_pin_body :: json where
  "demo_pin_body = jobj [(''aid'', jlit ''aid:a''), (''pubkey'', JStr (replicate 43 (cu (CHR ''A''))))]"

theorem pinned_key_roundtrip_witness:
  "\<exists>a s'. pinned_exec demo_route_env demo_route_input (demo_post ''/api/pinned-keys'') demo_pin_body (demo_route_state empty_db) = (Some a, s') \<and>
     pinned_lookup demo_route_env (js ''default'') (js ''aid:a'') s' = json_response 200 (ir_body a)"
proof -
  let ?run = "pinned_exec demo_route_env demo_route_input (demo_post ''/api/pinned-keys'') demo_pin_body (demo_route_state empty_db)"
  have "\<exists>p. pin_checks demo_route_env demo_pin_body = Inr p" by (rule exI, code_simp)
  then obtain a s' where run: "?run = (Some a, s')" "ir_status a = 201"
    by (auto simp: pinned_exec_def demo_route_input_def Let_def pin_upsert_find)
  have "get demo_pin_body ''namespace'' = None" "get demo_pin_body ''aid'' = Some (jlit ''aid:a'')"
    by (simp_all add: demo_pin_body_def)
  with pinned_key_roundtrip [OF run] run(1) show ?thesis by (auto simp: string_or_default_def nonempty_string_def)
qed

end
