(* ===== verification/Trust_Anchors.thy ===== *)
theory Trust_Anchors
  imports Admin_Route Url_Guard
begin

text \<open>
  OIDC trust anchors: the routes under \<open>src/src/app/api/trust-anchors\<close>, the column limits and lookups
  of \<open>src/src/lib/trust-anchors\<close>. The background refresher of the cached keysets is in
  \<open>Jwks_Refresher\<close>.
\<close>

section \<open>Columns and rows\<close>

definition NAME_MAX :: nat where "NAME_MAX = 128"
definition URL_MAX :: nat where "URL_MAX = 2048"

definition checkIssuerUrl :: "jstring \<Rightarrow> jstring option" where
  "checkIssuerUrl v = column_refusal ''issuerUrl'' v URL_MAX (Some URL_MAX)"

definition checkJwksUrl :: "jstring \<Rightarrow> jstring option" where
  "checkJwksUrl v = column_refusal ''jwksUrl'' v URL_MAX None"

text \<open>\<open>rowOut\<close> of the collection names who added the anchor, the one of the item does not.\<close>

definition anchor_out :: "route_env \<Rightarrow> bool \<Rightarrow> trust_anchor \<Rightarrow> json" where
  "anchor_out env with_actor a = jobj ([(''id'', JStr (ta_id a)), (''namespace'', JStr (ta_namespace a)),
     (''issuerUrl'', JStr (ta_issuerUrl a)), (''jwksUrl'', jopt (ta_jwksUrl a)), (''label'', jopt (ta_label a)),
     (''jwksCachedAt'', time_or_null env (ta_jwksCachedAt a))] @
     (if with_actor then [(''addedBy'', jopt (ta_addedBy a))] else []) @
     [(''createdAt'', JStr (ro_ts_text env (ta_createdAt a))), (''updatedAt'', JStr (ro_ts_text env (ta_updatedAt a)))])"

definition findAnchorIdByIssuer :: "jstring \<Rightarrow> jstring \<Rightarrow> trust_anchor list \<Rightarrow> jstring option" where
  "findAnchorIdByIssuer namespace issuerUrl t = map_option ta_id (find_row anchor_key (namespace, issuerUrl) t)"

definition alreadyExistsBody :: "jstring option \<Rightarrow> json" where
  "alreadyExistsBody existing = jobj ([
     (''error'', JStr (js ''trust anchor already exists for this (namespace, issuerUrl) '' @ [0x2014] @
        js '' PATCH the existing id to update'')), (''code'', jlit ''ALREADY_EXISTS'')] @
     (case existing of None \<Rightarrow> [] | Some i \<Rightarrow> [(''existing'', jobj [(''id'', JStr i)])]))"

section \<open>The collection\<close>

definition anchors_GET :: "route_env \<Rightarrow> search_params \<Rightarrow> trust_anchor list \<Rightarrow> http_response" where
  "anchors_GET env q t =
     (case checkQueryParam (q ''namespace'') of
        Some p \<Rightarrow> badRequest (column_message (js ''namespace'') p) ''BAD_REQUEST''
      | None \<Rightarrow> json_response 200 (jobj [(''trustAnchors'', JArr (map (anchor_out env True) (newest_first ta_createdAt
          (if blank (q ''namespace'') then t else filter (\<lambda>a. ta_namespace a = the (q ''namespace'')) t))))]))"

record anchor_request =
  ar_namespace :: jstring
  ar_issuerUrl :: jstring
  ar_jwksUrl :: "jstring option"
  ar_label :: "jstring option"

definition jwks_url_problem :: "jstring option \<Rightarrow> jstring option" where
  "jwks_url_problem u = (case u of
     None \<Rightarrow> None
   | Some s \<Rightarrow> if \<not> isHttpUrl (Some (JStr s)) then Some (js ''jwksUrl must be an http(s) URL'') else checkJwksUrl s)"

definition anchor_label_problem :: "jstring option \<Rightarrow> jstring option" where
  "anchor_label_problem l = (case l of None \<Rightarrow> None | Some s \<Rightarrow> column_refusal ''label'' s NAME_MAX None)"

definition anchor_checks :: "json \<Rightarrow> jstring + anchor_request" where
  "anchor_checks body =
     (if \<not> isHttpUrl (get body ''issuerUrl'') then Inl (js ''issuerUrl must be an http(s) URL'')
      else
        let issuerUrl = the (as_string (get body ''issuerUrl''));
            namespace = string_or_default (get body ''namespace'') ''default'';
            jwksUrl = nonempty_string (get body ''jwksUrl'');
            label = as_string (get body ''label'')
        in case orelse (checkIssuerUrl issuerUrl)
               (orelse (column_refusal ''namespace'' namespace NAME_MAX None)
               (orelse (jwks_url_problem jwksUrl) (anchor_label_problem label))) of
             Some msg \<Rightarrow> Inl msg
           | None \<Rightarrow> Inr \<lparr>ar_namespace = namespace, ar_issuerUrl = issuerUrl, ar_jwksUrl = jwksUrl, ar_label = label\<rparr>)"

definition new_anchor :: "instant \<Rightarrow> jstring \<Rightarrow> jstring option \<Rightarrow> anchor_request \<Rightarrow> trust_anchor" where
  "new_anchor now uid addedBy q = \<lparr>ta_id = uid, ta_namespace = ar_namespace q, ta_issuerUrl = ar_issuerUrl q,
     ta_jwksUrl = ar_jwksUrl q, ta_jwksCache = None, ta_jwksCachedAt = None, ta_label = ar_label q,
     ta_addedBy = addedBy, ta_createdAt = now, ta_updatedAt = now\<rparr>"

text \<open>\<open>insert_anchor\<close> raises the unique violation as \<open>None\<close>.\<close>

definition insert_anchor :: "trust_anchor \<Rightarrow> trust_anchor list \<Rightarrow> trust_anchor list option" where
  "insert_anchor a t = (if anchor_key a \<in> anchor_key ` set t then None else Some (t @ [a]))"

definition anchors_exec ::
  "route_env \<Rightarrow> route_input \<Rightarrow> http_request \<Rightarrow> json \<Rightarrow> route_state \<Rightarrow> idempotent_result option \<times> route_state" where
  "anchors_exec env v r body s =
     (case anchor_checks body of
        Inl msg \<Rightarrow> (Some (invalid msg), s)
      | Inr q \<Rightarrow>
          (if rv_write_fails v then (None, s)
           else
             let a = new_anchor (rv_now v) (rv_uid v) (actorIdFromAuthHeader (ro_sha256_hex env) (hdr r ''authorization'')) q
             in case insert_anchor a (trust_anchors (rt_db s)) of
                  None \<Rightarrow> (Some \<lparr>ir_status = 409, ir_body = alreadyExistsBody
                    (findAnchorIdByIssuer (ar_namespace q) (ar_issuerUrl q) (trust_anchors (rt_db s)))\<rparr>, s)
                | Some t \<Rightarrow>
                    (Some \<lparr>ir_status = 201, ir_body = anchor_out env True a\<rparr>,
                     audit_action v (rq_headers r) None ''trust-anchor.create'' (ta_id a)
                       (Some [(''namespace'', JStr (ar_namespace q)), (''issuerUrl'', JStr (ar_issuerUrl q))])
                       (set_db ((rt_db s)\<lparr>trust_anchors := t\<rparr>) s))))"

section \<open>One anchor\<close>

definition anchor_GET :: "route_env \<Rightarrow> jstring \<Rightarrow> trust_anchor list \<Rightarrow> http_response" where
  "anchor_GET env i t =
     (if \<not> isUuid (Some (JStr i)) then invalidId
      else case find_row ta_id (uuid_value i) t of
        None \<Rightarrow> not_found | Some a \<Rightarrow> json_response 200 (anchor_out env False a))"

record anchor_changes =
  ch_issuerUrl :: "jstring option"
  ch_jwksUrl :: "jstring option option"
  ch_label :: "jstring option option"

definition issuer_change :: "json \<Rightarrow> jstring + jstring option" where
  "issuer_change body = (case as_string (get body ''issuerUrl'') of
     None \<Rightarrow> Inr None
   | Some u \<Rightarrow> if \<not> isHttpUrl (Some (JStr u)) then Inl (js ''issuerUrl must be an http(s) URL'')
       else (case checkIssuerUrl u of Some msg \<Rightarrow> Inl msg | None \<Rightarrow> Inr (Some u)))"

definition jwks_change :: "json \<Rightarrow> jstring + jstring option option" where
  "jwks_change body =
     (if get body ''jwksUrl'' = Some JNull then Inr (Some None)
      else case as_string (get body ''jwksUrl'') of
        None \<Rightarrow> Inr None
      | Some u \<Rightarrow> if u = [] then Inr (Some None)
          else (case jwks_url_problem (Some u) of Some msg \<Rightarrow> Inl msg | None \<Rightarrow> Inr (Some (Some u))))"

definition label_change :: "json \<Rightarrow> jstring + jstring option option" where
  "label_change body =
     (if get body ''label'' = Some JNull then Inr (Some None)
      else case as_string (get body ''label'') of
        None \<Rightarrow> Inr None
      | Some l \<Rightarrow> (case anchor_label_problem (Some l) of Some msg \<Rightarrow> Inl msg | None \<Rightarrow> Inr (Some (Some l))))"

definition patch_checks :: "json \<Rightarrow> jstring + anchor_changes" where
  "patch_checks body =
     (case issuer_change body of Inl msg \<Rightarrow> Inl msg | Inr i \<Rightarrow>
       (case jwks_change body of Inl msg \<Rightarrow> Inl msg | Inr j \<Rightarrow>
         (case label_change body of Inl msg \<Rightarrow> Inl msg | Inr l \<Rightarrow>
            Inr \<lparr>ch_issuerUrl = i, ch_jwksUrl = j, ch_label = l\<rparr>)))"

text \<open>\<open>urlChangedSql\<close>, over the row before the update.\<close>

definition urlChanged :: "anchor_changes \<Rightarrow> trust_anchor \<Rightarrow> bool" where
  "urlChanged c a \<longleftrightarrow> (case ch_issuerUrl c of None \<Rightarrow> False | Some u \<Rightarrow> ta_issuerUrl a \<noteq> u) \<or>
     (case ch_jwksUrl c of None \<Rightarrow> False | Some u \<Rightarrow> ta_jwksUrl a \<noteq> u)"

definition apply_changes :: "instant \<Rightarrow> anchor_changes \<Rightarrow> trust_anchor \<Rightarrow> trust_anchor" where
  "apply_changes now c a = a\<lparr>
     ta_issuerUrl := (case ch_issuerUrl c of None \<Rightarrow> ta_issuerUrl a | Some u \<Rightarrow> u),
     ta_jwksUrl := (case ch_jwksUrl c of None \<Rightarrow> ta_jwksUrl a | Some u \<Rightarrow> u),
     ta_label := (case ch_label c of None \<Rightarrow> ta_label a | Some l \<Rightarrow> l),
     ta_updatedAt := now,
     ta_jwksCache := (if urlChanged c a then None else ta_jwksCache a),
     ta_jwksCachedAt := (if urlChanged c a then None else ta_jwksCachedAt a)\<rparr>"

text \<open>The update, \<open>None\<close> where the unique index refuses it.\<close>

definition update_anchor :: "instant \<Rightarrow> jstring \<Rightarrow> anchor_changes \<Rightarrow> trust_anchor list \<Rightarrow> trust_anchor list option" where
  "update_anchor now i c t =
     (let t' = update_where (\<lambda>a. ta_id a = i) (apply_changes now c) t
      in if distinct (map anchor_key t') then Some t' else None)"

definition change_details :: "route_env \<Rightarrow> instant \<Rightarrow> anchor_changes \<Rightarrow> (string \<times> json) list" where
  "change_details env now c =
     (case ch_issuerUrl c of None \<Rightarrow> [] | Some u \<Rightarrow> [(''issuerUrl'', JStr u)]) @
     (case ch_jwksUrl c of None \<Rightarrow> [] | Some u \<Rightarrow> [(''jwksUrl'', jopt u)]) @
     (case ch_label c of None \<Rightarrow> [] | Some l \<Rightarrow> [(''label'', jopt l)]) @
     [(''updatedAt'', JStr (de_iso (fe_delivery (ro_fan env)) now))]"

definition patch_anchor ::
  "route_env \<Rightarrow> route_input \<Rightarrow> http_request \<Rightarrow> jstring \<Rightarrow> json \<Rightarrow> route_state \<Rightarrow> http_response option \<times> route_state" where
  "patch_anchor env v r i body s =
     (case patch_checks body of
        Inl msg \<Rightarrow> (Some (badRequest msg ''BODY_INVALID''), s)
      | Inr c \<Rightarrow>
          (if rv_write_fails v then (None, s)
           else case update_anchor (rv_now v) (uuid_value i) c (trust_anchors (rt_db s)) of
             None \<Rightarrow> (if ch_issuerUrl c = None then (None, s)
               else (Some (json_response 409 (alreadyExistsBody
                 (case find_row ta_id (uuid_value i) (trust_anchors (rt_db s)) of
                    None \<Rightarrow> None
                  | Some row \<Rightarrow> findAnchorIdByIssuer (ta_namespace row) (the (ch_issuerUrl c)) (trust_anchors (rt_db s))))), s))
           | Some t \<Rightarrow>
               (case find_row ta_id (uuid_value i) t of
                  None \<Rightarrow> (Some not_found, s)
                | Some a \<Rightarrow> (Some (json_response 200 (anchor_out env False a)),
                    audit_action v (rq_headers r) None ''trust-anchor.update'' i
                      (Some (change_details env (rv_now v) c)) (set_db ((rt_db s)\<lparr>trust_anchors := t\<rparr>) s)))))"

definition anchor_PATCH ::
  "route_env \<Rightarrow> (jstring \<Rightarrow> int option) \<Rightarrow> (byte list \<Rightarrow> json option) \<Rightarrow> route_input \<Rightarrow> http_request \<Rightarrow> jstring \<Rightarrow>
     byte list option list \<Rightarrow> route_state \<Rightarrow> http_response option \<times> route_state" where
  "anchor_PATCH env to_number parse_json v r i chunks s =
     (if \<not> isUuid (Some (JStr i)) then (Some invalidId, s)
      else case readJsonObject to_number parse_json r chunks of
        Inl resp \<Rightarrow> (Some resp, s) | Inr body \<Rightarrow> patch_anchor env v r i body s)"

definition delete_anchor :: "jstring \<Rightarrow> trust_anchor list \<Rightarrow> trust_anchor list" where
  "delete_anchor i t = filter (\<lambda>a. ta_id a \<noteq> i) t"

definition anchor_DELETE ::
  "route_input \<Rightarrow> http_request \<Rightarrow> jstring \<Rightarrow> route_state \<Rightarrow> http_response \<times> route_state" where
  "anchor_DELETE v r i s =
     (if \<not> isUuid (Some (JStr i)) then (invalidId, s)
      else if find_row ta_id (uuid_value i) (trust_anchors (rt_db s)) = None then (not_found, s)
      else (json_response 204 JNull,
            audit_action v (rq_headers r) None ''trust-anchor.delete'' i None
              (set_db ((rt_db s)\<lparr>trust_anchors := delete_anchor (uuid_value i) (trust_anchors (rt_db s))\<rparr>) s)))"

definition jwks_GET :: "route_env \<Rightarrow> jstring \<Rightarrow> trust_anchor list \<Rightarrow> http_response" where
  "jwks_GET env i t =
     (if \<not> isUuid (Some (JStr i)) then invalidId
      else case find_row ta_id (uuid_value i) t of
        None \<Rightarrow> not_found
      | Some a \<Rightarrow>
          (if \<not> truthy (ta_jwksCache a) then
             (json_response 503 (jobj [(''error'', jlit ''JWKS not yet cached for this trust anchor''),
                (''code'', jlit ''JWKS_NOT_CACHED''), (''issuerUrl'', JStr (ta_issuerUrl a))]))
               \<lparr>rs_headers := [js ''retry-after'' \<mapsto> js ''60'', js ''cache-control'' \<mapsto> js ''no-store'']\<rparr>
           else
             (json_response 200 (the (ta_jwksCache a)))
               \<lparr>rs_headers := [js ''cache-control'' \<mapsto> js ''max-age=300'',
                  js ''x-jwks-cached-at'' \<mapsto> (case ta_jwksCachedAt a of None \<Rightarrow> [] | Some ms \<Rightarrow> ro_ts_text env ms)]\<rparr>))"

section \<open>Lemmas\<close>

interpretation anchors_route: audited_route "\<lambda>(v, r, body). anchors_exec env v r body" for env
  by unfold_locales (auto simp: anchors_exec_def Let_def split: sum.splits if_splits option.splits)

end
