(* ===== verification/Jwks_Refresher.thy ===== *)
theory Jwks_Refresher
  imports Trust_Anchors
begin

text \<open>
  The background refresher of the cached keysets,
  \<open>src/src/lib/trust-anchors/jwks-refresher.ts\<close>. A pass lists the stale anchors, then fetches and
  stores one keyset after the other; passes of several replicas and the admin routes interleave at
  every await. The network is an argument of each fetch, \<open>net_env\<close> the parser and resolver of
  \<open>Url_Guard\<close>. The world keeps a log of the keysets that were fetched and for which URLs; no
  operation reads it.
\<close>

section \<open>Configuration\<close>

record jwks_config =
  jwksRefreshEnabled :: bool
  jwksRefreshIntervalMs :: int
  jwksStaleAfterMs :: int
  jwksFetchTimeoutMs :: int

definition load_jwks_config :: "(jstring \<Rightarrow> int option) \<Rightarrow> environment \<Rightarrow> jwks_config" where
  "load_jwks_config to_number env = \<lparr>
     jwksRefreshEnabled = flag_unless_false env ''JWKS_REFRESH_ENABLED'',
     jwksRefreshIntervalMs = readNumber to_number env ''JWKS_REFRESH_INTERVAL_MS'' (15 * 60 * 1000),
     jwksStaleAfterMs = readNumber to_number env ''JWKS_STALE_AFTER_MS'' (60 * 60 * 1000),
     jwksFetchTimeoutMs = readNumber to_number env ''JWKS_FETCH_TIMEOUT_MS'' 10000\<rparr>"

section \<open>Fetching\<close>

definition MAX_BODY_BYTES :: nat where "MAX_BODY_BYTES = 1024 * 1024"

definition assertSafeJwksUrl :: "net_env \<Rightarrow> app_config \<Rightarrow> jstring \<Rightarrow> unsafe_url option" where
  "assertSafeJwksUrl net cfg rawUrl =
     (case parse_url net rawUrl of
        None \<Rightarrow> Some NotAbsolute
      | Some url \<Rightarrow>
          (if url_protocol url \<noteq> js ''https:'' \<and> url_protocol url \<noteq> js ''http:'' then Some BadScheme
           else if isProduction cfg \<and> url_protocol url \<noteq> js ''https:'' then Some NeedsHttps
           else
             let host = strip_brackets (url_hostname url)
             in if isIPv4 host \<or> isIPv6 net host then
                  (if isPrivateIp net host then Some NonPublic else None)
                else case lookup net host of
                       None \<Rightarrow> Some (Unresolved host)
                     | Some addresses \<Rightarrow>
                         (if addresses = [] then Some (NoAddresses host)
                          else if list_ex (isPrivateIp net) addresses then Some NonPublic
                          else None)))"

text \<open>
  The answer of \<open>fetch\<close> with redirects refused: \<open>None\<close> when it throws (a redirect, a timeout, no
  connection), else its status, the length of its text and what \<open>JSON.parse\<close> makes of it.
\<close>

record http_answer =
  ha_status :: nat
  ha_length :: nat
  ha_json :: "json option"

type_synonym http_net = "jstring \<Rightarrow> http_answer option"

datatype fetch_error = UnsafeJwksUrl unsafe_url | FetchFailed | BadStatus nat | ResponseTooLarge | BadJson
  | NoKeys | NoJwksUri

text \<open>The result and the URLs that were requested on the way.\<close>

definition fetchJson :: "net_env \<Rightarrow> app_config \<Rightarrow> http_net \<Rightarrow> jstring \<Rightarrow> (fetch_error + json) \<times> jstring list" where
  "fetchJson net cfg http rawUrl =
     (case assertSafeJwksUrl net cfg rawUrl of
        Some e \<Rightarrow> (Inl (UnsafeJwksUrl e), [])
      | None \<Rightarrow>
          (case http rawUrl of
             None \<Rightarrow> Inl FetchFailed
           | Some r \<Rightarrow>
               if \<not> (200 \<le> ha_status r \<and> ha_status r \<le> 299) then Inl (BadStatus (ha_status r))
               else if ha_length r > MAX_BODY_BYTES then Inl ResponseTooLarge
               else (case ha_json r of None \<Rightarrow> Inl BadJson | Some v \<Rightarrow> Inr v), [rawUrl]))"

definition discovery_url :: "jstring \<Rightarrow> jstring" where
  "discovery_url issuerUrl =
     (if ends_with issuerUrl (js ''/'') then butlast issuerUrl else issuerUrl) @ js ''/.well-known/openid-configuration''"

definition discoverJwksUri :: "net_env \<Rightarrow> app_config \<Rightarrow> http_net \<Rightarrow> jstring \<Rightarrow> (fetch_error + jstring) \<times> jstring list" where
  "discoverJwksUri net cfg http issuerUrl =
     (let (res, urls) = fetchJson net cfg http (discovery_url issuerUrl)
      in (case res of
            Inl e \<Rightarrow> Inl e
          | Inr meta \<Rightarrow> (case nonempty_string (get meta ''jwks_uri'') of None \<Rightarrow> Inl NoJwksUri | Some u \<Rightarrow> Inr u), urls))"

definition has_keys :: "json \<Rightarrow> bool" where
  "has_keys v \<longleftrightarrow> (case get v ''keys'' of Some (JArr ks) \<Rightarrow> True | _ \<Rightarrow> False)"

definition fetchJwks ::
  "net_env \<Rightarrow> app_config \<Rightarrow> http_net \<Rightarrow> jstring \<Rightarrow> jstring option \<Rightarrow> (fetch_error + json) \<times> jstring list" where
  "fetchJwks net cfg http issuerUrl jwksUrl =
     (let (uri, urls) = (case jwksUrl of Some u \<Rightarrow> (Inr u, []) | None \<Rightarrow> discoverJwksUri net cfg http issuerUrl)
      in case uri of
           Inl e \<Rightarrow> (Inl e, urls)
         | Inr u \<Rightarrow>
             (let (res, urls2) = fetchJson net cfg http u
              in (case res of Inl e \<Rightarrow> Inl e | Inr v \<Rightarrow> if has_keys v then Inr v else Inl NoKeys, urls @ urls2)))"

section \<open>Passes\<close>

text \<open>Where a replica's pass is: the anchors still to do, and one fetched but not yet stored.\<close>

datatype refresh_phase =
    Resting
  | Refreshing "trust_anchor list" nat
  | Storing trust_anchor json "trust_anchor list" nat

definition stale :: "jwks_config \<Rightarrow> instant \<Rightarrow> trust_anchor \<Rightarrow> bool" where
  "stale jc now a \<longleftrightarrow> (case ta_jwksCachedAt a of None \<Rightarrow> True | Some t \<Rightarrow> t < now - jwksStaleAfterMs jc)"

definition start_pass :: "jwks_config \<Rightarrow> instant \<Rightarrow> bool \<Rightarrow> trust_anchor list \<Rightarrow> refresh_phase \<Rightarrow> refresh_phase" where
  "start_pass jc now listFails t ph =
     (case ph of Resting \<Rightarrow> if listFails then Resting else Refreshing (filter (stale jc now) t) 0 | _ \<Rightarrow> ph)"

definition fetch_next :: "net_env \<Rightarrow> app_config \<Rightarrow> http_net \<Rightarrow> refresh_phase \<Rightarrow> refresh_phase" where
  "fetch_next net cfg http ph =
     (case ph of
        Refreshing [] n \<Rightarrow> Resting
      | Refreshing (a # as) n \<Rightarrow>
          (case fst (fetchJwks net cfg http (ta_issuerUrl a) (ta_jwksUrl a)) of
             Inl e \<Rightarrow> Refreshing as n | Inr jwks \<Rightarrow> Storing a jwks as n)
      | _ \<Rightarrow> ph)"

definition same_urls :: "trust_anchor \<Rightarrow> trust_anchor \<Rightarrow> bool" where
  "same_urls a row \<longleftrightarrow> ta_id row = ta_id a \<and> ta_issuerUrl row = ta_issuerUrl a \<and> ta_jwksUrl row = ta_jwksUrl a"

definition store_keys ::
  "instant \<Rightarrow> bool \<Rightarrow> trust_anchor list \<Rightarrow> refresh_phase \<Rightarrow> trust_anchor list \<times> refresh_phase" where
  "store_keys now storeFails t ph =
     (case ph of
        Storing a jwks as n \<Rightarrow>
          (if storeFails then (t, Refreshing as n)
           else (update_where (same_urls a) (\<lambda>row. row\<lparr>ta_jwksCache := Some jwks, ta_jwksCachedAt := Some now\<rparr>) t,
                 Refreshing as (if list_ex (same_urls a) t then Suc n else n)))
      | _ \<Rightarrow> (t, ph))"

record jwks_world =
  jw_anchors :: "trust_anchor list"
  jw_passes :: "nat \<Rightarrow> refresh_phase"
  jw_fetched :: "(jstring \<times> jstring option \<times> json) list"

datatype jwks_op =
    StartPass nat instant bool            \<comment> \<open>replica, clock, whether the listing fails\<close>
  | FetchNext nat http_net                \<comment> \<open>replica, the network as it answers\<close>
  | StoreKeys nat instant bool            \<comment> \<open>replica, clock, whether the update fails\<close>
  | AnchorCreated instant jstring "jstring option" anchor_request
  | AnchorPatched instant jstring anchor_changes
  | AnchorDeleted jstring

fun jwks_step :: "net_env \<Rightarrow> app_config \<Rightarrow> jwks_config \<Rightarrow> jwks_world \<Rightarrow> jwks_op \<Rightarrow> jwks_world" where
  "jwks_step net cfg jc w (StartPass p now fails) =
     w\<lparr>jw_passes := (jw_passes w)(p := start_pass jc now fails (jw_anchors w) (jw_passes w p))\<rparr>"
| "jwks_step net cfg jc w (FetchNext p http) =
     (let ph = fetch_next net cfg http (jw_passes w p)
      in w\<lparr>jw_passes := (jw_passes w)(p := ph),
           jw_fetched := (case (jw_passes w p, ph) of
             (Refreshing _ _, Storing a jwks _ _) \<Rightarrow> (ta_issuerUrl a, ta_jwksUrl a, jwks) # jw_fetched w
           | _ \<Rightarrow> jw_fetched w)\<rparr>)"
| "jwks_step net cfg jc w (StoreKeys p now fails) =
     (let (t, ph) = store_keys now fails (jw_anchors w) (jw_passes w p)
      in w\<lparr>jw_anchors := t, jw_passes := (jw_passes w)(p := ph)\<rparr>)"
| "jwks_step net cfg jc w (AnchorCreated now uid who q) =
     w\<lparr>jw_anchors := (case insert_anchor (new_anchor now uid who q) (jw_anchors w) of None \<Rightarrow> jw_anchors w | Some t \<Rightarrow> t)\<rparr>"
| "jwks_step net cfg jc w (AnchorPatched now i c) =
     w\<lparr>jw_anchors := (case update_anchor now i c (jw_anchors w) of None \<Rightarrow> jw_anchors w | Some t \<Rightarrow> t)\<rparr>"
| "jwks_step net cfg jc w (AnchorDeleted i) = w\<lparr>jw_anchors := delete_anchor i (jw_anchors w)\<rparr>"

definition init_jwks :: jwks_world where
  "init_jwks = \<lparr>jw_anchors = [], jw_passes = \<lambda>_. Resting, jw_fetched = []\<rparr>"

section \<open>Lemmas\<close>

lemma fetchJson_urls: "u \<in> set (snd (fetchJson net cfg http raw)) \<Longrightarrow> assertSafeJwksUrl net cfg u = None"
  by (cases "assertSafeJwksUrl net cfg raw") (simp_all add: fetchJson_def)

lemma discover_urls: "snd (discoverJwksUri net cfg http i) = snd (fetchJson net cfg http (discovery_url i))"
  by (simp add: discoverJwksUri_def split: prod.split)

lemma fetchJwks_urls:
  assumes "u \<in> set (snd (fetchJwks net cfg http i j))"
  shows "assertSafeJwksUrl net cfg u = None"
proof -
  obtain uri urls where d: "(case j of Some u \<Rightarrow> (Inr u, []) | None \<Rightarrow> discoverJwksUri net cfg http i) = (uri, urls)"
    by fastforce
  then have "set urls \<subseteq> set (snd (fetchJson net cfg http (discovery_url i)))"
    using discover_urls [of net cfg http i] by (cases j) auto
  moreover have "snd (fetchJwks net cfg http i j) = urls @ (case uri of Inl e \<Rightarrow> [] | Inr v \<Rightarrow> snd (fetchJson net cfg http v))"
    by (cases uri) (simp_all add: fetchJwks_def d split: prod.split)
  ultimately have "u \<in> set (snd (fetchJson net cfg http (discovery_url i))) \<or>
      (\<exists>v. uri = Inr v \<and> u \<in> set (snd (fetchJson net cfg http v)))"
    using assms by (cases uri) auto
  then show ?thesis using fetchJson_urls by blast
qed

lemma fetchJwks_keys:
  assumes "fst (fetchJwks net cfg http i j) = Inr v"
  shows "has_keys v"
proof -
  obtain uri urls where d: "(case j of Some u \<Rightarrow> (Inr u, []) | None \<Rightarrow> discoverJwksUri net cfg http i) = (uri, urls)"
    by fastforce
  obtain res urls2 where "fetchJson net cfg http (case uri of Inr u \<Rightarrow> u) = (res, urls2)" by fastforce
  with assms d show ?thesis by (cases uri; cases res) (auto simp: fetchJwks_def split: if_splits)
qed

definition cache_ok :: "jwks_world \<Rightarrow> bool" where
  "cache_ok w \<longleftrightarrow>
     (\<forall>a \<in> set (jw_anchors w). \<forall>k. ta_jwksCache a = Some k \<longrightarrow> (ta_issuerUrl a, ta_jwksUrl a, k) \<in> set (jw_fetched w)) \<and>
     (\<forall>p a k as n. jw_passes w p = Storing a k as n \<longrightarrow> (ta_issuerUrl a, ta_jwksUrl a, k) \<in> set (jw_fetched w))"

lemma fetch_next_storing:
  assumes "fetch_next net cfg http ph = Storing a k as n"
  shows "ph = Storing a k as n \<or> (\<exists>m. ph = Refreshing (a # as) m)"
  using assms by (auto simp: fetch_next_def split: refresh_phase.splits list.splits sum.splits)

lemma apply_changes_cache:
  "ta_jwksCache (apply_changes now c a) = Some k \<Longrightarrow>
     ta_jwksCache a = Some k \<and> ta_issuerUrl (apply_changes now c a) = ta_issuerUrl a \<and>
     ta_jwksUrl (apply_changes now c a) = ta_jwksUrl a"
  by (auto simp: apply_changes_def urlChanged_def split: if_splits option.splits)

lemma start_pass_storing: "start_pass jc now fails t ph = Storing a k as n \<Longrightarrow> ph = Storing a k as n"
  by (cases ph) (simp_all add: start_pass_def split: if_splits)

lemma store_keys_storing: "snd (store_keys now fails t ph) \<noteq> Storing a k as n"
  by (cases ph) (simp_all add: store_keys_def)

definition rows_ok :: "(jstring \<times> jstring option \<times> json) list \<Rightarrow> trust_anchor list \<Rightarrow> bool" where
  "rows_ok fl t \<longleftrightarrow> (\<forall>a \<in> set t. \<forall>k. ta_jwksCache a = Some k \<longrightarrow> (ta_issuerUrl a, ta_jwksUrl a, k) \<in> set fl)"

definition passes_ok :: "(jstring \<times> jstring option \<times> json) list \<Rightarrow> (nat \<Rightarrow> refresh_phase) \<Rightarrow> bool" where
  "passes_ok fl ps \<longleftrightarrow> (\<forall>p a k as n. ps p = Storing a k as n \<longrightarrow> (ta_issuerUrl a, ta_jwksUrl a, k) \<in> set fl)"

lemma cache_ok_iff: "cache_ok w \<longleftrightarrow> rows_ok (jw_fetched w) (jw_anchors w) \<and> passes_ok (jw_fetched w) (jw_passes w)"
  by (simp add: cache_ok_def rows_ok_def passes_ok_def)

lemma passes_ok_update:
  "passes_ok fl ps \<Longrightarrow> (\<And>a k as n. ph = Storing a k as n \<Longrightarrow> (ta_issuerUrl a, ta_jwksUrl a, k) \<in> set fl) \<Longrightarrow>
   passes_ok fl (ps(p := ph))"
  by (simp add: passes_ok_def) blast

lemma ok_mono: "rows_ok fl t \<Longrightarrow> rows_ok (x # fl) t" "passes_ok fl ps \<Longrightarrow> passes_ok (x # fl) ps"
  unfolding rows_ok_def passes_ok_def by (meson list.set_intros(2))+

lemma store_keys_rows:
  assumes "rows_ok fl t" and "\<And>a k as n. ph = Storing a k as n \<Longrightarrow> (ta_issuerUrl a, ta_jwksUrl a, k) \<in> set fl"
  shows "rows_ok fl (fst (store_keys now fails t ph))"
proof (cases ph)
  case (Storing a k as n)
  with assms show ?thesis by (auto simp: rows_ok_def store_keys_def set_update_where same_urls_def)
qed (use assms in \<open>simp_all add: store_keys_def\<close>)

lemma update_anchor_rows: "rows_ok fl t \<Longrightarrow> update_anchor now i c t = Some t' \<Longrightarrow> rows_ok fl t'"
  unfolding rows_ok_def
proof (intro ballI allI impI)
  fix b k assume t: "\<forall>a \<in> set t. \<forall>k. ta_jwksCache a = Some k \<longrightarrow> (ta_issuerUrl a, ta_jwksUrl a, k) \<in> set fl"
    and u: "update_anchor now i c t = Some t'" and b: "b \<in> set t'" "ta_jwksCache b = Some k"
  from u b(1) obtain a where a: "a \<in> set t" "b = a \<or> b = apply_changes now c a"
    by (auto simp: update_anchor_def Let_def set_update_where split: if_splits)
  with t b(2) show "(ta_issuerUrl b, ta_jwksUrl b, k) \<in> set fl" by (auto dest: apply_changes_cache)
qed

lemma cache_ok_step:
  assumes "cache_ok w"
  shows "cache_ok (jwks_step net cfg jc w op)"
proof -
  have rows: "rows_ok (jw_fetched w) (jw_anchors w)" and passes: "passes_ok (jw_fetched w) (jw_passes w)"
    using assms by (simp_all add: cache_ok_iff)
  have storing: "jw_passes w p = Storing a k as n \<Longrightarrow> (ta_issuerUrl a, ta_jwksUrl a, k) \<in> set (jw_fetched w)" for p a k as n
    using passes unfolding passes_ok_def by blast
  show ?thesis
  proof (cases op)
    case (StartPass p now fails)
    with rows passes show ?thesis
      by (simp add: cache_ok_iff) (rule passes_ok_update, auto dest: start_pass_storing storing)
  next
    case (FetchNext p http)
    let ?ph = "fetch_next net cfg http (jw_passes w p)"
    show ?thesis
    proof (cases "\<exists>a k as n m. ?ph = Storing a k as n \<and> jw_passes w p = Refreshing (a # as) m")
      case True
      then obtain a k as n m where ph: "?ph = Storing a k as n" "jw_passes w p = Refreshing (a # as) m" by blast
      then have "jwks_step net cfg jc w op = w\<lparr>jw_passes := (jw_passes w)(p := ?ph),
          jw_fetched := (ta_issuerUrl a, ta_jwksUrl a, k) # jw_fetched w\<rparr>"
        using FetchNext by (simp add: Let_def)
      with ph rows passes show ?thesis
        by (simp add: cache_ok_iff ok_mono) (rule passes_ok_update, simp_all add: ok_mono)
    next
      case False
      have same: "jw_passes w p = Storing a k as n" if "?ph = Storing a k as n" for a k as n
        using fetch_next_storing [OF that] that False by blast
      have "jwks_step net cfg jc w op = w\<lparr>jw_passes := (jw_passes w)(p := ?ph)\<rparr>"
        using FetchNext same by (cases "jw_passes w p"; cases ?ph) (auto simp: Let_def)
      with rows passes show ?thesis
        by (simp add: cache_ok_iff) (rule passes_ok_update, auto dest: same storing)
    qed
  next
    case (StoreKeys p now fails)
    have "rows_ok (jw_fetched w) (fst (store_keys now fails (jw_anchors w) (jw_passes w p)))"
      by (rule store_keys_rows [OF rows storing])
    moreover have "passes_ok (jw_fetched w) ((jw_passes w)(p := snd (store_keys now fails (jw_anchors w) (jw_passes w p))))"
      by (rule passes_ok_update [OF passes]) (simp add: store_keys_storing)
    ultimately show ?thesis using StoreKeys by (simp add: cache_ok_iff case_prod_unfold Let_def)
  next
    case (AnchorCreated now uid who q)
    with rows passes show ?thesis
      by (auto simp: cache_ok_iff rows_ok_def insert_anchor_def new_anchor_def)
  next
    case (AnchorPatched now i c)
    with rows passes show ?thesis
      by (auto simp: cache_ok_iff intro: update_anchor_rows split: option.split)
  next
    case (AnchorDeleted i)
    with rows passes show ?thesis by (auto simp: cache_ok_iff rows_ok_def delete_anchor_def)
  qed
qed

interpretation jwks: machine "jwks_step net cfg jc" cache_ok for net cfg jc
  by unfold_locales (rule cache_ok_step)

section \<open>Properties\<close>

text \<open>
  C11. A cached keyset always belongs to the anchor's current URLs: whatever passes of any replicas,
  fetches, stores and admin edits run in whatever order, a keyset an anchor holds was fetched for
  exactly the issuer and JWKS URL the anchor has now, and a 200 of \<open>GET /trust-anchors/:id/jwks\<close>
  is such a keyset. A fetch that was in flight while an edit changed the URLs is discarded.
\<close>

theorem cached_keys_match_urls:
  assumes "rs_status (jwks_GET env i (jw_anchors (foldl (jwks_step net cfg jc) init_jwks ops))) = 200"
  shows "\<exists>a \<in> set (jw_anchors (foldl (jwks_step net cfg jc) init_jwks ops)). ta_id a = uuid_value i \<and>
    ta_jwksCache a = Some (rs_body (jwks_GET env i (jw_anchors (foldl (jwks_step net cfg jc) init_jwks ops)))) \<and>
    (ta_issuerUrl a, ta_jwksUrl a, rs_body (jwks_GET env i (jw_anchors (foldl (jwks_step net cfg jc) init_jwks ops))))
      \<in> set (jw_fetched (foldl (jwks_step net cfg jc) init_jwks ops))"
proof -
  let ?w = "foldl (jwks_step net cfg jc) init_jwks ops"
  have "cache_ok ?w" by (rule jwks.run_inv) (simp add: cache_ok_def init_jwks_def)
  then have ok: "rows_ok (jw_fetched ?w) (jw_anchors ?w)" by (simp add: cache_ok_iff)
  obtain a where a: "find_row ta_id (uuid_value i) (jw_anchors ?w) = Some a" "truthy (ta_jwksCache a)"
    and body: "rs_body (jwks_GET env i (jw_anchors ?w)) = the (ta_jwksCache a)"
    using assms by (auto simp: jwks_GET_def invalidId_def json_response_def not_found_def split: option.splits if_splits)
  from a(2) obtain k where "ta_jwksCache a = Some k" by (cases "ta_jwksCache a") auto
  with ok find_row_SomeD [OF a(1)] body show ?thesis unfolding rows_ok_def by auto
qed

text \<open>
  The refresher requests no URL its guard refuses: every URL a fetch of a keyset touches, the
  configured one, the discovery document or the \<open>jwks_uri\<close> a remote issuer chose, has an http
  scheme (https in production), and its host is a public address literal or a name all of whose
  addresses are public; what it caches has a \<open>keys\<close> array.
\<close>

theorem jwks_fetches_guarded:
  assumes "u \<in> set (snd (fetchJwks net cfg http issuerUrl jwksUrl))"
  shows "\<exists>url. parse_url net u = Some url \<and> url_protocol url \<in> {js ''https:'', js ''http:''} \<and>
    (isProduction cfg \<longrightarrow> url_protocol url = js ''https:'') \<and>
    (let host = strip_brackets (url_hostname url)
     in if isIPv4 host \<or> isIPv6 net host then \<not> isPrivateIp net host
        else \<exists>addrs. lookup net host = Some addrs \<and> addrs \<noteq> [] \<and> (\<forall>x \<in> set addrs. \<not> isPrivateIp net x)) \<and>
    (\<forall>v. fst (fetchJwks net cfg http issuerUrl jwksUrl) = Inr v \<longrightarrow> has_keys v)"
proof -
  have "\<exists>url. parse_url net u = Some url \<and> url_protocol url \<in> {js ''https:'', js ''http:''} \<and>
    (isProduction cfg \<longrightarrow> url_protocol url = js ''https:'') \<and>
    (let host = strip_brackets (url_hostname url)
     in if isIPv4 host \<or> isIPv6 net host then \<not> isPrivateIp net host
        else \<exists>addrs. lookup net host = Some addrs \<and> addrs \<noteq> [] \<and> (\<forall>x \<in> set addrs. \<not> isPrivateIp net x))"
    using fetchJwks_urls [OF assms]
    by (auto simp: assertSafeJwksUrl_def Let_def list_ex_iff split: option.splits if_splits)
  then show ?thesis using fetchJwks_keys by blast
qed

text \<open>An issuer, its network and a pass that an edit overtakes.\<close>

definition demo_jwks_net :: net_env where
  "demo_jwks_net = \<lparr>parse_url = \<lambda>u. Some \<lparr>url_protocol = js ''https:'', url_hostname = js ''idp''\<rparr>,
     isIPv6 = \<lambda>_. False, lookup = \<lambda>_. Some [dotted 8 8 8 8]\<rparr>"

definition demo_keys :: json where
  "demo_keys = jobj [(''keys'', JArr [])]"

definition demo_http :: http_net where
  "demo_http = (\<lambda>_. Some \<lparr>ha_status = 200, ha_length = 9, ha_json = Some demo_keys\<rparr>)"

definition demo_jwks_config :: jwks_config where
  "demo_jwks_config = \<lparr>jwksRefreshEnabled = True, jwksRefreshIntervalMs = 9, jwksStaleAfterMs = 9, jwksFetchTimeoutMs = 9\<rparr>"

definition demo_anchor_id :: jstring where
  "demo_anchor_id = js ''00000000-0000-4000-8000-000000000001''"

definition demo_anchor_request :: anchor_request where
  "demo_anchor_request = \<lparr>ar_namespace = js ''n'', ar_issuerUrl = js ''https://idp'', ar_jwksUrl = Some (js ''https://k''), ar_label = None\<rparr>"

definition demo_jwks_ops :: "jwks_op list" where
  "demo_jwks_ops = [AnchorCreated 1 demo_anchor_id None demo_anchor_request, StartPass 0 5 False,
     FetchNext 0 demo_http, StoreKeys 0 6 False]"

lemma demo_safe: "assertSafeJwksUrl demo_jwks_net demo_config (js ''https://k'') = None"
  by code_simp

lemma demo_fetch: "fetchJwks demo_jwks_net demo_config demo_http (js ''https://idp'') (Some (js ''https://k'')) = (Inr demo_keys, [js ''https://k''])"
proof -
  have "get demo_keys ''keys'' = Some (JArr [])" by (simp add: demo_keys_def)
  then show ?thesis by (simp add: fetchJwks_def fetchJson_def demo_safe demo_http_def MAX_BODY_BYTES_def has_keys_def)
qed

lemma demo_jwks_stored:
  "rs_status (jwks_GET demo_route_env demo_anchor_id (jw_anchors (foldl (jwks_step demo_jwks_net demo_config demo_jwks_config)
     init_jwks demo_jwks_ops))) = 200"
proof -
  have "isUuid (Some (JStr demo_anchor_id))" "uuid_value demo_anchor_id = demo_anchor_id" by code_simp+
  then show ?thesis
    by (simp add: demo_jwks_ops_def init_jwks_def insert_anchor_def new_anchor_def start_pass_def stale_def fetch_next_def
        store_keys_def demo_anchor_request_def demo_fetch Let_def update_where_def same_urls_def jwks_GET_def json_response_def)
      (simp add: demo_keys_def jobj_def)
qed

theorem cached_keys_match_urls_witness:
  "\<exists>a k. a \<in> set (jw_anchors (foldl (jwks_step demo_jwks_net demo_config demo_jwks_config) init_jwks demo_jwks_ops)) \<and>
     ta_jwksCache a = Some k"
  using cached_keys_match_urls [OF demo_jwks_stored] by blast

theorem jwks_fetches_guarded_witness:
  "\<exists>url. parse_url demo_jwks_net (js ''https://k'') = Some url \<and> (isProduction demo_config \<longrightarrow> url_protocol url = js ''https:'') \<and>
     has_keys demo_keys"
  using jwks_fetches_guarded [of "js ''https://k''" demo_jwks_net demo_config demo_http "js ''https://idp''" "Some (js ''https://k'')"]
  by (simp add: demo_fetch) blast

end
