(* ===== verification/Webhook_Routes.thy ===== *)
theory Webhook_Routes
  imports Admin_Route Url_Guard Circuit_Breaker
begin

text \<open>
  The admin routes of webhooks, \<open>src/src/app/api/webhooks\<close>: list, create, change, delete, and the
  snapshot and reset of a circuit breaker, with the body checks of
  \<open>src/src/lib/webhooks/validate-body.ts\<close>.
\<close>

section \<open>Body checks\<close>

definition WEBHOOK_SECRET_MAX :: nat where "WEBHOOK_SECRET_MAX = 255"

definition json_strings :: "json list \<Rightarrow> jstring list" where
  "json_strings vs = concat (map (\<lambda>v. case as_string (Some v) of Some s \<Rightarrow> [s] | None \<Rightarrow> []) vs)"

definition event_entry_problem :: "jstring \<Rightarrow> jstring option" where
  "event_entry_problem e =
     (if has_nul e then Some (js ''events must not contain a NUL character'')
      else if \<not> well_formed e then Some (js ''events entries must be well-formed Unicode'') else None)"

definition body_events :: "json \<Rightarrow> jstring list option" where
  "body_events body = (case get body ''events'' of Some (JArr vs) \<Rightarrow> Some (json_strings vs) | _ \<Rightarrow> None)"

fun first_problem :: "('a \<Rightarrow> jstring option) \<Rightarrow> 'a list \<Rightarrow> jstring option" where
  "first_problem f [] = None"
| "first_problem f (x # xs) = orelse (f x) (first_problem f xs)"

definition checkWebhookFields :: "json \<Rightarrow> jstring option" where
  "checkWebhookFields body =
     orelse (case as_string (get body ''url'') of
               Some u \<Rightarrow> if has_nul u then Some (js ''url must not contain a NUL character'') else None | None \<Rightarrow> None)
       (orelse (case body_events body of None \<Rightarrow> None | Some es \<Rightarrow> first_problem event_entry_problem es)
          (case as_string (get body ''secret'') of
             None \<Rightarrow> None | Some s \<Rightarrow> column_refusal ''secret'' s WEBHOOK_SECRET_MAX None))"

fun as_bool :: "json option \<Rightarrow> bool option" where
  "as_bool (Some (JBool b)) = Some b"
| "as_bool v = None"

section \<open>The collection\<close>

definition listed_webhook :: "route_env \<Rightarrow> webhook \<Rightarrow> json" where
  "listed_webhook env w = jobj [(''id'', JStr (wh_id w)), (''url'', JStr (wh_url w)), (''events'', JArr (map JStr (wh_events w))),
     (''active'', JBool (wh_active w)), (''createdAt'', JStr (ro_ts_text env (wh_createdAt w))),
     (''updatedAt'', JStr (ro_ts_text env (wh_updatedAt w)))]"

definition webhooks_GET :: "route_env \<Rightarrow> webhook list \<Rightarrow> http_response" where
  "webhooks_GET env ws = json_response 200 (jobj [(''webhooks'', JArr (map (listed_webhook env) ws))])"

text \<open>\<open>freshSecret\<close> is the generated secret, used when the body has none.\<close>

definition webhooks_exec ::
  "route_env \<Rightarrow> net_env \<Rightarrow> app_config \<Rightarrow> jstring \<Rightarrow> route_input \<Rightarrow> http_request \<Rightarrow> json \<Rightarrow> route_state \<Rightarrow>
     idempotent_result option \<times> route_state" where
  "webhooks_exec env net cfg freshSecret v r body s =
     (case as_string (get body ''url'') of
        None \<Rightarrow> (Some (invalid (js ''url must be an http(s) URL'')), s)
      | Some url \<Rightarrow>
          (case checkWebhookFields body of
             Some msg \<Rightarrow> (Some (invalid msg), s)
           | None \<Rightarrow>
               (case assertSafeWebhookUrl net cfg url of
                  Some e \<Rightarrow> (Some (refuse 400 (unsafe_message e) ''URL_NOT_ALLOWED''), s)
                | None \<Rightarrow>
                    if rv_write_fails v then (None, s)
                    else
                      let (w, ws) = createWebhook (rv_now v) (rv_uid v) freshSecret
                            \<lparr>wi_url = url, wi_events = (case body_events body of None \<Rightarrow> [] | Some es \<Rightarrow> es),
                             wi_secret = as_string (get body ''secret''),
                             wi_active = Some (case as_bool (get body ''active'') of None \<Rightarrow> True | Some b \<Rightarrow> b)\<rparr>
                            (webhooks (rt_db s))
                      in (Some \<lparr>ir_status = 201, ir_body = jobj [(''id'', JStr (wh_id w)), (''url'', JStr (wh_url w)),
                             (''events'', JArr (map JStr (wh_events w))), (''secret'', JStr (wh_secret w)),
                             (''active'', JBool (wh_active w)), (''createdAt'', JStr (ro_ts_text env (wh_createdAt w)))]\<rparr>,
                          audit_action v (rq_headers r) None ''webhook.create'' (wh_id w)
                            (Some [(''url'', JStr (wh_url w)), (''events'', JArr (map JStr (wh_events w)))])
                            (set_db ((rt_db s)\<lparr>webhooks := ws\<rparr>) s)))))"

section \<open>One webhook\<close>

definition webhook_not_found :: http_response where
  "webhook_not_found = json_response 404 (error_body ''webhook not found'' ''NOT_FOUND'')"

definition patch_of :: "json \<Rightarrow> webhook_patch" where
  "patch_of body = \<lparr>wp_url = as_string (get body ''url''), wp_events = body_events body,
     wp_secret = as_string (get body ''secret''), wp_active = as_bool (get body ''active'')\<rparr>"

text \<open>What the audit row says of a change: the secret only as a flag.\<close>

definition patch_details :: "webhook_patch \<Rightarrow> (string \<times> json) list" where
  "patch_details p =
     (case wp_url p of None \<Rightarrow> [] | Some u \<Rightarrow> [(''url'', JStr u)]) @
     (case wp_events p of None \<Rightarrow> [] | Some es \<Rightarrow> [(''events'', JArr (map JStr es))]) @
     (case wp_active p of None \<Rightarrow> [] | Some b \<Rightarrow> [(''active'', JBool b)]) @
     (if wp_secret p = None then [] else [(''secretRotated'', JBool True)])"

definition patch_webhook ::
  "route_env \<Rightarrow> net_env \<Rightarrow> app_config \<Rightarrow> route_input \<Rightarrow> http_request \<Rightarrow> jstring \<Rightarrow> json \<Rightarrow> route_state \<Rightarrow>
     http_response option \<times> route_state" where
  "patch_webhook env net cfg v r i body s =
     (case checkWebhookFields body of
        Some msg \<Rightarrow> (Some (badRequest msg ''BODY_INVALID''), s)
      | None \<Rightarrow>
          (case (case as_string (get body ''url'') of None \<Rightarrow> None | Some u \<Rightarrow> assertSafeWebhookUrl net cfg u) of
             Some e \<Rightarrow> (Some (badRequest (unsafe_message e) ''URL_NOT_ALLOWED''), s)
           | None \<Rightarrow>
               if rv_write_fails v then (None, s)
               else
                 (case updateWebhook (rv_now v) (uuid_value i) (patch_of body) (webhooks (rt_db s)) of
                    (None, ws) \<Rightarrow> (Some webhook_not_found, s)
                  | (Some w, ws) \<Rightarrow>
                      (Some (json_response 200 (jobj [(''id'', JStr (wh_id w)), (''url'', JStr (wh_url w)),
                         (''events'', JArr (map JStr (wh_events w))), (''active'', JBool (wh_active w)),
                         (''updatedAt'', JStr (ro_ts_text env (wh_updatedAt w)))])),
                       audit_action v (rq_headers r) None ''webhook.update'' i (Some (patch_details (patch_of body)))
                         (set_db ((rt_db s)\<lparr>webhooks := ws\<rparr>) s)))))"

definition webhook_PATCH ::
  "route_env \<Rightarrow> net_env \<Rightarrow> app_config \<Rightarrow> (jstring \<Rightarrow> int option) \<Rightarrow> (byte list \<Rightarrow> json option) \<Rightarrow> route_input \<Rightarrow>
     http_request \<Rightarrow> jstring \<Rightarrow> byte list option list \<Rightarrow> route_state \<Rightarrow> http_response option \<times> route_state" where
  "webhook_PATCH env net cfg to_number parse_json v r i chunks s =
     (if \<not> isUuid (Some (JStr i)) then (Some invalidId, s)
      else case readJsonObject to_number parse_json r chunks of
        Inl resp \<Rightarrow> (Some resp, s) | Inr body \<Rightarrow> patch_webhook env net cfg v r i body s)"

definition webhook_DELETE ::
  "route_input \<Rightarrow> http_request \<Rightarrow> jstring \<Rightarrow> route_state \<Rightarrow> http_response \<times> route_state" where
  "webhook_DELETE v r i s =
     (if \<not> isUuid (Some (JStr i)) then (invalidId, s)
      else
        let (ok, ws, ds) = deleteWebhook (uuid_value i) (webhooks (rt_db s)) (webhook_deliveries (rt_db s))
        in if \<not> ok then (webhook_not_found, s)
           else (json_response 200 (jobj [(''id'', JStr i), (''deleted'', JBool True)]),
                 audit_action v (rq_headers r) None ''webhook.delete'' i None
                   (set_db ((rt_db s)\<lparr>webhooks := ws, webhook_deliveries := ds\<rparr>) s)))"

section \<open>Circuit breakers\<close>

text \<open>The breaker is keyed by the id as the path spells it.\<close>

definition breaker_GET :: "breaker_config \<Rightarrow> jstring \<Rightarrow> breaker \<Rightarrow> http_response + breaker_snapshot" where
  "breaker_GET bc i br = (if \<not> isUuid (Some (JStr i)) then Inl invalidId else Inr (getSnapshot bc br i))"

definition breaker_reset_POST ::
  "breaker_config \<Rightarrow> route_input \<Rightarrow> http_request \<Rightarrow> jstring \<Rightarrow> breaker \<Rightarrow> route_state \<Rightarrow>
     (http_response + breaker_snapshot) \<times> breaker \<times> route_state" where
  "breaker_reset_POST bc v r i br s =
     (if \<not> isUuid (Some (JStr i)) then (Inl invalidId, br, s)
      else (Inr (getSnapshot bc (breaker_reset i br) i), breaker_reset i br,
            audit_action v (rq_headers r) None ''webhook.circuit-breaker.reset'' i None s))"

section \<open>Lemmas\<close>

interpretation webhooks_route: audited_route "\<lambda>(fresh, v, r, body). webhooks_exec env net cfg fresh v r body" for env net cfg
  by unfold_locales (auto simp: webhooks_exec_def createWebhook_def Let_def split: option.splits if_splits)

text \<open>A body without its secret, and rows without theirs.\<close>

definition forget_secret :: "webhook \<Rightarrow> webhook" where
  "forget_secret w = w\<lparr>wh_secret := []\<rparr>"

definition same_but_secret :: "json \<Rightarrow> json \<Rightarrow> bool" where
  "same_but_secret body body' \<longleftrightarrow> (\<forall>k. k \<noteq> ''secret'' \<longrightarrow> get body k = get body' k) \<and>
     (as_string (get body ''secret'') = None \<longleftrightarrow> as_string (get body' ''secret'') = None)"

lemma listed_forget: "listed_webhook env (forget_secret w) = listed_webhook env w"
  by (simp add: listed_webhook_def forget_secret_def)

lemma forget_patched:
  "wp_url p = wp_url p' \<Longrightarrow> wp_events p = wp_events p' \<Longrightarrow> wp_active p = wp_active p' \<Longrightarrow> forget_secret w = forget_secret w' \<Longrightarrow>
   forget_secret (patched_webhook now p w) = forget_secret (patched_webhook now p' w')"
  by (cases w; cases w') (auto simp: forget_secret_def patched_webhook_def split: option.splits)

abbreviation alike :: "webhook list \<Rightarrow> webhook list \<Rightarrow> bool" where
  "alike ws ws' \<equiv> list_all2 (\<lambda>w w'. forget_secret w = forget_secret w') ws ws'"

lemma forget_id: "forget_secret w = forget_secret w' \<Longrightarrow> wh_id w = wh_id w'"
  by (cases w; cases w') (simp add: forget_secret_def)

lemma forget_fields:
  assumes "forget_secret w = forget_secret w'"
  shows "wh_id w = wh_id w'" "wh_url w = wh_url w'" "wh_events w = wh_events w'" "wh_active w = wh_active w'"
    "wh_createdAt w = wh_createdAt w'" "wh_updatedAt w = wh_updatedAt w'"
  using assms by (cases w; cases w'; simp add: forget_secret_def)+

lemma alike_update:
  assumes "alike ws ws'" and "wp_url p = wp_url p'" "wp_events p = wp_events p'" "wp_active p = wp_active p'"
  shows "alike (update_where (\<lambda>w. wh_id w = i) (patched_webhook now p) ws)
    (update_where (\<lambda>w. wh_id w = i) (patched_webhook now p') ws')"
  using assms(1)
proof (induction rule: list_all2_induct)
  case (Cons w ws w' ws')
  from Cons.hyps(1) forget_id have "wh_id w = wh_id w'" by blast
  with Cons forget_patched [OF assms(2-4) Cons.hyps(1)] show ?case by (simp add: update_where_def)
qed (simp add: update_where_def)

lemma alike_find:
  "alike ws ws' \<Longrightarrow> rel_option (\<lambda>w w'. forget_secret w = forget_secret w') (find_row wh_id i ws) (find_row wh_id i ws')"
  by (induction rule: list_all2_induct) (auto dest: forget_id)

lemma alike_listed: "alike ws ws' \<Longrightarrow> map (listed_webhook env) ws = map (listed_webhook env) ws'"
  by (induction rule: list_all2_induct) (simp_all, metis listed_forget)

section \<open>Properties\<close>

text \<open>
  A webhook's secret leaves the server only in the answer that created it: in two worlds that
  differ in stored secrets, and for two changes that differ in the new secret only, the answer of the
  change, the audit rows, and the listing afterwards are the same, so none of them carries any
  information about a secret.
\<close>

theorem webhook_secret_confined:
  assumes "same_but_secret body body'" and "checkWebhookFields body = None" and "checkWebhookFields body' = None"
    and "alike (webhooks (rt_db s)) (webhooks (rt_db s'))" and "rt_sink s = rt_sink s'"
  shows "fst (patch_webhook env net cfg v r i body s) = fst (patch_webhook env net cfg v r i body' s') \<and>
    rt_sink (snd (patch_webhook env net cfg v r i body s)) = rt_sink (snd (patch_webhook env net cfg v r i body' s')) \<and>
    webhooks_GET env (webhooks (rt_db (snd (patch_webhook env net cfg v r i body s)))) =
    webhooks_GET env (webhooks (rt_db (snd (patch_webhook env net cfg v r i body' s'))))"
proof -
  let ?p = "patch_of body" and ?p' = "patch_of body'"
  have get: "get body k = get body' k" if "k \<noteq> ''secret''" for k using assms(1) that by (simp add: same_but_secret_def)
  have same: "wp_url ?p = wp_url ?p'" "wp_events ?p = wp_events ?p'" "wp_active ?p = wp_active ?p'"
    and set: "wp_secret ?p = None \<longleftrightarrow> wp_secret ?p' = None"
    using assms(1) by (simp_all add: patch_of_def body_events_def get same_but_secret_def)
  have details: "patch_details ?p = patch_details ?p'" using same set by (simp add: patch_details_def)
  let ?ws = "update_where (\<lambda>w. wh_id w = uuid_value i) (patched_webhook (rv_now v) ?p) (webhooks (rt_db s))"
  let ?ws' = "update_where (\<lambda>w. wh_id w = uuid_value i) (patched_webhook (rv_now v) ?p') (webhooks (rt_db s'))"
  have alike: "alike ?ws ?ws'" using alike_update [OF assms(4) same] .
  note rows = alike_listed [OF assms(4), of env] alike_listed [OF alike, of env]
  show ?thesis
  proof (cases "(case as_string (get body ''url'') of None \<Rightarrow> None | Some u \<Rightarrow> assertSafeWebhookUrl net cfg u) = None \<and> \<not> rv_write_fails v")
    case False
    with assms(2,3,5) rows(1) show ?thesis
      by (auto simp: patch_webhook_def get webhooks_GET_def split: option.splits)
  next
    case True
    from alike_find [OF alike, of "uuid_value i"] show ?thesis
    proof (cases rule: option.rel_cases)
      case None
      with True assms(2,3,5) rows(1) show ?thesis by (simp add: patch_webhook_def get updateWebhook_def Let_def webhooks_GET_def)
    next
      case (Some w w')
      with True assms(2,3,5) rows(2) details forget_fields [OF Some(3)] show ?thesis
        by (simp add: patch_webhook_def get updateWebhook_def Let_def webhooks_GET_def audit_action_def)
    qed
  qed
qed

definition demo_rotation :: "string \<Rightarrow> json" where
  "demo_rotation secret = jobj [(''secret'', jlit secret)]"

definition demo_hook_id :: jstring where
  "demo_hook_id = js ''00000000-0000-4000-8000-00000000000a''"

definition demo_hook_db :: "string \<Rightarrow> db" where
  "demo_hook_db secret = empty_db\<lparr>webhooks := [\<lparr>wh_id = demo_hook_id, wh_url = js ''https://h'', wh_events = [], wh_secret = js secret,
     wh_active = True, wh_createdAt = 0, wh_updatedAt = 0\<rparr>]\<rparr>"

theorem webhook_secret_confined_witness:
  "rt_sink (snd (patch_webhook demo_route_env demo_net demo_config demo_route_input (demo_post ''/'') demo_hook_id (demo_rotation ''new'')
     (demo_route_state (demo_hook_db ''old'')))) =
   rt_sink (snd (patch_webhook demo_route_env demo_net demo_config demo_route_input (demo_post ''/'') demo_hook_id (demo_rotation ''other'')
     (demo_route_state (demo_hook_db ''older''))))"
proof -
  have "same_but_secret (demo_rotation ''new'') (demo_rotation ''other'')" by (simp add: same_but_secret_def demo_rotation_def)
  moreover have "checkWebhookFields (demo_rotation ''new'') = None" "checkWebhookFields (demo_rotation ''other'') = None" by code_simp+
  moreover have "alike (webhooks (rt_db (demo_route_state (demo_hook_db ''old'')))) (webhooks (rt_db (demo_route_state (demo_hook_db ''older''))))"
    by (simp add: demo_route_state_def demo_hook_db_def forget_secret_def)
  moreover have "rt_sink (demo_route_state (demo_hook_db ''old'')) = rt_sink (demo_route_state (demo_hook_db ''older''))"
    by (simp add: demo_route_state_def)
  ultimately show ?thesis by (blast dest: webhook_secret_confined)
qed

text \<open>
  What the routes store as a target passed the guard: a row of the table after a create or a change
  has the URL it had before, or one the guard accepts.
\<close>

lemma webhooks_exec_guarded:
  assumes "w \<in> set (webhooks (rt_db (snd (webhooks_exec env net cfg fresh v r body s))))"
  shows "w \<in> set (webhooks (rt_db s)) \<or> assertSafeWebhookUrl net cfg (wh_url w) = None"
  using assms by (auto simp: webhooks_exec_def createWebhook_def Let_def split: option.splits if_splits)

lemma patch_webhook_guarded:
  assumes "w \<in> set (webhooks (rt_db (snd (patch_webhook env net cfg v r i body s))))"
  shows "(\<exists>w0 \<in> set (webhooks (rt_db s)). wh_id w0 = wh_id w \<and> wh_url w0 = wh_url w) \<or> assertSafeWebhookUrl net cfg (wh_url w) = None"
  using assms
  by (auto simp: patch_webhook_def updateWebhook_def Let_def set_update_where patched_webhook_def patch_of_def
      split: option.splits if_splits)

text \<open>
  A path id may be spelled in either case, but the breaker is keyed by the spelling: a reset under
  the upper-case spelling answers a closed breaker and leaves the webhook's own breaker open.
\<close>

definition demo_hook_id_upper :: jstring where
  "demo_hook_id_upper = js ''00000000-0000-4000-8000-00000000000A''"

lemma upper_case_reset_misses:
  "uuid_value demo_hook_id_upper = demo_hook_id \<and>
   (case breaker_reset_POST DEFAULT_CONFIG demo_route_input (demo_post ''/'') demo_hook_id_upper
      [demo_hook_id \<mapsto> fresh_entry\<lparr>br_state := Open, openedAt := Some 0\<rparr>] (demo_route_state empty_db) of
      (Inr sn, br, s') \<Rightarrow> sn_state sn = Closed \<and> br_state (entry br demo_hook_id) = Open
    | _ \<Rightarrow> False)"
proof -
  have "uuid_value demo_hook_id_upper = demo_hook_id" "isUuid (Some (JStr demo_hook_id_upper))"
    "demo_hook_id_upper \<noteq> demo_hook_id" by code_simp+
  then show ?thesis
    by (simp add: breaker_reset_POST_def breaker_reset_def getSnapshot_def entry_def fresh_entry_def)
qed

end
