(* ===== verification/Uri_Component.thy ===== *)
theory Uri_Component
  imports Validation
begin

text \<open>
  \<open>encodeURIComponent\<close> and \<open>decodeURIComponent\<close> on strings of UTF-16 code units, as ECMA-262
  defines them: the registry writes an agent id into the path of its \<open>manifestUrl\<close> with the first
  and the routes under that path read it back with the second. \<open>None\<close> is the \<open>URIError\<close> each of
  them throws. Decoding is strict UTF-8: no overlong form, no surrogate, nothing past U+10FFFF.
\<close>

section \<open>UTF-8 and UTF-16\<close>

fun utf8_bytes :: "nat \<Rightarrow> nat list" where
  "utf8_bytes cp =
     (if cp < 0x80 then [cp]
      else if cp < 0x800 then [0xC0 + cp div 64, 0x80 + cp mod 64]
      else if cp < 0x10000 then [0xE0 + cp div 4096, 0x80 + cp div 64 mod 64, 0x80 + cp mod 64]
      else [0xF0 + cp div 262144, 0x80 + cp div 4096 mod 64, 0x80 + cp div 64 mod 64, 0x80 + cp mod 64])"

definition continuation :: "nat \<Rightarrow> bool" where
  "continuation b \<longleftrightarrow> 0x80 \<le> b \<and> b < 0xC0"

definition scalar :: "nat \<Rightarrow> bool" where
  "scalar cp \<longleftrightarrow> cp < 0xD800 \<or> 0xE000 \<le> cp \<and> cp < 0x110000"

text \<open>How many bytes follow a first byte of \<open>0x80\<close> or more.\<close>

definition trailing :: "nat \<Rightarrow> nat option" where
  "trailing b =
     (if b < 0xC0 then None else if b < 0xE0 then Some 1 else if b < 0xF0 then Some 2
      else if b < 0xF8 then Some 3 else None)"

fun utf8_value :: "nat list \<Rightarrow> nat option" where
  "utf8_value [a, b] =
     (let v = (a - 0xC0) * 64 + (b - 0x80)
      in if continuation b \<and> 0x80 \<le> v then Some v else None)"
| "utf8_value [a, b, c] =
     (let v = (a - 0xE0) * 4096 + (b - 0x80) * 64 + (c - 0x80)
      in if continuation b \<and> continuation c \<and> 0x800 \<le> v \<and> scalar v then Some v else None)"
| "utf8_value [a, b, c, d] =
     (let v = (a - 0xF0) * 262144 + (b - 0x80) * 4096 + (c - 0x80) * 64 + (d - 0x80)
      in if continuation b \<and> continuation c \<and> continuation d \<and> 0x10000 \<le> v \<and> scalar v then Some v else None)"
| "utf8_value _ = None"

definition utf16_units :: "nat \<Rightarrow> jstring" where
  "utf16_units cp =
     (if cp < 0x10000 then [of_nat cp]
      else [of_nat (0xD800 + (cp - 0x10000) div 1024), of_nat (0xDC00 + (cp - 0x10000) mod 1024)])"

definition pair_value :: "code_unit \<Rightarrow> code_unit \<Rightarrow> nat" where
  "pair_value c d = 0x10000 + (unat c - 0xD800) * 1024 + (unat d - 0xDC00)"

section \<open>Percent escapes\<close>

definition percent :: code_unit where "percent = cu (CHR ''%'')"

definition upper_hex :: "nat \<Rightarrow> code_unit" where
  "upper_hex n = of_nat (if n < 10 then 48 + n else 55 + n)"

definition hex_value :: "code_unit \<Rightarrow> nat option" where
  "hex_value c =
     (if 48 \<le> c \<and> c \<le> 57 then Some (unat c - 48)
      else if 65 \<le> c \<and> c \<le> 70 then Some (unat c - 55)
      else if 97 \<le> c \<and> c \<le> 102 then Some (unat c - 87) else None)"

definition percent_byte :: "nat \<Rightarrow> jstring" where
  "percent_byte b = [percent, upper_hex (b div 16), upper_hex (b mod 16)]"

definition percent_encoded :: "nat \<Rightarrow> jstring" where
  "percent_encoded cp = concat (map percent_byte (utf8_bytes cp))"

definition uri_unreserved :: "code_unit \<Rightarrow> bool" where
  "uri_unreserved c \<longleftrightarrow> is_alnum c \<or> c \<in> set (js ''-_.!~*'' @ [39] @ js ''()'')"

fun encodeURIComponent :: "jstring \<Rightarrow> jstring option" where
  "encodeURIComponent [] = Some []"
| "encodeURIComponent (c # s) =
     (if uri_unreserved c then map_option ((#) c) (encodeURIComponent s)
      else if is_low_surrogate c then None
      else if is_high_surrogate c then
        (case s of
           [] \<Rightarrow> None
         | d # s' \<Rightarrow> if is_low_surrogate d
             then map_option ((@) (percent_encoded (pair_value c d))) (encodeURIComponent s') else None)
      else map_option ((@) (percent_encoded (unat c))) (encodeURIComponent s))"

text \<open>One escape at the front of the input, and \<open>n\<close> of them.\<close>

fun escaped_byte :: "jstring \<Rightarrow> (nat \<times> jstring) option" where
  "escaped_byte (p # a # b # s) =
     (if p \<noteq> percent then None
      else case (hex_value a, hex_value b) of
        (Some x, Some y) \<Rightarrow> Some (16 * x + y, s) | _ \<Rightarrow> None)"
| "escaped_byte _ = None"

fun escaped_bytes :: "nat \<Rightarrow> jstring \<Rightarrow> (nat list \<times> jstring) option" where
  "escaped_bytes 0 s = Some ([], s)"
| "escaped_bytes (Suc n) s =
     (case escaped_byte s of
        None \<Rightarrow> None
      | Some (b, s') \<Rightarrow> map_option (\<lambda>(bs, r). (b # bs, r)) (escaped_bytes n s'))"

text \<open>The code point at the front of the input, which starts with an escape.\<close>

definition escaped_code_point :: "jstring \<Rightarrow> (nat \<times> jstring) option" where
  "escaped_code_point s =
     (case escaped_byte s of
        None \<Rightarrow> None
      | Some (b, s') \<Rightarrow>
          if b < 0x80 then Some (b, s')
          else case trailing b of
            None \<Rightarrow> None
          | Some n \<Rightarrow>
              (case escaped_bytes n s' of
                 None \<Rightarrow> None
               | Some (bs, r) \<Rightarrow> map_option (\<lambda>v. (v, r)) (utf8_value (b # bs))))"

lemma escaped_byte_shorter: "escaped_byte s = Some (b, r) \<Longrightarrow> length r < length s"
  by (cases s rule: escaped_byte.cases) (auto split: if_splits option.splits)

lemma escaped_bytes_shorter: "escaped_bytes n s = Some (bs, r) \<Longrightarrow> length r \<le> length s"
proof (induction n arbitrary: s bs)
  case (Suc n)
  then obtain b s' bs' where "escaped_byte s = Some (b, s')" "escaped_bytes n s' = Some (bs', r)"
    by (auto split: option.splits)
  with Suc.IH [of s' bs'] escaped_byte_shorter [of s b s'] show ?case by simp
qed simp

lemma escaped_code_point_shorter: "escaped_code_point s = Some (v, r) \<Longrightarrow> length r < length s"
  by (auto simp: escaped_code_point_def split: option.splits if_splits
      dest!: escaped_byte_shorter escaped_bytes_shorter)

function decodeURIComponent :: "jstring \<Rightarrow> jstring option" where
  "decodeURIComponent [] = Some []"
| "decodeURIComponent (c # s) =
     (if c \<noteq> percent then map_option ((#) c) (decodeURIComponent s)
      else case escaped_code_point (c # s) of
        None \<Rightarrow> None
      | Some (v, r) \<Rightarrow> map_option ((@) (utf16_units v)) (decodeURIComponent r))"
  by pat_completeness auto
termination
  by (relation "measure length") (auto dest: escaped_code_point_shorter)

section \<open>The round trip\<close>

lemma hex_value_upper_hex: "n < 16 \<Longrightarrow> hex_value (upper_hex n) = Some n"
proof -
  have "\<forall>n \<in> set [0..<16]. hex_value (upper_hex n) = Some n" by code_simp
  then show "n < 16 \<Longrightarrow> hex_value (upper_hex n) = Some n" by simp
qed

lemma escaped_byte_percent [simp]: "b < 256 \<Longrightarrow> escaped_byte (percent_byte b @ s) = Some (b, s)"
  by (simp add: percent_byte_def hex_value_upper_hex less_mult_imp_div_less)

lemma escaped_bytes_percent:
  "\<forall>b \<in> set bs. b < 256 \<Longrightarrow> escaped_bytes (length bs) (concat (map percent_byte bs) @ s) = Some (bs, s)"
  by (induction bs) simp_all

lemma utf8_bytes_byte: "cp < 0x110000 \<Longrightarrow> \<forall>b \<in> set (utf8_bytes cp). b < 256"
  by auto

text \<open>The base-64 digits of a number below \<open>2 ^ 24\<close>, most significant first.\<close>

lemma digits64:
  fixes n :: nat
  obtains a b c d where "n = a * 262144 + b * 4096 + c * 64 + d" "b < 64" "c < 64" "d < 64"
    "n div 64 = a * 4096 + b * 64 + c" "n div 4096 = a * 64 + b" "n div 262144 = a" "n mod 64 = d"
    "n div 64 mod 64 = c" "n div 4096 mod 64 = b"
proof -
  have split: "\<exists>q r. k = q * 64 + r \<and> r < 64" for k :: nat
    by (rule exI [of _ "k div 64"], rule exI [of _ "k mod 64"]) simp
  obtain m d where d: "n = m * 64 + d" "d < 64" using split by blast
  obtain k c where c: "m = k * 64 + c" "c < 64" using split by blast
  obtain a b where b: "k = a * 64 + b" "b < 64" using split by blast
  have m: "n div 64 = m" "n mod 64 = d" using d by simp_all
  have k: "m div 64 = k" "m mod 64 = c" using c by simp_all
  have a: "k div 64 = a" "k mod 64 = b" using b by simp_all
  have e: "n div 4096 = n div 64 div 64" "n div 262144 = n div 64 div 64 div 64"
    by (simp_all flip: div_mult2_eq)
  show thesis
  proof (rule that)
    show "n = a * 262144 + b * 4096 + c * 64 + d" "n div 64 = a * 4096 + b * 64 + c"
      unfolding m unfolding d(1) c(1) b(1) by (simp_all add: algebra_simps)
    show "b < 64" "c < 64" "d < 64" using b(2) c(2) d(2) .
    show "n div 4096 = a * 64 + b" "n div 262144 = a" "n mod 64 = d" "n div 64 mod 64 = c" "n div 4096 mod 64 = b"
      unfolding e m k a using b(1) by simp_all
  qed
qed

lemma utf8_value_bytes:
  assumes "scalar cp" and "0x80 \<le> cp"
  shows "utf8_value (utf8_bytes cp) = Some cp"
proof -
  obtain a b c d where n: "cp = a * 262144 + b * 4096 + c * 64 + d" "b < 64" "c < 64" "d < 64"
    "cp div 64 = a * 4096 + b * 64 + c" "cp div 4096 = a * 64 + b" "cp div 262144 = a" "cp mod 64 = d"
    "cp div 64 mod 64 = c" "cp div 4096 mod 64 = b" by (rule digits64)
  consider "cp < 0x800" | "0x800 \<le> cp" "cp < 0x10000" | "0x10000 \<le> cp" by linarith
  then show ?thesis
  proof cases
    case 1
    with assms n show ?thesis by (simp add: Let_def continuation_def)
  next
    case 2
    with assms n show ?thesis by (simp add: Let_def continuation_def scalar_def mult.commute)
  next
    case 3
    with assms n show ?thesis by (simp add: Let_def continuation_def scalar_def mult.commute)
  qed
qed

lemma utf8_bytes_lead:
  assumes "scalar cp" and "0x80 \<le> cp"
  obtains b bs where "utf8_bytes cp = b # bs" "0x80 \<le> b" "b < 256" "trailing b = Some (length bs)" "\<forall>x \<in> set bs. x < 256"
proof -
  consider "cp < 0x800" | "0x800 \<le> cp" "cp < 0x10000" | "0x10000 \<le> cp" "cp < 0x110000"
    using assms(1) by (auto simp: scalar_def) linarith+
  then show thesis
  proof cases
    case 1
    with assms(2) show thesis
      by (intro that [of "0xC0 + cp div 64" "[0x80 + cp mod 64]"]) (auto simp: trailing_def)
  next
    case 2
    with assms(2) show thesis
      by (intro that [of "0xE0 + cp div 4096" "[0x80 + cp div 64 mod 64, 0x80 + cp mod 64]"]) (auto simp: trailing_def)
  next
    case 3
    with assms(2) show thesis
      by (intro that [of "0xF0 + cp div 262144" "[0x80 + cp div 4096 mod 64, 0x80 + cp div 64 mod 64, 0x80 + cp mod 64]"])
        (auto simp: trailing_def)
  qed
qed

lemma escaped_code_point_encoded:
  assumes "scalar cp"
  shows "escaped_code_point (percent_encoded cp @ s) = Some (cp, s)"
proof (cases "cp < 0x80")
  case True
  then show ?thesis by (simp add: percent_encoded_def escaped_code_point_def)
next
  case False
  then have "0x80 \<le> cp" by simp
  obtain b bs where lead: "utf8_bytes cp = b # bs" "0x80 \<le> b" "b < 256" "trailing b = Some (length bs)" "\<forall>x \<in> set bs. x < 256"
    by (rule utf8_bytes_lead [OF assms \<open>0x80 \<le> cp\<close>])
  then have "percent_encoded cp @ s = percent_byte b @ concat (map percent_byte bs) @ s"
    by (simp only: percent_encoded_def list.map concat.simps append_assoc)
  with lead escaped_bytes_percent [OF lead(5), of s] utf8_value_bytes [OF assms \<open>0x80 \<le> cp\<close>]
  show ?thesis by (simp add: escaped_code_point_def)
qed

lemma decode_encoded:
  assumes "scalar cp"
  shows "decodeURIComponent (percent_encoded cp @ s) = map_option ((@) (utf16_units cp)) (decodeURIComponent s)"
proof -
  obtain t where t: "percent_encoded cp @ s = percent # t"
    by (cases "utf8_bytes cp") (auto simp: percent_encoded_def percent_byte_def split: if_splits)
  show ?thesis using escaped_code_point_encoded [OF assms, of s] unfolding t by simp
qed

lemma unreserved_not_percent: "uri_unreserved c \<Longrightarrow> c \<noteq> percent"
proof -
  have "\<not> uri_unreserved percent" by code_simp
  then show "uri_unreserved c \<Longrightarrow> c \<noteq> percent" by auto
qed

lemma pair_scalar:
  assumes "is_high_surrogate c" and "is_low_surrogate d"
  shows "scalar (pair_value c d) \<and> utf16_units (pair_value c d) = [c, d]"
proof -
  have c: "0xD800 \<le> unat c" "unat c \<le> 0xDBFF" and d: "0xDC00 \<le> unat d" "unat d \<le> 0xDFFF"
    using assms by (simp_all add: is_high_surrogate_def is_low_surrogate_def word_le_nat_alt)
  obtain x where x: "unat c = 0xD800 + x" using le_Suc_ex [OF c(1)] by blast
  obtain y where y: "unat d = 0xDC00 + y" using le_Suc_ex [OF d(1)] by blast
  have v: "pair_value c d = 0x10000 + (x * 1024 + y)" by (simp add: pair_value_def x y)
  have le: "x \<le> 1023" "y \<le> 1023" using c(2) d(2) x y by simp_all
  then have "(x * 1024 + y) div 1024 = x" "(x * 1024 + y) mod 1024 = y" by simp_all
  then have "utf16_units (pair_value c d) = [of_nat (unat c), of_nat (unat d)]"
    by (simp add: utf16_units_def v x y)
  with le show ?thesis by (simp add: scalar_def v)
qed

lemma plain_scalar:
  assumes "\<not> is_high_surrogate c" and "\<not> is_low_surrogate c"
  shows "scalar (unat c) \<and> utf16_units (unat c) = [c]"
proof -
  have "(unsigned c :: nat) < 2 ^ LENGTH(16)" by (rule unsigned_less)
  then have "unat c < 0x10000" by simp
  with assms show ?thesis
    by (auto simp: is_high_surrogate_def is_low_surrogate_def word_le_nat_alt scalar_def utf16_units_def)
qed

lemma decode_encode:
  "encodeURIComponent s = Some t \<Longrightarrow> decodeURIComponent (t @ u) = map_option ((@) s) (decodeURIComponent u)"
proof (induction s arbitrary: t rule: encodeURIComponent.induct)
  case (2 c s)
  note IH = "2.IH" and enc = "2.prems"
  show ?case
  proof (cases "uri_unreserved c")
    case True
    with enc obtain t' where "t = c # t'" "encodeURIComponent s = Some t'" by auto
    with IH(1) [OF True] unreserved_not_percent [OF True] show ?thesis by (simp add: option.map_comp comp_def)
  next
    case other: False
    with enc have low: "\<not> is_low_surrogate c" by (auto split: if_splits)
    show ?thesis
    proof (cases "is_high_surrogate c")
      case True
      with enc other low obtain d s' t' where e: "s = d # s'" "is_low_surrogate d"
        "encodeURIComponent s' = Some t'" "t = percent_encoded (pair_value c d) @ t'"
        by (auto split: list.splits if_splits)
      from IH(2) [OF other low True e(1,2,3)] pair_scalar [OF True e(2)] show ?thesis
        by (simp add: e(1,4) decode_encoded option.map_comp comp_def)
    next
      case False
      with enc other low obtain t' where e: "encodeURIComponent s = Some t'" "t = percent_encoded (unat c) @ t'"
        by auto
      from IH(3) [OF other low False e(1)] plain_scalar [OF False low] show ?thesis
        by (simp add: e(2) decode_encoded option.map_comp comp_def)
    qed
  qed
qed (auto simp: map_option_case split: option.splits)

lemmas decode_encode_all = decode_encode [where u = "[]", simplified]

text \<open>An encoded component is one path segment, and exactly the well-formed strings have one.\<close>

definition uri_safe :: "code_unit \<Rightarrow> bool" where
  "uri_safe c \<longleftrightarrow> uri_unreserved c \<or> c = percent"

lemma upper_hex_safe: "n < 16 \<Longrightarrow> uri_safe (upper_hex n)"
proof -
  have "\<forall>n \<in> set [0..<16]. uri_safe (upper_hex n)" by code_simp
  then show "n < 16 \<Longrightarrow> uri_safe (upper_hex n)" by simp
qed

lemma percent_byte_safe: "b < 256 \<Longrightarrow> list_all uri_safe (percent_byte b)"
  by (simp add: percent_byte_def upper_hex_safe less_mult_imp_div_less) (simp add: uri_safe_def)

lemma percent_encoded_safe: "scalar cp \<Longrightarrow> list_all uri_safe (percent_encoded cp)"
proof -
  assume "scalar cp"
  then have "\<forall>b \<in> set (utf8_bytes cp). list_all uri_safe (percent_byte b)"
    using utf8_bytes_byte [of cp] percent_byte_safe by (auto simp: scalar_def simp del: utf8_bytes.simps)
  then show ?thesis by (simp add: percent_encoded_def list_all_iff del: utf8_bytes.simps)
qed

lemma encode_safe: "encodeURIComponent s = Some t \<Longrightarrow> list_all uri_safe t"
proof (induction s arbitrary: t rule: encodeURIComponent.induct)
  case (2 c s)
  have "uri_unreserved c \<Longrightarrow> uri_safe c" by (simp add: uri_safe_def)
  with 2 show ?case
    by (auto split: if_splits list.splits simp: pair_scalar plain_scalar percent_encoded_safe)
qed simp

lemma well_formed_Cons:
  "well_formed (c # s) \<longleftrightarrow>
     (if is_high_surrogate c then (case s of [] \<Rightarrow> False | d # s' \<Rightarrow> is_low_surrogate d \<and> well_formed s')
      else \<not> is_low_surrogate c \<and> well_formed s)"
  by (cases s) auto

lemma unreserved_plain: "uri_unreserved c \<Longrightarrow> \<not> is_high_surrogate c \<and> \<not> is_low_surrogate c"
  by (auto simp: uri_unreserved_def is_alnum_def is_digit_def is_upper_def is_lower_def
      is_high_surrogate_def is_low_surrogate_def js_def cu_def word_le_nat_alt)

lemma high_not_low: "is_high_surrogate c \<Longrightarrow> \<not> is_low_surrogate c"
  by (simp add: is_high_surrogate_def is_low_surrogate_def word_le_nat_alt)

lemma encode_well_formed: "encodeURIComponent s \<noteq> None \<longleftrightarrow> well_formed s"
proof (induction s rule: encodeURIComponent.induct)
  case (2 c s)
  then show ?case using unreserved_plain [of c] high_not_low [of c]
    by (auto simp del: well_formed.simps simp: well_formed_Cons split: list.splits)
qed simp

end
