(* ===== verification/Registry_Routes.thy ===== *)
theory Registry_Routes
  imports Registration Uri_Component "HOL-Library.Product_Lexorder"
begin

text \<open>
  The read routes of the agent registry under \<open>src/src/app/api/registry/agents\<close>: the listing with its
  filters and pages, one agent, its manifest as it was registered, and the export bundle. \<open>None\<close> is a
  throw, which the framework answers 500: a path segment that \<open>decodeURIComponent\<close> refuses, a
  text with U+0000 bound in a query (SQLSTATE 22021), an agent id \<open>encodeURIComponent\<close> refuses.
\<close>

text \<open>
  \<open>gr_url_host\<close> is \<open>new URL(s)\<close> read as protocol and host, \<open>None\<close> where it throws; \<open>gr_json_text\<close>
  is \<open>JSON.stringify\<close>.
\<close>

record registry_env =
  gr_route :: route_env
  gr_url_host :: "jstring \<Rightarrow> (jstring \<times> jstring) option"
  gr_json_text :: "json \<Rightarrow> jstring"

datatype read_answer = JsonAnswer http_response | TextAnswer nat jstring headers

section \<open>Rows as \<open>Response.json\<close> prints them\<close>

definition js_list :: "jstring list \<Rightarrow> json" where
  "js_list xs = JArr (map JStr xs)"

definition ts_text :: "route_env \<Rightarrow> instant \<Rightarrow> json" where
  "ts_text env t = JStr (ro_ts_text env t)"

definition agent_status_text :: "agent_status \<Rightarrow> json" where
  "agent_status_text st = jlit (case st of Active \<Rightarrow> ''active'' | Expired \<Rightarrow> ''expired''
     | Deregistered \<Rightarrow> ''deregistered'' | Inactive \<Rightarrow> ''inactive'')"

definition session_status_text :: "session_status \<Rightarrow> string" where
  "session_status_text st = (case st of Started \<Rightarrow> ''started'' | Complete \<Rightarrow> ''complete'' | SessionFailed \<Rightarrow> ''failed'')"

definition agent_record :: "route_env \<Rightarrow> agent \<Rightarrow> json" where
  "agent_record env a = jobj [(''aid'', JStr (ag_aid a)), (''displayName'', JStr (ag_displayName a)),
     (''handshakeEndpoint'', JStr (ag_handshakeEndpoint a)), (''offeredCaps'', js_list (ag_offeredCaps a)),
     (''manifestJson'', JStr (ag_manifestJson a)), (''manifestExpiresAt'', time_or_null env (ag_manifestExpiresAt a)),
     (''status'', agent_status_text (ag_status a)), (''registeredAt'', ts_text env (ag_registeredAt a)),
     (''lastEnrolledAt'', time_or_null env (ag_lastEnrolledAt a)), (''lastSeenAt'', time_or_null env (ag_lastSeenAt a)),
     (''org'', jopt (ag_org a)), (''cloud'', jopt (ag_cloud a)), (''namespace'', JStr (ag_namespace a)),
     (''metadata'', ag_metadata a)]"

definition session_record :: "route_env \<Rightarrow> handshake_session \<Rightarrow> json" where
  "session_record env s = jobj [(''sessionId'', JStr (hs_sessionId s)), (''aidA'', jopt (hs_aidA s)),
     (''aidB'', jopt (hs_aidB s)), (''status'', jlit (session_status_text (hs_status s))),
     (''grants'', js_list (hs_grants s)), (''runId'', jopt (hs_runId s)), (''boundary'', jopt (hs_boundary s)),
     (''error'', jopt (hs_error s)), (''startedAt'', time_or_null env (hs_startedAt s)),
     (''completedAt'', time_or_null env (hs_completedAt s)), (''createdAt'', ts_text env (hs_createdAt s)),
     (''updatedAt'', ts_text env (hs_updatedAt s))]"

definition tct_record :: "route_env \<Rightarrow> issued_tct \<Rightarrow> json" where
  "tct_record env t = jobj [(''jti'', JStr (it_jti t)), (''issuerAid'', JStr (it_issuerAid t)),
     (''subjectAid'', JStr (it_subjectAid t)), (''audienceAid'', JStr (it_audienceAid t)),
     (''grants'', js_list (it_grants t)), (''bindingCnf'', jopt (it_bindingCnf t)),
     (''issuedAt'', ts_text env (it_issuedAt t)), (''expiresAt'', time_or_null env (it_expiresAt t)),
     (''sessionId'', jopt (it_sessionId t)), (''revoked'', JBool (it_revoked t)),
     (''revokedAt'', time_or_null env (it_revokedAt t)), (''createdAt'', ts_text env (it_createdAt t))]"

definition event_record :: "route_env \<Rightarrow> audit_event_row \<Rightarrow> json" where
  "event_record env e = jobj [(''id'', JStr (ev_id e)), (''type'', JStr (ev_type e)), (''ts'', ts_text env (ev_ts e)),
     (''aidA'', jopt (ev_aidA e)), (''aidB'', jopt (ev_aidB e)), (''sessionId'', jopt (ev_sessionId e)),
     (''runId'', jopt (ev_runId e)), (''grants'', case ev_grants e of None \<Rightarrow> JNull | Some gs \<Rightarrow> js_list gs),
     (''payload'', ev_payload e), (''source'', jopt (ev_source e)), (''createdAt'', ts_text env (ev_createdAt e))]"

section \<open>The listing\<close>

definition manifest_url :: "jstring \<Rightarrow> jstring option" where
  "manifest_url aid = map_option (\<lambda>seg. js ''/api/registry/agents/'' @ seg @ js ''/manifest'') (encodeURIComponent aid)"

definition deriveAgentManifestHint :: "registry_env \<Rightarrow> jstring \<Rightarrow> jstring option" where
  "deriveAgentManifestHint env endpoint =
     (case gr_url_host env endpoint of
        None \<Rightarrow> None
      | Some (protocol, host) \<Rightarrow>
          if host = [] then None else Some (protocol @ js ''//'' @ host @ js ''/.well-known/aitp-manifest''))"

definition listed_agent :: "registry_env \<Rightarrow> bool \<Rightarrow> agent \<Rightarrow> json option" where
  "listed_agent env includeManifest a = map_option (\<lambda>url. jobj
     ([(''aid'', JStr (ag_aid a)), (''displayName'', JStr (ag_displayName a)),
       (''handshakeEndpoint'', JStr (ag_handshakeEndpoint a)), (''offeredCaps'', js_list (ag_offeredCaps a)),
       (''status'', agent_status_text (ag_status a)), (''namespace'', JStr (ag_namespace a)),
       (''registeredAt'', ts_text (gr_route env) (ag_registeredAt a)),
       (''lastEnrolledAt'', time_or_null (gr_route env) (ag_lastEnrolledAt a)),
       (''lastSeenAt'', time_or_null (gr_route env) (ag_lastSeenAt a)), (''manifestUrl'', JStr url),
       (''agentManifestHint'', jopt (deriveAgentManifestHint env (ag_handshakeEndpoint a)))] @
      (if includeManifest then [(''manifestJson'', JStr (ag_manifestJson a))] else []))) (manifest_url (ag_aid a))"

definition agents_GET ::
  "registry_env \<Rightarrow> (jstring \<Rightarrow> int option) \<Rightarrow> instant \<Rightarrow> search_params \<Rightarrow> agent list \<Rightarrow> http_response option" where
  "agents_GET env to_number now q t =
     (let q = q(''display_name'' := orelse (q ''display_name'') (q ''displayName''))
      in case query_problem [''capability'', ''aid'', ''display_name'', ''namespace''] q of
           Some resp \<Rightarrow> Some resp
         | None \<Rightarrow>
             (let pg = parsePagination to_number (q ''limit'') (q ''offset'') 200 1000;
                  rows = listAgents now \<lparr>rf_capability = q ''capability'', rf_aid = q ''aid'',
                    rf_displayName = q ''display_name'', rf_namespace = q ''namespace'',
                    rf_limit = pg_limit pg, rf_offset = pg_offset pg\<rparr> t
              in map_option (\<lambda>vs. json_response 200 (jobj [(''agents'', JArr vs)]))
                   (those (map (listed_agent env (q ''include_manifest'' = Some (js ''true''))) rows))))"

section \<open>One agent\<close>

text \<open>\<open>decodeURIComponent(aid)\<close>, then bound in a text comparison.\<close>

definition path_aid :: "jstring \<Rightarrow> jstring option" where
  "path_aid seg = (case decodeURIComponent seg of None \<Rightarrow> None | Some aid \<Rightarrow> if has_nul aid then None else Some aid)"

definition agent_not_found :: http_response where
  "agent_not_found = json_response 404 (error_body ''agent not found'' ''NOT_FOUND'')"

definition ok_headers :: "(string \<times> string) list \<Rightarrow> headers" where
  "ok_headers hs = map_of (map (\<lambda>(k, v). (js k, js v)) hs)"

definition agent_GET :: "route_env \<Rightarrow> jstring \<Rightarrow> agent list \<Rightarrow> http_response option" where
  "agent_GET env seg t =
     (case path_aid seg of
        None \<Rightarrow> None
      | Some aid \<Rightarrow>
          (case getAgent aid t of
             None \<Rightarrow> Some agent_not_found
           | Some a \<Rightarrow> map_option (\<lambda>url. \<lparr>rs_status = 200,
               rs_body = jobj [(''aid'', JStr (ag_aid a)), (''displayName'', JStr (ag_displayName a)),
                 (''handshakeEndpoint'', JStr (ag_handshakeEndpoint a)), (''offeredCaps'', js_list (ag_offeredCaps a)),
                 (''status'', agent_status_text (ag_status a)), (''registeredAt'', ts_text env (ag_registeredAt a)),
                 (''lastSeenAt'', time_or_null env (ag_lastSeenAt a)), (''manifestUrl'', JStr url)],
               rs_headers = ok_headers [(''cache-control'', ''public, max-age=30'')]\<rparr>) (manifest_url (ag_aid a))))"

definition manifest_GET :: "jstring \<Rightarrow> agent list \<Rightarrow> read_answer option" where
  "manifest_GET seg t =
     (case path_aid seg of
        None \<Rightarrow> None
      | Some aid \<Rightarrow>
          (case getAgent aid t of
             None \<Rightarrow> Some (JsonAnswer agent_not_found)
           | Some a \<Rightarrow> Some (TextAnswer 200 (ag_manifestJson a)
               (ok_headers [(''content-type'', ''application/json''), (''cache-control'', ''max-age=60'')]))))"

definition agent_DELETE_route ::
  "fan_env \<Rightarrow> route_input \<Rightarrow> http_request \<Rightarrow> jstring \<Rightarrow> route_state \<Rightarrow> http_response option \<times> route_state" where
  "agent_DELETE_route fan v r seg s =
     (case path_aid seg of None \<Rightarrow> (None, s) | Some aid \<Rightarrow> agent_DELETE fan v r aid s)"

section \<open>Export\<close>

text \<open>\<open>parseInt(s, 10)\<close>: white space, a sign, then the longest run of digits; \<open>None\<close> is \<open>NaN\<close>.\<close>

definition digits_value :: "jstring \<Rightarrow> int" where
  "digits_value ds = foldl (\<lambda>n c. 10 * n + (uint c - 48)) 0 ds"

definition parse_int :: "jstring \<Rightarrow> int option" where
  "parse_int s =
     (let u = dropWhile is_js_space s;
          (neg, rest) = (case u of [] \<Rightarrow> (False, [])
            | c # r \<Rightarrow> if c = cu (CHR ''-'') then (True, r) else if c = cu (CHR ''+'') then (False, r) else (False, u));
          ds = takeWhile is_digit rest
      in if ds = [] then None else Some (if neg then - digits_value ds else digits_value ds))"

text \<open>\<open>parseInt(q ?? String(d), 10) || d\<close>, and the clamp around it.\<close>

definition int_param :: "search_params \<Rightarrow> string \<Rightarrow> int \<Rightarrow> int" where
  "int_param q name d = (case q name of None \<Rightarrow> d
     | Some s \<Rightarrow> (case parse_int s of None \<Rightarrow> d | Some n \<Rightarrow> if n = 0 then d else n))"

definition limit_param :: "search_params \<Rightarrow> string \<Rightarrow> int \<Rightarrow> int \<Rightarrow> int" where
  "limit_param q name d mx = min (max (int_param q name d) 1) mx"

definition jsonl :: "(json \<Rightarrow> jstring) \<Rightarrow> (string \<times> json) list \<Rightarrow> jstring" where
  "jsonl text rows =
     concat (map (\<lambda>(kind, v). text (jobj [(''kind'', jlit kind), (''record'', v)]) @ js [CHR 0x0A]) rows)"

definition nulls_first :: "instant option \<Rightarrow> nat \<times> int" where
  "nulls_first t = (case t of None \<Rightarrow> (0, 0) | Some ms \<Rightarrow> (1, - ms))"

definition agent_export :: "registry_env \<Rightarrow> instant \<Rightarrow> search_params \<Rightarrow> jstring \<Rightarrow> db \<Rightarrow> read_answer option" where
  "agent_export env now q seg d =
     (case path_aid seg of
        None \<Rightarrow> None
      | Some aid \<Rightarrow>
          (case getAgent aid (agents d) of
             None \<Rightarrow> Some (JsonAnswer agent_not_found)
           | Some a \<Rightarrow>
               (let rt = gr_route env;
                    agent = agent_record rt a;
                    sessions = map (session_record rt) (sort_key (\<lambda>s. nulls_first (hs_startedAt s))
                      (filter (\<lambda>s. hs_aidA s = Some aid \<or> hs_aidB s = Some aid) (handshake_sessions d)));
                    tcts = map (tct_record rt) (filter (\<lambda>t. it_issuerAid t = aid \<or> it_subjectAid t = aid \<or> it_audienceAid t = aid)
                      (issued_tcts d));
                    events = map (event_record rt) (page ev_ts (limit_param q ''eventLimit'' 1000 10000) 0
                      (filter (\<lambda>e. ev_aidA e = Some aid \<or> ev_aidB e = Some aid) (audit_events d)))
                in if q ''format'' = Some (js ''jsonl'') then
                     map_option (\<lambda>name. TextAnswer 200
                       (jsonl (gr_json_text env) ((''agent'', agent) # map (Pair ''session'') sessions @
                          map (Pair ''tct'') tcts @ map (Pair ''event'') events))
                       ((ok_headers [(''content-type'', ''application/x-ndjson'')])
                         (js ''content-disposition'' \<mapsto> js ''attachment; filename=\"agent-'' @ name @ js ''.jsonl\"'')))
                       (encodeURIComponent aid)
                   else Some (JsonAnswer (json_response 200 (jobj [(''agent'', agent), (''sessions'', JArr sessions),
                     (''tcts'', JArr tcts), (''events'', JArr events),
                     (''exportedAt'', JStr (de_iso (fe_delivery (ro_fan rt)) now))]))))))"

section \<open>Properties\<close>

lemma path_aid_encoded:
  assumes "encodeURIComponent aid = Some seg" and "\<not> has_nul aid"
  shows "path_aid seg = Some aid"
  using decode_encode_all [OF assms(1)] assms(2) by (simp add: path_aid_def)

lemma slash_unsafe: "\<not> uri_safe (cu (CHR ''/''))" "\<not> uri_safe (cu (CHR ''?''))" "\<not> uri_safe (cu (CHR ''#''))"
  by code_simp+

lemma encoded_segment:
  assumes "encodeURIComponent aid = Some seg"
  shows "cu (CHR ''/'') \<notin> set seg \<and> cu (CHR ''?'') \<notin> set seg \<and> cu (CHR ''#'') \<notin> set seg"
  using encode_safe [OF assms] slash_unsafe by (auto simp: list_all_iff)

lemma manifest_aid: "checkManifestColumns m = None \<Longrightarrow> \<exists>aid. get m ''aid'' = Some (JStr aid) \<and> \<not> has_nul aid"
  by (auto simp: checkManifestColumns_def orelse_def string_column_def checkColumnString_def as_string_Some
      split: option.splits if_splits)

lemma register_exec_agents:
  assumes "register_exec env fan v r body s = (Some res, s')" and "ir_status res = 201"
  obtains m where "agents (rt_db s') = upsertAgent (rv_now v) (manifest_input r m body) (agents (rt_db s))"
    "get (ir_body res) ''aid'' = Some (JStr (ri_aid (manifest_input r m body)))" "checkManifestColumns m = None"
proof (cases "register_checks env (rv_now v) r body")
  case (Inl refusal)
  with assms register_refusal [OF Inl] show thesis by (simp add: register_exec_def)
next
  case (Inr mp)
  obtain m payload where mp: "mp = (m, payload)" by fastforce
  from assms Inr mp register_checks_Inr [of env "rv_now v" r body m payload] show thesis
    by (cases "find_row ej_jti (string_or (get payload ''jti'') []) (enrollment_jtis (rt_db s)) = None")
       (auto simp: register_exec_def registerConsumingJti_cases Let_def split: if_splits intro!: that [of m])
qed

text \<open>
  C16. What an agent registers is what its \<open>manifestUrl\<close> serves: after a registration answered 201 for
  an agent id that is well-formed Unicode, \<open>manifest_url\<close> of that id is a path with the id as one
  segment, and the manifest route called with that segment answers 200 with the registered body,
  byte for byte.
\<close>

theorem registered_manifest_is_served:
  assumes "register_exec env fan v r body s = (Some res, s')" and "ir_status res = 201"
    and "get (ir_body res) ''aid'' = Some (JStr aid)" and "well_formed aid"
  shows "\<exists>seg hs. manifest_url aid = Some (js ''/api/registry/agents/'' @ seg @ js ''/manifest'') \<and>
    cu (CHR ''/'') \<notin> set seg \<and> manifest_GET seg (agents (rt_db s')) = Some (TextAnswer 200 body hs)"
proof -
  obtain m where m: "agents (rt_db s') = upsertAgent (rv_now v) (manifest_input r m body) (agents (rt_db s))"
    "get (ir_body res) ''aid'' = Some (JStr (ri_aid (manifest_input r m body)))"
    "checkManifestColumns m = None"
    using register_exec_agents [OF assms(1,2)] by blast
  with assms(3) have aid: "ri_aid (manifest_input r m body) = aid" by simp
  have nul: "\<not> has_nul aid"
    using manifest_aid [OF m(3)] aid by (auto simp: manifest_input_def string_or_def Let_def)
  obtain seg where seg: "encodeURIComponent aid = Some seg" using assms(4) encode_well_formed [of aid] by blast
  obtain a where a: "find_row ag_aid aid (agents (rt_db s')) = Some a" "ag_manifestJson a = body"
    using upsertAgent_row [of "manifest_input r m body" "rv_now v" "agents (rt_db s)"]
    unfolding m(1) aid by (auto simp: manifest_input_def Let_def)
  then have "\<exists>hs. manifest_GET seg (agents (rt_db s')) = Some (TextAnswer 200 body hs)"
    by (simp add: manifest_GET_def path_aid_encoded [OF seg nul] getAgent_def)
  with seg encoded_segment [OF seg] show ?thesis by (simp add: manifest_url_def)
qed

theorem registered_manifest_is_served_witness:
  "\<exists>res s' seg hs. demo_registration = (Some res, s') \<and> manifest_url (js ''aid:a'') = Some (js ''/api/registry/agents/'' @ seg @ js ''/manifest'') \<and>
     manifest_GET seg (agents (rt_db s')) = Some (TextAnswer 200 (js ''{}'') hs)"
proof -
  obtain res s' where run: "demo_registration = (Some res, s')" "ir_status res = 201"
    "get (ir_body res) ''aid'' = Some (JStr (js ''aid:a''))" by (rule demo_registered)
  have "well_formed (js ''aid:a'')" by code_simp
  from registered_manifest_is_served [OF run this] run(1) show ?thesis by blast
qed

text \<open>A path that names U+0000 reaches the database and is answered 500, not 404.\<close>

lemma path_nul_faults: "manifest_GET (js ''%00'') t = None"
proof -
  have "hex_value (cu (CHR ''0'')) = Some 0" by code_simp
  then have "escaped_code_point (js ''%00'') = Some (0, [])" by (simp add: escaped_code_point_def percent_def js_def)
  then have "decodeURIComponent (js ''%00'') = Some [0]" by (simp add: js_def percent_def utf16_units_def)
  then show ?thesis by (simp add: manifest_GET_def path_aid_def has_nul_def)
qed

end
