(* ===== verification/Query_Routes.thy ===== *)
theory Query_Routes
  imports Registry_Routes Tct_Monitor
begin

text \<open>
  The read routes over the projections, \<open>src/src/app/api/tcts\<close>, \<open>delegations\<close> and \<open>sessions\<close>: filters,
  pages, the tree below a delegation, the events of a session in a window of time, and the export
  bundle. The recursive query of the tree is \<open>descend\<close> of the projection, started at the root.
  \<open>None\<close> is a throw, answered 500: a text with U+0000 or an instant outside the years 0001 to 9999
  bound in a query, an offset no \<open>bigint\<close> holds.
\<close>

section \<open>Parameters\<close>

text \<open>The largest double below \<open>2 ^ 63\<close> rounds from everything under this bound.\<close>

definition BIGINT_BOUND :: int where "BIGINT_BOUND = 2 ^ 63 - 512"

definition offset_param :: "search_params \<Rightarrow> int" where
  "offset_param q = max (int_param q ''offset'' 0) 0"

definition wants_active :: "search_params \<Rightarrow> bool" where
  "wants_active q \<longleftrightarrow> q ''active'' = Some (js ''true'')"

definition live :: "instant \<Rightarrow> instant option \<Rightarrow> bool" where
  "live now expires \<longleftrightarrow> (case expires of None \<Rightarrow> True | Some t \<Rightarrow> now < t)"

text \<open>A page of \<open>limit\<close> rows, newest first.\<close>

definition query_page :: "('r \<Rightarrow> instant) \<Rightarrow> search_params \<Rightarrow> ('r \<Rightarrow> bool) \<Rightarrow> 'r list \<Rightarrow> 'r list option" where
  "query_page ts q keep t =
     (if offset_param q \<ge> BIGINT_BOUND then None
      else Some (page ts (limit_param q ''limit'' 100 1000) (offset_param q) (filter keep t)))"

section \<open>\<open>GET /api/tcts\<close>\<close>

definition tct_match :: "instant \<Rightarrow> search_params \<Rightarrow> issued_tct \<Rightarrow> bool" where
  "tct_match now q r \<longleftrightarrow>
     wants (q ''issuer'') (it_issuerAid r) \<and> wants (q ''subject'') (it_subjectAid r) \<and>
     wants (q ''audience'') (it_audienceAid r) \<and>
     (blank (q ''capability'') \<or> the (q ''capability'') \<in> set (it_grants r)) \<and>
     (blank (q ''sessionId'') \<or> it_sessionId r = q ''sessionId'') \<and>
     (wants_active q \<longrightarrow> \<not> it_revoked r \<and> live now (it_expiresAt r))"

definition tct_out :: "route_env \<Rightarrow> issued_tct \<Rightarrow> json" where
  "tct_out env r = jobj [(''jti'', JStr (it_jti r)), (''issuer'', JStr (it_issuerAid r)),
     (''subject'', JStr (it_subjectAid r)), (''audience'', JStr (it_audienceAid r)), (''grants'', js_list (it_grants r)),
     (''bindingCnf'', jopt (it_bindingCnf r)), (''issuedAt'', ts_text env (it_issuedAt r)),
     (''expiresAt'', time_or_null env (it_expiresAt r)), (''sessionId'', jopt (it_sessionId r)),
     (''revoked'', JBool (it_revoked r)), (''revokedAt'', time_or_null env (it_revokedAt r))]"

definition tcts_GET :: "route_env \<Rightarrow> instant \<Rightarrow> search_params \<Rightarrow> issued_tct list \<Rightarrow> http_response option" where
  "tcts_GET env now q t =
     (case query_problem [''issuer'', ''subject'', ''audience'', ''capability'', ''sessionId''] q of
        Some resp \<Rightarrow> Some resp
      | None \<Rightarrow> map_option (\<lambda>rows. json_response 200 (jobj [(''tcts'', JArr (map (tct_out env) rows))]))
          (query_page it_issuedAt q (tct_match now q) t))"

section \<open>\<open>GET /api/delegations\<close>\<close>

text \<open>
  The recursive query: nothing when no row has the root's id, else the closure of the root's id
  under \<open>parent_jti = tree.jti\<close>, oldest first.
\<close>

definition tree_jtis :: "delegation list \<Rightarrow> jstring \<Rightarrow> jstring list" where
  "tree_jtis rows j = (if j \<in> set (map dg_jti rows) then descend (length rows) rows [j] else [])"

definition delegation_tree :: "jstring \<Rightarrow> delegation list \<Rightarrow> delegation list" where
  "delegation_tree j rows = sort_key dg_issuedAt (filter (\<lambda>r. dg_jti r \<in> set (tree_jtis rows j)) rows)"

definition delegation_match :: "instant \<Rightarrow> search_params \<Rightarrow> jstring option \<Rightarrow> delegation \<Rightarrow> bool" where
  "delegation_match now q parentJti r \<longleftrightarrow>
     (blank parentJti \<or> dg_parentJti r = uuid_value (the parentJti)) \<and>
     wants (q ''delegator'') (dg_delegatorAid r) \<and> wants (q ''delegatee'') (dg_delegateeAid r) \<and>
     (wants_active q \<longrightarrow> \<not> dg_revoked r \<and> live now (dg_expiresAt r))"

definition reason_json :: "revoked_reason option \<Rightarrow> json" where
  "reason_json v = (case v of None \<Rightarrow> JNull | Some Explicit \<Rightarrow> jlit ''explicit'' | Some ParentRevoked \<Rightarrow> jlit ''parent_revoked'')"

definition delegation_out :: "route_env \<Rightarrow> delegation \<Rightarrow> json" where
  "delegation_out env r = jobj [(''jti'', JStr (dg_jti r)), (''parentJti'', JStr (dg_parentJti r)),
     (''delegator'', JStr (dg_delegatorAid r)), (''delegatee'', JStr (dg_delegateeAid r)), (''scope'', js_list (dg_scope r)),
     (''issuedAt'', ts_text env (dg_issuedAt r)), (''expiresAt'', time_or_null env (dg_expiresAt r)),
     (''revoked'', JBool (dg_revoked r)), (''revokedAt'', time_or_null env (dg_revokedAt r)),
     (''revokedReason'', reason_json (dg_revokedReason r))]"

definition delegations_answer :: "route_env \<Rightarrow> delegation list \<Rightarrow> http_response" where
  "delegations_answer env rows = json_response 200 (jobj [(''delegations'', JArr (map (delegation_out env) rows))])"

definition delegations_GET ::
  "route_env \<Rightarrow> instant \<Rightarrow> search_params \<Rightarrow> delegation list \<Rightarrow> http_response option" where
  "delegations_GET env now q t =
     (let rootJti = orelse (q ''root_jti'') (q ''rootJti'');
          parentJti = orelse (q ''parent_jti'') (q ''parentJti'')
      in if \<not> blank rootJti then
           (if \<not> JTI_UUID_RE (the rootJti) then Some (badRequest (js ''root_jti must be a UUID'') ''BAD_REQUEST'')
            else Some (delegations_answer env (delegation_tree (uuid_value (the rootJti)) t)))
         else case query_problem [''delegator'', ''delegatee''] q of
           Some resp \<Rightarrow> Some resp
         | None \<Rightarrow>
             if \<not> blank parentJti \<and> \<not> JTI_UUID_RE (the parentJti) then
               Some (badRequest (js ''parent_jti must be a UUID'') ''BAD_REQUEST'')
             else map_option (delegations_answer env) (query_page dg_issuedAt q (delegation_match now q parentJti) t))"

section \<open>\<open>GET /api/sessions\<close>\<close>

definition session_match :: "search_params \<Rightarrow> jstring option \<Rightarrow> handshake_session \<Rightarrow> bool" where
  "session_match q runId s \<longleftrightarrow>
     wants (q ''status'') (js (session_status_text (hs_status s))) \<and> (blank runId \<or> hs_runId s = runId) \<and>
     (blank (q ''aid'') \<or> hs_aidA s = q ''aid'' \<or> hs_aidB s = q ''aid'')"

text \<open>Newest first, ties by descending id in the database's collation, \<open>rank\<close>.\<close>

definition sessions_order :: "(jstring \<Rightarrow> int) \<Rightarrow> handshake_session list \<Rightarrow> handshake_session list" where
  "sessions_order rank t = sort_key (\<lambda>s. (- hs_createdAt s, - rank (hs_sessionId s))) t"

definition session_page ::
  "(jstring \<Rightarrow> int) \<Rightarrow> search_params \<Rightarrow> pagination \<Rightarrow> handshake_session list \<Rightarrow> handshake_session list" where
  "session_page rank q pg t =
     take (nat (pg_limit pg)) (drop (nat (pg_offset pg))
       (sessions_order rank (filter (session_match q (orelse (q ''run_id'') (q ''runId''))) t)))"

definition sessions_GET ::
  "route_env \<Rightarrow> (jstring \<Rightarrow> int option) \<Rightarrow> (jstring \<Rightarrow> int) \<Rightarrow> search_params \<Rightarrow> handshake_session list \<Rightarrow> http_response" where
  "sessions_GET env to_number rank q t =
     (case query_problem [''status'', ''run_id'', ''runId'', ''aid''] q of
        Some resp \<Rightarrow> resp
      | None \<Rightarrow> json_response 200 (jobj [(''sessions'', JArr (map (session_record env)
          (session_page rank q (parsePagination to_number (q ''limit'') (q ''offset'') 200 1000) t)))]))"

section \<open>One session\<close>

definition session_not_found :: http_response where
  "session_not_found = json_response 404 (error_body ''session not found'' ''NOT_FOUND'')"

definition session_events :: "jstring \<Rightarrow> audit_event_row list \<Rightarrow> audit_event_row list" where
  "session_events sid t = sort_key ev_ts (filter (\<lambda>e. ev_sessionId e = Some sid) t)"

definition session_GET :: "route_env \<Rightarrow> jstring \<Rightarrow> db \<Rightarrow> http_response option" where
  "session_GET env sid d =
     (if has_nul sid then None
      else case find_row hs_sessionId sid (handshake_sessions d) of
        None \<Rightarrow> Some session_not_found
      | Some s \<Rightarrow> Some (json_response 200 (jobj [(''session'', session_record env s),
          (''events'', JArr (map (event_record env) (session_events sid (audit_events d))))])))"

text \<open>\<open>since\<close> and \<open>until\<close>: absent or empty, refused, or a bound the database can read.\<close>

datatype time_bound = Unbounded | BadDate | Unreadable | Bound instant

definition time_param :: "route_env \<Rightarrow> jstring option \<Rightarrow> time_bound" where
  "time_param env v =
     (if blank v then Unbounded
      else case ro_date_parse env (the v) of
        None \<Rightarrow> BadDate
      | Some ms \<Rightarrow> if -62135596800000 \<le> ms \<and> ms \<le> 253402300799999 then Bound ms else Unreadable)"

definition in_window :: "time_bound \<Rightarrow> time_bound \<Rightarrow> instant \<Rightarrow> bool" where
  "in_window since until t \<longleftrightarrow>
     (case since of Bound lo \<Rightarrow> lo \<le> t | _ \<Rightarrow> True) \<and> (case until of Bound hi \<Rightarrow> t \<le> hi | _ \<Rightarrow> True)"

definition replay_rows ::
  "time_bound \<Rightarrow> time_bound \<Rightarrow> int \<Rightarrow> jstring \<Rightarrow> audit_event_row list \<Rightarrow> audit_event_row list" where
  "replay_rows since until mx sid t =
     take (nat mx) (sort_key ev_ts (filter (\<lambda>e. ev_sessionId e = Some sid \<and> in_window since until (ev_ts e)) t))"

definition replay_GET :: "route_env \<Rightarrow> search_params \<Rightarrow> jstring \<Rightarrow> db \<Rightarrow> http_response option" where
  "replay_GET env q sid d =
     (let since = time_param env (q ''since''); until = time_param env (q ''until'')
      in if since = BadDate then Some (badRequest (js ''invalid since'') ''BAD_REQUEST'')
         else if until = BadDate then Some (badRequest (js ''invalid until'') ''BAD_REQUEST'')
         else if has_nul sid \<or> since = Unreadable \<or> until = Unreadable then None
         else let rows = replay_rows since until (limit_param q ''limit'' 1000 10000) sid (audit_events d)
              in Some (json_response 200 (jobj [(''sessionId'', JStr sid), (''count'', jint (int (length rows))),
                   (''events'', JArr (map (event_record env) rows))])))"

text \<open>A value \<open>new Response\<close> accepts in a header: Latin-1 without U+0000, CR and LF.\<close>

definition header_value :: "jstring \<Rightarrow> bool" where
  "header_value s \<longleftrightarrow> list_all (\<lambda>c. c \<le> 255 \<and> c \<noteq> 0 \<and> c \<noteq> 10 \<and> c \<noteq> 13) s"

definition session_export ::
  "route_env \<Rightarrow> (json \<Rightarrow> jstring) \<Rightarrow> instant \<Rightarrow> search_params \<Rightarrow> jstring \<Rightarrow> db \<Rightarrow> read_answer option" where
  "session_export env text now q sid d =
     (if has_nul sid then None
      else case find_row hs_sessionId sid (handshake_sessions d) of
        None \<Rightarrow> Some (JsonAnswer session_not_found)
      | Some s \<Rightarrow>
          (let session = session_record env s;
               tcts = map (tct_record env) (filter (\<lambda>t. it_sessionId t = Some sid) (issued_tcts d));
               events = map (event_record env) (session_events sid (audit_events d))
           in if q ''format'' = Some (js ''jsonl'') then
                if \<not> header_value sid then None
                else Some (TextAnswer 200
                  (jsonl text ((''session'', session) # map (Pair ''tct'') tcts @ map (Pair ''event'') events))
                  ((ok_headers [(''content-type'', ''application/x-ndjson'')])
                    (js ''content-disposition'' \<mapsto> js ''attachment; filename=\"session-'' @ sid @ js ''.jsonl\"'')))
              else Some (JsonAnswer (json_response 200 (jobj [(''session'', session), (''tcts'', JArr tcts),
                (''events'', JArr events), (''exportedAt'', JStr (de_iso (fe_delivery (ro_fan env)) now))])))))"

section \<open>Properties\<close>

lemma descend_within: "set found \<subseteq> S \<Longrightarrow> closed_under rows S \<Longrightarrow> set (descend n rows found) \<subseteq> S"
proof (induction n arbitrary: found)
  case (Suc n)
  then have "k \<in> S" if "k \<in> set (children rows found)" for k
    using that unfolding children_iff closed_under_def by blast
  with Suc.IH [of "found @ filter (\<lambda>j. j \<notin> set found) (children rows found)"] Suc.prems show ?case by auto
qed simp

lemma tree_jtis_iff:
  "k \<in> set (tree_jtis rows j) \<longleftrightarrow> j \<in> dg_jti ` set rows \<and> (k = j \<or> descends rows j k)"
proof (cases "j \<in> dg_jti ` set rows")
  case True
  let ?S = "insert j {k. descends rows j k}"
  have "closed_under rows ?S"
    by (auto simp: closed_under_def intro: descends_child descends_deeper)
  then have "set (tree_jtis rows j) \<subseteq> ?S" using descend_within [of "[j]" ?S rows] True by (simp add: tree_jtis_def)
  have "closed_under rows (set (tree_jtis rows j))"
  proof -
    have "card (dg_jti ` set rows - {j}) \<le> length rows"
      by (meson card_image_le card_length card_mono Diff_subset finite_imageI finite_set le_trans)
    with True show ?thesis by (simp add: tree_jtis_def descend_closed)
  qed
  moreover have "j \<in> set (tree_jtis rows j)" using True descend_mono [of "[j]"] by (auto simp: tree_jtis_def)
  ultimately have "descends rows j k \<longrightarrow> k \<in> set (tree_jtis rows j)" for k
    by (auto simp: closed_under_def elim: descends.induct [where P = "\<lambda>k. k \<in> set (tree_jtis rows j)"])
  with \<open>set (tree_jtis rows j) \<subseteq> ?S\<close> \<open>j \<in> set (tree_jtis rows j)\<close> True show ?thesis by blast
qed (auto simp: tree_jtis_def)


definition demo_delegation :: "string \<Rightarrow> string \<Rightarrow> instant \<Rightarrow> delegation" where
  "demo_delegation j p ts = \<lparr>dg_jti = js j, dg_parentJti = js p, dg_delegatorAid = js ''aid:a'', dg_delegateeAid = js ''aid:b'',
     dg_scope = [], dg_issuedAt = ts, dg_expiresAt = None, dg_revoked = False, dg_revokedAt = None,
     dg_revokedReason = None, dg_createdAt = ts\<rparr>"

definition demo_chain :: "delegation list" where
  "demo_chain = [demo_delegation ''c'' ''b'' 3, demo_delegation ''a'' ''t'' 1, demo_delegation ''x'' ''y'' 2, demo_delegation ''b'' ''a'' 2]"


text \<open>The chain below a TCT that was delegated is not found from the TCT's own id.\<close>

lemma tree_of_tct_is_empty:
  "descends demo_chain (js ''t'') (js ''c'') \<and> delegation_tree (js ''t'') demo_chain = []"
proof
  show "descends demo_chain (js ''t'') (js ''c'')" unfolding descendants_iff [symmetric] by code_simp
  show "delegation_tree (js ''t'') demo_chain = []" by code_simp
qed

lemma session_key_inj:
  fixes rank :: "jstring \<Rightarrow> int"
  assumes "inj_on rank (hs_sessionId ` set t)" and "unique_key hs_sessionId t"
  shows "inj_on (\<lambda>s. (- hs_createdAt s, - rank (hs_sessionId s))) (set t)"
proof (rule inj_onI)
  fix s s' assume s: "s \<in> set t" "s' \<in> set t"
    and "(- hs_createdAt s, - rank (hs_sessionId s)) = (- hs_createdAt s', - rank (hs_sessionId s'))"
  then have "hs_sessionId s = hs_sessionId s'" using assms(1) by (simp add: inj_on_eq_iff)
  moreover have "inj_on hs_sessionId (set t)" using assms(2) by (simp add: unique_key_def distinct_map)
  ultimately show "s = s'" using s by (simp add: inj_onD)
qed

lemma sessions_order_permuted:
  assumes "inj_on rank (hs_sessionId ` set t)" and "unique_key hs_sessionId t" and "mset t' = mset t"
  shows "sessions_order rank t' = sessions_order rank t"
  unfolding sessions_order_def
  by (rule sort_key_inj_key_eq [symmetric])
     (use assms session_key_inj [OF assms(1,2)] in \<open>simp_all add: sorted_sort_key\<close>)

text \<open>
  C35. Session pages are stable: if the database may return the rows in another order on every
  request, walking the offsets in steps of the limit still lists every matching session exactly
  once, newest first.
\<close>

theorem session_pages_stable:
  assumes "inj_on rank (hs_sessionId ` set t)" and "unique_key hs_sessionId t" and "\<And>i. mset (seen i) = mset t"
    and "0 < l" and "length t \<le> n * nat l"
  shows "concat (map (\<lambda>i. session_page rank q \<lparr>pg_limit = l, pg_offset = int i * l\<rparr> (seen i)) [0..<n]) =
    sessions_order rank (filter (session_match q (orelse (q ''run_id'') (q ''runId''))) t)"
proof -
  let ?keep = "session_match q (orelse (q ''run_id'') (q ''runId''))"
  let ?all = "sessions_order rank (filter ?keep t)"
  have "sessions_order rank (filter ?keep (seen i)) = ?all" for i
    by (rule sessions_order_permuted)
       (simp_all add: assms unique_key_filter mset_filter inj_on_subset [OF assms(1)] image_mono)
  then have "concat (map (\<lambda>i. session_page rank q \<lparr>pg_limit = l, pg_offset = int i * l\<rparr> (seen i)) [0..<n]) =
      concat (map (\<lambda>i. take (nat l) (drop (i * nat l) ?all)) [0..<n])"
    using assms(4) by (simp add: session_page_def nat_mult_distrib)
  also have "\<dots> = take (n * nat l) ?all" by (rule pages_cover)
  also have "\<dots> = ?all"
  proof -
    have "length ?all \<le> length t" by (simp add: sessions_order_def)
    with assms(5) show ?thesis by simp
  qed
  finally show ?thesis .
qed

definition demo_session :: "string \<Rightarrow> instant \<Rightarrow> handshake_session" where
  "demo_session sid ts = \<lparr>hs_sessionId = js sid, hs_aidA = None, hs_aidB = None, hs_status = Started, hs_grants = [],
     hs_runId = None, hs_boundary = None, hs_error = None, hs_startedAt = None, hs_completedAt = None,
     hs_createdAt = ts, hs_updatedAt = ts\<rparr>"

definition demo_sessions :: "handshake_session list" where
  "demo_sessions = [demo_session ''a'' 5, demo_session ''bb'' 5, demo_session ''ccc'' 9]"

theorem session_pages_stable_witness:
  "concat (map (\<lambda>i. session_page (\<lambda>s. int (length s)) Map.empty \<lparr>pg_limit = 2, pg_offset = int i * 2\<rparr>
     (if i = 0 then demo_sessions else rev demo_sessions)) [0..<2]) =
   [demo_session ''ccc'' 9, demo_session ''bb'' 5, demo_session ''a'' 5]"
proof -
  let ?rank = "\<lambda>s :: jstring. int (length s)" and ?q = "Map.empty :: search_params"
  have "inj_on ?rank (hs_sessionId ` set demo_sessions)" "unique_key hs_sessionId demo_sessions"
    by (simp_all add: demo_sessions_def demo_session_def unique_key_def)
  moreover have "mset (if i = 0 then demo_sessions else rev demo_sessions) = mset demo_sessions" for i :: nat by simp
  moreover have "length demo_sessions \<le> 2 * nat 2" by (simp add: demo_sessions_def)
  ultimately have "concat (map (\<lambda>i. session_page ?rank ?q \<lparr>pg_limit = 2, pg_offset = int i * 2\<rparr>
       (if i = 0 then demo_sessions else rev demo_sessions)) [0..<2]) =
      sessions_order ?rank (filter (session_match ?q (orelse (?q ''run_id'') (?q ''runId''))) demo_sessions)"
    by (intro session_pages_stable) simp_all
  moreover have "filter (session_match ?q (orelse (?q ''run_id'') (?q ''runId''))) demo_sessions = demo_sessions"
    by (simp add: filter_id_conv session_match_def wants_def)
  ultimately show ?thesis
    by (simp add: sessions_order_def demo_sessions_def demo_session_def less_prod_def)
qed

text \<open>A session whose id has a character outside Latin-1 cannot be exported as JSON lines.\<close>

lemma non_latin_export_faults:
  assumes "q ''format'' = Some (js ''jsonl'')" and "c \<in> set sid" and "255 < c"
    and "find_row hs_sessionId sid (handshake_sessions d) = Some s"
  shows "session_export env text now q sid d = None"
proof -
  have "\<not> header_value sid" using assms(2,3) by (force simp: header_value_def list_all_iff intro: bexI [of _ c])
  with assms(1,4) show ?thesis by (simp add: session_export_def Let_def)
qed

end
