(* ===== verification/Metrics_Text.thy ===== *)
theory Metrics_Text
  imports Revocation Event_Ingest Enrollment Request_Gate
begin

text \<open>
  \<open>GET /api/metrics\<close>, \<open>src/src/app/api/metrics/route.ts\<close>: the Prometheus text exposition of the
  counters of every component, with the probes \<open>api/health\<close> and \<open>api/readyz\<close>. What the handler
  reads is one record, \<open>scrape_input\<close>: the database, \<open>None\<close> when a query fails, and the snapshots
  the components give out (\<open>Object.entries\<close> and maps as lists of pairs, in the order they come).
  The types of \<open>GROUP BY type\<close> come in no order the program fixes; the model lists them by first row.
\<close>

section \<open>Lines\<close>

definition newline :: code_unit where "newline = 10"

definition escape_quotes :: "jstring \<Rightarrow> jstring" where
  "escape_quotes s = concat (map (\<lambda>c. if c = 34 then [92, 34] else [c]) s)"

definition metric_name :: "string \<Rightarrow> jstring" where
  "metric_name name = js (''aitp_control_plane_'' @ name)"

text \<open>The \<open># HELP\<close> and \<open># TYPE\<close> lines of a series, and its samples.\<close>

definition heading :: "string \<Rightarrow> string \<Rightarrow> string \<Rightarrow> jstring list" where
  "heading name help kind = [js ''# HELP '' @ metric_name name @ js ('' '' @ help),
     js ''# TYPE '' @ metric_name name @ js ('' '' @ kind)]"

definition sample :: "string \<Rightarrow> int \<Rightarrow> jstring" where
  "sample name n = metric_name name @ js '' '' @ num_str n"

definition label_text :: "string \<times> jstring \<Rightarrow> jstring" where
  "label_text = (\<lambda>(k, v). js k @ [61, 34] @ escape_quotes v @ [34])"

definition sample1 :: "string \<Rightarrow> string \<times> jstring \<Rightarrow> int \<Rightarrow> jstring" where
  "sample1 name l n = metric_name name @ js ''{'' @ label_text l @ js ''} '' @ num_str n"

definition sample2 :: "string \<Rightarrow> string \<times> jstring \<Rightarrow> string \<times> jstring \<Rightarrow> int \<Rightarrow> jstring" where
  "sample2 name l l' n = metric_name name @ js ''{'' @ label_text l @ js '','' @ label_text l' @ js ''} '' @ num_str n"

section \<open>The scrape\<close>

record scrape_input =
  si_db :: "db option"
  si_drops :: "(jstring \<times> int) list"
  si_breakers :: "breaker_state list"
  si_auditFailures :: nat
  si_enroll :: "(jstring \<times> nat) list"
  si_pulls :: "(jstring \<times> issuer_pull) list"
  si_backlogDropped :: nat
  si_eventsDropped :: nat
  si_eventsDuplicate :: nat
  si_sse :: sse_metrics

definition eventsByType :: "db \<Rightarrow> (jstring \<times> int) list" where
  "eventsByType d = group_counts ev_type (audit_events d)"

definition db_lines :: "db \<Rightarrow> jstring list" where
  "db_lines d =
     heading ''agents_active'' ''Active agents in registry'' ''gauge'' @
     [sample ''agents_active'' (count_where (\<lambda>a. ag_status a = Active) (agents d))] @
     heading ''agents_expired'' ''Agents with expired manifests awaiting re-enrollment'' ''gauge'' @
     [sample ''agents_expired'' (count_where (\<lambda>a. ag_status a = Expired) (agents d))] @
     heading ''sessions_total'' ''Total handshake sessions ever observed'' ''counter'' @
     [sample ''sessions_total'' (int (length (handshake_sessions d)))] @
     heading ''webhook_deliveries'' ''Webhook deliveries by status'' ''gauge'' @
     [sample1 ''webhook_deliveries'' (''status'', js ''pending'')
        (count_where (\<lambda>r. wd_status r = Pending) (webhook_deliveries d)),
      sample1 ''webhook_deliveries'' (''status'', js ''failed'')
        (count_where (\<lambda>r. wd_status r = DeliveryFailed) (webhook_deliveries d))] @
     heading ''audit_events'' ''Total audit events by type'' ''counter'' @
     map (\<lambda>(ty, n). sample1 ''audit_events'' (''type'', ty) n) (eventsByType d)"

definition outage_comment :: jstring where
  "outage_comment = js ''# DB unavailable: cause logged server-side, deliberately not published here''"

definition db_up_lines :: "bool \<Rightarrow> jstring list" where
  "db_up_lines dbOk =
     heading ''db_up'' ''Whether the database was reachable for this scrape'' ''gauge'' @
     [sample ''db_up'' (if dbOk then 1 else 0)]"

definition process_lines :: "scrape_input \<Rightarrow> jstring list" where
  "process_lines i =
     heading ''rate_limit_drops'' ''Requests rejected by the rate limiter, by bucket'' ''counter'' @
     map (\<lambda>(bucket, n). sample1 ''rate_limit_drops'' (''bucket'', bucket) n) (si_drops i) @
     heading ''webhook_circuit_breaker_open'' ''Webhooks whose circuit breaker is open or half_open'' ''gauge'' @
     [sample1 ''webhook_circuit_breaker_open'' (''state'', js ''open'') (count_where (\<lambda>b. b = Open) (si_breakers i)),
      sample1 ''webhook_circuit_breaker_open'' (''state'', js ''half_open'') (count_where (\<lambda>b. b = HalfOpen) (si_breakers i))] @
     heading ''admin_audit_insert_failures'' ''Admin-audit inserts that failed since process start'' ''counter'' @
     [sample ''admin_audit_insert_failures'' (int (si_auditFailures i))] @
     heading ''enroll_verification_failures''
       ''Failed enrollment manifest verifications since process start, by code (\"none\" = rejected by this service rather than the SDK, \"other\" = an SDK code this build does not recognize)'' ''counter'' @
     map (\<lambda>(code, n). sample1 ''enroll_verification_failures'' (''code'', code) (int n)) (si_enroll i) @
     heading ''revocation_last_pull_timestamp_seconds''
       ''Unix time of the last successful GET /api/revocations by each issuer key, by key label and the AID the key is bound to (absent until that issuer first pulls)'' ''gauge'' @
     map (\<lambda>(issuer, p). sample2 ''revocation_last_pull_timestamp_seconds'' (''issuer'', issuer) (''aid'', ip_aid p) (ip_secs p))
       (si_pulls i)"

definition counter_lines :: "scrape_input \<Rightarrow> jstring list" where
  "counter_lines i =
     heading ''event_backlog_dropped'' ''Audit events evicted from the in-memory SSE backlog since process start'' ''counter'' @
     [sample ''event_backlog_dropped'' (int (si_backlogDropped i))] @
     heading ''events_dropped_total'' ''Ingest items dropped by POST /api/events per-item validation since process start'' ''counter'' @
     [sample ''events_dropped_total'' (int (si_eventsDropped i))] @
     heading ''events_duplicate_total'' ''Ingest items POST /api/events recognised as already-stored duplicates since process start'' ''counter'' @
     [sample ''events_duplicate_total'' (int (si_eventsDuplicate i))] @
     heading ''sse_streams_open'' ''/api/events/stream connections open right now on this replica'' ''gauge'' @
     [sample ''sse_streams_open'' (sse_open (si_sse i))] @
     heading ''sse_streams_opened_total'' ''/api/events/stream connections accepted since process start'' ''counter'' @
     [sample ''sse_streams_opened_total'' (int (openedTotal (si_sse i)))] @
     heading ''sse_streams_rejected_total'' ''/api/events/stream connections refused by MAX_SSE_CONNECTIONS since process start'' ''counter'' @
     [sample ''sse_streams_rejected_total'' (int (rejectedTotal (si_sse i)))]"

definition scrape_lines :: "scrape_input \<Rightarrow> jstring list" where
  "scrape_lines i =
     (case si_db i of Some d \<Rightarrow> db_lines d | None \<Rightarrow> [outage_comment]) @
     db_up_lines (si_db i \<noteq> None) @ process_lines i @ counter_lines i"

text \<open>\<open>lines.join('\n') + '\n'\<close>; a scrape has at least one line.\<close>

definition metrics_text :: "scrape_input \<Rightarrow> jstring" where
  "metrics_text i = concat (map (\<lambda>l. l @ [newline]) (scrape_lines i))"

definition ENROLL_FAILURE_LABELS :: "jstring list" where
  "ENROLL_FAILURE_LABELS = KNOWN_VERIFY_CODES @ [js ''other'', js ''none'']"

definition getEnrollFailureTotals :: "(jstring \<Rightarrow> nat) \<Rightarrow> (jstring \<times> nat) list" where
  "getEnrollFailureTotals totals = map (\<lambda>l. (l, totals l)) ENROLL_FAILURE_LABELS"

section \<open>Probes\<close>

definition readyz_GET :: "bool \<Rightarrow> bool \<Rightarrow> http_response" where
  "readyz_GET shuttingDown dbReachable =
     (if shuttingDown then json_response 503 (jobj [(''ready'', JBool False), (''reason'', jlit ''shutting_down'')])
      else if \<not> dbReachable then json_response 503 (jobj [(''ready'', JBool False), (''reason'', jlit ''db_unreachable'')])
      else json_response 200 (jobj [(''ready'', JBool True)]))"

text \<open>\<open>aid\<close> is \<open>getCpAgent().aid\<close>, \<open>None\<close> when the identity cannot be built.\<close>

definition health_GET :: "jstring option \<Rightarrow> bool \<Rightarrow> http_response option" where
  "health_GET aid dbOk = map_option (\<lambda>a. json_response (if dbOk then 200 else 503)
     (jobj [(''ok'', JBool dbOk), (''service'', jlit ''aitp-control-plane''), (''aid'', JStr a),
       (''db'', if dbOk then jlit ''ok'' else jlit ''error'')])) aid"

section \<open>Lines without line breaks\<close>

definition one_line :: "jstring \<Rightarrow> bool" where
  "one_line s \<longleftrightarrow> newline \<notin> set s"

lemma one_line_append [simp]: "one_line (s @ t) \<longleftrightarrow> one_line s \<and> one_line t"
  by (auto simp: one_line_def)

lemma one_line_Cons: "one_line (c # s) \<longleftrightarrow> c \<noteq> newline \<and> one_line s"
  by (auto simp: one_line_def)

lemma one_line_js: "one_line (js s) \<longleftrightarrow> list_all (\<lambda>c. c \<noteq> CHR 0x0A) s"
proof -
  have "newline = cu (CHR 0x0A)" by (simp add: newline_def cu_def)
  then have "newline \<in> set (js s) \<longleftrightarrow> CHR 0x0A \<in> set s"
    by (simp only: js_def set_map) (metis cu_inject imageE imageI)
  then show ?thesis by (auto simp: list_all_iff one_line_def)
qed

lemma one_line_escape: "one_line s \<Longrightarrow> one_line (escape_quotes s)"
  by (auto simp: one_line_def escape_quotes_def newline_def)

lemma one_line_num: "one_line (num_str n)"
proof -
  have "one_line (decimal k)" for k
  proof (rule ccontr)
    assume "\<not> one_line (decimal k)"
    with decimal_digits [of k] have "is_digit newline" by (auto simp: list_all_iff one_line_def)
    then show False by (simp add: newline_def is_digit_def)
  qed
  then show ?thesis by (simp add: num_str_def one_line_js del: js_Cons)
qed

lemma one_line_heading:
  "list_all (\<lambda>c. c \<noteq> CHR 0x0A) (name @ help @ kind) \<Longrightarrow> list_all one_line (heading name help kind)"
  by (simp add: heading_def metric_name_def one_line_js)

lemma one_line_name: "list_all (\<lambda>c. c \<noteq> CHR 0x0A) name \<Longrightarrow> one_line (metric_name name)"
  by (simp add: metric_name_def one_line_js)

lemma one_line_label: "list_all (\<lambda>c. c \<noteq> CHR 0x0A) k \<Longrightarrow> one_line v \<Longrightarrow> one_line (label_text (k, v))"
  using one_line_escape [of v]
  by (simp add: label_text_def one_line_js) (simp add: one_line_def newline_def)

lemma one_line_sample: "list_all (\<lambda>c. c \<noteq> CHR 0x0A) name \<Longrightarrow> one_line (sample name n)"
  by (simp add: sample_def one_line_name one_line_num one_line_js del: js_Cons)

lemma one_line_sample1:
  "list_all (\<lambda>c. c \<noteq> CHR 0x0A) (name @ k) \<Longrightarrow> one_line v \<Longrightarrow> one_line (sample1 name (k, v) n)"
  by (simp add: sample1_def one_line_name one_line_num one_line_label one_line_js del: js_Cons)

lemma one_line_sample2:
  "list_all (\<lambda>c. c \<noteq> CHR 0x0A) (name @ k @ k') \<Longrightarrow> one_line v \<Longrightarrow> one_line v' \<Longrightarrow>
   one_line (sample2 name (k, v) (k', v') n)"
  by (simp add: sample2_def one_line_name one_line_num one_line_label one_line_js del: js_Cons)

lemma one_line_samples:
  assumes "list_all (\<lambda>c. c \<noteq> CHR 0x0A) (name @ k)" and "list_all (\<lambda>(v, n). one_line v) xs"
  shows "list_all one_line (map (\<lambda>(v, n). sample1 name (k, v) (g n)) xs)"
  using assms(2)
proof (induction xs)
  case (Cons x xs)
  then show ?case using one_line_sample1 [OF assms(1)] by (cases x) simp
qed simp

lemmas one_lines = one_line_heading one_line_sample one_line_sample1 one_line_sample2 one_line_js

section \<open>The database gauge\<close>

text \<open>
  Where the labels of a scrape come from: the limiter's three buckets, the allowlisted
  verification codes, and the issuer keys of the loaded configuration.
\<close>

definition labels_of_program :: "app_config \<Rightarrow> (jstring \<Rightarrow> nat) \<Rightarrow> scrape_input \<Rightarrow> bool" where
  "labels_of_program cfg totals i \<longleftrightarrow>
     list_all (\<lambda>(b, n). b \<in> {js ''enroll-ip'', js ''public-ip'', js ''api-key''}) (si_drops i) \<and>
     si_enroll i = getEnrollFailureTotals totals \<and>
     list_all (\<lambda>(l, p). list_ex (\<lambda>e. k_label e = l \<and> k_aid e = ip_aid p) (issuerKeyEntries cfg)) (si_pulls i)"

lemma plain_one_line: "list_all label_char s \<or> list_all aid_char s \<Longrightarrow> one_line s"
  by (auto simp: one_line_def list_all_iff label_char_def aid_char_def is_alnum_def is_upper_def is_lower_def
      is_digit_def newline_def cu_def)

lemma LABEL_RE_one_line: "LABEL_RE s \<Longrightarrow> one_line s"
  by (rule plain_one_line) (auto simp: LABEL_RE_def label_char_def split: list.splits)

lemma AID_RE_one_line:
  assumes "AID_RE s"
  shows "one_line s"
proof -
  have "take 4 s = js ''aid:''" using assms by (simp add: AID_RE_def starts_with_def numeral_eq_Suc)
  moreover have "one_line (drop 4 s)"
    using assms by (intro plain_one_line) (simp add: AID_RE_def Let_def)
  ultimately have "one_line (take 4 s @ drop 4 s)" by (simp add: one_line_js del: append_take_drop_id js_Cons)
  then show ?thesis by simp
qed

lemma issuer_labels_one_line:
  assumes "e \<in> set (issuerKeyEntries (load_config f env))"
  shows "one_line (k_label e)" "one_line (k_aid e)"
proof -
  have "issuer_entry_ok (apiKeys (load_config f env)) e"
    using assms parseIssuerKeys_inv [of "apiKeys (load_config f env)" "env ''ISSUER_KEYS''"]
    by (simp add: issuer_inv_def list_all_iff load_config_def apiKeys_def Let_def)
  then show "one_line (k_label e)" "one_line (k_aid e)"
    by (simp_all add: issuer_entry_ok_def LABEL_RE_one_line AID_RE_one_line)
qed

lemma bucket_one_line: "b \<in> {js ''enroll-ip'', js ''public-ip'', js ''api-key''} \<Longrightarrow> one_line b"
  by (elim insertE emptyE) (simp_all add: one_line_js del: js_Cons)

lemma codes_one_line: "list_all (\<lambda>(code, n). one_line code) (getEnrollFailureTotals totals)"
  by (simp add: getEnrollFailureTotals_def ENROLL_FAILURE_LABELS_def KNOWN_VERIFY_CODES_def one_line_js
      del: js_Cons)

lemma pulls_one_line:
  assumes "list_all (\<lambda>(l, p). one_line l \<and> one_line (ip_aid p)) ps"
  shows "list_all one_line (map (\<lambda>(issuer, p). sample2 ''revocation_last_pull_timestamp_seconds''
      (''issuer'', issuer) (''aid'', ip_aid p) (ip_secs p)) ps)"
  using assms
proof (induction ps)
  case (Cons x ps)
  then show ?case by (cases x) (simp add: one_line_sample2)
qed simp

lemma process_lines_one_line:
  assumes "labels_of_program (load_config f env) totals i"
  shows "list_all one_line (process_lines i)"
proof -
  have "list_all (\<lambda>(b, n). one_line b) (si_drops i)"
    using assms bucket_one_line by (auto simp: labels_of_program_def list_all_iff split_beta)
  then have drops: "list_all one_line
      (map (\<lambda>(bucket, n). sample1 ''rate_limit_drops'' (''bucket'', bucket) n) (si_drops i))"
    by (rule one_line_samples [of "''rate_limit_drops''" "''bucket''" _ "\<lambda>n. n", rotated]) simp
  have enroll: "list_all one_line (map (\<lambda>(code, n).
      sample1 ''enroll_verification_failures'' (''code'', code) (int n)) (si_enroll i))"
    using assms codes_one_line [of totals]
    by (intro one_line_samples) (simp_all add: labels_of_program_def)
  have "list_all (\<lambda>(l, p). one_line l \<and> one_line (ip_aid p)) (si_pulls i)"
    using assms issuer_labels_one_line
    by (fastforce simp: labels_of_program_def list_all_iff list_ex_iff split_beta)
  then show ?thesis
    using drops enroll pulls_one_line [of "si_pulls i"]
    by (simp add: process_lines_def one_lines del: js_Cons list.pred_map)
qed

lemma counter_lines_one_line: "list_all one_line (counter_lines i)"
  by (simp add: counter_lines_def one_lines del: js_Cons)

lemma db_lines_one_line:
  assumes "list_all (\<lambda>e. one_line (ev_type e)) (audit_events d)"
  shows "list_all one_line (db_lines d)"
proof -
  have "list_all (\<lambda>(ty, n). one_line ty) (eventsByType d)"
    using assms by (auto simp: eventsByType_def list_all_iff group_counts_def)
  then have "list_all one_line (map (\<lambda>(ty, n). sample1 ''audit_events'' (''type'', ty) n) (eventsByType d))"
    by (rule one_line_samples [of "''audit_events''" "''type''" _ "\<lambda>n. n", rotated]) simp
  then show ?thesis
    by (simp add: db_lines_def one_lines del: js_Cons list.pred_map)
qed

text \<open>Which lines name the series: its own sample only.\<close>

definition db_up_series :: "jstring \<Rightarrow> bool" where
  "db_up_series l \<longleftrightarrow> starts_with l (metric_name ''db_up'' @ js '' '')"

lemma starts_with_cancel: "starts_with (a @ s) (a @ p) \<longleftrightarrow> starts_with s p"
  by (simp add: starts_with_append)

lemma starts_with_Cons: "starts_with (x # s) (y # p) \<longleftrightarrow> x = y \<and> starts_with s p"
  by (auto simp: starts_with_append)

lemma db_up_series_name: "db_up_series (metric_name name @ t) \<longleftrightarrow> starts_with (js name @ t) (js ''db_up '')"
proof -
  have "metric_name name @ t = js ''aitp_control_plane_'' @ js name @ t"
    and "metric_name ''db_up'' @ js '' '' = js ''aitp_control_plane_'' @ js ''db_up ''"
    by (simp_all add: metric_name_def js_def)
  then show ?thesis by (simp only: db_up_series_def starts_with_cancel)
qed

lemma db_up_series_other: "hd name \<noteq> CHR ''d'' \<Longrightarrow> name \<noteq> [] \<Longrightarrow> \<not> db_up_series (metric_name name @ t)"
  by (cases name) (simp_all add: db_up_series_name js_Cons starts_with_Cons)

lemma db_up_series_heading: "filter db_up_series (heading name help kind) = []"
  by (simp add: heading_def db_up_series_def metric_name_def js_Cons starts_with_Cons)

lemma db_up_series_sample:
  assumes "hd name \<noteq> CHR ''d''" "name \<noteq> []"
  shows "\<not> db_up_series (sample name n)" "\<not> db_up_series (sample1 name l n)" "\<not> db_up_series (sample2 name l l' n)"
  using assms by (simp_all add: sample_def sample1_def sample2_def db_up_series_other)

lemmas db_up_simps = db_up_series_heading db_up_series_sample filter_empty_conv split_beta

lemma db_up_series_db: "filter db_up_series (db_lines d) = []"
  by (simp add: db_lines_def db_up_simps)

lemma db_up_series_process: "filter db_up_series (process_lines i) = []"
  by (simp add: process_lines_def db_up_simps)

lemma db_up_series_counters: "filter db_up_series (counter_lines i) = []"
  by (simp add: counter_lines_def db_up_simps)

lemma db_up_series_own: "filter db_up_series (db_up_lines b) = [sample ''db_up'' (if b then 1 else 0)]"
  by (simp add: db_up_lines_def db_up_series_heading) (simp add: sample_def db_up_series_def starts_with_append)

lemma db_up_series_outage: "\<not> db_up_series outage_comment"
  by (simp add: outage_comment_def db_up_series_def metric_name_def js_Cons starts_with_Cons)


text \<open>
  What \<open>aitp_control_plane_db_up\<close> says is true, whatever else the scrape holds: with the
  labels the program itself writes and stored event types without line breaks, exactly one line of
  the text names the series, and its value is 1 exactly when the queries succeeded. No label of a
  bucket, a verification code or an issuer key can forge a second sample.
\<close>

theorem db_up_is_truthful:
  assumes "labels_of_program (load_config f env) totals i"
    and "\<And>d. si_db i = Some d \<Longrightarrow> list_all (\<lambda>e. one_line (ev_type e)) (audit_events d)"
  shows "filter db_up_series (split_on newline (metrics_text i)) =
    [sample ''db_up'' (if si_db i = None then 0 else 1)]"
proof -
  have "list_all one_line (db_up_lines b)" for b by (simp add: db_up_lines_def one_lines del: js_Cons)
  moreover have "one_line outage_comment" by (simp add: outage_comment_def one_line_js del: js_Cons)
  ultimately have "list_all one_line (scrape_lines i)"
    using process_lines_one_line [OF assms(1)] counter_lines_one_line assms(2) db_lines_one_line
    by (simp add: scrape_lines_def split: option.split)
  then have "split_on newline (metrics_text i) = scrape_lines i @ [[]]"
    unfolding metrics_text_def one_line_def by (rule split_on_concat)
  moreover have "\<not> db_up_series []" by (simp add: db_up_series_def starts_with_def metric_name_def js_Cons)
  ultimately show ?thesis
    by (simp add: scrape_lines_def db_up_series_db db_up_series_process db_up_series_counters
        db_up_series_own db_up_series_outage split: option.split)
qed

definition demo_scrape :: "db option \<Rightarrow> scrape_input" where
  "demo_scrape d = \<lparr>si_db = d, si_drops = [(js ''api-key'', 3)], si_breakers = [Open], si_auditFailures = 0,
     si_enroll = getEnrollFailureTotals (\<lambda>_. 0), si_pulls = [(js ''r1'', \<lparr>ip_aid = js ''aid:x'', ip_secs = 1700000000\<rparr>)],
     si_backlogDropped = 0, si_eventsDropped = 0, si_eventsDuplicate = 0,
     si_sse = \<lparr>sse_open = 1, openedTotal = 2, rejectedTotal = 0\<rparr>\<rparr>"

lemma demo_scrape_labels: "labels_of_program demo_config (\<lambda>_. 0) (demo_scrape d)"
  by (simp add: labels_of_program_def demo_scrape_def demo_entries)

theorem db_up_is_truthful_witness:
  "filter db_up_series (split_on newline (metrics_text (demo_scrape None))) = [sample ''db_up'' 0]"
  using db_up_is_truthful [OF demo_scrape_labels [of None, unfolded demo_config_def]]
  by (simp add: demo_scrape_def)

text \<open>
  Event types are the exception: only quotes are escaped, and an ingested event whose type carries
  line breaks passes the per-item checks, so its line forges a second \<open>db_up\<close> sample.
\<close>

definition forged_event :: audit_event where
  "forged_event = (demo_event ''e'' ''t'' 0)\<lparr>ev_type := js ''x'' @ newline # (metric_name ''db_up'' @ js '' 1'') @ newline # js ''y''\<rparr>"

lemma newline_type_forges:
  "itemProblem forged_event = None"
  "sample ''db_up'' 1 \<in> set (split_on newline (sample1 ''audit_events'' (''type'', ev_type forged_event) 1))"
proof -
  show "itemProblem forged_event = None" by code_simp
  have e: "escape_quotes (ev_type forged_event) = js ''x'' @ newline # sample ''db_up'' 1 @ newline # js ''y''"
    by code_simp
  have "one_line (sample ''db_up'' 1)" by (rule one_line_sample) simp
  then have "sample ''db_up'' 1 \<in> set (split_on newline (a @ newline # sample ''db_up'' 1 @ newline # b))"
    if "one_line a" for a b
    using that by (simp add: one_line_def split_on_append)
  moreover have "one_line (metric_name ''audit_events'' @ js ''{type='' @ [34] @ js ''x'')" (is "one_line ?a")
    by (simp add: one_line_name one_line_Cons one_line_js newline_def del: js_Cons)
  moreover have "sample1 ''audit_events'' (''type'', ev_type forged_event) 1 =
      ?a @ newline # sample ''db_up'' 1 @ newline # (js ''y'' @ [34] @ js ''} '' @ num_str 1)"
    unfolding sample1_def label_text_def split e by (simp add: js_def cu_def)
  ultimately show "sample ''db_up'' 1 \<in> set (split_on newline (sample1 ''audit_events'' (''type'', ev_type forged_event) 1))"
    by metis
qed

end
