(* ===== verification/Cp_Identity.thy ===== *)
theory Cp_Identity
  imports Uri_Component Url_Guard
begin

text \<open>
  The control plane's own identity: the seed rules of \<open>src/src/lib/identity/cp-seed-config.ts\<close>, the
  agent and its cached manifest of \<open>cp-agent.ts\<close>, and the well-known route that serves it. The aitp
  SDK is the record \<open>identity_sdk\<close> (\<open>None\<close> where it throws), the URL parser is that of \<open>net_env\<close>;
  the texts of the boot messages are left out. \<open>Buffer.from(raw, 'hex')\<close> is modelled on code units
  below 256, which is what hex digits are.
\<close>

section \<open>The seed\<close>

definition CP_SEED_BYTES :: nat where "CP_SEED_BYTES = 32"

fun decodeCpSeedHex :: "jstring \<Rightarrow> byte list" where
  "decodeCpSeedHex (a # b # s) =
     (case (hex_value a, hex_value b) of
        (Some h, Some l) \<Rightarrow> of_nat (16 * h + l) # decodeCpSeedHex s
      | _ \<Rightarrow> [])"
| "decodeCpSeedHex s = []"

datatype seed_problem =
    SeedMissing
  | SeedLength nat nat  \<comment> \<open>characters given, bytes they decode to\<close>

definition cpSeedProblem :: "jstring \<Rightarrow> seed_problem option" where
  "cpSeedProblem raw =
     (if raw = [] then Some SeedMissing
      else let decoded = length (decodeCpSeedHex raw)
           in if decoded \<noteq> CP_SEED_BYTES then Some (SeedLength (length raw) decoded) else None)"

definition CLEAN_SEED_RE :: "jstring \<Rightarrow> bool" where
  "CLEAN_SEED_RE raw \<longleftrightarrow> length raw = 64 \<and> list_all is_any_hex raw"

text \<open>Whether the warning is printed; it names the length only.\<close>

definition cpSeedNotCleanWarning :: "jstring \<Rightarrow> nat option" where
  "cpSeedNotCleanWarning raw =
     (if raw = [] \<or> cpSeedProblem raw \<noteq> None \<or> CLEAN_SEED_RE raw then None else Some (length raw))"

text \<open>The verdict of \<open>cpSeedBootFailure\<close>: \<open>Some fatal\<close>.\<close>

definition cpSeedBootFailure :: "app_config \<Rightarrow> bool option" where
  "cpSeedBootFailure cfg =
     (case cpSeedProblem (cpAidSeedHex cfg) of None \<Rightarrow> None | Some p \<Rightarrow> Some (isProduction cfg))"

section \<open>The base URL\<close>

datatype base_url_reason = LoopbackHost | NotHttps | InvalidUrl

definition loopback_v4 :: "jstring \<Rightarrow> bool" where
  "loopback_v4 host =
     (case split_on dot host of
        [a, b, c, d] \<Rightarrow> a = js ''127'' \<and>
          list_all (\<lambda>p. 1 \<le> length p \<and> length p \<le> 3 \<and> list_all is_digit p) [b, c, d]
      | _ \<Rightarrow> False)"

definition loopback_host :: "jstring \<Rightarrow> bool" where
  "loopback_host host \<longleftrightarrow> host = js ''localhost'' \<or> ends_with host (js ''.localhost'') \<or>
     host = js ''0.0.0.0'' \<or> host = js ''::1'' \<or> loopback_v4 host"

definition cpBaseUrlBootWarning :: "net_env \<Rightarrow> app_config \<Rightarrow> base_url_reason option" where
  "cpBaseUrlBootWarning net cfg =
     (if \<not> isProduction cfg then None
      else case parse_url net (cpBaseUrl cfg) of
             None \<Rightarrow> Some InvalidUrl
           | Some u \<Rightarrow>
               (let host = to_lower (strip_brackets (url_hostname u))
                in if loopback_host host then Some LoopbackHost
                   else if url_protocol u \<noteq> js ''https:'' then Some NotHttps
                   else None))"

section \<open>The agent and its manifest\<close>

record 'a identity_sdk =
  fromSeed :: "byte list \<Rightarrow> 'a option"
  agent_aid :: "'a \<Rightarrow> jstring"
  buildManifest :: "'a \<Rightarrow> jstring \<Rightarrow> int \<Rightarrow> instant \<Rightarrow> jstring option"
    \<comment> \<open>with \<open>handshakeEndpoint\<close>, \<open>ttlSecs\<close> and the clock\<close>
  manifest_expires :: "jstring \<Rightarrow> int option"
    \<comment> \<open>\<open>JSON.parse(m).manifest.expires_at\<close>\<close>

record 'a cp_identity =
  cpAgent :: "'a option"
  cpManifestJson :: "jstring option"

definition no_identity :: "'a cp_identity" where
  "no_identity = \<lparr>cpAgent = None, cpManifestJson = None\<rparr>"

definition MANIFEST_TTL_SECS :: int where "MANIFEST_TTL_SECS = 86400"
definition MANIFEST_REBUILD_MARGIN_SECS :: int where "MANIFEST_REBUILD_MARGIN_SECS = 3600"

definition buildManifestJson :: "'a identity_sdk \<Rightarrow> app_config \<Rightarrow> instant \<Rightarrow> 'a \<Rightarrow> jstring option" where
  "buildManifestJson sdk cfg now a =
     buildManifest sdk a (cpBaseUrl cfg @ js ''/api/aitp/handshake/hello'') MANIFEST_TTL_SECS now"

definition seed_bytes :: "app_config \<Rightarrow> byte list \<Rightarrow> byte list option" where
  "seed_bytes cfg rnd =
     (if cpAidSeedHex cfg = [] then (if isProduction cfg then None else Some rnd)
      else case cpSeedProblem (cpAidSeedHex cfg) of
             Some p \<Rightarrow> None
           | None \<Rightarrow> Some (decodeCpSeedHex (cpAidSeedHex cfg)))"

text \<open>
  The first component is False where the source throws. \<open>rnd\<close> is what \<open>randomBytes(32)\<close> would
  return. The agent is stored before its manifest is built, so a builder that throws leaves the
  agent behind.
\<close>

definition initCpIdentity ::
  "'a identity_sdk \<Rightarrow> app_config \<Rightarrow> byte list \<Rightarrow> instant \<Rightarrow> 'a cp_identity \<Rightarrow> bool \<times> 'a cp_identity" where
  "initCpIdentity sdk cfg rnd now st =
     (if cpAgent st \<noteq> None then (True, st)
      else case Option.bind (seed_bytes cfg rnd) (fromSeed sdk) of
             None \<Rightarrow> (False, st)
           | Some a \<Rightarrow>
               (case buildManifestJson sdk cfg now a of
                  None \<Rightarrow> (False, st\<lparr>cpAgent := Some a\<rparr>)
                | Some m \<Rightarrow> (True, st\<lparr>cpAgent := Some a, cpManifestJson := Some m\<rparr>)))"

definition getCpAgent ::
  "'a identity_sdk \<Rightarrow> app_config \<Rightarrow> byte list \<Rightarrow> instant \<Rightarrow> 'a cp_identity \<Rightarrow> 'a option \<times> 'a cp_identity" where
  "getCpAgent sdk cfg rnd now st =
     (let (ok, s1) = (if cpAgent st = None then initCpIdentity sdk cfg rnd now st else (True, st))
      in (if ok then cpAgent s1 else None, s1))"

definition rebuild ::
  "'a identity_sdk \<Rightarrow> app_config \<Rightarrow> instant \<Rightarrow> 'a cp_identity \<Rightarrow> jstring option \<times> 'a cp_identity" where
  "rebuild sdk cfg now s =
     (case Option.bind (cpAgent s) (buildManifestJson sdk cfg now) of
        None \<Rightarrow> (None, s)
      | Some m \<Rightarrow> (if manifest_expires sdk m = None then None else Some m, s\<lparr>cpManifestJson := Some m\<rparr>))"

definition getCpManifestJson ::
  "'a identity_sdk \<Rightarrow> app_config \<Rightarrow> byte list \<Rightarrow> instant \<Rightarrow> 'a cp_identity \<Rightarrow> jstring option \<times> 'a cp_identity" where
  "getCpManifestJson sdk cfg rnd now st =
     (let (ok, s1) = (if blank (cpManifestJson st) then initCpIdentity sdk cfg rnd now st else (True, st))
      in if \<not> ok then (None, s1)
         else case Option.bind (cpManifestJson s1) (manifest_expires sdk) of
                None \<Rightarrow> (None, s1)
              | Some e \<Rightarrow>
                  if e - now div 1000 \<le> MANIFEST_REBUILD_MARGIN_SECS then rebuild sdk cfg now s1
                  else (cpManifestJson s1, s1))"

text \<open>\<open>GET /.well-known/aitp-manifest\<close>; \<open>None\<close> is a throw, the framework's 500.\<close>

definition well_known_GET ::
  "'a identity_sdk \<Rightarrow> app_config \<Rightarrow> byte list \<Rightarrow> instant \<Rightarrow> 'a cp_identity \<Rightarrow>
   (jstring \<times> headers) option \<times> 'a cp_identity" where
  "well_known_GET sdk cfg rnd now st =
     (let (m, s1) = getCpManifestJson sdk cfg rnd now st
      in (map_option (\<lambda>m. (m, [js ''content-type'' \<mapsto> js ''application/json'',
                               js ''cache-control'' \<mapsto> js ''max-age=3600''])) m, s1))"

datatype identity_op = AskAgent "byte list" instant | AskManifest "byte list" instant

fun identity_step :: "'a identity_sdk \<Rightarrow> app_config \<Rightarrow> 'a cp_identity \<Rightarrow> identity_op \<Rightarrow> 'a cp_identity" where
  "identity_step sdk cfg st (AskAgent rnd now) = snd (getCpAgent sdk cfg rnd now st)"
| "identity_step sdk cfg st (AskManifest rnd now) = snd (well_known_GET sdk cfg rnd now st)"

section \<open>What the decoder reads\<close>

lemma hex_value_iff: "hex_value c \<noteq> None \<longleftrightarrow> is_any_hex c"
  by (auto simp: hex_value_def is_any_hex_def is_lower_hex_def is_digit_def)

lemma decode_at_least:
  "k \<le> length (decodeCpSeedHex s) \<longleftrightarrow> 2 * k \<le> length s \<and> list_all is_any_hex (take (2 * k) s)"
proof (induction s arbitrary: k rule: decodeCpSeedHex.induct)
  case (1 a b s)
  show ?case
  proof (cases k)
    case (Suc j)
    show ?thesis
    proof (cases "is_any_hex a \<and> is_any_hex b")
      case True
      then obtain h l where "hex_value a = Some h" "hex_value b = Some l"
        using hex_value_iff by (metis option.exhaust)
      with 1 Suc True show ?thesis by simp
    next
      case False
      then have "decodeCpSeedHex (a # b # s) = []"
        using hex_value_iff [of a] hex_value_iff [of b] by (auto split: option.splits)
      with False Suc show ?thesis by auto
    qed
  qed simp
qed (cases k, auto)+

lemma decode_take: "decodeCpSeedHex (take (2 * k) s) = take k (decodeCpSeedHex s)"
proof (induction k arbitrary: s)
  case (Suc k)
  then show ?case by (cases s rule: decodeCpSeedHex.cases) (auto split: option.splits)
qed simp

text \<open>
  The seed rule, exactly: a configured seed is usable when it starts with 64 hex digits and the
  two units after them are not both hex digits. The identity is then built from those 64 digits
  alone, so trailing junk never rotates it, and the not-clean warning is printed exactly for the
  usable seeds that are longer.
\<close>

theorem seed_rule_exact:
  "(cpSeedProblem raw = None \<longleftrightarrow>
      64 \<le> length raw \<and> list_all is_any_hex (take 64 raw) \<and>
      \<not> (66 \<le> length raw \<and> list_all is_any_hex (take 2 (drop 64 raw)))) \<and>
   (cpSeedProblem raw = None \<longrightarrow>
      decodeCpSeedHex raw = decodeCpSeedHex (take 64 raw) \<and>
      (cpSeedNotCleanWarning raw = None \<longleftrightarrow> length raw = 64))"
proof -
  have r: "cpSeedProblem raw = None \<longleftrightarrow> length (decodeCpSeedHex raw) = 32"
    by (auto simp: cpSeedProblem_def CP_SEED_BYTES_def Let_def)
  have a: "length (decodeCpSeedHex raw) = 32 \<longleftrightarrow>
      32 \<le> length (decodeCpSeedHex raw) \<and> \<not> 33 \<le> length (decodeCpSeedHex raw)" by linarith
  have "take 66 raw = take 64 raw @ take 2 (drop 64 raw)" using take_add [of 64 2 raw] by simp
  then have exact: "length (decodeCpSeedHex raw) = 32 \<longleftrightarrow> 64 \<le> length raw \<and> list_all is_any_hex (take 64 raw) \<and>
      \<not> (66 \<le> length raw \<and> list_all is_any_hex (take 2 (drop 64 raw)))"
    unfolding a decode_at_least by (auto simp del: take_add)
  have "decodeCpSeedHex raw = decodeCpSeedHex (take 64 raw) \<and>
      (cpSeedNotCleanWarning raw = None \<longleftrightarrow> length raw = 64)" if u: "cpSeedProblem raw = None"
  proof
    show "decodeCpSeedHex raw = decodeCpSeedHex (take 64 raw)"
      using decode_take [of 32 raw] u r by simp
    have "raw \<noteq> []" using u by (auto simp: cpSeedProblem_def)
    moreover have "length raw = 64 \<Longrightarrow> list_all is_any_hex raw" using exact u r by simp
    ultimately show "cpSeedNotCleanWarning raw = None \<longleftrightarrow> length raw = 64"
      using u by (auto simp: cpSeedNotCleanWarning_def CLEAN_SEED_RE_def)
  qed
  with r exact show ?thesis by blast
qed

section \<open>Boot and first use agree\<close>

text \<open>
  The SDK accepts seeds of 32 bytes and no others, and builds a manifest whenever it is asked to.
\<close>

definition sdk_accepts_seeds :: "'a identity_sdk \<Rightarrow> bool" where
  "sdk_accepts_seeds sdk \<longleftrightarrow> (\<forall>bs. fromSeed sdk bs = None \<longleftrightarrow> length bs \<noteq> CP_SEED_BYTES) \<and>
     (\<forall>a ep ttl now. buildManifest sdk a ep ttl now \<noteq> None)"

lemma boot_agrees_with_init:
  assumes "sdk_accepts_seeds sdk" and "isProduction cfg"
  shows "cpSeedBootFailure cfg = None \<longleftrightarrow> fst (initCpIdentity sdk cfg rnd now no_identity)"
proof (cases "cpSeedProblem (cpAidSeedHex cfg)")
  case None
  then have "cpAidSeedHex cfg \<noteq> []" and "length (decodeCpSeedHex (cpAidSeedHex cfg)) = CP_SEED_BYTES"
    by (auto simp: cpSeedProblem_def Let_def split: if_splits)
  with None assms show ?thesis
    by (auto simp: cpSeedBootFailure_def initCpIdentity_def no_identity_def seed_bytes_def
        sdk_accepts_seeds_def buildManifestJson_def split: option.splits) (metis not_None_eq)
next
  case (Some p)
  with assms show ?thesis
    by (auto simp: cpSeedBootFailure_def initCpIdentity_def no_identity_def seed_bytes_def)
qed

section \<open>One agent, and manifests that outlive their caches\<close>

text \<open>The SDK's \<open>ttlSecs\<close>: a manifest expires that many seconds after it was built.\<close>

definition sdk_expires :: "'a identity_sdk \<Rightarrow> bool" where
  "sdk_expires sdk \<longleftrightarrow> (\<forall>a ep ttl t m. buildManifest sdk a ep ttl t = Some m \<longrightarrow>
     manifest_expires sdk m = Some (t div 1000 + ttl))"

definition identity_inv :: "'a identity_sdk \<Rightarrow> app_config \<Rightarrow> 'a cp_identity \<Rightarrow> bool" where
  "identity_inv sdk cfg st \<longleftrightarrow>
     (\<forall>m. cpManifestJson st = Some m \<longrightarrow> (\<exists>a now. cpAgent st = Some a \<and> buildManifestJson sdk cfg now a = Some m))"

lemma no_identity_inv: "identity_inv sdk cfg no_identity"
  by (simp add: identity_inv_def no_identity_def)

lemma initCpIdentity_inv: "identity_inv sdk cfg st \<Longrightarrow> identity_inv sdk cfg (snd (initCpIdentity sdk cfg rnd now st))"
  by (auto simp: identity_inv_def initCpIdentity_def split: option.splits)

lemma rebuild_inv: "identity_inv sdk cfg st \<Longrightarrow> identity_inv sdk cfg (snd (rebuild sdk cfg now st))"
  by (auto simp: identity_inv_def rebuild_def bind_eq_Some_conv split: option.splits)

lemma initCpIdentity_agent: "cpAgent st = Some a \<Longrightarrow> initCpIdentity sdk cfg rnd now st = (True, st)"
  by (simp add: initCpIdentity_def)

lemma rebuild_agent: "cpAgent (snd (rebuild sdk cfg now st)) = cpAgent st"
  by (simp add: rebuild_def split: option.split)

lemma getCpManifestJson_inv:
  "identity_inv sdk cfg st \<Longrightarrow> identity_inv sdk cfg (snd (getCpManifestJson sdk cfg rnd now st))"
  using initCpIdentity_inv [of sdk cfg st rnd now]
  by (auto simp: getCpManifestJson_def Let_def rebuild_inv split: prod.splits option.splits)

lemma identity_step_inv: "identity_inv sdk cfg st \<Longrightarrow> identity_inv sdk cfg (identity_step sdk cfg st op)"
  using initCpIdentity_inv [of sdk cfg st] getCpManifestJson_inv [of sdk cfg st]
  by (cases op) (simp_all add: getCpAgent_def well_known_GET_def Let_def case_prod_beta)

lemma identity_step_agent: "cpAgent st = Some a \<Longrightarrow> cpAgent (identity_step sdk cfg st op) = Some a"
  by (cases op) (auto simp: getCpAgent_def well_known_GET_def getCpManifestJson_def initCpIdentity_agent
      rebuild_agent Let_def case_prod_beta split: option.splits)

interpretation cp_id: marking_machine "identity_step sdk cfg" "identity_inv sdk cfg" "\<lambda>st. set_option (cpAgent st)"
  for sdk cfg
  by unfold_locales (auto simp: identity_step_inv dest: identity_step_agent)

lemma manifest_served:
  assumes inv: "identity_inv sdk cfg st"
    and ttl: "sdk_expires sdk"
    and served: "getCpManifestJson sdk cfg rnd now st = (Some m, st')"
  shows "\<exists>a t e. cpAgent st' = Some a \<and> buildManifestJson sdk cfg t a = Some m \<and>
    manifest_expires sdk m = Some e \<and> now div 1000 + 3600 < e"
proof -
  have inv': "identity_inv sdk cfg st'" using getCpManifestJson_inv [OF inv, of rnd now] served by simp
  let ?s1 = "if blank (cpManifestJson st) then snd (initCpIdentity sdk cfg rnd now st) else st"
  obtain e where e: "Option.bind (cpManifestJson ?s1) (manifest_expires sdk) = Some e"
    and step: "if e - now div 1000 \<le> 3600 then rebuild sdk cfg now ?s1 = (Some m, st')
      else cpManifestJson ?s1 = Some m \<and> st' = ?s1"
    using served
    by (auto simp: getCpManifestJson_def MANIFEST_REBUILD_MARGIN_SECS_def case_prod_beta Let_def
        split: if_splits option.splits)
  show ?thesis
  proof (cases "e - now div 1000 \<le> 3600")
    case True
    with step have "rebuild sdk cfg now ?s1 = (Some m, st')" by simp
    then obtain a where "cpAgent ?s1 = Some a" and b: "buildManifestJson sdk cfg now a = Some m"
      and "st' = ?s1\<lparr>cpManifestJson := Some m\<rparr>"
      by (auto simp: rebuild_def bind_eq_Some_conv split: option.splits if_splits)
    moreover have "manifest_expires sdk m = Some (now div 1000 + 86400)"
      using ttl b by (simp add: sdk_expires_def buildManifestJson_def MANIFEST_TTL_SECS_def)
    ultimately show ?thesis by force
  next
    case False
    with step e inv' show ?thesis by (auto simp: identity_inv_def)
  qed
qed

text \<open>
  C23. Whatever calls came before, at whatever clock readings, a manifest the well-known route
  serves was built by the one agent the process keeps ever after, and expires more than an hour
  after it was served: a copy cached for its \<open>max-age=3600\<close> is never used past its expiry. The
  hypothesis is the SDK's \<open>ttlSecs\<close>: a manifest expires that many seconds after it was built.
\<close>

theorem served_manifest_outlives_cache:
  assumes ttl: "sdk_expires sdk"
    and served: "well_known_GET sdk cfg rnd now (foldl (identity_step sdk cfg) no_identity ops) = (Some (m, h), st')"
  shows "h (js ''cache-control'') = Some (js ''max-age=3600'') \<and>
    (\<exists>a t e. buildManifestJson sdk cfg t a = Some m \<and> manifest_expires sdk m = Some e \<and> now div 1000 + 3600 < e \<and>
      (\<forall>later. cpAgent (foldl (identity_step sdk cfg) st' later) = Some a))"
proof -
  let ?st = "foldl (identity_step sdk cfg) no_identity ops"
  have inv: "identity_inv sdk cfg ?st" by (rule cp_id.run_inv [OF no_identity_inv])
  from served have got: "getCpManifestJson sdk cfg rnd now ?st = (Some m, st')"
    and h: "h = [js ''content-type'' \<mapsto> js ''application/json'', js ''cache-control'' \<mapsto> js ''max-age=3600'']"
    by (auto simp: well_known_GET_def split: prod.splits)
  obtain a t e where a: "cpAgent st' = Some a" and m: "buildManifestJson sdk cfg t a = Some m"
    and e: "manifest_expires sdk m = Some e" "now div 1000 + 3600 < e"
    using manifest_served [OF inv ttl got] by blast
  have inv': "identity_inv sdk cfg st'" using getCpManifestJson_inv [OF inv, of rnd now] got by simp
  have "cpAgent (foldl (identity_step sdk cfg) st' later) = Some a" for later
    using cp_id.run_marks_mem [OF inv', of a later] a by (simp add: elem_set)
  with m e h show ?thesis by auto
qed

text \<open>A manifest that is its expiry in unary, and an SDK around it.\<close>

definition demo_signed :: "int \<Rightarrow> jstring" where
  "demo_signed n = (if n < 0 then 45 else 43) # replicate (nat (abs n)) 49"

definition demo_read :: "jstring \<Rightarrow> int option" where
  "demo_read m = (case m of [] \<Rightarrow> None | c # s \<Rightarrow> Some (if c = 45 then - int (length s) else int (length s)))"

lemma demo_read_signed: "demo_read (demo_signed n) = Some n"
  by (simp add: demo_read_def demo_signed_def)

definition demo_sdk :: "nat identity_sdk" where
  "demo_sdk = \<lparr>fromSeed = \<lambda>bs. if length bs = 32 then Some 7 else None, agent_aid = \<lambda>a. js ''aid:cp'',
     buildManifest = \<lambda>a ep ttl now. Some (demo_signed (now div 1000 + ttl)), manifest_expires = demo_read\<rparr>"

definition demo_cp_config :: app_config where
  "demo_cp_config = load_config (\<lambda>_. None) Map.empty"

lemma demo_cp_config_seed: "cpAidSeedHex demo_cp_config = []" "\<not> isProduction demo_cp_config"
  by code_simp+

definition demo_served :: "(jstring \<times> headers) option \<times> nat cp_identity" where
  "demo_served = well_known_GET demo_sdk demo_cp_config [] 90000000
     (foldl (identity_step demo_sdk demo_cp_config) no_identity [AskAgent (replicate 32 0) 0])"

lemma demo_served_some: "\<exists>h st'. demo_served = (Some (demo_signed 176400, h), st')"
  by (simp add: demo_served_def well_known_GET_def getCpManifestJson_def getCpAgent_def initCpIdentity_def
      no_identity_def seed_bytes_def demo_cp_config_seed demo_sdk_def buildManifestJson_def rebuild_def
      MANIFEST_TTL_SECS_def MANIFEST_REBUILD_MARGIN_SECS_def demo_read_signed Let_def)
    (simp add: demo_signed_def)

theorem served_manifest_outlives_cache_witness:
  "\<exists>m h st' e. demo_served = (Some (m, h), st') \<and> manifest_expires demo_sdk m = Some e \<and> 93600 < e"
proof -
  obtain h st' where d: "demo_served = (Some (demo_signed 176400, h), st')" using demo_served_some by blast
  have "sdk_expires demo_sdk" by (auto simp: sdk_expires_def demo_sdk_def demo_read_signed)
  from served_manifest_outlives_cache [OF this d [unfolded demo_served_def]] d show ?thesis by auto
qed

end
