(* ===== verification/Process_Life.thy ===== *)
theory Process_Life
  imports Cp_Identity Enrollment Jwks_Refresher Metrics_Text
begin

text \<open>
  The life of one server process: the boot hook \<open>register\<close> of \<open>src/src/instrumentation.ts\<close> with the
  checks it runs (\<open>node-env.ts\<close>, \<open>enrollment-config.ts\<close>, \<open>cp-seed-config.ts\<close>,
  \<open>key-labels-config.ts\<close>), and the shutdown coordinator \<open>lib/shutdown.ts\<close> with the drain it starts.
  What boot does is a list of actions; \<open>process.exit\<close> never returns, so nothing follows an \<open>Exit\<close>.
  The printed lines are constructors, their texts are left out.
\<close>

section \<open>Boot\<close>

datatype boot_job = JwksRefresher | WebhookReaper | ExpiryJob | RetentionJob

datatype boot_action =
    NodeEnvLine
  | SecretLine bool               \<comment> \<open>fatal\<close>
  | SeedLine bool
  | NotCleanLine nat
  | BaseUrlLine base_url_reason
  | LabelLine
  | StartSdk
  | RegisterHooks nat             \<comment> \<open>how many extra hooks\<close>
  | StartJob boot_job
  | Exit nat

definition option_line :: "('a \<Rightarrow> boot_action) \<Rightarrow> 'a option \<Rightarrow> boot_action list" where
  "option_line f v = (case v of None \<Rightarrow> [] | Some x \<Rightarrow> [f x])"

definition warnOnUnrecognisedNodeEnv :: "environment \<Rightarrow> boot_action list" where
  "warnOnUnrecognisedNodeEnv env = (if App_Config.nodeEnvBootWarning env then [NodeEnvLine] else [])"

definition enforceEnrollmentSecretAtBoot :: "app_config \<Rightarrow> boot_action list" where
  "enforceEnrollmentSecretAtBoot cfg =
     (case enrollmentSecretBootFailure cfg of
        None \<Rightarrow> []
      | Some fatal \<Rightarrow> if fatal then [SecretLine True, Exit 1] else [SecretLine False])"

definition enforceCpSeedAtBoot :: "net_env \<Rightarrow> app_config \<Rightarrow> boot_action list" where
  "enforceCpSeedAtBoot net cfg =
     (let warnings = option_line NotCleanLine (cpSeedNotCleanWarning (cpAidSeedHex cfg)) @
            option_line BaseUrlLine (cpBaseUrlBootWarning net cfg)
      in case cpSeedBootFailure cfg of
           None \<Rightarrow> warnings
         | Some fatal \<Rightarrow> if fatal then [SeedLine True, Exit 1] else SeedLine False # warnings)"

definition enforceKeyLabelsAtBoot :: "app_config \<Rightarrow> boot_action list" where
  "enforceKeyLabelsAtBoot cfg =
     (if keyLabelBootFailure (keyLabelErrors cfg) then [LabelLine, Exit 1] else [])"

definition exits :: "boot_action list \<Rightarrow> bool" where
  "exits as \<longleftrightarrow> list_ex (\<lambda>a. case a of Exit _ \<Rightarrow> True | _ \<Rightarrow> False) as"

fun until_exit :: "boot_action list list \<Rightarrow> boot_action list" where
  "until_exit [] = []"
| "until_exit (as # rest) = as @ (if exits as then [] else until_exit rest)"

definition startBackgroundJobs :: "boot_action list" where
  "startBackgroundJobs = map StartJob [JwksRefresher, WebhookReaper, ExpiryJob, RetentionJob]"

definition register_boot :: "environment \<Rightarrow> net_env \<Rightarrow> app_config \<Rightarrow> boot_action list" where
  "register_boot env net cfg =
     (if env ''NEXT_RUNTIME'' \<noteq> Some (js ''nodejs'') then []
      else until_exit
        [warnOnUnrecognisedNodeEnv env,
         enforceEnrollmentSecretAtBoot cfg,
         enforceCpSeedAtBoot net cfg,
         enforceKeyLabelsAtBoot cfg,
         (if env ''OTEL_ENABLED'' \<noteq> Some (js ''true'') then [RegisterHooks 0]
          else [StartSdk, RegisterHooks 1]),
         startBackgroundJobs])"

section \<open>Timers\<close>

record timers =
  expiryInterval :: bool
  retentionInterval :: bool
  webhookReaperInterval :: bool
  rateLimiterGcInterval :: bool
  jwksRefreshInterval :: bool

definition startExpiryJob :: "timers \<Rightarrow> timers" where
  "startExpiryJob t = (if expiryInterval t then t else t\<lparr>expiryInterval := True\<rparr>)"

definition startWebhookReaper :: "timers \<Rightarrow> timers" where
  "startWebhookReaper t = (if webhookReaperInterval t then t else t\<lparr>webhookReaperInterval := True\<rparr>)"

definition startRetentionJob :: "app_config \<Rightarrow> timers \<Rightarrow> timers" where
  "startRetentionJob cfg t =
     (if retentionInterval t then t else if \<not> retentionEnabled cfg then t else t\<lparr>retentionInterval := True\<rparr>)"

definition startJwksRefresher :: "jwks_config \<Rightarrow> timers \<Rightarrow> timers" where
  "startJwksRefresher jc t =
     (if \<not> jwksRefreshEnabled jc then t else if jwksRefreshInterval t then t else t\<lparr>jwksRefreshInterval := True\<rparr>)"

text \<open>What loading \<open>rate-limit.ts\<close> starts.\<close>

definition startRateLimiterGc :: "environment \<Rightarrow> timers \<Rightarrow> timers" where
  "startRateLimiterGc env t =
     (if \<not> rateLimiterGcInterval t \<and> env ''NODE_ENV'' \<noteq> Some (js ''test'')
      then t\<lparr>rateLimiterGcInterval := True\<rparr> else t)"

fun start_job :: "app_config \<Rightarrow> jwks_config \<Rightarrow> boot_job \<Rightarrow> timers \<Rightarrow> timers" where
  "start_job cfg jc JwksRefresher = startJwksRefresher jc"
| "start_job cfg jc WebhookReaper = startWebhookReaper"
| "start_job cfg jc ExpiryJob = startExpiryJob"
| "start_job cfg jc RetentionJob = startRetentionJob cfg"

definition clearBackgroundTimers :: "timers \<Rightarrow> timers" where
  "clearBackgroundTimers t = t\<lparr>expiryInterval := False, retentionInterval := False,
     webhookReaperInterval := False, rateLimiterGcInterval := False\<rparr>"

section \<open>Shutdown\<close>

text \<open>
  A process between its boot and its exit. \<open>waiting\<close> are the extra hooks that have not settled,
  \<open>deadline\<close> is when the grace timer fires, \<open>exited\<close> the clock at \<open>process.exit(0)\<close>.
\<close>

record process =
  pr_clock :: instant
  pr_timers :: timers
  hookCount :: nat
  shuttingDown :: bool
  waiting :: "nat list"
  deadline :: "instant option"
  exited :: "instant option"

datatype process_event =
    Signal                 \<comment> \<open>SIGTERM or SIGINT\<close>
  | HookSettles nat        \<comment> \<open>fulfilled or failed: the failure is caught and logged\<close>
  | IngestPost             \<comment> \<open>a \<open>POST /api/events\<close> re-arming the jobs\<close>
  | Turn nat               \<comment> \<open>a turn of the event loop that many milliseconds later\<close>

definition GRACE_PERIOD_MS :: int where "GRACE_PERIOD_MS = 10000"

definition handle_signal :: "process \<Rightarrow> process" where
  "handle_signal s =
     (if shuttingDown s then s
      else s\<lparr>shuttingDown := True, pr_timers := clearBackgroundTimers (pr_timers s),
             waiting := [0..<hookCount s], deadline := Some (pr_clock s + GRACE_PERIOD_MS)\<rparr>)"

text \<open>\<open>Promise.race([Promise.all(hooks), deadline]).finally(() => process.exit(0))\<close>.\<close>

definition race :: "process \<Rightarrow> process" where
  "race s =
     (if exited s = None \<and> shuttingDown s \<and> (waiting s = [] \<or> (case deadline s of None \<Rightarrow> False | Some d \<Rightarrow> d \<le> pr_clock s))
      then s\<lparr>exited := Some (pr_clock s)\<rparr> else s)"

fun process_event_step :: "app_config \<Rightarrow> process \<Rightarrow> process_event \<Rightarrow> process" where
  "process_event_step cfg s Signal = handle_signal s"
| "process_event_step cfg s (HookSettles i) = s\<lparr>waiting := filter (\<lambda>j. j \<noteq> i) (waiting s)\<rparr>"
| "process_event_step cfg s IngestPost =
     s\<lparr>pr_timers := startRetentionJob cfg (startWebhookReaper (startExpiryJob (pr_timers s)))\<rparr>"
| "process_event_step cfg s (Turn d) = s\<lparr>pr_clock := pr_clock s + int d\<rparr>"

definition process_step :: "app_config \<Rightarrow> process \<Rightarrow> process_event \<Rightarrow> process" where
  "process_step cfg s e = (if exited s \<noteq> None then s else race (process_event_step cfg s e))"

definition booted :: "environment \<Rightarrow> net_env \<Rightarrow> app_config \<Rightarrow> jwks_config \<Rightarrow> instant \<Rightarrow> process option" where
  "booted env net cfg jc now =
     (let as = register_boot env net cfg
      in if exits as then None
         else Some \<lparr>pr_clock = now,
           pr_timers = fold (\<lambda>a t. case a of StartJob j \<Rightarrow> start_job cfg jc j t | _ \<Rightarrow> t) as
             (startRateLimiterGc env \<lparr>expiryInterval = False, retentionInterval = False,
                webhookReaperInterval = False, rateLimiterGcInterval = False, jwksRefreshInterval = False\<rparr>),
           hookCount = fold (\<lambda>a n. case a of RegisterHooks k \<Rightarrow> k | _ \<Rightarrow> n) as 0,
           shuttingDown = False, waiting = [], deadline = None, exited = None\<rparr>)"

text \<open>The probe, on the state the process is in.\<close>

definition readyz :: "process \<Rightarrow> bool \<Rightarrow> http_response" where
  "readyz s dbReachable = readyz_GET (shuttingDown s) dbReachable"

section \<open>Boot either exits or serves\<close>

lemma exits_simps [simp]:
  "exits [] = False" "exits (Exit n # as) = True" "exits (as @ bs) \<longleftrightarrow> exits as \<or> exits bs"
  "exits (NodeEnvLine # as) = exits as" "exits (SecretLine b # as) = exits as" "exits (SeedLine b # as) = exits as"
  "exits (NotCleanLine k # as) = exits as" "exits (BaseUrlLine r # as) = exits as" "exits (LabelLine # as) = exits as"
  "exits (StartSdk # as) = exits as" "exits (RegisterHooks k # as) = exits as" "exits (StartJob j # as) = exits as"
  by (simp_all add: exits_def)

definition boot_refused :: "app_config \<Rightarrow> bool" where
  "boot_refused cfg \<longleftrightarrow> keyLabelErrors cfg \<noteq> [] \<or>
     (isProduction cfg \<and> (enrollmentSecretProblem (enrollmentSecret cfg) \<noteq> None \<or> cpSeedProblem (cpAidSeedHex cfg) \<noteq> None))"

lemma check_exits:
  "\<not> exits (warnOnUnrecognisedNodeEnv env)"
  "exits (enforceEnrollmentSecretAtBoot cfg) \<longleftrightarrow>
     isProduction cfg \<and> enrollmentSecretProblem (enrollmentSecret cfg) \<noteq> None"
  "exits (enforceCpSeedAtBoot net cfg) \<longleftrightarrow> isProduction cfg \<and> cpSeedProblem (cpAidSeedHex cfg) \<noteq> None"
  "exits (enforceKeyLabelsAtBoot cfg) \<longleftrightarrow> keyLabelErrors cfg \<noteq> []"
  "\<not> exits startBackgroundJobs"
  by (auto simp: warnOnUnrecognisedNodeEnv_def enforceEnrollmentSecretAtBoot_def enrollmentSecretBootFailure_def
      enforceCpSeedAtBoot_def cpSeedBootFailure_def enforceKeyLabelsAtBoot_def keyLabelBootFailure_def
      startBackgroundJobs_def option_line_def Let_def split: option.splits)

lemma register_boot_exits:
  assumes "env ''NEXT_RUNTIME'' = Some (js ''nodejs'')"
  shows "exits (register_boot env net cfg) \<longleftrightarrow> boot_refused cfg"
  using assms by (auto simp: register_boot_def check_exits boot_refused_def)

text \<open>A boot that exits has started nothing: neither hooks nor jobs.\<close>

definition starts_something :: "boot_action \<Rightarrow> bool" where
  "starts_something a = (case a of StartSdk \<Rightarrow> True | RegisterHooks _ \<Rightarrow> True | StartJob _ \<Rightarrow> True | _ \<Rightarrow> False)"

lemma checks_start_nothing:
  "\<not> list_ex starts_something (warnOnUnrecognisedNodeEnv env)"
  "\<not> list_ex starts_something (enforceEnrollmentSecretAtBoot cfg)"
  "\<not> list_ex starts_something (enforceCpSeedAtBoot net cfg)"
  "\<not> list_ex starts_something (enforceKeyLabelsAtBoot cfg)"
  by (auto simp: starts_something_def warnOnUnrecognisedNodeEnv_def enforceEnrollmentSecretAtBoot_def
      enforceCpSeedAtBoot_def enforceKeyLabelsAtBoot_def option_line_def Let_def split: option.splits)

lemma refused_boot_starts_nothing:
  assumes "exits (register_boot env net cfg)"
  shows "\<not> list_ex starts_something (register_boot env net cfg)"
  using assms checks_start_nothing
  by (auto simp: register_boot_def check_exits split: if_splits)

definition boot_checks :: "environment \<Rightarrow> net_env \<Rightarrow> app_config \<Rightarrow> boot_action list" where
  "boot_checks env net cfg = warnOnUnrecognisedNodeEnv env @ enforceEnrollmentSecretAtBoot cfg @
     enforceCpSeedAtBoot net cfg @ enforceKeyLabelsAtBoot cfg"

lemma boot_checks_start_nothing: "\<not> list_ex starts_something (boot_checks env net cfg)"
  by (simp add: boot_checks_def checks_start_nothing)

lemma register_boot_passed:
  assumes "env ''NEXT_RUNTIME'' = Some (js ''nodejs'')" and "\<not> boot_refused cfg"
  shows "register_boot env net cfg = boot_checks env net cfg @
    (if env ''OTEL_ENABLED'' \<noteq> Some (js ''true'') then [RegisterHooks 0] else [StartSdk, RegisterHooks 1]) @ startBackgroundJobs"
  using assms by (auto simp: register_boot_def boot_checks_def check_exits boot_refused_def)

lemma fold_jobs_skip:
  assumes "\<not> list_ex starts_something as"
  shows "fold (\<lambda>a t. case a of StartJob j \<Rightarrow> start_job cfg jc j t | _ \<Rightarrow> t) as t = t"
  using assms by (induction as arbitrary: t) (auto simp: starts_something_def split: boot_action.splits)

lemma booted_timers:
  assumes "env ''NEXT_RUNTIME'' = Some (js ''nodejs'')" and "booted env net cfg jc now = Some s"
  shows "expiryInterval (pr_timers s) \<and> webhookReaperInterval (pr_timers s) \<and>
    (retentionInterval (pr_timers s) \<longleftrightarrow> retentionEnabled cfg) \<and>
    (jwksRefreshInterval (pr_timers s) \<longleftrightarrow> jwksRefreshEnabled jc)"
proof -
  have ok: "\<not> boot_refused cfg"
    using assms register_boot_exits [of env net cfg] by (auto simp: booted_def Let_def split: if_splits)
  have t: "pr_timers s = fold (\<lambda>a t. case a of StartJob j \<Rightarrow> start_job cfg jc j t | _ \<Rightarrow> t) (register_boot env net cfg)
      (startRateLimiterGc env \<lparr>expiryInterval = False, retentionInterval = False,
         webhookReaperInterval = False, rateLimiterGcInterval = False, jwksRefreshInterval = False\<rparr>)"
    using assms(2) by (auto simp: booted_def Let_def split: if_splits)
  show ?thesis
    unfolding t register_boot_passed [of env cfg net, OF assms(1) ok]
    by (simp add: fold_jobs_skip [OF boot_checks_start_nothing] startBackgroundJobs_def startRateLimiterGc_def
        startJwksRefresher_def startWebhookReaper_def startExpiryJob_def startRetentionJob_def)
qed


section \<open>A drain ends\<close>

definition advance :: "process_event list \<Rightarrow> int" where
  "advance es = sum_list (map (\<lambda>e. case e of Turn d \<Rightarrow> int d | _ \<Rightarrow> 0) es)"

definition short_turn :: "nat \<Rightarrow> process_event \<Rightarrow> bool" where
  "short_turn m e = (case e of Turn d \<Rightarrow> d \<le> m | _ \<Rightarrow> True)"

text \<open>
  A process draining since \<open>c\<close>: it exits when its last hook settles or in the turn that passes the
  grace period, whichever comes first.
\<close>

definition draining :: "instant \<Rightarrow> nat \<Rightarrow> process \<Rightarrow> bool" where
  "draining c m s \<longleftrightarrow> shuttingDown s \<and> deadline s = Some (c + GRACE_PERIOD_MS) \<and> c \<le> pr_clock s \<and>
     (case exited s of
        None \<Rightarrow> waiting s \<noteq> [] \<and> pr_clock s < c + GRACE_PERIOD_MS
      | Some t \<Rightarrow> c \<le> t \<and> t \<le> c + GRACE_PERIOD_MS + int m)"

lemma draining_step: "draining c m s \<Longrightarrow> short_turn m e \<Longrightarrow> draining c m (process_step cfg s e)"
  by (cases e) (auto simp: draining_def process_step_def race_def handle_signal_def short_turn_def split: option.splits)

lemma draining_run:
  "draining c m s \<Longrightarrow> list_all (short_turn m) es \<Longrightarrow> draining c m (foldl (process_step cfg) s es)"
  by (induction es arbitrary: s) (simp_all add: draining_step)

lemma exited_stays: "exited s = Some t \<Longrightarrow> foldl (process_step cfg) s es = s"
  by (induction es) (simp_all add: process_step_def)

lemma clock_step:
  "exited (process_step cfg s e) = None \<Longrightarrow>
   exited s = None \<and> pr_clock (process_step cfg s e) = pr_clock s + (case e of Turn d \<Rightarrow> int d | _ \<Rightarrow> 0)"
  by (cases e) (auto simp: process_step_def race_def handle_signal_def split: if_splits)

lemma clock_run:
  "exited (foldl (process_step cfg) s es) = None \<Longrightarrow>
   pr_clock (foldl (process_step cfg) s es) = pr_clock s + advance es"
proof (induction es arbitrary: s)
  case (Cons e es)
  let ?s = "process_step cfg s e"
  have "exited ?s = None"
  proof (cases "exited ?s")
    case (Some t)
    then have "foldl (process_step cfg) ?s es = ?s" by (rule exited_stays)
    with Cons.prems Some show ?thesis by simp
  qed
  with Cons clock_step [of cfg s e] show ?case by (simp add: advance_def)
qed (simp add: advance_def)

lemma signal_drains:
  assumes "exited s = None" and "\<not> shuttingDown s"
  shows "draining (pr_clock s) m (process_step cfg s Signal)"
  using assms by (auto simp: draining_def process_step_def race_def handle_signal_def GRACE_PERIOD_MS_def)

lemma settled_hooks_exit:
  assumes "exited s = None" "shuttingDown s" "waiting s \<noteq> []" "set (waiting s) \<subseteq> {i. HookSettles i \<in> set es}"
  shows "exited (foldl (process_step cfg) s es) \<noteq> None"
  using assms
proof (induction es arbitrary: s)
  case (Cons e es)
  let ?s = "process_step cfg s e"
  show ?case
  proof (cases "exited ?s")
    case (Some t)
    then show ?thesis by (simp add: exited_stays [OF Some])
  next
    case None
    then have "set (waiting ?s) \<subseteq> {i. HookSettles i \<in> set es}" "shuttingDown ?s" "waiting ?s \<noteq> []"
      using Cons.prems
      by (cases e; auto simp: process_step_def race_def handle_signal_def split: if_splits)+
    with Cons.IH [OF None] show ?thesis by simp
  qed
qed simp


section \<open>Witnesses and exceptions\<close>

definition life_env :: environment where
  "life_env = [''NEXT_RUNTIME'' \<mapsto> js ''nodejs'', ''OTEL_ENABLED'' \<mapsto> js ''true'', ''API_KEYS'' \<mapsto> js ''ops:k1'']"

definition life_config :: app_config where
  "life_config = load_config (\<lambda>_. None) life_env"

lemma life_config_fields: "keyLabelErrors life_config = []" "\<not> isProduction life_config"
  by code_simp+

lemma life_booted: "booted life_env demo_net life_config jc 0 \<noteq> None"
proof -
  have "\<not> exits (register_boot life_env demo_net life_config)"
    by (subst register_boot_exits) (simp_all add: life_env_def boot_refused_def life_config_fields)
  then show ?thesis by (simp add: booted_def Let_def)
qed

definition life :: process where
  "life = the (booted life_env demo_net life_config (load_jwks_config (\<lambda>_. None) life_env) 0)"

lemma life_boots: "booted life_env demo_net life_config (load_jwks_config (\<lambda>_. None) life_env) 0 = Some life"
  using life_booted by (simp add: life_def)

lemma life_fields: "exited life = None" "\<not> shuttingDown life" "hookCount life = 1" "pr_clock life = 0"
proof -
  have r: "register_boot life_env demo_net life_config = boot_checks life_env demo_net life_config @
      [StartSdk, RegisterHooks 1] @ startBackgroundJobs"
    by (subst register_boot_passed) (simp_all add: life_env_def boot_refused_def life_config_fields)
  have f: "fold (\<lambda>a n. case a of RegisterHooks k \<Rightarrow> k | _ \<Rightarrow> n) as n = n" if "\<not> list_ex starts_something as" for as n
    using that by (induction as arbitrary: n) (auto simp: starts_something_def split: boot_action.splits)
  show "exited life = None" "\<not> shuttingDown life" "hookCount life = 1" "pr_clock life = 0"
    using life_booted [of "load_jwks_config (\<lambda>_. None) life_env"]
    by (simp_all add: life_def booted_def Let_def r f [OF boot_checks_start_nothing] startBackgroundJobs_def split: if_splits)
qed


text \<open>A production environment that boots.\<close>

definition prod_env :: environment where
  "prod_env = [''NEXT_RUNTIME'' \<mapsto> js ''nodejs'', ''NODE_ENV'' \<mapsto> js ''production'',
     ''ENROLLMENT_SECRET'' \<mapsto> replicate 40 97, ''CP_AID_SEED_HEX'' \<mapsto> replicate 64 48]"

definition prod_config :: app_config where
  "prod_config = load_config (\<lambda>_. None) prod_env"

lemma no_keys_no_errors: "p_errors (parseApiKeys None) = []" "p_errors (parseIssuerKeys None ks) = []"
  by (simp_all add: parseApiKeys_def parseIssuerKeys_def config_items_def numbered_def no_keys_def trim_def Let_def)

lemma prod_config_fields: "isProduction prod_config" "keyLabelErrors prod_config = []"
  "enrollmentSecret prod_config = replicate 40 97" "cpAidSeedHex prod_config = replicate 64 48"
proof -
  show "isProduction prod_config" by code_simp
  show "keyLabelErrors prod_config = []" "enrollmentSecret prod_config = replicate 40 97"
    "cpAidSeedHex prod_config = replicate 64 48"
    by (simp_all add: prod_config_def load_config_def Let_def env_or_def prod_env_def no_keys_no_errors)
qed

lemma prod_seed: "cpSeedProblem (replicate 64 48) = None"
proof -
  have "list_all is_any_hex (replicate n 48)" for n
    by (simp add: list_all_iff is_any_hex_def is_lower_hex_def is_digit_def)
  then have "32 \<le> length (decodeCpSeedHex (replicate 64 48))" "\<not> 33 \<le> length (decodeCpSeedHex (replicate 64 48))"
    unfolding decode_at_least by simp_all
  then have "length (decodeCpSeedHex (replicate 64 48)) = 32" by linarith
  then show ?thesis by (simp add: cpSeedProblem_def CP_SEED_BYTES_def)
qed

lemma prod_boots: "booted prod_env demo_net prod_config jc 0 \<noteq> None"
proof -
  have "\<not> exits (register_boot prod_env demo_net prod_config)"
    by (subst register_boot_exits)
      (simp_all add: prod_env_def boot_refused_def prod_config_fields prod_seed enrollmentSecretProblem_def
        ENROLLMENT_SECRET_MIN_LENGTH_def)
  then show ?thesis by (simp add: booted_def Let_def)
qed

lemma demo_sdk_accepts: "sdk_accepts_seeds demo_sdk"
  by (simp add: sdk_accepts_seeds_def demo_sdk_def CP_SEED_BYTES_def)


text \<open>
  Where the drain falls short of its description. Without extra hooks, that is with OpenTelemetry
  off, there is no window at all: the process exits in the turn of the signal. With one, an event
  ingested during the window re-arms the timers the drain has just cleared, and the key refresher's
  timer is never cleared.
\<close>

lemma no_hooks_no_window:
  assumes "exited s = None" and "\<not> shuttingDown s" and "hookCount s = 0"
  shows "exited (process_step cfg s Signal) = Some (pr_clock s)"
  using assms by (simp add: process_step_def race_def handle_signal_def)

lemma set_until_exit: "set (until_exit ass) \<subseteq> \<Union> (set ` set ass)"
  by (induction ass rule: until_exit.induct) auto

lemma no_hooks_in_checks:
  "\<not> list_ex starts_something as \<Longrightarrow> RegisterHooks k \<notin> set as"
  by (auto simp: list_ex_iff starts_something_def)

lemma hooks_fold:
  "(\<And>k. RegisterHooks k \<in> set as \<Longrightarrow> k = 0) \<Longrightarrow> fold (\<lambda>a n. case a of RegisterHooks k \<Rightarrow> k | _ \<Rightarrow> n) as 0 = 0"
proof (induction as)
  case (Cons a as)
  have "(case a of RegisterHooks k \<Rightarrow> k | _ \<Rightarrow> (0::nat)) = 0" using Cons.prems by (cases a) auto
  with Cons show ?case by simp
qed simp

lemma hooks_without_otel:
  assumes "env ''OTEL_ENABLED'' \<noteq> Some (js ''true'')" and "booted env net cfg jc now = Some s"
  shows "hookCount s = 0"
proof -
  have "k = 0" if "RegisterHooks k \<in> set (register_boot env net cfg)" for k
  proof -
    have "RegisterHooks k \<in> \<Union> (set ` set [warnOnUnrecognisedNodeEnv env, enforceEnrollmentSecretAtBoot cfg,
        enforceCpSeedAtBoot net cfg, enforceKeyLabelsAtBoot cfg, [RegisterHooks 0], startBackgroundJobs])"
      using that assms(1) set_until_exit by (fastforce simp: register_boot_def split: if_splits)
    then show ?thesis
      by (simp add: no_hooks_in_checks checks_start_nothing) (simp add: startBackgroundJobs_def)
  qed
  from hooks_fold [OF this] assms(2) show ?thesis by (auto simp: booted_def Let_def split: if_splits)
qed

lemma ingest_rearms_the_drain:
  assumes "exited s = None" and "shuttingDown s" and "waiting s \<noteq> []" and "deadline s = Some (pr_clock s + 1)"
  shows "exited (process_step cfg s IngestPost) = None" and "expiryInterval (pr_timers (process_step cfg s IngestPost))"
    and "webhookReaperInterval (pr_timers (process_step cfg s IngestPost))"
  using assms by (simp_all add: process_step_def race_def startExpiryJob_def startWebhookReaper_def startRetentionJob_def)

lemma refresher_outlives_the_drain: "jwksRefreshInterval (clearBackgroundTimers t) = jwksRefreshInterval t"
  by (simp add: clearBackgroundTimers_def)

text \<open>
  The health route does build the manifest, on its first call: a builder that throws fails that
  call, and only that one, because the agent is stored before the manifest is built.
\<close>

lemma health_builds_the_manifest:
  assumes "seed_bytes cfg rnd = Some bs" and "fromSeed sdk bs = Some a" and "buildManifestJson sdk cfg now a = None"
  shows "fst (getCpAgent sdk cfg rnd now no_identity) = None"
    and "fst (getCpAgent sdk cfg rnd' now' (snd (getCpAgent sdk cfg rnd now no_identity))) = Some a"
  using assms by (simp_all add: getCpAgent_def initCpIdentity_def no_identity_def)

end
