(* ===== verification/Dashboard.thy ===== *)
theory Dashboard
  imports Query_Routes
begin

text \<open>
  The dashboard's aggregates, \<open>src/src/lib/dashboard/service.ts\<close>, with the routes
  \<open>api/dashboard/overview\<close> and \<open>api/dashboard/agents\<close>: the \<open>count\<close> and \<open>GROUP BY\<close> queries over the
  tables and the objects the routes return. \<open>dash_env\<close> holds what Postgres prints: a timestamp, a
  timestamp cut by \<open>date_trunc\<close> in the session's time zone, and \<open>payload->>'capability'\<close> of a value
  that is not a string.
\<close>

section \<open>Ranges\<close>

datatype dash_range = R1h | R24h | R7d | R30d
datatype bucket_field = Minute | Hour | Day

fun rangeToHours :: "dash_range \<Rightarrow> int" where
  "rangeToHours R1h = 1"
| "rangeToHours R7d = 168"
| "rangeToHours R30d = 720"
| "rangeToHours R24h = 24"

fun bucketField :: "dash_range \<Rightarrow> bucket_field" where
  "bucketField R1h = Minute"
| "bucketField R7d = Day"
| "bucketField R30d = Day"
| "bucketField R24h = Hour"

fun range_text :: "dash_range \<Rightarrow> string" where
  "range_text R1h = ''1h''"
| "range_text R24h = ''24h''"
| "range_text R7d = ''7d''"
| "range_text R30d = ''30d''"

definition parse_range :: "jstring option \<Rightarrow> dash_range" where
  "parse_range raw =
     (case find (\<lambda>r. raw = Some (js (range_text r))) [R1h, R24h, R7d, R30d] of
        Some r \<Rightarrow> r
      | None \<Rightarrow> R24h)"

section \<open>Overview\<close>

record dash_env =
  de_route :: route_env
  de_trunc :: "bucket_field \<Rightarrow> instant \<Rightarrow> jstring"
  de_json_text :: "json \<Rightarrow> jstring"

text \<open>\<open>payload ? 'capability'\<close> of a payload that is an object, and \<open>payload->>'capability'\<close>.\<close>

definition has_capability :: "audit_event_row \<Rightarrow> bool" where
  "has_capability e \<longleftrightarrow> get (ev_payload e) ''capability'' \<noteq> None"

definition capability_text :: "dash_env \<Rightarrow> audit_event_row \<Rightarrow> jstring option" where
  "capability_text env e =
     (case get (ev_payload e) ''capability'' of
        None \<Rightarrow> None
      | Some JNull \<Rightarrow> None
      | Some (JStr s) \<Rightarrow> Some s
      | Some v \<Rightarrow> Some (de_json_text env v))"

definition type_is :: "string \<Rightarrow> audit_event_row \<Rightarrow> bool" where
  "type_is ty e \<longleftrightarrow> ev_type e = js ty"

record overview =
  ov_range :: dash_range
  agentsRegistered :: int
  handshakesTotal :: int
  handshakesInRange :: int
  handshakesSuccessInRange :: int
  capabilityInvocationsInRange :: int
  activeSessions :: int
  pendingWebhookDeliveries :: int
  recentSessions :: "handshake_session list"
  handshakesByBoundary :: "(jstring option \<times> int) list"
  handshakesOverTime :: "(jstring \<times> int) list"
  topCapabilities :: "(jstring option \<times> int) list"

definition created_since :: "instant \<Rightarrow> handshake_session list \<Rightarrow> handshake_session list" where
  "created_since since t = filter (\<lambda>s. since \<le> hs_createdAt s) t"

definition time_buckets :: "dash_env \<Rightarrow> dash_range \<Rightarrow> instant \<Rightarrow> audit_event_row list \<Rightarrow> (jstring \<times> int) list" where
  "time_buckets env r since t =
     sort_key fst (group_counts (\<lambda>e. de_trunc env (bucketField r) (ev_ts e))
       (filter (\<lambda>e. (type_is ''handshake.started'' e \<or> type_is ''handshake.complete'' e) \<and> since \<le> ev_ts e) t))"

definition top_capabilities :: "dash_env \<Rightarrow> instant \<Rightarrow> audit_event_row list \<Rightarrow> (jstring option \<times> int) list" where
  "top_capabilities env since t =
     take 10 (sort_key (\<lambda>(c, n). - n) (group_counts (capability_text env)
       (filter (\<lambda>e. type_is ''capability.invoked'' e \<and> has_capability e \<and> since \<le> ev_ts e) t)))"

definition getDashboardOverview :: "dash_env \<Rightarrow> dash_range \<Rightarrow> instant \<Rightarrow> db \<Rightarrow> overview" where
  "getDashboardOverview env r now d =
     (let since = now - rangeToHours r * 3600000;
          hs = handshake_sessions d
      in \<lparr>ov_range = r,
          agentsRegistered = count_where (\<lambda>a. ag_status a = Active) (agents d),
          handshakesTotal = int (length hs),
          handshakesInRange = int (length (created_since since hs)),
          handshakesSuccessInRange = count_where (\<lambda>s. hs_status s = Complete) (created_since since hs),
          capabilityInvocationsInRange =
            count_where (\<lambda>e. type_is ''capability.invoked'' e \<and> since \<le> ev_ts e) (audit_events d),
          activeSessions = count_where (\<lambda>s. hs_status s = Started) (created_since since hs),
          pendingWebhookDeliveries = count_where (\<lambda>w. wd_status w = Pending) (webhook_deliveries d),
          recentSessions = take 20 (newest_first hs_createdAt (created_since since hs)),
          handshakesByBoundary = group_counts hs_boundary hs,
          handshakesOverTime = time_buckets env r since (audit_events d),
          topCapabilities = top_capabilities env since (audit_events d)\<rparr>)"

definition recent_out :: "route_env \<Rightarrow> handshake_session \<Rightarrow> json" where
  "recent_out rt s = jobj [(''sessionId'', JStr (hs_sessionId s)), (''aidA'', jopt (hs_aidA s)), (''aidB'', jopt (hs_aidB s)),
     (''status'', jlit (session_status_text (hs_status s))), (''grants'', js_list (hs_grants s)),
     (''boundary'', jopt (hs_boundary s)), (''startedAt'', time_or_null rt (hs_startedAt s)),
     (''completedAt'', time_or_null rt (hs_completedAt s))]"

definition counted :: "string \<Rightarrow> ('k \<Rightarrow> json) \<Rightarrow> 'k \<times> int \<Rightarrow> json" where
  "counted name f = (\<lambda>(k, n). jobj [(name, f k), (''count'', jint n)])"

definition boundary_out :: "jstring option \<Rightarrow> json" where
  "boundary_out b = (case b of None \<Rightarrow> jlit ''unknown'' | Some s \<Rightarrow> JStr s)"

definition overview_json :: "route_env \<Rightarrow> overview \<Rightarrow> json" where
  "overview_json rt v = jobj
     [(''range'', jlit (range_text (ov_range v))),
      (''kpis'', jobj
        [(''agentsRegistered'', jint (agentsRegistered v)), (''handshakesTotal'', jint (handshakesTotal v)),
         (''handshakesInRange'', jint (handshakesInRange v)),
         (''handshakesSuccessInRange'', jint (handshakesSuccessInRange v)),
         (''capabilityInvocationsInRange'', jint (capabilityInvocationsInRange v)),
         (''activeSessions'', jint (activeSessions v)),
         (''pendingWebhookDeliveries'', jint (pendingWebhookDeliveries v))]),
      (''recentSessions'', JArr (map (recent_out rt) (recentSessions v))),
      (''charts'', jobj
        [(''handshakesByBoundary'', JArr (map (counted ''boundary'' boundary_out) (handshakesByBoundary v))),
         (''handshakesOverTime'', JArr (map (counted ''bucket'' JStr) (handshakesOverTime v))),
         (''topCapabilities'', JArr (map (counted ''capability'' jopt) (topCapabilities v)))])]"

definition overview_GET :: "dash_env \<Rightarrow> instant \<Rightarrow> search_params \<Rightarrow> db \<Rightarrow> http_response" where
  "overview_GET env now q d =
     json_response 200 (overview_json (de_route env) (getDashboardOverview env (parse_range (q ''range'')) now d))"

section \<open>Agents\<close>

record agent_metrics =
  am_agent :: agent
  handshakesAsInitiator :: int
  handshakesAsResponder :: int
  capabilityInvocations :: int

text \<open>\<open>WHERE key IN aids GROUP BY key\<close>, and the lookup in its rows.\<close>

definition grouped_by_aid :: "('r \<Rightarrow> jstring option) \<Rightarrow> jstring list \<Rightarrow> 'r list \<Rightarrow> (jstring option \<times> int) list" where
  "grouped_by_aid key aids t = group_counts key (filter (\<lambda>r. \<exists>a \<in> set aids. key r = Some a) t)"

definition lookup_count :: "(jstring option \<times> int) list \<Rightarrow> jstring \<Rightarrow> int" where
  "lookup_count rows aid = (case find (\<lambda>r. fst r = Some aid) rows of None \<Rightarrow> 0 | Some r \<Rightarrow> snd r)"

definition getAgentMetrics :: "db \<Rightarrow> agent_metrics list" where
  "getAgentMetrics d =
     (if agents d = [] then []
      else let aids = map ag_aid (agents d);
               initiator = grouped_by_aid hs_aidA aids (handshake_sessions d);
               responder = grouped_by_aid hs_aidB aids (handshake_sessions d);
               invocations = grouped_by_aid ev_aidA aids (filter (type_is ''capability.invoked'') (audit_events d))
           in map (\<lambda>a. \<lparr>am_agent = a, handshakesAsInitiator = lookup_count initiator (ag_aid a),
                handshakesAsResponder = lookup_count responder (ag_aid a),
                capabilityInvocations = lookup_count invocations (ag_aid a)\<rparr>) (agents d))"

definition agent_metrics_out :: "route_env \<Rightarrow> agent_metrics \<Rightarrow> json" where
  "agent_metrics_out rt m = (let a = am_agent m in jobj
     [(''aid'', JStr (ag_aid a)), (''displayName'', JStr (ag_displayName a)), (''status'', agent_status_text (ag_status a)),
      (''registeredAt'', ts_text rt (ag_registeredAt a)), (''lastSeenAt'', time_or_null rt (ag_lastSeenAt a)),
      (''handshakesAsInitiator'', jint (handshakesAsInitiator m)), (''handshakesAsResponder'', jint (handshakesAsResponder m)),
      (''capabilityInvocations'', jint (capabilityInvocations m))])"

definition dashboard_agents_GET :: "route_env \<Rightarrow> db \<Rightarrow> http_response" where
  "dashboard_agents_GET rt d = json_response 200
     (jobj [(''agents'', JArr (map (agent_metrics_out rt) (getAgentMetrics d)))])"

section \<open>What the numbers are\<close>

lemma find_group:
  "find (\<lambda>r. fst r = k) (group_counts key t) =
     (if k \<in> key ` set t then Some (k, count_where (\<lambda>r. key r = k) t) else None)"
proof -
  have "find (\<lambda>r. fst r = k) (map (\<lambda>k. (k, f k)) ks) = (if k \<in> set ks then Some (k, f k) else None)" for f :: "'a \<Rightarrow> int" and ks
    by (induction ks) auto
  from this [of "\<lambda>k. count_where (\<lambda>r. key r = k) t" "remdups (map key t)"] show ?thesis
    by (simp add: group_counts_def)
qed

lemma lookup_grouped:
  assumes "a \<in> set aids"
  shows "lookup_count (grouped_by_aid key aids t) a = count_where (\<lambda>r. key r = Some a) t"
proof -
  have f: "count_where (\<lambda>r. key r = Some a) (filter (\<lambda>r. \<exists>a \<in> set aids. key r = Some a) t) =
      count_where (\<lambda>r. key r = Some a) t"
    unfolding count_where_filter using assms by (intro arg_cong2 [where f = count_where]) auto
  show ?thesis
  proof (cases "Some a \<in> key ` set t")
    case True
    with assms have "Some a \<in> key ` set (filter (\<lambda>r. \<exists>a \<in> set aids. key r = Some a) t)" by (force simp: image_iff)
    with f show ?thesis by (simp add: lookup_count_def grouped_by_aid_def find_group)
  next
    case False
    then have "count_where (\<lambda>r. key r = Some a) t = 0" by (auto simp: count_where_def filter_empty_conv image_iff)
    with False show ?thesis by (auto simp: lookup_count_def grouped_by_aid_def find_group)
  qed
qed

text \<open>
  The grouped queries and the lookup give each agent its own counts: the route lists every
  agent once, in table order, with the number of sessions it started, the number it answered and
  the number of its capability invocations, none for an agent without rows.
\<close>

theorem agent_metrics_exact:
  "getAgentMetrics d = map (\<lambda>a.
     \<lparr>am_agent = a,
      handshakesAsInitiator = count_where (\<lambda>s. hs_aidA s = Some (ag_aid a)) (handshake_sessions d),
      handshakesAsResponder = count_where (\<lambda>s. hs_aidB s = Some (ag_aid a)) (handshake_sessions d),
      capabilityInvocations = count_where (\<lambda>e. ev_type e = js ''capability.invoked'' \<and> ev_aidA e = Some (ag_aid a))
        (audit_events d)\<rparr>) (agents d)"
  by (auto simp: getAgentMetrics_def Let_def lookup_grouped count_where_filter type_is_def conj_commute
      intro!: arg_cong2 [where f = count_where])

text \<open>
  The overview adds up: sessions in range are the successful, the active and the failed ones; the
  boundary chart counts every session ever, not those of the range; the time chart counts exactly
  the handshake events of the range; the recent list is the newest twenty of the range.
\<close>

lemma overview_adds_up:
  assumes "v = getDashboardOverview env r now d" and "since = now - rangeToHours r * 3600000"
  shows "handshakesInRange v = handshakesSuccessInRange v + activeSessions v +
      count_where (\<lambda>s. hs_status s = SessionFailed) (created_since since (handshake_sessions d))"
    and "sum_list (map snd (handshakesByBoundary v)) = handshakesTotal v"
    and "sum_list (map snd (handshakesOverTime v)) = count_where (\<lambda>e. since \<le> ev_ts e \<and>
      ev_type e \<in> {js ''handshake.started'', js ''handshake.complete''}) (audit_events d)"
    and "int (length (recentSessions v)) = min 20 (handshakesInRange v)"
    and "set (recentSessions v) \<subseteq> set (created_since since (handshake_sessions d))"
proof -
  have "int (length t) = count_where (\<lambda>s. hs_status s = Complete) t + count_where (\<lambda>s. hs_status s = Started) t +
      count_where (\<lambda>s. hs_status s = SessionFailed) t" for t :: "handshake_session list"
  proof (induction t)
    case (Cons s t)
    then show ?case by (cases "hs_status s") (simp_all add: count_where_def)
  qed (simp add: count_where_def)
  then show "handshakesInRange v = handshakesSuccessInRange v + activeSessions v +
      count_where (\<lambda>s. hs_status s = SessionFailed) (created_since since (handshake_sessions d))"
    using assms by (simp add: getDashboardOverview_def Let_def)
  show "sum_list (map snd (handshakesByBoundary v)) = handshakesTotal v"
    using assms by (simp add: getDashboardOverview_def Let_def group_counts_total)
  have sorted: "sum_list (map snd (sort_key fst xs)) = sum_list (map snd xs)" for xs :: "(jstring \<times> int) list"
  proof -
    have "mset (map snd (sort_key fst xs)) = mset (map snd xs)" by simp
    then show ?thesis by (metis sum_mset_sum_list)
  qed
  show "sum_list (map snd (handshakesOverTime v)) = count_where (\<lambda>e. since \<le> ev_ts e \<and>
      ev_type e \<in> {js ''handshake.started'', js ''handshake.complete''}) (audit_events d)"
    using assms by (simp add: getDashboardOverview_def Let_def time_buckets_def sorted group_counts_total
        count_where_def type_is_def conj_commute)
  show "int (length (recentSessions v)) = min 20 (handshakesInRange v)"
    using assms by (simp add: getDashboardOverview_def Let_def newest_first_def min_def)
  show "set (recentSessions v) \<subseteq> set (created_since since (handshake_sessions d))"
    using assms set_take_subset [of 20] by (fastforce simp: getDashboardOverview_def Let_def)
qed

end
