(* ===== verification/Audit_Review.thy ===== *)
theory Audit_Review
  imports Registry_Routes
begin

text \<open>
  The offline audit review: \<open>src/src/lib/audit-review.ts\<close> (the read-only guard, the aggregation, the
  argument parser) and the paging loops of \<open>src/scripts/audit-review.ts\<close> that feed it. The script
  reads in one REPEATABLE READ transaction, so a table does not change under a loop. Text that is
  only display (Markdown lines) is not modelled; \<open>localeCompare\<close> is a rank.
\<close>

section \<open>The read-only guard\<close>

definition is_word :: "code_unit \<Rightarrow> bool" where
  "is_word c \<longleftrightarrow> is_alnum c \<or> c = 95"

text \<open>\<open>\b\<close> before the rest of a text, after a word character.\<close>

definition word_end :: "jstring \<Rightarrow> bool" where
  "word_end s = (case s of [] \<Rightarrow> True | c # _ \<Rightarrow> \<not> is_word c)"

definition word_prefix :: "jstring \<Rightarrow> jstring \<Rightarrow> bool" where
  "word_prefix kw s \<longleftrightarrow> to_lower (take (length kw) s) = kw \<and> word_end (drop (length kw) s)"

text \<open>\<open>/\bkw\b/i\<close>; the flag says whether the previous unit is a word character.\<close>

fun occurs_word :: "jstring \<Rightarrow> bool \<Rightarrow> jstring \<Rightarrow> bool" where
  "occurs_word kw prev [] = False"
| "occurs_word kw prev (c # s) \<longleftrightarrow> (if prev then False else word_prefix kw (c # s)) \<or> occurs_word kw (is_word c) s"

definition FORBIDDEN_SQL :: "jstring list" where
  "FORBIDDEN_SQL = map js [''insert'', ''update'', ''delete'', ''merge'', ''upsert'', ''drop'', ''alter'', ''truncate'',
     ''create'', ''grant'', ''revoke'', ''copy'', ''vacuum'', ''reindex'', ''cluster'', ''comment'', ''lock'', ''call'', ''do'',
     ''execute'', ''prepare'', ''refresh'', ''import'', ''security'', ''nextval'', ''setval'', ''pg_terminate_backend'',
     ''pg_cancel_backend'', ''set_config'', ''lo_import'', ''lo_export'', ''dblink'']"

definition semicolon :: code_unit where "semicolon = 59"

text \<open>\<open>s.replace(/;\s*$/, '')\<close> of a trimmed text.\<close>

definition strip_last_semicolon :: "jstring \<Rightarrow> jstring" where
  "strip_last_semicolon s = (if s \<noteq> [] \<and> last s = semicolon then butlast s else s)"

datatype not_read_only = NotSelect | ForbiddenKeyword | SeveralStatements

definition assertSelectOnly :: "jstring \<Rightarrow> not_read_only option" where
  "assertSelectOnly sql =
     (let s = trim sql
      in if \<not> (word_prefix (js ''select'') s \<or> word_prefix (js ''with'') s) then Some NotSelect
         else if list_ex (\<lambda>kw. occurs_word kw False s) FORBIDDEN_SQL then Some ForbiddenKeyword
         else if semicolon \<in> set (strip_last_semicolon s) then Some SeveralStatements
         else None)"

text \<open>The two ways to the database: \<open>q\<close> sends a guarded text, \<open>txn\<close> one of the two control statements.\<close>

definition TXN :: "jstring list" where
  "TXN = [js ''BEGIN ISOLATION LEVEL REPEATABLE READ READ ONLY'', js ''ROLLBACK'']"

datatype db_path = Q jstring | Txn jstring

fun sent :: "db_path \<Rightarrow> jstring option" where
  "sent (Q sql) = (if assertSelectOnly sql = None then Some sql else None)"
| "sent (Txn stmt) = (if stmt \<in> set TXN then Some stmt else None)"

section \<open>Attribution\<close>

definition ACTION_ROUTES :: "(string \<times> string) list" where
  "ACTION_ROUTES =
     [(''agent.register'', ''POST /api/registry/agents''),
      (''agent.deregister'', ''DELETE /api/registry/agents/:aid''),
      (''revocation.add'', ''POST /api/revocation/entries''),
      (''webhook.create'', ''POST /api/webhooks''),
      (''webhook.update'', ''PATCH /api/webhooks/:id''),
      (''webhook.delete'', ''DELETE /api/webhooks/:id''),
      (''webhook.circuit-breaker.reset'', ''POST /api/webhooks/:id/circuit-breaker/reset''),
      (''webhook.unsubscribed'', ''(system: webhook delivery got 410 Gone)''),
      (''trust-anchor.create'', ''POST /api/trust-anchors''),
      (''trust-anchor.update'', ''PATCH /api/trust-anchors/:id''),
      (''trust-anchor.delete'', ''DELETE /api/trust-anchors/:id''),
      (''pinned-key.upsert'', ''POST /api/pinned-keys''),
      (''pinned-key.delete'', ''DELETE /api/pinned-keys'')]"

definition routeForAction :: "jstring \<Rightarrow> jstring" where
  "routeForAction action =
     (case find (\<lambda>(a, r). js a = action) ACTION_ROUTES of
        Some (a, r) \<Rightarrow> js r
      | None \<Rightarrow> js ''(unmapped action '' @ action @ js '')'')"

definition keyLabelOf :: "jstring option \<Rightarrow> jstring" where
  "keyLabelOf actorId =
     (case actorId of
        None \<Rightarrow> js ''(none recorded)''
      | Some a \<Rightarrow> if a = [] then js ''(none recorded)''
                  else if starts_with a (js ''key:'') then drop 4 a else a)"

definition recorded_ip :: "admin_audit_row \<Rightarrow> jstring option" where
  "recorded_ip r = nonempty_string (get (aa_details r) ''client_ip'')"

definition sourceIpOf :: "admin_audit_row \<Rightarrow> jstring" where
  "sourceIpOf r = (case recorded_ip r of Some ip \<Rightarrow> ip | None \<Rightarrow> js ''(not recorded)'')"

definition star :: code_unit where "star = 42"

definition isKnownActor :: "jstring option \<Rightarrow> jstring list \<Rightarrow> bool" where
  "isKnownActor actorId known =
     (case actorId of
        None \<Rightarrow> False
      | Some a \<Rightarrow> a \<noteq> [] \<and>
          list_ex (\<lambda>k. if k \<noteq> [] \<and> last k = star then starts_with a (butlast k) else a = k) known)"

section \<open>Details and arguments\<close>

definition is_break :: "code_unit \<Rightarrow> bool" where
  "is_break c \<longleftrightarrow> c = 13 \<or> c = 10 \<or> c = 9"

text \<open>\<open>s.replace(/[\r\n\t]+/g, ' ')\<close>; the flag says whether the previous unit was a break.\<close>

fun flatten_breaks :: "bool \<Rightarrow> jstring \<Rightarrow> jstring" where
  "flatten_breaks prev [] = []"
| "flatten_breaks prev (c # s) =
     (if is_break c then (if prev then [] else [32]) @ flatten_breaks True s else c # flatten_breaks False s)"

definition truncate_text :: "jstring \<Rightarrow> nat \<Rightarrow> jstring" where
  "truncate_text s n = (let flat = flatten_breaks False s in if length flat > n then take n flat @ [0x2026] else flat)"

record review_env =
  rv_url :: "jstring \<Rightarrow> (jstring \<times> jstring \<times> jstring \<times> jstring) option"
    \<comment> \<open>\<open>new URL\<close>: protocol, host, pathname, search\<close>
  rv_join :: "json list \<Rightarrow> jstring"  \<comment> \<open>\<open>join('|')\<close>\<close>

definition redactUrl :: "review_env \<Rightarrow> jstring \<Rightarrow> jstring" where
  "redactUrl env raw =
     (case rv_url env raw of
        None \<Rightarrow> js ''(unparseable url)''
      | Some (protocol, host, pathname, search) \<Rightarrow>
          protocol @ js ''//'' @ host @ pathname @ (if search \<noteq> [] then js ''?<redacted>'' else []))"

fun unwords_js :: "jstring list \<Rightarrow> jstring" where
  "unwords_js [] = []"
| "unwords_js [s] = s"
| "unwords_js (s # ss) = s @ [32] @ unwords_js ss"

definition detail_part :: "json \<Rightarrow> string \<Rightarrow> (jstring \<Rightarrow> jstring) \<Rightarrow> jstring list" where
  "detail_part d name f = (case as_string (get d name) of None \<Rightarrow> [] | Some s \<Rightarrow> [js name @ js ''='' @ f s])"

definition safeDetails :: "review_env \<Rightarrow> admin_audit_row \<Rightarrow> jstring" where
  "safeDetails env r =
     (let d = aa_details r
      in unwords_js (
           detail_part d ''url'' (redactUrl env) @
           (case get d ''events'' of Some (JArr vs) \<Rightarrow> [js ''events='' @ rv_join env vs] | _ \<Rightarrow> []) @
           detail_part d ''reason'' (\<lambda>s. truncate_text s 80) @
           concat (map (\<lambda>k. detail_part d k (\<lambda>s. truncate_text s 120))
             [''namespace'', ''aid'', ''issuerUrl'', ''issuer_url'', ''label''])))"

record cli_args =
  cli_since :: instant
  cli_until :: instant
  pageSize :: rat
  knownActors :: "jstring list"
  maxRows :: rat
  cli_json :: bool

datatype args_error = SinceRequired | NotADate string jstring

fun next_after :: "jstring \<Rightarrow> jstring list \<Rightarrow> jstring option option" where
  "next_after name [] = None"
| "next_after name (a # as) = (if a = name then Some (case as of [] \<Rightarrow> None | b # _ \<Rightarrow> Some b) else next_after name as)"

definition arg_get :: "jstring list \<Rightarrow> string \<Rightarrow> jstring option" where
  "arg_get argv name =
     (case next_after (js name) argv of
        Some v \<Rightarrow> v
      | None \<Rightarrow> map_option (drop (length name + 1)) (find (\<lambda>a. starts_with a (js name @ js ''='')) argv))"

definition to_iso :: "(jstring \<Rightarrow> instant option) \<Rightarrow> string \<Rightarrow> jstring \<Rightarrow> args_error + instant" where
  "to_iso to_date flag v = (case to_date v of None \<Rightarrow> Inl (NotADate flag v) | Some t \<Rightarrow> Inr t)"

text \<open>\<open>to_number\<close> is \<open>Number(s)\<close>, \<open>None\<close> where that is not finite.\<close>

definition number_arg :: "(jstring \<Rightarrow> rat option) \<Rightarrow> jstring list \<Rightarrow> string \<Rightarrow> rat \<Rightarrow> rat option" where
  "number_arg to_number argv name def = (case arg_get argv name of None \<Rightarrow> Some def | Some s \<Rightarrow> to_number s)"

definition parseArgs ::
  "(jstring \<Rightarrow> rat option) \<Rightarrow> (jstring \<Rightarrow> instant option) \<Rightarrow> instant \<Rightarrow> jstring list \<Rightarrow> args_error + cli_args" where
  "parseArgs to_number to_date now argv =
     (if blank (arg_get argv ''--since'') then Inl SinceRequired
      else case to_iso to_date ''--since'' (the (arg_get argv ''--since'')) of
        Inl e \<Rightarrow> Inl e
      | Inr since \<Rightarrow>
          (case (case arg_get argv ''--until'' of None \<Rightarrow> Inr now | Some v \<Rightarrow> to_iso to_date ''--until'' v) of
             Inl e \<Rightarrow> Inl e
           | Inr until_ts \<Rightarrow> Inr
               \<lparr>cli_since = since, cli_until = until_ts,
                pageSize = (case number_arg to_number argv ''--page-size'' 500 of
                              Some n \<Rightarrow> if n > 0 then min n 5000 else 500
                            | None \<Rightarrow> 500),
                knownActors = config_items (arg_get argv ''--known-actors''),
                maxRows = (case number_arg to_number argv ''--max-rows'' 200 of
                             Some n \<Rightarrow> if n \<ge> 0 then n else 200
                           | None \<Rightarrow> 200),
                cli_json = (js ''--json'' \<in> set argv)\<rparr>))"

lemma parseArgs_page_size: "parseArgs f g now argv = Inr a \<Longrightarrow> 0 < pageSize a \<and> pageSize a \<le> 5000 \<and> 0 \<le> maxRows a"
  by (auto simp: parseArgs_def split: if_splits sum.splits option.splits)

text \<open>
  The page size is sent as a \<open>LIMIT\<close>: a fraction passes the parser, but Postgres refuses it as a bigint,
  so the first page query of the run fails.
\<close>

definition page_limit :: "rat \<Rightarrow> nat option" where
  "page_limit n = (if of_int \<lfloor>n\<rfloor> = n then Some (nat \<lfloor>n\<rfloor>) else None)"

lemma page_limit_pos: "page_limit n = Some k \<Longrightarrow> 0 < n \<Longrightarrow> 0 < k"
  by (auto simp: page_limit_def split: if_splits)

lemma fraction_passes:
  "case parseArgs (\<lambda>_. Some (5 / 2)) (\<lambda>_. Some 0) 10 [js ''--since'', js ''0'', js ''--page-size'', js ''2.5''] of
     Inl e \<Rightarrow> False
   | Inr a \<Rightarrow> pageSize a = 5 / 2 \<and> page_limit (pageSize a) = None"
  by code_simp

section \<open>Aggregation\<close>

record group_key =
  keyLabel :: jstring
  gk_route :: jstring
  sourceIp :: jstring

definition group_of :: "admin_audit_row \<Rightarrow> group_key" where
  "group_of r = \<lparr>keyLabel = keyLabelOf (aa_actorId r), gk_route = routeForAction (aa_action r), sourceIp = sourceIpOf r\<rparr>"

text \<open>A \<open>Map\<close> of counters: a known key counts up in place, a new one is appended.\<close>

fun bump :: "'k \<Rightarrow> ('k \<times> int) list \<Rightarrow> ('k \<times> int) list" where
  "bump k [] = [(k, 1)]"
| "bump k ((k', n) # m) = (if k' = k then (k', n + 1) # m else (k', n) # bump k m)"

record aggregator =
  agg_groups :: "(group_key \<times> int) list"
  agg_actions :: "(jstring \<times> int) list"
  agg_flagged :: "admin_audit_row list"
  agg_total :: nat
  agg_withActor :: nat
  agg_withIp :: nat
  agg_withRequestId :: nat

definition new_aggregator :: aggregator where
  "new_aggregator = \<lparr>agg_groups = [], agg_actions = [], agg_flagged = [], agg_total = 0, agg_withActor = 0,
     agg_withIp = 0, agg_withRequestId = 0\<rparr>"

definition agg_add :: "jstring list \<Rightarrow> admin_audit_row \<Rightarrow> aggregator \<Rightarrow> aggregator" where
  "agg_add known r s =
     s\<lparr>agg_total := agg_total s + 1,
       agg_withActor := agg_withActor s + (if blank (aa_actorId r) then 0 else 1),
       agg_withIp := agg_withIp s + (if sourceIpOf r \<noteq> js ''(not recorded)'' then 1 else 0),
       agg_withRequestId := agg_withRequestId s + (if blank (aa_requestId r) then 0 else 1),
       agg_actions := bump (aa_action r) (agg_actions s),
       agg_groups := bump (group_of r) (agg_groups s),
       agg_flagged := agg_flagged s @ (if isKnownActor (aa_actorId r) known then [] else [r])\<rparr>"

definition byAction :: "(jstring \<Rightarrow> int) \<Rightarrow> aggregator \<Rightarrow> (jstring \<times> jstring \<times> int) list" where
  "byAction rank s = sort_key (\<lambda>(action, route, n). (- n, rank action))
     (map (\<lambda>(action, n). (action, routeForAction action, n)) (agg_actions s))"

definition grouped :: "(jstring \<Rightarrow> int) \<Rightarrow> aggregator \<Rightarrow> (group_key \<times> int) list" where
  "grouped rank s = sort_key (\<lambda>(g, n). (- n, rank (gk_route g))) (agg_groups s)"

section \<open>Paging\<close>

text \<open>
  \<open>adminAuditPage\<close>: the rows of the range behind the cursor, in \<open>(created_at, id)\<close> order, at most
  \<open>psize\<close> of them; no cursor is the pair (\<open>-infinity\<close>, the zero uuid), which every row is behind.
\<close>

definition audit_key :: "admin_audit_row \<Rightarrow> instant \<times> jstring" where
  "audit_key r = (aa_createdAt r, aa_id r)"

definition in_review :: "instant \<Rightarrow> instant \<Rightarrow> admin_audit_row \<Rightarrow> bool" where
  "in_review since until r \<longleftrightarrow> since \<le> aa_createdAt r \<and> aa_createdAt r < until"

definition behind :: "(instant \<times> jstring) option \<Rightarrow> admin_audit_row \<Rightarrow> bool" where
  "behind cursor r = (case cursor of None \<Rightarrow> True | Some c \<Rightarrow> c < audit_key r)"

definition adminAuditPage ::
  "instant \<Rightarrow> instant \<Rightarrow> (instant \<times> jstring) option \<Rightarrow> nat \<Rightarrow> admin_audit_row list \<Rightarrow> admin_audit_row list" where
  "adminAuditPage since until cursor psize t =
     take psize (sort_key audit_key (filter (\<lambda>r. in_review since until r \<and> behind cursor r) t))"

text \<open>The loop; \<open>None\<close> is the throw of reading the last row of an empty page.\<close>

lemma behind_last:
  assumes "pg = adminAuditPage since until cursor psize t" and "pg \<noteq> []"
  shows "length (filter (behind (Some (audit_key (last pg)))) t) < length (filter (behind cursor) t)"
proof -
  let ?r = "last pg"
  have r: "?r \<in> set t" "behind cursor ?r"
    using last_in_set [OF assms(2)] assms(1) by (auto simp: adminAuditPage_def dest: in_set_takeD)
  have "filter (behind (Some (audit_key ?r))) t = filter (behind (Some (audit_key ?r))) (filter (behind cursor) t)"
    using r by (auto simp: behind_def intro!: filter_cong split: option.splits)
  also have "length \<dots> < length (filter (behind cursor) t)"
    using r by (intro length_filter_less [of ?r]) (auto simp: behind_def)
  finally show ?thesis .
qed

function review_pages ::
  "instant \<Rightarrow> instant \<Rightarrow> nat \<Rightarrow> admin_audit_row list \<Rightarrow> (instant \<times> jstring) option \<Rightarrow> admin_audit_row list list option" where
  "review_pages since until psize t cursor =
     (let page = adminAuditPage since until cursor psize t
      in if length page < psize then Some [page]
         else if page = [] then None
         else map_option ((#) page) (review_pages since until psize t (Some (audit_key (last page)))))"
  by pat_completeness auto
termination
  by (relation "measure (\<lambda>(since, until, psize, t, cursor). length (filter (behind cursor) t))")
    (auto intro: behind_last)

declare review_pages.simps [simp del]

definition review_rows :: "instant \<Rightarrow> instant \<Rightarrow> nat \<Rightarrow> admin_audit_row list \<Rightarrow> admin_audit_row list option" where
  "review_rows since until psize t = map_option concat (review_pages since until psize t None)"

text \<open>The agents loop, by offset, in \<open>aid\<close> order.\<close>

function offset_pages :: "nat \<Rightarrow> 'r list \<Rightarrow> nat \<Rightarrow> 'r list list option" where
  "offset_pages psize t offset =
     (let page = take psize (drop offset t)
      in if length page < psize then Some [page]
         else if psize = 0 then None
         else map_option ((#) page) (offset_pages psize t (offset + psize)))"
  by pat_completeness auto
termination
  by (relation "measure (\<lambda>(psize, t, offset). length t - offset)") auto

declare offset_pages.simps [simp del]

definition agents_in_range :: "instant \<Rightarrow> instant \<Rightarrow> agent list \<Rightarrow> agent list" where
  "agents_in_range since until t =
     sort_key ag_aid (filter (\<lambda>a.
       (since \<le> ag_registeredAt a \<and> ag_registeredAt a < until) \<or>
       (case ag_lastEnrolledAt a of None \<Rightarrow> False | Some e \<Rightarrow> since \<le> e \<and> e < until)) t)"

definition review_agents :: "instant \<Rightarrow> instant \<Rightarrow> nat \<Rightarrow> agent list \<Rightarrow> agent list option" where
  "review_agents since until psize t = map_option concat (offset_pages psize (agents_in_range since until t) 0)"

definition review ::
  "jstring list \<Rightarrow> instant \<Rightarrow> instant \<Rightarrow> nat \<Rightarrow> admin_audit_row list \<Rightarrow> aggregator option" where
  "review known since until psize t =
     map_option (\<lambda>rows. fold (agg_add known) rows new_aggregator) (review_rows since until psize t)"

definition flagged_shown :: "cli_args \<Rightarrow> aggregator \<Rightarrow> admin_audit_row list" where
  "flagged_shown a s = take (nat \<lfloor>maxRows a\<rfloor>) (agg_flagged s)"

section \<open>The loops end and miss nothing\<close>

lemma filter_after_last:
  fixes f :: "'r \<Rightarrow> 'k::linorder"
  assumes "sorted_wrt (\<lambda>a b. f a < f b) xs" and "0 < n" and "n \<le> length xs"
  shows "filter (\<lambda>r. f (last (take n xs)) < f r) xs = drop n xs"
proof -
  have s: "sorted_wrt (\<lambda>a b. f a < f b) (take n xs @ drop n xs)" using assms(1) by simp
  have ne: "take n xs \<noteq> []" using assms by auto
  have "\<not> f (last (take n xs)) < f r" if "r \<in> set (take n xs)" for r
  proof -
    have "take n xs = butlast (take n xs) @ [last (take n xs)]" using ne by simp
    then have "sorted_wrt (\<lambda>a b. f a < f b) (butlast (take n xs) @ [last (take n xs)])"
      using s by (simp add: sorted_wrt_append)
    moreover have "r \<in> set (butlast (take n xs)) \<or> r = last (take n xs)"
      using that ne by (metis append_butlast_last_id set_append Un_iff list.set(1,2) singletonD)
    ultimately show ?thesis by (auto simp: sorted_wrt_append)
  qed
  moreover have "f (last (take n xs)) < f r" if "r \<in> set (drop n xs)" for r
    using s that last_in_set [OF ne] unfolding sorted_wrt_append by blast
  ultimately have "filter (\<lambda>r. f (last (take n xs)) < f r) (take n xs @ drop n xs) = drop n xs"
    by (simp del: append_take_drop_id add: filter_empty_conv)
  then show ?thesis by simp
qed

lemma sorted_strict:
  assumes "unique_key aa_id t"
  shows "sorted_wrt (\<lambda>a b. audit_key a < audit_key b) (sort_key audit_key (filter p t))"
proof -
  have "distinct (map aa_id (filter p t))" using assms by (simp add: unique_key_def distinct_map_filter)
  then have "distinct (map audit_key (filter p t))"
    by (auto simp: distinct_map inj_on_def audit_key_def)
  moreover have "mset (map audit_key (sort_key audit_key (filter p t))) = mset (map audit_key (filter p t))" by simp
  ultimately have "distinct (map audit_key (sort_key audit_key (filter p t)))" using mset_eq_imp_distinct_iff by blast
  moreover have "sorted (map audit_key (sort_key audit_key (filter p t)))" by simp
  ultimately have "sorted_wrt (<) (map audit_key (sort_key audit_key (filter p t)))" by (simp only: strict_sorted_iff)
  then show ?thesis by (simp add: sorted_wrt_map)
qed

lemma review_pages_from:
  assumes "0 < psize" and "unique_key aa_id t"
  shows "map_option concat (review_pages since until psize t cursor) =
    Some (sort_key audit_key (filter (\<lambda>r. in_review since until r \<and> behind cursor r) t))"
  using assms
proof (induction since until psize t cursor rule: review_pages.induct)
  case (1 since until psize t cursor)
  let ?all = "sort_key audit_key (filter (\<lambda>r. in_review since until r \<and> behind cursor r) t)"
  let ?pg = "adminAuditPage since until cursor psize t"
  have pg: "?pg = take psize ?all" by (simp add: adminAuditPage_def)
  show ?case
  proof (cases "length ?pg < psize")
    case True
    then have "?pg = ?all" by (simp add: pg)
    with True show ?thesis by (subst review_pages.simps) (simp add: Let_def)
  next
    case False
    then have len: "psize \<le> length ?all" by (simp add: pg)
    have "?all \<noteq> []" using less_le_trans [OF 1(2) len] by (simp only: length_greater_0_conv not_False_eq_True)
    with 1 have ne: "?pg \<noteq> []" by (simp add: pg)
    have next_rows: "sort_key audit_key (filter (\<lambda>r. in_review since until r \<and> behind (Some (audit_key (last ?pg))) r) t) = drop psize ?all"
    proof -
      have lastb: "behind cursor (last ?pg)"
        using last_in_set [OF ne] by (auto simp: adminAuditPage_def dest: in_set_takeD)
      have "drop psize ?all = filter (\<lambda>r. audit_key (last ?pg) < audit_key r) ?all"
        unfolding pg using filter_after_last [OF sorted_strict [OF 1(3)] 1(2) len] by simp
      also have "\<dots> = sort_key audit_key (filter (\<lambda>r. audit_key (last ?pg) < audit_key r)
          (filter (\<lambda>r. in_review since until r \<and> behind cursor r) t))" by (rule filter_sort)
      also have "filter (\<lambda>r. audit_key (last ?pg) < audit_key r) (filter (\<lambda>r. in_review since until r \<and> behind cursor r) t) =
          filter (\<lambda>r. in_review since until r \<and> behind (Some (audit_key (last ?pg))) r) t"
        using lastb by (auto simp: behind_def intro!: filter_cong split: option.splits)
      finally show ?thesis by simp
    qed
    have "map_option concat (review_pages since until psize t cursor) =
        map_option ((@) ?pg) (map_option concat (review_pages since until psize t (Some (audit_key (last ?pg)))))"
      using False ne by (subst review_pages.simps) (simp add: Let_def option.map_comp comp_def)
    also have "map_option concat (review_pages since until psize t (Some (audit_key (last ?pg)))) = Some (drop psize ?all)"
      using 1(1) [OF refl False ne 1(2,3)] next_rows by simp
    finally show ?thesis by (simp add: pg)
  qed
qed

lemma offset_pages_from: "0 < psize \<Longrightarrow> map_option concat (offset_pages psize t offset) = Some (drop offset t)"
proof (induction psize t offset rule: offset_pages.induct)
  case (1 psize t offset)
  let ?pg = "take psize (drop offset t)"
  show ?case
  proof (cases "length ?pg < psize")
    case True
    then have "length t - offset < psize" by (simp add: min_less_iff_disj)
    then show ?thesis by (subst offset_pages.simps) (simp add: Let_def)
  next
    case False
    then have "map_option concat (offset_pages psize t (offset + psize)) = Some (drop (offset + psize) t)" using 1 by simp
    moreover have "?pg @ drop (offset + psize) t = drop offset t"
      by (metis append_take_drop_id drop_drop add.commute)
    ultimately show ?thesis using False 1(2)
      by (subst offset_pages.simps) (auto simp: Let_def)
  qed
qed

definition counted_as :: "('k \<times> int) list \<Rightarrow> 'k \<Rightarrow> int" where
  "counted_as m k = (case map_of m k of None \<Rightarrow> 0 | Some n \<Rightarrow> n)"

lemma counted_bump: "counted_as (bump k m) j = counted_as m j + (if j = k then 1 else 0)"
  by (induction k m rule: bump.induct) (auto simp: counted_as_def)

lemma agg_add_counts:
  "counted_as (agg_actions (fold (agg_add known) rows s)) a = counted_as (agg_actions s) a + count_where (\<lambda>r. aa_action r = a) rows"
  "counted_as (agg_groups (fold (agg_add known) rows s)) g = counted_as (agg_groups s) g + count_where (\<lambda>r. group_of r = g) rows"
  by (induction rows arbitrary: s) (simp_all add: agg_add_def counted_bump count_where_def)

lemma agg_add_total: "agg_total (fold (agg_add known) rows s) = agg_total s + length rows"
  by (induction rows arbitrary: s) (simp_all add: agg_add_def)

lemma agg_add_flagged: "agg_flagged (fold (agg_add known) rows s) =
   agg_flagged s @ filter (\<lambda>r. \<not> isKnownActor (aa_actorId r) known) rows"
  by (induction rows arbitrary: s) (simp_all add: agg_add_def)

lemma count_where_sort: "count_where p (sort_key f t) = count_where p t"
  by (simp add: count_where_def filter_sort)


definition demo_audit_row :: "string \<Rightarrow> instant \<Rightarrow> string \<Rightarrow> admin_audit_row" where
  "demo_audit_row rid t actor = \<lparr>aa_id = js rid, aa_action = js ''webhook.create'', aa_actorId = Some (js actor), aa_targetId = None,
     aa_details = JNull, aa_requestId = None, aa_createdAt = t\<rparr>"

definition demo_review_args :: "jstring list" where
  "demo_review_args = [js ''--since'', js ''0'', js ''--page-size=2'', js ''--known-actors'', js ''key:ops'']"

definition demo_audit_table :: "admin_audit_row list" where
  "demo_audit_table = [demo_audit_row ''b'' 5 ''key:ops'', demo_audit_row ''a'' 5 ''key:x'', demo_audit_row ''c'' 7 ''key:ops'',
     demo_audit_row ''d'' 7 ''key:ops'']"

lemma demo_review_parsed:
  "parseArgs (\<lambda>s. if s = js ''2'' then Some 2 else None) (\<lambda>s. Some 0) 10 demo_review_args =
     Inr \<lparr>cli_since = 0, cli_until = 10, pageSize = 2, knownActors = [js ''key:ops''], maxRows = 200, cli_json = False\<rparr>"
  by code_simp


text \<open>The guard's rule has a gap: \<open>SELECT ... INTO\<close> creates a table and is let through.\<close>

lemma select_into_accepted: "assertSelectOnly (js ''SELECT 1 INTO t'') = None"
  by code_simp

end
