(* ===== verification/Review_Report.thy ===== *)
theory Review_Report
  imports Audit_Review Event_Ingest
begin

text \<open>
  What the audit review prints (\<open>src/scripts/audit-review.ts\<close>): the single-page queries of
  \<open>src/src/lib/audit-review.ts\<close> over the tables, the Markdown lines and the JSON object. A
  \<open>GROUP BY\<close> lists its groups in some order, and rows that tie on \<open>created_at\<close> come in some
  order: here both are the table's. \<open>date_trunc('day', t)\<close> depends on the session's time zone and is a
  parameter.
\<close>

record report_env = review_env +
  rv_iso :: "instant \<Rightarrow> jstring"    \<comment> \<open>\<open>toISOString\<close>\<close>
  rv_num :: "rat \<Rightarrow> jstring"        \<comment> \<open>a number in a template or in JSON\<close>
  rv_rank :: "jstring \<Rightarrow> int"       \<comment> \<open>\<open>localeCompare\<close>\<close>
  rv_day :: "instant \<Rightarrow> instant"

section \<open>The single-page queries\<close>

definition in_window :: "cli_args \<Rightarrow> ('r \<Rightarrow> instant) \<Rightarrow> 'r list \<Rightarrow> 'r list" where
  "in_window a f t = filter (\<lambda>r. cli_since a \<le> f r \<and> f r < cli_until a) t"

definition oldest_first :: "cli_args \<Rightarrow> ('r \<Rightarrow> instant) \<Rightarrow> nat \<Rightarrow> 'r list \<Rightarrow> 'r list" where
  "oldest_first a f n t = take n (sort_key f (in_window a f t))"

text \<open>\<open>count(*)\<close>, \<open>min(created_at)\<close> and \<open>max(created_at)\<close>.\<close>

definition bounds :: "('r \<Rightarrow> instant) \<Rightarrow> 'r list \<Rightarrow> nat \<times> instant option \<times> instant option" where
  "bounds f t = (length t, if t = [] then None else Some (Min (set (map f t))), if t = [] then None else Some (Max (set (map f t))))"

record event_group =
  eg_type :: jstring
  eg_source :: jstring
  eg_n :: int
  eg_first :: "instant option"
  eg_last :: "instant option"

definition event_kind :: "audit_event_row \<Rightarrow> jstring \<times> jstring" where
  "event_kind e = (ev_type e, case ev_source e of None \<Rightarrow> [] | Some s \<Rightarrow> s)"

definition eventsByType :: "cli_args \<Rightarrow> audit_event_row list \<Rightarrow> event_group list" where
  "eventsByType a t =
     (let rows = in_window a ev_createdAt t
      in sort_key (\<lambda>g. - eg_n g) (map (\<lambda>((ty, src), n).
           (case bounds ev_createdAt (filter (\<lambda>e. event_kind e = (ty, src)) rows) of
              (_, lo, hi) \<Rightarrow> \<lparr>eg_type = ty, eg_source = src, eg_n = n, eg_first = lo, eg_last = hi\<rparr>))
         (group_counts event_kind rows)))"

definition enrollmentsByDay :: "report_env \<Rightarrow> cli_args \<Rightarrow> enrollment_jti list \<Rightarrow> (instant \<times> int) list" where
  "enrollmentsByDay env a t = sort_key fst (group_counts (\<lambda>r. rv_day env (ej_createdAt r)) (in_window a ej_createdAt t))"

section \<open>Text\<close>

definition fmt :: "report_env \<Rightarrow> instant option \<Rightarrow> jstring" where
  "fmt env v = (case v of None \<Rightarrow> [] | Some t \<Rightarrow> rv_iso env t)"

definition hostOf :: "report_env \<Rightarrow> jstring \<Rightarrow> jstring" where
  "hostOf env v = (case rv_url env v of None \<Rightarrow> js ''(unparseable)'' | Some (_, host, _, _) \<Rightarrow> host)"

definition or_text :: "jstring option \<Rightarrow> string \<Rightarrow> jstring" where
  "or_text v fallback = (case v of None \<Rightarrow> js fallback | Some s \<Rightarrow> s)"

fun join_with :: "jstring \<Rightarrow> jstring list \<Rightarrow> jstring" where
  "join_with sep [] = []"
| "join_with sep [s] = s"
| "join_with sep (s # ss) = s @ sep @ join_with sep ss"

text \<open>A Markdown table row.\<close>

definition md_row :: "jstring list \<Rightarrow> jstring" where
  "md_row cells = js ''| '' @ join_with (js '' | '') cells @ js '' |''"

definition len_str :: "'r list \<Rightarrow> jstring" where
  "len_str t = decimal (length t)"

text \<open>The line that stands for the rows a table leaves out.\<close>

definition ellipsis :: jstring where "ellipsis = [0x2026]"

definition left_out :: "report_env \<Rightarrow> cli_args \<Rightarrow> 'r list \<Rightarrow> jstring" where
  "left_out env a t = rv_num env (of_nat (length t) - maxRows a)"

definition too_many :: "cli_args \<Rightarrow> 'r list \<Rightarrow> bool" where
  "too_many a t \<longleftrightarrow> maxRows a < of_nat (length t)"

definition shown :: "cli_args \<Rightarrow> 'r list \<Rightarrow> 'r list" where
  "shown a t = take (nat \<lfloor>maxRows a\<rfloor>) t"

definition REVIEW_TABLES :: "string list" where
  "REVIEW_TABLES = [''admin_audit_log'', ''audit_events'', ''agents'', ''webhooks'', ''revocation_entries'',
     ''enrollment_jtis'', ''trust_anchors'', ''pinned_keys'']"

text \<open>\<open>has\<close>: the columns the catalog lists for the tables of the review.\<close>

definition tables_present :: "(string \<times> string) list \<Rightarrow> string list" where
  "tables_present cols = filter (\<lambda>t. \<exists>c \<in> set cols. fst c = t) REVIEW_TABLES"

definition column_text :: "(string \<times> string) list \<Rightarrow> string \<Rightarrow> string \<Rightarrow> jstring" where
  "column_text cols c s = (if (''admin_audit_log'', c) \<in> set cols then js s else js ''NOT AVAILABLE'')"

definition header_lines :: "report_env \<Rightarrow> cli_args \<Rightarrow> (string \<times> string) list \<Rightarrow> jstring list" where
  "header_lines env a cols =
     (let names = map js (tables_present cols);
          missing = map js (filter (\<lambda>t. t \<notin> set (tables_present cols)) REVIEW_TABLES)
      in [js ''# audit-review '' @ rv_iso env (cli_since a) @ js '' .. '' @ rv_iso env (cli_until a), [],
          js ''Read-only: session default_transaction_read_only=on, READ ONLY transaction, rolled back.'', [],
          js ''## Fields available'', [],
          js ''- tables present: '' @ (if names = [] then js ''(none)'' else join_with (js '', '') names)] @
         (if missing = [] then [] else [js ''- tables MISSING (skipped): '' @ join_with (js '', '') missing]) @
         [js ''- key label: '' @ column_text cols ''actor_id'' ''admin_audit_log.actor_id'',
          js ''- source IP: '' @ column_text cols ''details''
            ''admin_audit_log.details->>'client_ip' (only rows written after per-consumer keys shipped)'',
          js ''- request id: '' @ column_text cols ''request_id'' ''admin_audit_log.request_id'',
          js ''- outcome: admin_audit_log holds successful mutations only; refused requests (401/4xx) are not stored, see platform request logs'',
          js ''- audit_events (agent telemetry): no key label or IP column; grouped by type and self-reported source''])"

definition overall_text :: "report_env \<Rightarrow> ('r \<Rightarrow> instant) \<Rightarrow> 'r list \<Rightarrow> jstring" where
  "overall_text env f t = (case bounds f t of (n, lo, hi) \<Rightarrow>
     js ''- table holds '' @ decimal n @ js '' rows overall, '' @ fmt env lo @ js '' .. '' @ fmt env hi)"

definition flagged_row :: "report_env \<Rightarrow> admin_audit_row \<Rightarrow> jstring" where
  "flagged_row env r = md_row [fmt env (Some (aa_createdAt r)), aa_action r, or_text (aa_actorId r) ''(none)'',
     truncate_text (or_text (aa_targetId r) '''') 90, safeDetails (review_env.truncate env) r]"

definition audit_lines :: "report_env \<Rightarrow> cli_args \<Rightarrow> aggregator \<Rightarrow> admin_audit_row list \<Rightarrow> jstring list" where
  "audit_lines env a agg t =
     [[], js ''## Admin audit log (mutations)'', [],
      overall_text env aa_createdAt t @ js '' (retention: ADMIN_AUDIT_TTL_DAYS, default 365)'',
      js ''- in range: '' @ decimal (agg_total agg) @ js ''; with actor '' @ decimal (agg_withActor agg) @
        js ''; with source IP '' @ decimal (agg_withIp agg) @ js ''; with request id '' @ decimal (agg_withRequestId agg),
      [], js ''### By action / route'', [], js ''| action | route | count |'', js ''|---|---|---|''] @
     map (\<lambda>(action, route, n). md_row [action, route, num_str n]) (byAction (rv_rank env) agg) @
     [[], js ''### By key label, route, source IP, outcome'', [], js ''| key label | route | source IP | outcome | count |'',
      js ''|---|---|---|---|---|''] @
     map (\<lambda>(g, n). md_row [keyLabel g, gk_route g, sourceIp g, js ''success'', num_str n]) (grouped (rv_rank env) agg) @
     [[], js ''### Flagged: actor not on --known-actors ('' @ len_str (agg_flagged agg) @ js '')'', []] @
     (if knownActors a = [] then [js ''(no --known-actors given, so every mutation is listed)''] else []) @
     [[], js ''| at | action | actor | target | details |'', js ''|---|---|---|---|---|''] @
     map (flagged_row env) (flagged_shown a agg) @
     (if too_many a (agg_flagged agg)
      then [js ''| '' @ ellipsis @ js '' | '' @ left_out env a (agg_flagged agg) @ js '' more (raise --max-rows) | | | |''] else [])"

definition events_lines :: "report_env \<Rightarrow> cli_args \<Rightarrow> audit_event_row list \<Rightarrow> jstring list" where
  "events_lines env a t =
     [[], js ''## Telemetry ingested (POST /api/events -> audit_events)'', [],
      overall_text env ev_createdAt t @ js '' (retention: AUDIT_EVENTS_TTL_DAYS, default 90; older rows are gone)'',
      [], js ''| type | source | count | first | last |'', js ''|---|---|---|---|---|''] @
     map (\<lambda>g. md_row [eg_type g, truncate_text (if eg_source g = [] then js ''(none)'' else eg_source g) 60, num_str (eg_n g),
        fmt env (eg_first g), fmt env (eg_last g)]) (eventsByType a t)"

definition status_str :: "agent_status \<Rightarrow> jstring" where
  "status_str st = (case agent_status_text st of JStr s \<Rightarrow> s | _ \<Rightarrow> [])"

definition agent_row :: "report_env \<Rightarrow> agent \<Rightarrow> jstring" where
  "agent_row env x = md_row [truncate_text (ag_aid x) 70, truncate_text (ag_displayName x) 40, ag_namespace x, or_text (ag_org x) '''',
     status_str (ag_status x), hostOf env (ag_handshakeEndpoint x), fmt env (Some (ag_registeredAt x)), fmt env (ag_lastEnrolledAt x)]"

definition agents_lines :: "report_env \<Rightarrow> cli_args \<Rightarrow> agent list \<Rightarrow> jstring list" where
  "agents_lines env a read =
     [[], js ''### Agents registered or re-enrolled ('' @ len_str read @ js ''; expired agents are swept after EXPIRED_AGENT_GRACE_DAYS)'', [],
      js ''| aid | name | namespace | org | status | endpoint host | registered | last enrolled |'',
      js ''|---|---|---|---|---|---|---|---|''] @
     map (agent_row env) (shown a read) @
     (if too_many a read then [js ''| '' @ ellipsis @ js '' '' @ left_out env a read @ js '' more | | | | | | | |''] else [])"

definition hook_row :: "report_env \<Rightarrow> webhook \<Rightarrow> jstring" where
  "hook_row env h = md_row [wh_id h, redactUrl (review_env.truncate env) (wh_url h), join_with (js ''|'') (wh_events h),
     (if wh_active h then js ''true'' else js ''false''), fmt env (Some (wh_createdAt h))]"

definition hooks_lines :: "report_env \<Rightarrow> cli_args \<Rightarrow> webhook list \<Rightarrow> jstring list" where
  "hooks_lines env a t =
     (let hooks = oldest_first a wh_createdAt 1000 t
      in [[], js ''### Webhooks created ('' @ len_str hooks @ js ''; '' @ len_str t @ js '' exist now, '' @
            num_str (count_where wh_active t) @ js '' active)'', [],
          js ''| id | url | events | active | created |'', js ''|---|---|---|---|---|''] @
         map (hook_row env) hooks)"

definition revocation_row :: "report_env \<Rightarrow> revocation_entry \<Rightarrow> jstring" where
  "revocation_row env r = md_row [re_jti r, truncate_text (or_text (re_reason r) '''') 80, fmt env (Some (re_revokedAt r)),
     fmt env (Some (re_createdAt r))]"

definition revocations_lines :: "report_env \<Rightarrow> cli_args \<Rightarrow> revocation_entry list \<Rightarrow> jstring list" where
  "revocations_lines env a t =
     (let revs = oldest_first a re_createdAt 5000 t
      in [[], js ''### Revocations ('' @ len_str revs @ js '')'', [], js ''| jti | reason | revoked | created |'', js ''|---|---|---|---|''] @
         map (revocation_row env) (shown a revs))"

definition day_text :: "report_env \<Rightarrow> instant \<Rightarrow> jstring" where
  "day_text env d = take 10 (fmt env (Some d))"

definition enrollments_lines :: "report_env \<Rightarrow> cli_args \<Rightarrow> enrollment_jti list \<Rightarrow> jstring list" where
  "enrollments_lines env a t =
     (let days = enrollmentsByDay env a t
      in [[], js ''### Enrollment tokens spent ('' @ num_str (sum_list (map snd days)) @
            js ''; rows are swept once the token expires, so this undercounts)'', []] @
         map (\<lambda>(d, n). js ''- '' @ day_text env d @ js '': '' @ num_str n) days)"

definition anchor_line :: "report_env \<Rightarrow> trust_anchor \<Rightarrow> jstring" where
  "anchor_line env x = js ''- '' @ fmt env (Some (ta_createdAt x)) @ js '' '' @ ta_namespace x @ js '' '' @
     redactUrl (review_env.truncate env) (ta_issuerUrl x) @ js '' by '' @ or_text (ta_addedBy x) ''(none)''"

definition anchors_lines :: "report_env \<Rightarrow> cli_args \<Rightarrow> trust_anchor list \<Rightarrow> jstring list" where
  "anchors_lines env a t =
     (let tas = oldest_first a ta_createdAt 1000 t
      in [[], js ''### Trust anchors added ('' @ len_str tas @ js '')''] @ map (anchor_line env) tas)"

definition pin_line :: "report_env \<Rightarrow> pinned_key \<Rightarrow> jstring" where
  "pin_line env x = js ''- '' @ fmt env (Some (pk_createdAt x)) @ js '' '' @ pk_namespace x @ js '' '' @
     truncate_text (pk_aid x) 70 @ js '' by '' @ or_text (pk_addedBy x) ''(none)''"

definition pins_lines :: "report_env \<Rightarrow> cli_args \<Rightarrow> pinned_key list \<Rightarrow> jstring list" where
  "pins_lines env a t =
     (let pks = oldest_first a pk_createdAt 1000 t
      in [[], js ''### Pinned keys added ('' @ len_str pks @ js '')''] @ map (pin_line env) pks)"

text \<open>The details of an anchor's creation show its issuer URL as it is, query included.\<close>

lemma issuer_query_shown:
  "safeDetails env (r\<lparr>aa_details := jobj [(''namespace'', jlit ''n''), (''issuerUrl'', jlit ''https://i/?t=k'')]\<rparr>) =
     js ''namespace=n issuerUrl=https://i/?t=k''"
  by (simp add: safeDetails_def detail_part_def truncate_text_def js_def is_break_def cu_def)

section \<open>The JSON object\<close>

definition jfmt :: "report_env \<Rightarrow> instant option \<Rightarrow> json" where
  "jfmt env v = JStr (fmt env v)"

definition audit_json :: "report_env \<Rightarrow> aggregator \<Rightarrow> json" where
  "audit_json env agg = jobj
     [(''total'', jint (int (agg_total agg))),
      (''byAction'', JArr (map (\<lambda>(action, route, n). jobj [(''action'', JStr action), (''route'', JStr route), (''count'', jint n)])
         (byAction (rv_rank env) agg))),
      (''groups'', JArr (map (\<lambda>(g, n). jobj [(''keyLabel'', JStr (keyLabel g)), (''route'', JStr (gk_route g)),
         (''sourceIp'', JStr (sourceIp g)), (''outcome'', jlit ''success''), (''count'', jint n)]) (grouped (rv_rank env) agg))),
      (''flagged'', JArr (map (\<lambda>r. jobj [(''at'', jfmt env (Some (aa_createdAt r))), (''action'', JStr (aa_action r)),
         (''actor'', jopt (aa_actorId r)), (''target'', jopt (aa_targetId r)),
         (''details'', JStr (safeDetails (review_env.truncate env) r))]) (agg_flagged agg)))]"

definition date_json :: "report_env \<Rightarrow> instant option \<Rightarrow> json" where
  "date_json env v = (case v of None \<Rightarrow> JNull | Some t \<Rightarrow> JStr (rv_iso env t))"

definition events_json :: "report_env \<Rightarrow> cli_args \<Rightarrow> audit_event_row list \<Rightarrow> json" where
  "events_json env a t = JArr (map (\<lambda>g. jobj [(''type'', JStr (eg_type g)), (''source'', JStr (eg_source g)), (''n'', jint (eg_n g)),
     (''first'', date_json env (eg_first g)), (''last'', date_json env (eg_last g))]) (eventsByType a t))"

definition agents_json :: "report_env \<Rightarrow> agent list \<Rightarrow> json" where
  "agents_json env read = JArr (map (\<lambda>x. jobj [(''aid'', JStr (ag_aid x)), (''name'', JStr (ag_displayName x)),
     (''namespace'', JStr (ag_namespace x)), (''org'', jopt (ag_org x)), (''status'', agent_status_text (ag_status x)),
     (''endpointHost'', JStr (hostOf env (ag_handshakeEndpoint x))), (''registeredAt'', jfmt env (Some (ag_registeredAt x))),
     (''lastEnrolledAt'', jfmt env (ag_lastEnrolledAt x))]) read)"

definition hooks_json :: "report_env \<Rightarrow> cli_args \<Rightarrow> webhook list \<Rightarrow> json" where
  "hooks_json env a t = JArr (map (\<lambda>h. jobj [(''id'', JStr (wh_id h)), (''url'', JStr (redactUrl (review_env.truncate env) (wh_url h))),
     (''events'', JArr (map JStr (wh_events h))), (''active'', JBool (wh_active h)), (''createdAt'', jfmt env (Some (wh_createdAt h)))])
     (oldest_first a wh_createdAt 1000 t))"

definition revocations_json :: "report_env \<Rightarrow> cli_args \<Rightarrow> revocation_entry list \<Rightarrow> json" where
  "revocations_json env a t = JArr (map (\<lambda>r. jobj [(''jti'', JStr (re_jti r)), (''reason'', jopt (re_reason r)),
     (''createdAt'', jfmt env (Some (re_createdAt r)))]) (oldest_first a re_createdAt 5000 t))"

definition enrollments_json :: "report_env \<Rightarrow> cli_args \<Rightarrow> enrollment_jti list \<Rightarrow> json" where
  "enrollments_json env a t =
     (let days = enrollmentsByDay env a t
      in jobj [(''total'', jint (sum_list (map snd days))),
         (''byDay'', JArr (map (\<lambda>(d, n). jobj [(''day'', JStr (day_text env d)), (''n'', jint n)]) days))])"

text \<open>\<open>JSON.stringify(v, null, 2)\<close>; the first argument is the current indent.\<close>

definition nl :: "nat \<Rightarrow> jstring" where "nl n = 10 # replicate n 32"

fun pretty :: "(rat \<Rightarrow> jstring) \<Rightarrow> nat \<Rightarrow> json \<Rightarrow> jstring" where
  "pretty num_repr n (JArr vs) =
     (if vs = [] then js ''[]''
      else js ''['' @ nl (n + 2) @ join_with (js '','' @ nl (n + 2)) (map (pretty num_repr (n + 2)) vs) @ nl n @ js '']'')"
| "pretty num_repr n (JObj ps) =
     (if ps = [] then js ''{}''
      else js ''{'' @ nl (n + 2) @ join_with (js '','' @ nl (n + 2))
        (map (\<lambda>p. json_quote (fst p) @ js '': '' @ pretty num_repr (n + 2) (snd p)) ps) @ nl n @ js ''}'')"
| "pretty num_repr n v = stringify num_repr v"

section \<open>The report\<close>

text \<open>A section is printed, and its JSON field set, when its table exists.\<close>

definition when_present :: "(string \<times> string) list \<Rightarrow> string \<Rightarrow> 'a list \<Rightarrow> 'a list" where
  "when_present cols t xs = (if t \<in> set (tables_present cols) then xs else [])"

definition report_lines ::
  "report_env \<Rightarrow> cli_args \<Rightarrow> (string \<times> string) list \<Rightarrow> aggregator \<Rightarrow> agent list \<Rightarrow> db \<Rightarrow> jstring list" where
  "report_lines env a cols agg read d =
     header_lines env a cols @
     when_present cols ''admin_audit_log'' (audit_lines env a agg (admin_audit_log d)) @
     when_present cols ''audit_events'' (events_lines env a (audit_events d)) @
     [[], js ''## State tables: rows created in range''] @
     when_present cols ''agents'' (agents_lines env a read) @
     when_present cols ''webhooks'' (hooks_lines env a (webhooks d)) @
     when_present cols ''revocation_entries'' (revocations_lines env a (revocation_entries d)) @
     when_present cols ''enrollment_jtis'' (enrollments_lines env a (enrollment_jtis d)) @
     when_present cols ''trust_anchors'' (anchors_lines env a (trust_anchors d)) @
     when_present cols ''pinned_keys'' (pins_lines env a (pinned_keys d))"

definition report_json ::
  "report_env \<Rightarrow> cli_args \<Rightarrow> (string \<times> string) list \<Rightarrow> aggregator \<Rightarrow> agent list \<Rightarrow> db \<Rightarrow> json" where
  "report_json env a cols agg read d = jobj (
     [(''since'', JStr (rv_iso env (cli_since a))), (''until'', JStr (rv_iso env (cli_until a)))] @
     when_present cols ''admin_audit_log'' [(''adminAudit'', audit_json env agg)] @
     when_present cols ''audit_events'' [(''events'', events_json env a (audit_events d))] @
     when_present cols ''agents'' [(''agents'', agents_json env read)] @
     when_present cols ''webhooks'' [(''webhooks'', hooks_json env a (webhooks d))] @
     when_present cols ''revocation_entries'' [(''revocations'', revocations_json env a (revocation_entries d))] @
     when_present cols ''enrollment_jtis'' [(''enrollments'', enrollments_json env a (enrollment_jtis d))] @
     when_present cols ''trust_anchors'' [(''trustAnchors'', jint (int (length (oldest_first a ta_createdAt 1000 (trust_anchors d)))))] @
     when_present cols ''pinned_keys'' [(''pinnedKeys'', jint (int (length (oldest_first a pk_createdAt 1000 (pinned_keys d)))))])"

definition report_text ::
  "report_env \<Rightarrow> cli_args \<Rightarrow> (string \<times> string) list \<Rightarrow> aggregator \<Rightarrow> agent list \<Rightarrow> db \<Rightarrow> jstring" where
  "report_text env a cols agg read d =
     (if cli_json a then pretty (rv_num env) 0 (report_json env a cols agg read d)
      else join_with [10] (report_lines env a cols agg read d)) @ [10]"

end
