(* ===== verification/Review_Session.thy ===== *)
theory Review_Session
  imports Review_Report
begin

text \<open>
  A run of the audit review from its arguments to its exit (\<open>main\<close> of \<open>src/scripts/audit-review.ts\<close>): the
  texts it sends to the database, in order, and what it prints. The texts are those of
  \<open>src/src/lib/audit-review.ts\<close> with each run of blanks as one. The database answers from one
  snapshot; which statement fails is an input. Messages on the error stream are left out.
\<close>

section \<open>The texts\<close>

datatype review_query = ReadOnlyCheck | Columns | AdminAuditPage | AdminAuditBounds | EventsByType | EventsBounds | AgentsPage
  | WebhooksInRange | WebhooksAll | RevocationsInRange | EnrollmentsByDay | TrustAnchorsInRange | PinnedKeysInRange

fun sql_tail :: "review_query \<Rightarrow> string" where
  "sql_tail ReadOnlyCheck = ''current_setting('transaction_read_only') AS ro''"
| "sql_tail Columns = ''table_name, column_name FROM information_schema.columns WHERE table_schema = current_schema() AND table_name = ANY($1::text[])''"
| "sql_tail AdminAuditPage = ''id, action, actor_id, target_id, details, request_id, created_at, created_at::text AS cursor_ts FROM admin_audit_log WHERE created_at >= $1 AND created_at < $2 AND (created_at, id) > ($3::timestamptz, $4::uuid) ORDER BY created_at, id LIMIT $5''"
| "sql_tail AdminAuditBounds = ''min(created_at) AS first, max(created_at) AS last, count(*)::int AS n FROM admin_audit_log''"
| "sql_tail EventsByType = ''type, coalesce(source, '' @ [CHR 0x27, CHR 0x27] @ '') AS source, count(*)::int AS n, min(created_at) AS first, max(created_at) AS last FROM audit_events WHERE created_at >= $1 AND created_at < $2 GROUP BY type, coalesce(source, '' @ [CHR 0x27, CHR 0x27] @ '') ORDER BY n DESC''"
| "sql_tail EventsBounds = ''min(created_at) AS first, max(created_at) AS last, count(*)::int AS n FROM audit_events''"
| "sql_tail AgentsPage = ''aid, display_name, namespace, status, org, handshake_endpoint, registered_at, last_enrolled_at FROM agents WHERE (registered_at >= $1 AND registered_at < $2) OR (last_enrolled_at >= $1 AND last_enrolled_at < $2) ORDER BY aid LIMIT $4 OFFSET $3''"
| "sql_tail WebhooksInRange = ''id, url, events, active, created_at FROM webhooks WHERE created_at >= $1 AND created_at < $2 ORDER BY created_at LIMIT 1000''"
| "sql_tail WebhooksAll = ''count(*)::int AS n, count(*) FILTER (WHERE active)::int AS active FROM webhooks''"
| "sql_tail RevocationsInRange = ''jti, reason, revoked_at, created_at FROM revocation_entries WHERE created_at >= $1 AND created_at < $2 ORDER BY created_at LIMIT 5000''"
| "sql_tail EnrollmentsByDay = ''date_trunc('day', created_at) AS day, count(*)::int AS n FROM enrollment_jtis WHERE created_at >= $1 AND created_at < $2 GROUP BY 1 ORDER BY 1''"
| "sql_tail TrustAnchorsInRange = ''id, namespace, issuer_url, added_by, created_at FROM trust_anchors WHERE created_at >= $1 AND created_at < $2 ORDER BY created_at LIMIT 1000''"
| "sql_tail PinnedKeysInRange = ''namespace, aid, label, added_by, created_at FROM pinned_keys WHERE created_at >= $1 AND created_at < $2 ORDER BY created_at LIMIT 1000''"

definition sql_text :: "review_query \<Rightarrow> string" where
  "sql_text q = ''SELECT '' @ sql_tail q"

section \<open>Keywords are whole words\<close>

text \<open>The words of a text; the guard's search for a keyword is membership among them.\<close>

fun words_from :: "string \<Rightarrow> string \<Rightarrow> string list" where
  "words_from w [] = [w]"
| "words_from w (c # s) = (if is_word (cu c) then words_from (w @ [c]) s else w # words_from [] s)"

lemma lower_upper: "is_upper c \<Longrightarrow> is_lower (c + 32)"
  by (simp add: is_upper_def is_lower_def word_le_nat_alt unat_word_ariths)

lemma to_lower_word: "is_word (if is_upper c then c + 32 else c) \<longleftrightarrow> is_word c"
  using lower_upper [of c] by (simp add: is_word_def is_alnum_def)

lemma to_lower_words: "list_all is_word (to_lower s) \<longleftrightarrow> list_all is_word s"
  by (induction s) (simp_all add: to_lower_def to_lower_word del: if_split)

lemma word_end_take:
  assumes "word_prefix kw (w @ rest)" and "list_all is_word kw" and "list_all is_word w" and "word_end rest"
  shows "to_lower w = kw"
proof -
  let ?k = "length kw"
  have pre: "to_lower (take ?k (w @ rest)) = kw" and post: "word_end (drop ?k (w @ rest))"
    using assms(1) by (simp_all add: word_prefix_def)
  have len: "?k \<le> length (w @ rest)"
    using arg_cong [OF pre, of length] by (simp add: to_lower_def)
  have words: "list_all is_word (take ?k (w @ rest))"
    using assms(2) to_lower_words [of "take ?k (w @ rest)"] by (simp only: pre)
  have "\<not> ?k < length w"
  proof
    assume less: "?k < length w"
    then have "drop ?k (w @ rest) = w ! ?k # drop (Suc ?k) w @ rest" by (simp add: Cons_nth_drop_Suc)
    with post less assms(3) show False by (simp add: word_end_def list_all_length)
  qed
  moreover have "\<not> length w < ?k"
  proof
    assume more: "length w < ?k"
    with len obtain c s where c: "rest = c # s" by (cases rest) auto
    from more c have "c \<in> set (take ?k (w @ rest))" by (cases "?k - length w") auto
    with words assms(4) c show False by (simp add: word_end_def list_all_iff)
  qed
  ultimately have "?k = length w" by simp
  with pre show ?thesis by simp
qed

lemma occurs_in_word:
  "list_all is_word w \<Longrightarrow> word_end rest \<Longrightarrow> kw \<noteq> [] \<Longrightarrow>
    occurs_word kw True (w @ rest) \<longleftrightarrow> (case rest of [] \<Rightarrow> False | c # s \<Rightarrow> occurs_word kw False s)"
  by (induction w) (auto simp: word_end_def split: list.splits)

lemma occurs_word_words:
  assumes "kw \<noteq> []" and "list_all is_word kw"
  shows "list_all is_word (js w) \<Longrightarrow>
    occurs_word kw False (js w @ js s) \<longleftrightarrow> kw \<in> (\<lambda>x. to_lower (js x)) ` set (words_from w s)"
proof (induction s arbitrary: w)
  case Nil
  show ?case
  proof (cases w)
    case Nil
    with assms show ?thesis by (simp add: to_lower_def)
  next
    case (Cons c v)
    from Cons Nil.prems have v: "list_all is_word (js v)" by (simp add: js_Cons)
    have "occurs_word kw True (js v) = False"
      using occurs_in_word [OF v _ assms(1), of "[]"] by (simp add: word_end_def)
    moreover have "word_prefix kw (js w) \<longleftrightarrow> to_lower (js w) = kw"
      using word_end_take [of kw "js w" "[]"] assms Nil.prems
      by (auto simp: word_end_def word_prefix_def to_lower_def)
    ultimately show ?thesis using Cons Nil.prems by (auto simp: js_Cons)
  qed
next
  case (Cons c s)
  show ?case
  proof (cases "is_word (cu c)")
    case True
    with Cons.prems Cons.IH [of "w @ [c]"] show ?thesis by (simp add: js_Cons js_append)
  next
    case False
    then have stop: "word_end (cu c # js s)" by (simp add: word_end_def)
    have rest: "occurs_word kw False (js s) \<longleftrightarrow> kw \<in> (\<lambda>x. to_lower (js x)) ` set (words_from [] s)"
      using Cons.IH [of "[]"] by simp
    have whole: "word_prefix kw (js w @ cu c # js s) \<longleftrightarrow> to_lower (js w) = kw"
      using word_end_take [OF _ assms(2) Cons.prems stop] stop
      by (auto simp: word_prefix_def to_lower_def)
    show ?thesis
    proof (cases w)
      case Nil
      with False whole rest assms show ?thesis by (auto simp: to_lower_def js_Cons)
    next
      case (Cons d v)
      with False whole rest assms occurs_in_word [of "js v" "cu c # js s" kw] stop \<open>list_all is_word (js w)\<close>
      show ?thesis by (auto simp: js_Cons)
    qed
  qed
qed

text \<open>A simpler reading of the characters, for evaluation.\<close>

definition word_char :: "char \<Rightarrow> bool" where
  "word_char c \<longleftrightarrow> (let n = (of_char c :: nat) in 97 \<le> n \<and> n \<le> 122 \<or> n = 95 \<or> 48 \<le> n \<and> n \<le> 57 \<or> 65 \<le> n \<and> n \<le> 90)"

lemma unat_cu: "unat (cu c) = of_char c"
proof -
  have "(of_char c :: nat) mod 256 < 256" by (rule mod_less_divisor) simp
  then have "(of_char c :: nat) < 256" by simp
  then have "(of_char c :: nat) < 65536" by (rule less_trans) simp
  then show ?thesis by (simp add: cu_def unat_of_nat)
qed

lemma is_word_char: "is_word (cu c) \<longleftrightarrow> word_char c"
  by (auto simp: is_word_def is_alnum_def is_upper_def is_lower_def is_digit_def word_char_def word_le_nat_alt Let_def
      word_unat_eq_iff unat_cu)

definition lower_char :: "char \<Rightarrow> char" where
  "lower_char c = (let n = (of_char c :: nat) in if 65 \<le> n \<and> n \<le> 90 then char_of (n + 32) else c)"

lemma words_from_char:
  "words_from w [] = [w]"
  "word_char c \<Longrightarrow> words_from w (c # s) = words_from (w @ [c]) s"
  "\<not> word_char c \<Longrightarrow> words_from w (c # s) = w # words_from [] s"
  by (simp_all add: is_word_char)

lemma word_list: "list_all word_char ''ABCDEFGHIJKLMNOPQRSTUVWXYZabcdefghijklmnopqrstuvwxyz0123456789_''"
  by code_simp

lemma separator_list: "list_all (\<lambda>c. \<not> word_char c) '' ().',*=<>:$[]''"
  by code_simp

lemmas word_chars = word_list [unfolded list.pred_inject] separator_list [unfolded list.pred_inject]

definition FORBIDDEN :: "string list" where
  "FORBIDDEN = [''insert'', ''update'', ''delete'', ''merge'', ''upsert'', ''drop'', ''alter'', ''truncate'',
     ''create'', ''grant'', ''revoke'', ''copy'', ''vacuum'', ''reindex'', ''cluster'', ''comment'', ''lock'', ''call'', ''do'',
     ''execute'', ''prepare'', ''refresh'', ''import'', ''security'', ''nextval'', ''setval'', ''pg_terminate_backend'',
     ''pg_cancel_backend'', ''set_config'', ''lo_import'', ''lo_export'', ''dblink'']"

definition harmless :: "string \<Rightarrow> bool" where
  "harmless w \<longleftrightarrow> map lower_char w \<notin> set FORBIDDEN"

lemma vocabulary: "list_all harmless [
   [],''SELECT'', ''current_setting'', ''transaction_read_only'', ''AS'', ''ro'', ''table_name'', ''column_name'',
    ''FROM'', ''information_schema'', ''columns'', ''WHERE'', ''table_schema'', ''current_schema'', ''AND'', ''ANY'',
    ''1'', ''text'', ''id'', ''action'', ''actor_id'', ''target_id'', ''details'', ''request_id'', ''created_at'',
    ''cursor_ts'', ''admin_audit_log'', ''2'', ''3'', ''timestamptz'', ''4'', ''uuid'', ''ORDER'', ''BY'', ''LIMIT'',
    ''5'', ''min'', ''first'', ''max'', ''last'', ''count'', ''int'', ''n'', ''type'', ''coalesce'', ''source'',
    ''audit_events'', ''GROUP'', ''DESC'', ''aid'', ''display_name'', ''namespace'', ''status'', ''org'',
    ''handshake_endpoint'', ''registered_at'', ''last_enrolled_at'', ''agents'', ''OR'', ''OFFSET'', ''url'',
    ''events'', ''active'', ''webhooks'', ''1000'', ''FILTER'', ''jti'', ''reason'', ''revoked_at'',
    ''revocation_entries'', ''5000'', ''date_trunc'', ''day'', ''enrollment_jtis'', ''issuer_url'', ''added_by'',
    ''trust_anchors'', ''label'', ''pinned_keys'']"
  by code_simp

lemma harmless_words: "list_all harmless (words_from [] (sql_text q))"
  by (cases q; simp only: sql_text_def sql_tail.simps append.simps words_from_char word_chars append_Nil not_False_eq_True
      list.pred_inject vocabulary [unfolded list.pred_inject])

lemma to_lower_js: "to_lower (js w) = js (map lower_char w)"
proof -
  have "(if is_upper (cu c) then cu c + 32 else cu c) = cu (lower_char c)" for c
    by (simp add: is_upper_def word_le_nat_alt unat_cu lower_char_def Let_def word_unat_eq_iff unat_word_ariths)
  then show ?thesis by (simp add: to_lower_def js_def)
qed

lemma keywords_are_words: "FORBIDDEN_SQL = map js FORBIDDEN" "list_all (\<lambda>k. k \<noteq> [] \<and> list_all word_char k) FORBIDDEN"
  by (simp add: FORBIDDEN_SQL_def FORBIDDEN_def) code_simp

lemma no_keyword: "\<not> list_ex (\<lambda>kw. occurs_word kw False (js (sql_text q))) FORBIDDEN_SQL"
proof -
  have "\<not> occurs_word (js k) False (js (sql_text q))" if "k \<in> set FORBIDDEN" for k
  proof -
    have k: "js k \<noteq> []" "list_all is_word (js k)"
      using keywords_are_words(2) that by (auto simp: list_all_iff js_def is_word_char)
    have "occurs_word (js k) False (js (sql_text q)) \<longleftrightarrow> js k \<in> (\<lambda>x. to_lower (js x)) ` set (words_from [] (sql_text q))"
      using occurs_word_words [OF k, of "[]" "sql_text q"] by simp
    with harmless_words [of q] that show ?thesis
      by (auto simp: to_lower_js harmless_def list_all_iff)
  qed
  then show ?thesis by (auto simp: keywords_are_words(1) list_ex_iff)
qed

lemma trim_id: "s \<noteq> [] \<Longrightarrow> \<not> is_js_space (hd s) \<Longrightarrow> \<not> is_js_space (last s) \<Longrightarrow> trim s = s"
  by (simp add: trim_def dropWhile_eq_self_iff [THEN iffD2] hd_rev)

lemma text_ends: "list_all (\<lambda>c. \<not> is_js_space (cu c)) ''S)osgCN5310''"
  by code_simp

lemma sql_text_trim: "trim (js (sql_text q)) = js (sql_text q)"
proof (rule trim_id)
  have "last (sql_text q) \<in> set ''S)osgCN5310''" by (cases q) (simp_all add: sql_text_def)
  then have "\<not> is_js_space (cu (last (sql_text q)))" using text_ends unfolding list_all_iff by (rule bspec [rotated])
  moreover have "sql_text q \<noteq> []" by (simp add: sql_text_def)
  ultimately show "\<not> is_js_space (last (js (sql_text q)))"
    by (simp only: js_def last_map not_False_eq_True)
  show "\<not> is_js_space (hd (js (sql_text q)))"
    using text_ends by (simp add: sql_text_def js_Cons)
qed (simp add: sql_text_def)

text \<open>The guard lets every text of the review through.\<close>

lemma guard_passes: "assertSelectOnly (js (sql_text q)) = None"
proof -
  have "word_prefix (js ''select'') (js (sql_text q))"
  proof -
    have "word_prefix (js ''select'') (js ''SELECT'')" by code_simp
    moreover have "js (sql_text q) = js ''SELECT'' @ 32 # js (sql_tail q)"
      by (simp add: sql_text_def js_def cu_def)
    ultimately show ?thesis
      by (simp add: word_prefix_def word_end_def is_word_def is_alnum_def is_upper_def is_lower_def is_digit_def)
  qed
  moreover have "semicolon \<notin> set (strip_last_semicolon (js (sql_text q)))"
  proof -
    have "CHR '';'' \<notin> set (sql_text q)" by (cases q) (simp_all add: sql_text_def)
    moreover have sc: "semicolon = cu (CHR '';'')" by (simp add: semicolon_def cu_def)
    ultimately have "semicolon \<notin> set (js (sql_text q))" unfolding sc js_def by (auto simp: cu_inject)
    then show ?thesis by (auto simp: strip_last_semicolon_def dest: in_set_butlastD)
  qed
  ultimately show ?thesis using no_keyword [of q] by (simp add: assertSelectOnly_def sql_text_trim Let_def)
qed

section \<open>A run\<close>

datatype review_stmt = Begin | Ask review_query | End

definition stmt_path :: "review_stmt \<Rightarrow> db_path" where
  "stmt_path s = (case s of Begin \<Rightarrow> Txn (js ''BEGIN ISOLATION LEVEL REPEATABLE READ READ ONLY'')
     | Ask q \<Rightarrow> Q (js (sql_text q)) | End \<Rightarrow> Txn (js ''ROLLBACK''))"

datatype review_error = BadArgs args_error | NoConnectionString | NotConnected | NotReadOnly | Refused review_stmt | Failed review_stmt

record review_run =
  rr_argv :: "jstring list"
  rr_number :: "jstring \<Rightarrow> rat option"
  rr_date :: "jstring \<Rightarrow> instant option"
  rr_now :: instant
  rr_audit_url :: "jstring option"      \<comment> \<open>\<open>AUDIT_REVIEW_DATABASE_URL\<close>\<close>
  rr_database_url :: "jstring option"   \<comment> \<open>\<open>DATABASE_URL\<close>\<close>
  rr_connects :: bool
  rr_read_only :: bool                  \<comment> \<open>what \<open>transaction_read_only\<close> answers\<close>
  rr_columns :: "(string \<times> string) list"
  rr_fails :: "nat \<Rightarrow> bool"             \<comment> \<open>the n-th statement of the run fails\<close>

record review_end =
  rx_error :: "review_error option"
  rx_exit :: nat
  rx_stdout :: jstring
  rx_sent :: "jstring list"

text \<open>Send statements in order, after those already sent, up to the first that is refused or fails.\<close>

definition stmt_fails :: "review_run \<Rightarrow> cli_args \<Rightarrow> nat \<Rightarrow> review_stmt \<Rightarrow> bool" where
  "stmt_fails run a i s \<longleftrightarrow> rr_fails run i \<or> ((s = Ask AdminAuditPage \<or> s = Ask AgentsPage) \<and> page_limit (pageSize a) = None)"

fun send_stmts :: "review_run \<Rightarrow> cli_args \<Rightarrow> jstring list \<Rightarrow> review_stmt list \<Rightarrow> review_error option \<times> jstring list" where
  "send_stmts run a before [] = (None, before)"
| "send_stmts run a before (s # ss) =
     (case sent (stmt_path s) of
        None \<Rightarrow> (Some (Refused s), before)
      | Some txt \<Rightarrow>
          if stmt_fails run a (length before) s then (Some (Failed s), before @ [txt])
          else send_stmts run a (before @ [txt]) ss)"

definition page_count :: "cli_args \<Rightarrow> (nat \<Rightarrow> 'p list option) \<Rightarrow> nat" where
  "page_count a loop = (case page_limit (pageSize a) of None \<Rightarrow> 1
     | Some n \<Rightarrow> (case loop n of None \<Rightarrow> 0 | Some ps \<Rightarrow> length ps))"

definition review_queries :: "cli_args \<Rightarrow> (string \<times> string) list \<Rightarrow> db \<Rightarrow> review_query list" where
  "review_queries a cols d =
     Columns #
     when_present cols ''admin_audit_log'' (AdminAuditBounds # replicate (page_count a (\<lambda>n.
       review_pages (cli_since a) (cli_until a) n (admin_audit_log d) None)) AdminAuditPage) @
     when_present cols ''audit_events'' [EventsBounds, EventsByType] @
     when_present cols ''agents'' (replicate (page_count a (\<lambda>n.
       offset_pages n (agents_in_range (cli_since a) (cli_until a) (agents d)) 0)) AgentsPage) @
     when_present cols ''webhooks'' [WebhooksAll, WebhooksInRange] @
     when_present cols ''revocation_entries'' [RevocationsInRange] @
     when_present cols ''enrollment_jtis'' [EnrollmentsByDay] @
     when_present cols ''trust_anchors'' [TrustAnchorsInRange] @
     when_present cols ''pinned_keys'' [PinnedKeysInRange]"

text \<open>What the page loops read. Without a page size they have failed, or have not run.\<close>

definition rows_read :: "cli_args \<Rightarrow> db \<Rightarrow> aggregator \<times> agent list" where
  "rows_read a d = (case page_limit (pageSize a) of
     None \<Rightarrow> (new_aggregator, [])
   | Some n \<Rightarrow>
       (case review (knownActors a) (cli_since a) (cli_until a) n (admin_audit_log d) of None \<Rightarrow> new_aggregator | Some agg \<Rightarrow> agg,
        case review_agents (cli_since a) (cli_until a) n (agents d) of None \<Rightarrow> [] | Some xs \<Rightarrow> xs))"

text \<open>The body of the \<open>try\<close>: an error or the text to print, and what was sent.\<close>

definition review_body :: "report_env \<Rightarrow> review_run \<Rightarrow> cli_args \<Rightarrow> db \<Rightarrow> (review_error + jstring) \<times> jstring list" where
  "review_body env run a d =
     (case send_stmts run a [] [Begin, Ask ReadOnlyCheck] of
        (Some e, ss) \<Rightarrow> (Inl e, ss)
      | (None, ss) \<Rightarrow>
          if \<not> rr_read_only run then (Inl NotReadOnly, ss)
          else case send_stmts run a ss (map Ask (review_queries a (rr_columns run) d)) of
            (Some e, ss1) \<Rightarrow> (Inl e, ss1)
          | (None, ss1) \<Rightarrow>
              (case rows_read a d of (agg, xs) \<Rightarrow> (Inr (report_text env a (rr_columns run) agg xs d), ss1)))"

definition failed_with :: "review_error \<Rightarrow> nat \<Rightarrow> jstring list \<Rightarrow> review_end" where
  "failed_with e c ss = \<lparr>rx_error = Some e, rx_exit = c, rx_stdout = [], rx_sent = ss\<rparr>"

text \<open>\<open>main\<close>; the \<open>finally\<close> sends the \<open>ROLLBACK\<close> and ignores its failure.\<close>

definition review_main :: "report_env \<Rightarrow> review_run \<Rightarrow> db \<Rightarrow> review_end" where
  "review_main env run d =
     (case parseArgs (rr_number run) (rr_date run) (rr_now run) (rr_argv run) of
        Inl e \<Rightarrow> failed_with (BadArgs e) 2 []
      | Inr a \<Rightarrow>
          if blank (orelse (rr_audit_url run) (rr_database_url run)) then failed_with NoConnectionString 2 []
          else if \<not> rr_connects run then failed_with NotConnected 1 []
          else case review_body env run a d of (outcome, ss) \<Rightarrow>
            let ss1 = ss @ (case sent (stmt_path End) of None \<Rightarrow> [] | Some txt \<Rightarrow> [txt])
            in case outcome of
                 Inl e \<Rightarrow> failed_with e 1 ss1
               | Inr txt \<Rightarrow> \<lparr>rx_error = None, rx_exit = 0, rx_stdout = txt, rx_sent = ss1\<rparr>)"

section \<open>What is sent\<close>

definition stmt_text :: "review_stmt \<Rightarrow> jstring" where
  "stmt_text s = (case s of Begin \<Rightarrow> js ''BEGIN ISOLATION LEVEL REPEATABLE READ READ ONLY''
     | Ask q \<Rightarrow> js (sql_text q) | End \<Rightarrow> js ''ROLLBACK'')"

lemma sent_stmt [simp]: "sent (stmt_path s) = Some (stmt_text s)"
  by (cases s) (simp_all add: stmt_path_def stmt_text_def guard_passes TXN_def)

lemma send_stmts_sends:
  "\<exists>k e. send_stmts run a before ss = (e, before @ map stmt_text (take k ss)) \<and> (\<forall>s. e \<noteq> Some (Refused s)) \<and>
    (if e = None then k = length ss else k \<noteq> 0)"
proof (induction ss arbitrary: before)
  case (Cons s ss)
  show ?case
  proof (cases "stmt_fails run a (length before) s")
    case True
    then show ?thesis by (intro exI [of _ 1] exI [of _ "Some (Failed s)"]) simp
  next
    case False
    from Cons.IH [of "before @ [stmt_text s]"] obtain k e where
      "send_stmts run a (before @ [stmt_text s]) ss = (e, (before @ [stmt_text s]) @ map stmt_text (take k ss))"
      "\<forall>s. e \<noteq> Some (Refused s)" "if e = None then k = length ss else k \<noteq> 0" by blast
    with False show ?thesis by (intro exI [of _ "Suc k"] exI [of _ e]) (simp split: if_splits)
  qed
qed simp

lemma send_stmts_clean: "(\<forall>i. \<not> rr_fails run i) \<Longrightarrow> page_limit (pageSize a) \<noteq> None \<Longrightarrow>
    send_stmts run a before ss = (None, before @ map stmt_text ss)"
  by (induction ss arbitrary: before) (simp_all add: stmt_fails_def)

lemma body_sends:
  "\<exists>k. snd (review_body env run a d) =
     stmt_text Begin # map stmt_text (map Ask (take k (ReadOnlyCheck # review_queries a (rr_columns run) d))) \<and>
   (\<forall>s. fst (review_body env run a d) \<noteq> Inl (Refused s))"
proof -
  obtain k e where first: "send_stmts run a [] [Begin, Ask ReadOnlyCheck] = (e, map stmt_text (take k [Begin, Ask ReadOnlyCheck]))"
    "\<forall>s. e \<noteq> Some (Refused s)" "if e = None then k = length [Begin, Ask ReadOnlyCheck] else k \<noteq> 0"
    using send_stmts_sends [of run a "[]" "[Begin, Ask ReadOnlyCheck]"] unfolding append_Nil by blast
  show ?thesis
  proof (cases "e = None \<and> rr_read_only run")
    case False
    with first show ?thesis
      by (intro exI [of _ "min (k - 1) 1"]) (cases e; cases k; auto simp: review_body_def take_Cons' split: if_splits)
  next
    case True
    let ?before = "map stmt_text [Begin, Ask ReadOnlyCheck]"
    obtain m e1 where "send_stmts run a ?before (map Ask (review_queries a (rr_columns run) d)) =
        (e1, ?before @ map stmt_text (take m (map Ask (review_queries a (rr_columns run) d))))"
      "\<forall>s. e1 \<noteq> Some (Refused s)"
      using send_stmts_sends by blast
    with True first show ?thesis
      by (intro exI [of _ "Suc m"]) (cases e1; simp add: review_body_def take_map split: prod.split)
  qed
qed

definition report_of :: "report_env \<Rightarrow> review_run \<Rightarrow> cli_args \<Rightarrow> db \<Rightarrow> jstring" where
  "report_of env run a d = (case rows_read a d of (agg, xs) \<Rightarrow> report_text env a (rr_columns run) agg xs d)"

lemma body_clean:
  assumes "\<forall>i. \<not> rr_fails run i" and "page_limit (pageSize a) \<noteq> None" and "rr_read_only run"
  shows "review_body env run a d = (Inr (report_of env run a d),
    map stmt_text (Begin # map Ask (ReadOnlyCheck # review_queries a (rr_columns run) d)))"
  using assms by (simp add: review_body_def send_stmts_clean stmt_fails_def report_of_def comp_def split: prod.split)

text \<open>
  C20. The review only reads. Whatever its arguments, the database and the statements that fail, a
  run sends nothing, or the opening of a read-only transaction, then texts of the review, each of
  which the guard accepts, and last the rollback, also when a statement failed. The guard refuses
  none of the review's own texts, a run that did not succeed prints no report, and one that was
  given its arguments and a database that answers ends with the report of what it read.
\<close>

theorem review_session_read_only:
  assumes "x = review_main env run d"
  shows "(rx_sent x = [] \<or> (\<exists>qs. rx_sent x = js ''BEGIN ISOLATION LEVEL REPEATABLE READ READ ONLY'' #
      map (\<lambda>q. js (sql_text q)) qs @ [js ''ROLLBACK''] \<and> (\<forall>q \<in> set qs. assertSelectOnly (js (sql_text q)) = None))) \<and>
    (\<forall>s. rx_error x \<noteq> Some (Refused s)) \<and> (rx_error x = None \<longleftrightarrow> rx_exit x = 0) \<and> (rx_exit x = 0 \<or> rx_stdout x = []) \<and>
    (\<forall>a. parseArgs (rr_number run) (rr_date run) (rr_now run) (rr_argv run) = Inr a \<longrightarrow>
      page_limit (pageSize a) \<noteq> None \<longrightarrow> \<not> blank (orelse (rr_audit_url run) (rr_database_url run)) \<longrightarrow>
      rr_connects run \<longrightarrow> rr_read_only run \<longrightarrow> (\<forall>i. \<not> rr_fails run i) \<longrightarrow>
      rx_exit x = 0 \<and> rx_stdout x = report_of env run a d)"
proof (cases "parseArgs (rr_number run) (rr_date run) (rr_now run) (rr_argv run)")
  case (Inl e)
  with assms show ?thesis by (simp add: review_main_def failed_with_def)
next
  case (Inr a)
  show ?thesis
  proof (cases "\<not> blank (orelse (rr_audit_url run) (rr_database_url run)) \<and> rr_connects run")
    case False
    with Inr assms show ?thesis by (auto simp: review_main_def failed_with_def)
  next
    case True
    obtain k where k: "snd (review_body env run a d) =
        stmt_text Begin # map stmt_text (map Ask (take k (ReadOnlyCheck # review_queries a (rr_columns run) d)))"
      "\<forall>s. fst (review_body env run a d) \<noteq> Inl (Refused s)" using body_sends by blast
    let ?qs = "take k (ReadOnlyCheck # review_queries a (rr_columns run) d)"
    have x: "x = (let ss = snd (review_body env run a d) @ [stmt_text End] in case fst (review_body env run a d) of
        Inl e \<Rightarrow> failed_with e 1 ss | Inr txt \<Rightarrow> \<lparr>rx_error = None, rx_exit = 0, rx_stdout = txt, rx_sent = ss\<rparr>)"
      using assms Inr True by (cases "review_body env run a d") (simp add: review_main_def Let_def)
    have "rx_sent x = stmt_text Begin # map (\<lambda>q. stmt_text (Ask q)) ?qs @ [stmt_text End]"
      unfolding x Let_def k(1) by (simp add: failed_with_def comp_def split: sum.split)
    then have "\<exists>qs. rx_sent x = js ''BEGIN ISOLATION LEVEL REPEATABLE READ READ ONLY'' # map (\<lambda>q. js (sql_text q)) qs @ [js ''ROLLBACK''] \<and>
        (\<forall>q \<in> set qs. assertSelectOnly (js (sql_text q)) = None)"
      by (intro exI [of _ ?qs]) (simp add: stmt_text_def guard_passes)
    moreover have "\<forall>s. rx_error x \<noteq> Some (Refused s)" "rx_error x = None \<longleftrightarrow> rx_exit x = 0" "rx_exit x = 0 \<or> rx_stdout x = []"
      using k(2) by (auto simp: x Let_def failed_with_def split: sum.split)
    moreover have "rx_exit x = 0 \<and> rx_stdout x = report_of env run a d"
      if "page_limit (pageSize a) \<noteq> None" "rr_read_only run" "\<forall>i. \<not> rr_fails run i"
      using body_clean [OF that(3,1,2), of env d] by (simp add: x Let_def)
    ultimately show ?thesis using Inr by simp
  qed
qed

definition demo_report_env :: report_env where
  "demo_report_env = \<lparr>rv_url = (\<lambda>_. None), rv_join = (\<lambda>_. []), rv_iso = (\<lambda>_. js ''t''), rv_num = (\<lambda>_. js ''1''),
     rv_rank = (\<lambda>_. 0), rv_day = id\<rparr>"

definition demo_run :: review_run where
  "demo_run = \<lparr>rr_argv = demo_review_args, rr_number = (\<lambda>s. if s = js ''2'' then Some 2 else None), rr_date = (\<lambda>s. Some 0), rr_now = 10,
     rr_audit_url = None, rr_database_url = Some (js ''postgres:''), rr_connects = True, rr_read_only = True,
     rr_columns = [(''admin_audit_log'', ''actor_id'')], rr_fails = (\<lambda>_. False)\<rparr>"

theorem review_session_read_only_witness:
  "rx_exit (review_main demo_report_env demo_run (empty_db\<lparr>admin_audit_log := demo_audit_table\<rparr>)) = 0"
  using review_session_read_only [OF refl, of demo_report_env demo_run "empty_db\<lparr>admin_audit_log := demo_audit_table\<rparr>"]
    demo_review_parsed by (simp add: demo_run_def page_limit_def)

end
