(* ===== verification/Review_Privacy.thy ===== *)
theory Review_Privacy
  imports Review_Session
begin

text \<open>
  What the audit review does not print: two databases that differ only in what it must not show give
  the same run.
\<close>

section \<open>What is not printed\<close>

text \<open>
  A view of a table is a list with, per row, what may reach the output. Two tables with the same view
  stay so under the queries' filters, sorts and limits.
\<close>

lemma same_map:
  assumes "map v s = map v t" and "\<And>x y. v x = v y \<Longrightarrow> f x = f y"
  shows "map f s = map f t"
proof -
  have "list_all2 (\<lambda>x y. v x = v y) s t" using assms(1) by (simp add: list_all2_conv_all_nth list_eq_iff_nth_eq)
  then have "list_all2 (\<lambda>x y. f x = f y) s t" by (rule list_all2_mono) (rule assms(2))
  then show ?thesis by (induction rule: list_all2_induct) auto
qed

lemma same_filter:
  assumes "map v s = map v t" and "\<And>x y. v x = v y \<Longrightarrow> p x \<longleftrightarrow> p y"
  shows "map v (filter p s) = map v (filter p t)"
  using assms(1)
proof (induction s arbitrary: t)
  case (Cons x s)
  then obtain y t' where t: "t = y # t'" "v x = v y" "map v s = map v t'" by (cases t) auto
  from assms(2) [OF t(2)] Cons.IH [OF t(3)] t show ?case by simp
qed simp

lemma same_insort:
  assumes "map v s = map v t" and "v x = v y" and "\<And>x y. v x = v y \<Longrightarrow> k x = k y"
  shows "map v (insort_key k x s) = map v (insort_key k y t)"
  using assms(1)
proof (induction s arbitrary: t)
  case Nil
  with assms(2) show ?case by simp
next
  case (Cons a s)
  then obtain b t' where t: "t = b # t'" "v a = v b" "map v s = map v t'" by (cases t) auto
  from assms(3) [OF t(2)] assms(3) [OF assms(2)] assms(2) Cons.IH [OF t(3)] t show ?case by simp
qed

lemma same_sort:
  assumes "map v s = map v t" and "\<And>x y. v x = v y \<Longrightarrow> k x = k y"
  shows "map v (sort_key k s) = map v (sort_key k t)"
  using assms(1)
proof (induction s arbitrary: t)
  case (Cons x s)
  then obtain y t' where t: "t = y # t'" "v x = v y" "map v s = map v t'" by (cases t) auto
  from same_insort [of v _ _ x y k, OF Cons.IH [OF t(3)] t(2) assms(2)] show ?case
    by (simp add: sort_key_def t(1))
qed simp

lemma same_take: "map v s = map v t \<Longrightarrow> map v (take n s) = map v (take n t)"
  by (simp add: take_map [symmetric])

lemma same_length: "map v s = map v t \<Longrightarrow> length s = length t"
  by (metis length_map)

lemma same_oldest:
  assumes "map v s = map v t" and "\<And>x y. v x = v y \<Longrightarrow> k x = k y"
  shows "map v (oldest_first a k n s) = map v (oldest_first a k n t)"
proof -
  have "(cli_since a \<le> k x \<and> k x < cli_until a) = (cli_since a \<le> k y \<and> k y < cli_until a)" if "v x = v y" for x y
    using assms(2) [OF that] by simp
  from same_take [OF same_sort [OF same_filter [OF assms(1) this] assms(2)]] show ?thesis
    by (simp add: oldest_first_def in_window_def)
qed

text \<open>What may be shown of a URL, and of the details of an audit row.\<close>

definition url_shape :: "report_env \<Rightarrow> jstring \<Rightarrow> (jstring \<times> jstring \<times> jstring \<times> bool) option" where
  "url_shape env u = map_option (\<lambda>(protocol, host, path, search). (protocol, host, path, search \<noteq> [])) (rv_url env u)"

definition url_host :: "report_env \<Rightarrow> jstring \<Rightarrow> jstring option" where
  "url_host env u = map_option (\<lambda>(protocol, host, path, search). host) (rv_url env u)"

definition safe_fields :: "report_env \<Rightarrow> json \<Rightarrow>
    (jstring \<times> jstring \<times> jstring \<times> bool) option option \<times> json list option \<times> jstring option list \<times> jstring option" where
  "safe_fields env d =
     (map_option (url_shape env) (as_string (get d ''url'')),
      case get d ''events'' of Some (JArr vs) \<Rightarrow> Some vs | _ \<Rightarrow> None,
      map (\<lambda>k. as_string (get d k)) [''reason'', ''namespace'', ''aid'', ''issuerUrl'', ''issuer_url'', ''label''],
      nonempty_string (get d ''client_ip''))"

lemma redact_same: "url_shape env u = url_shape env v \<Longrightarrow> redactUrl (review_env.truncate env) u = redactUrl (review_env.truncate env) v"
  by (auto simp: url_shape_def redactUrl_def review_env.defs split: option.splits)

lemma host_same: "url_host env u = url_host env v \<Longrightarrow> hostOf env u = hostOf env v"
  by (auto simp: url_host_def hostOf_def split: option.splits)

lemma details_same:
  assumes "safe_fields env (aa_details r) = safe_fields env (aa_details r')"
  shows "safeDetails (review_env.truncate env) r = safeDetails (review_env.truncate env) r'" "recorded_ip r = recorded_ip r'"
proof -
  let ?d = "aa_details r" and ?e = "aa_details r'"
  let ?env = "review_env.truncate env"
  have url: "detail_part ?d ''url'' (redactUrl ?env) = detail_part ?e ''url'' (redactUrl ?env)"
  proof -
    have "map_option (url_shape env) (as_string (get ?d ''url'')) = map_option (url_shape env) (as_string (get ?e ''url''))"
      using assms by (simp add: safe_fields_def)
    then show ?thesis
      by (cases "as_string (get ?d ''url'')"; cases "as_string (get ?e ''url'')") (auto simp: detail_part_def dest: redact_same)
  qed
  have part: "detail_part ?d k f = detail_part ?e k f"
    if "k \<in> {''reason'', ''namespace'', ''aid'', ''issuerUrl'', ''issuer_url'', ''label''}" for k f
    using assms that by (auto simp: safe_fields_def detail_part_def)
  have events: "(case get ?d ''events'' of Some (JArr vs) \<Rightarrow> [js ''events='' @ rv_join ?env vs] | _ \<Rightarrow> []) =
      (case get ?e ''events'' of Some (JArr vs) \<Rightarrow> [js ''events='' @ rv_join ?env vs] | _ \<Rightarrow> [])"
  proof -
    have "(case v of Some (JArr vs) \<Rightarrow> [js ''events='' @ rv_join ?env vs] | _ \<Rightarrow> []) =
        (case (case v of Some (JArr vs) \<Rightarrow> Some vs | _ \<Rightarrow> None) of None \<Rightarrow> [] | Some vs \<Rightarrow> [js ''events='' @ rv_join ?env vs])" for v
      by (simp split: option.split json.split)
    then show ?thesis using assms by (simp add: safe_fields_def)
  qed
  show "safeDetails ?env r = safeDetails ?env r'"
    unfolding safeDetails_def Let_def url events by (simp add: part)
  show "recorded_ip r = recorded_ip r'" using assms by (simp add: recorded_ip_def safe_fields_def)
qed

definition hook_view :: "report_env \<Rightarrow> webhook \<Rightarrow> _" where
  "hook_view env h = (url_shape env (wh_url h), wh_id h, wh_events h, wh_active h, wh_createdAt h)"

lemma hooks_same:
  assumes "map (hook_view env) s = map (hook_view env) t"
  shows "hooks_lines env a s = hooks_lines env a t" "hooks_json env a s = hooks_json env a t"
proof -
  have o: "map (hook_view env) (oldest_first a wh_createdAt 1000 s) = map (hook_view env) (oldest_first a wh_createdAt 1000 t)"
    by (rule same_oldest [OF assms]) (simp add: hook_view_def)
  have active: "count_where wh_active s = count_where wh_active t"
    using same_length [OF same_filter [OF assms, of wh_active]] by (simp add: count_where_def hook_view_def)
  have rows: "map (hook_row env) (oldest_first a wh_createdAt 1000 s) = map (hook_row env) (oldest_first a wh_createdAt 1000 t)"
    by (rule same_map [OF o]) (auto simp: hook_row_def hook_view_def dest: redact_same)
  then show "hooks_lines env a s = hooks_lines env a t"
    using active same_length [OF assms] same_length [OF o] by (simp add: hooks_lines_def len_str_def Let_def)
  show "hooks_json env a s = hooks_json env a t"
    unfolding hooks_json_def by (rule arg_cong [of _ _ JArr], rule same_map [OF o]) (auto simp: hook_view_def dest: redact_same)
qed

definition anchor_view :: "report_env \<Rightarrow> trust_anchor \<Rightarrow> _" where
  "anchor_view env x = (url_shape env (ta_issuerUrl x), ta_createdAt x, ta_namespace x, ta_addedBy x)"

lemma anchors_same:
  assumes "map (anchor_view env) s = map (anchor_view env) t"
  shows "anchors_lines env a s = anchors_lines env a t"
    "length (oldest_first a ta_createdAt 1000 s) = length (oldest_first a ta_createdAt 1000 t)"
proof -
  have o: "map (anchor_view env) (oldest_first a ta_createdAt 1000 s) = map (anchor_view env) (oldest_first a ta_createdAt 1000 t)"
    by (rule same_oldest [OF assms]) (simp add: anchor_view_def)
  then show len: "length (oldest_first a ta_createdAt 1000 s) = length (oldest_first a ta_createdAt 1000 t)" by (rule same_length)
  have "map (anchor_line env) (oldest_first a ta_createdAt 1000 s) = map (anchor_line env) (oldest_first a ta_createdAt 1000 t)"
    by (rule same_map [OF o]) (auto simp: anchor_line_def anchor_view_def dest: redact_same)
  with len show "anchors_lines env a s = anchors_lines env a t" by (simp add: anchors_lines_def len_str_def Let_def)
qed

definition pin_view :: "pinned_key \<Rightarrow> instant \<times> jstring \<times> jstring \<times> jstring option" where
  "pin_view x = (pk_createdAt x, pk_namespace x, pk_aid x, pk_addedBy x)"

lemma pins_same:
  assumes "map pin_view s = map pin_view t"
  shows "pins_lines env a s = pins_lines env a t"
    "length (oldest_first a pk_createdAt 1000 s) = length (oldest_first a pk_createdAt 1000 t)"
proof -
  have o: "map pin_view (oldest_first a pk_createdAt 1000 s) = map pin_view (oldest_first a pk_createdAt 1000 t)"
    by (rule same_oldest [OF assms]) (simp add: pin_view_def)
  then show len: "length (oldest_first a pk_createdAt 1000 s) = length (oldest_first a pk_createdAt 1000 t)" by (rule same_length)
  have "map (pin_line env) (oldest_first a pk_createdAt 1000 s) = map (pin_line env) (oldest_first a pk_createdAt 1000 t)"
    by (rule same_map [OF o]) (simp add: pin_line_def pin_view_def)
  with len show "pins_lines env a s = pins_lines env a t" by (simp add: pins_lines_def len_str_def Let_def)
qed

definition event_view :: "audit_event_row \<Rightarrow> (jstring \<times> jstring) \<times> instant" where
  "event_view e = (event_kind e, ev_createdAt e)"

lemma bounds_same:
  assumes "map v s = map v t" and "\<And>x y. v x = v y \<Longrightarrow> f x = f y"
  shows "bounds f s = bounds f t"
  using same_map [OF assms] same_length [OF assms(1)] by (auto simp: bounds_def)

lemma events_same:
  assumes "map event_view s = map event_view t"
  shows "eventsByType a s = eventsByType a t" "bounds ev_createdAt s = bounds ev_createdAt t"
proof -
  have at: "event_view x = event_view y \<Longrightarrow> ev_createdAt x = ev_createdAt y" for x y by (simp add: event_view_def)
  have kind: "event_view x = event_view y \<Longrightarrow> event_kind x = event_kind y" for x y by (simp add: event_view_def)
  show "bounds ev_createdAt s = bounds ev_createdAt t" by (rule bounds_same [OF assms at])
  have w: "map event_view (in_window a ev_createdAt s) = map event_view (in_window a ev_createdAt t)"
    unfolding in_window_def by (rule same_filter [OF assms]) (simp add: event_view_def)
  have b: "bounds ev_createdAt (filter (\<lambda>e. event_kind e = k) (in_window a ev_createdAt s)) =
      bounds ev_createdAt (filter (\<lambda>e. event_kind e = k) (in_window a ev_createdAt t))" for k
    by (rule bounds_same [OF same_filter [OF w] at]) (simp add: event_view_def)
  have g: "group_counts event_kind (in_window a ev_createdAt s) = group_counts event_kind (in_window a ev_createdAt t)"
  proof -
    have "count_where (\<lambda>e. event_kind e = k) (in_window a ev_createdAt s) = count_where (\<lambda>e. event_kind e = k) (in_window a ev_createdAt t)" for k
      using b [of k] by (simp add: bounds_def count_where_def)
    then show ?thesis by (simp add: group_counts_def same_map [OF w kind])
  qed
  show "eventsByType a s = eventsByType a t" unfolding eventsByType_def Let_def g b ..
qed

definition agent_view :: "report_env \<Rightarrow> agent \<Rightarrow> _" where
  "agent_view env x = (url_host env (ag_handshakeEndpoint x), ag_aid x, ag_displayName x, ag_namespace x, ag_org x, ag_status x,
     ag_registeredAt x, ag_lastEnrolledAt x)"

lemma offset_pages_same:
  "map v s = map v t \<Longrightarrow> map_option (map (map v)) (offset_pages n s k) = map_option (map (map v)) (offset_pages n t k)"
proof (induction n s k rule: offset_pages.induct)
  case (1 n s k)
  have pg: "map v (take n (drop k s)) = map v (take n (drop k t))" using 1(2) by (simp add: take_map [symmetric] drop_map [symmetric])
  have len: "length (take n (drop k s)) = length (take n (drop k t))" using pg by (rule same_length)
  show ?case
  proof (cases "length (take n (drop k s)) < n \<or> n = 0")
    case True
    with pg len show ?thesis by (subst (1 2) offset_pages.simps) (auto simp: Let_def)
  next
    case False
    then have "map_option (map (map v)) (offset_pages n s (k + n)) = map_option (map (map v)) (offset_pages n t (k + n))"
      using 1 by simp
    with False pg len show ?thesis
      by (subst (1 2) offset_pages.simps) (cases "offset_pages n s (k + n)"; cases "offset_pages n t (k + n)"; simp add: Let_def)
  qed
qed

lemma agents_same:
  assumes "map (agent_view env) s = map (agent_view env) t"
  shows "map_option (map (map (agent_view env))) (offset_pages n (agents_in_range since until s) k) =
    map_option (map (map (agent_view env))) (offset_pages n (agents_in_range since until t) k)"
  unfolding agents_in_range_def
  by (intro offset_pages_same same_sort same_filter assms) (simp_all add: agent_view_def)

lemma agent_rows_same:
  assumes "map (agent_view env) s = map (agent_view env) t"
  shows "agents_lines env a s = agents_lines env a t" "agents_json env s = agents_json env t"
proof -
  have "map (agent_row env) (shown a s) = map (agent_row env) (shown a t)"
    unfolding shown_def by (rule same_map [OF same_take [OF assms]]) (auto simp: agent_row_def agent_view_def dest: host_same)
  then show "agents_lines env a s = agents_lines env a t"
    using same_length [OF assms] by (simp add: agents_lines_def len_str_def too_many_def left_out_def)
  show "agents_json env s = agents_json env t"
    unfolding agents_json_def by (rule arg_cong [of _ _ JArr], rule same_map [OF assms]) (auto simp: agent_view_def dest: host_same)
qed

definition audit_view :: "report_env \<Rightarrow> admin_audit_row \<Rightarrow> _" where
  "audit_view env r = (safe_fields env (aa_details r), audit_key r, aa_action r, aa_actorId r, aa_targetId r, aa_requestId r)"

lemma audit_pages_same:
  "map (audit_view env) s = map (audit_view env) t \<Longrightarrow>
    map_option (map (map (audit_view env))) (review_pages since until n s c) =
    map_option (map (map (audit_view env))) (review_pages since until n t c)"
proof (induction since until n s c rule: review_pages.induct)
  case (1 since until n s c)
  let ?v = "audit_view env"
  have key: "?v x = ?v y \<Longrightarrow> audit_key x = audit_key y" for x y by (simp add: audit_view_def)
  have pg: "map ?v (adminAuditPage since until c n s) = map ?v (adminAuditPage since until c n t)"
    unfolding adminAuditPage_def
    by (intro same_take same_sort same_filter 1(2))
      (auto simp: audit_view_def in_review_def behind_def audit_key_def split: option.splits)
  let ?p = "adminAuditPage since until c n s" and ?q = "adminAuditPage since until c n t"
  have len: "length ?p = length ?q" using pg by (rule same_length)
  show ?case
  proof (cases "length ?p < n \<or> ?p = []")
    case True
    with pg len show ?thesis by (subst (1 2) review_pages.simps) (auto simp: Let_def)
  next
    case False
    then have ne: "?p \<noteq> []" "?q \<noteq> []" using len by auto
    have "?v (last ?p) = ?v (last ?q)" using arg_cong [OF pg, of last] ne by (simp add: last_map)
    then have k: "audit_key (last ?p) = audit_key (last ?q)" by (rule key)
    have "map_option (map (map ?v)) (review_pages since until n s (Some (audit_key (last ?p)))) =
        map_option (map (map ?v)) (review_pages since until n t (Some (audit_key (last ?q))))"
      using 1 False k by simp
    with False ne pg len show ?thesis
      by (subst (1 2) review_pages.simps)
        (cases "review_pages since until n s (Some (audit_key (last ?p)))";
         cases "review_pages since until n t (Some (audit_key (last ?q)))"; simp add: Let_def)
  qed
qed

definition agg_view :: "report_env \<Rightarrow> aggregator \<Rightarrow> _" where
  "agg_view env s = ((agg_groups s, agg_actions s, agg_total s, agg_withActor s, agg_withIp s, agg_withRequestId s),
     map (audit_view env) (agg_flagged s))"

lemma agg_same:
  assumes "map (audit_view env) rows = map (audit_view env) rows'" and "agg_view env s = agg_view env s'"
  shows "agg_view env (fold (agg_add known) rows s) = agg_view env (fold (agg_add known) rows' s')"
  using assms
proof (induction rows arbitrary: rows' s s')
  case (Cons r rows)
  then obtain r' rs' where t: "rows' = r' # rs'" "audit_view env r = audit_view env r'"
    "map (audit_view env) rows = map (audit_view env) rs'" by (cases rows') auto
  have "agg_view env (agg_add known r s) = agg_view env (agg_add known r' s')"
    using Cons.prems(2) t(2) details_same(2) [of env r r']
    by (simp add: agg_view_def agg_add_def audit_view_def group_of_def sourceIpOf_def)
  from Cons.IH [OF t(3) this] t(1) show ?case by simp
qed simp

lemma audit_output_same:
  assumes "agg_view env s = agg_view env s'" and "map (audit_view env) t = map (audit_view env) t'"
  shows "audit_lines env a s t = audit_lines env a s' t'" "audit_json env s = audit_json env s'"
proof -
  have agg: "agg_groups s = agg_groups s'" "agg_actions s = agg_actions s'" "agg_total s = agg_total s'"
    "agg_withActor s = agg_withActor s'" "agg_withIp s = agg_withIp s'" "agg_withRequestId s = agg_withRequestId s'"
    and f: "map (audit_view env) (agg_flagged s) = map (audit_view env) (agg_flagged s')"
    using assms(1) by (simp_all add: agg_view_def)
  have b: "bounds aa_createdAt t = bounds aa_createdAt t'"
    by (rule bounds_same [OF assms(2)]) (simp add: audit_view_def audit_key_def)
  have rows: "map (flagged_row env) (flagged_shown a s) = map (flagged_row env) (flagged_shown a s')"
    unfolding flagged_shown_def
    by (rule same_map [OF same_take [OF f]]) (auto simp: flagged_row_def audit_view_def audit_key_def dest: details_same(1))
  show "audit_lines env a s t = audit_lines env a s' t'"
    using same_length [OF f] by (simp add: audit_lines_def agg byAction_def grouped_def rows overall_text_def b len_str_def too_many_def
        left_out_def)
  have "map (\<lambda>r. jobj [(''at'', jfmt env (Some (aa_createdAt r))), (''action'', JStr (aa_action r)),
         (''actor'', jopt (aa_actorId r)), (''target'', jopt (aa_targetId r)),
         (''details'', JStr (safeDetails (review_env.truncate env) r))]) (agg_flagged s) =
      map (\<lambda>r. jobj [(''at'', jfmt env (Some (aa_createdAt r))), (''action'', JStr (aa_action r)),
         (''actor'', jopt (aa_actorId r)), (''target'', jopt (aa_targetId r)),
         (''details'', JStr (safeDetails (review_env.truncate env) r))]) (agg_flagged s')"
    by (rule same_map [OF f]) (auto simp: audit_view_def audit_key_def dest: details_same(1))
  then show "audit_json env s = audit_json env s'" by (simp add: audit_json_def agg byAction_def grouped_def)
qed

lemma pages_same:
  assumes "map_option (map (map v)) p = map_option (map (map v)) q"
  shows "map_option (map v) (map_option concat p) = map_option (map v) (map_option concat q)" "map_option length p = map_option length q"
proof -
  have "map_option (map v) (map_option concat p) = map_option concat (map_option (map (map v)) p)" for p
    by (cases p) (simp_all add: map_concat)
  with assms show "map_option (map v) (map_option concat p) = map_option (map v) (map_option concat q)" by metis
  show "map_option length p = map_option length q"
    using assms by (cases p; cases q) (auto dest: same_length)
qed

lemma page_count_same: "(\<And>n. map_option length (f n) = map_option length (g n)) \<Longrightarrow> page_count a f = page_count a g"
proof -
  assume same: "\<And>n. map_option length (f n) = map_option length (g n)"
  have "(case f n of None \<Rightarrow> 0 | Some ps \<Rightarrow> length ps) = (case g n of None \<Rightarrow> 0 | Some ps \<Rightarrow> length ps)" for n
    using same [of n] by (cases "f n"; cases "g n") simp_all
  then show ?thesis by (cases "page_limit (pageSize a)") (simp_all add: page_count_def)
qed

definition same_for_review :: "report_env \<Rightarrow> db \<Rightarrow> db \<Rightarrow> bool" where
  "same_for_review env d d' \<longleftrightarrow>
     map (audit_view env) (admin_audit_log d) = map (audit_view env) (admin_audit_log d') \<and>
     map event_view (audit_events d) = map event_view (audit_events d') \<and>
     map (agent_view env) (agents d) = map (agent_view env) (agents d') \<and>
     map (hook_view env) (webhooks d) = map (hook_view env) (webhooks d') \<and>
     revocation_entries d = revocation_entries d' \<and> enrollment_jtis d = enrollment_jtis d' \<and>
     map (anchor_view env) (trust_anchors d) = map (anchor_view env) (trust_anchors d') \<and>
     map pin_view (pinned_keys d) = map pin_view (pinned_keys d')"

lemma queries_same:
  assumes "same_for_review env d d'"
  shows "review_queries a cols d = review_queries a cols d'"
proof -
  from assms have audit: "map (audit_view env) (admin_audit_log d) = map (audit_view env) (admin_audit_log d')"
    and ags: "map (agent_view env) (agents d) = map (agent_view env) (agents d')" by (simp_all add: same_for_review_def)
  show ?thesis
    by (simp add: review_queries_def page_count_same [OF pages_same(2) [OF audit_pages_same [OF audit]]]
        page_count_same [OF pages_same(2) [OF agents_same [OF ags]]])
qed

lemma rows_read_same:
  assumes "same_for_review env d d'" and "rows_read a d = (agg, xs)" and "rows_read a d' = (agg', xs')"
  shows "agg_view env agg = agg_view env agg'" "map (agent_view env) xs = map (agent_view env) xs'"
proof -
  from assms(1) have audit: "map (audit_view env) (admin_audit_log d) = map (audit_view env) (admin_audit_log d')"
    and ags: "map (agent_view env) (agents d) = map (agent_view env) (agents d')" by (simp_all add: same_for_review_def)
  have rows: "map_option (map (audit_view env)) (review_rows s u n (admin_audit_log d)) =
      map_option (map (audit_view env)) (review_rows s u n (admin_audit_log d'))" for s u n
    unfolding review_rows_def by (rule pages_same(1) [OF audit_pages_same [OF audit]])
  have ags_read: "map_option (map (agent_view env)) (review_agents s u n (agents d)) =
      map_option (map (agent_view env)) (review_agents s u n (agents d'))" for s u n
    unfolding review_agents_def by (rule pages_same(1) [OF agents_same [OF ags]])
  have agg: "agg_view env (case review k s u n (admin_audit_log d) of None \<Rightarrow> new_aggregator | Some x \<Rightarrow> x) =
      agg_view env (case review k s u n (admin_audit_log d') of None \<Rightarrow> new_aggregator | Some x \<Rightarrow> x)" for k s u n
  proof (cases "review_rows s u n (admin_audit_log d)")
    case None
    then have "review_rows s u n (admin_audit_log d') = None" using rows [of s u n] by simp
    with None show ?thesis by (simp add: review_def)
  next
    case (Some r)
    then obtain r' where r': "review_rows s u n (admin_audit_log d') = Some r'" "map (audit_view env) r = map (audit_view env) r'"
      using rows [of s u n] by (cases "review_rows s u n (admin_audit_log d')") auto
    from agg_same [OF r'(2) refl, of k new_aggregator] Some r'(1) show ?thesis by (simp add: review_def)
  qed
  have xs: "map (agent_view env) (case review_agents s u n (agents d) of None \<Rightarrow> [] | Some x \<Rightarrow> x) =
      map (agent_view env) (case review_agents s u n (agents d') of None \<Rightarrow> [] | Some x \<Rightarrow> x)" for s u n
    using ags_read [of s u n] by (cases "review_agents s u n (agents d)"; cases "review_agents s u n (agents d')") auto
  show "agg_view env agg = agg_view env agg'" "map (agent_view env) xs = map (agent_view env) xs'"
    using assms(2,3) by (cases "page_limit (pageSize a)"; auto simp: rows_read_def agg xs)+
qed

lemma report_same:
  assumes "same_for_review env d d'" and "rows_read a d = (agg, xs)" and "rows_read a d' = (agg', xs')"
  shows "report_text env a cols agg xs d = report_text env a cols agg' xs' d'"
proof -
  note same = assms(1) [unfolded same_for_review_def]
  from same have audit: "map (audit_view env) (admin_audit_log d) = map (audit_view env) (admin_audit_log d')" by blast
  from same have events: "map event_view (audit_events d) = map event_view (audit_events d')" by blast
  from same have hooks: "map (hook_view env) (webhooks d) = map (hook_view env) (webhooks d')" by blast
  from same have anchors: "map (anchor_view env) (trust_anchors d) = map (anchor_view env) (trust_anchors d')" by blast
  from same have pins: "map pin_view (pinned_keys d) = map pin_view (pinned_keys d')" by blast
  have rest: "revocation_entries d = revocation_entries d'" "enrollment_jtis d = enrollment_jtis d'" using same by blast+
  have ev_lines: "events_lines env a (audit_events d) = events_lines env a (audit_events d')"
    unfolding events_lines_def overall_text_def events_same [OF events] ..
  have ev_json: "events_json env a (audit_events d) = events_json env a (audit_events d')"
    unfolding events_json_def events_same [OF events] ..
  note outs = audit_output_same [OF rows_read_same(1) [OF assms] audit] ev_lines ev_json agent_rows_same [OF rows_read_same(2) [OF assms]]
    hooks_same [OF hooks] anchors_same [OF anchors] pins_same [OF pins] rest
  have "report_lines env a cols agg xs d = report_lines env a cols agg' xs' d'"
    unfolding report_lines_def outs ..
  moreover have "report_json env a cols agg xs d = report_json env a cols agg' xs' d'"
    unfolding report_json_def outs ..
  ultimately show ?thesis by (simp add: report_text_def)
qed


definition demo_hook :: "string \<Rightarrow> string \<Rightarrow> webhook" where
  "demo_hook url secret = \<lparr>wh_id = js ''w'', wh_url = js url, wh_events = [], wh_secret = js secret, wh_active = True,
     wh_createdAt = 3, wh_updatedAt = 3\<rparr>"

definition query_env :: report_env where
  "query_env = demo_report_env\<lparr>rv_url := (\<lambda>u. Some (js ''https:'', js ''h'', js ''/'', drop 10 u))\<rparr>"


end
