(* ===== verification/Request_Error.thy ===== *)
theory Request_Error
  imports Http_Model
begin

text \<open>
  What the server logs about an unhandled fault of a route, \<open>src/src/lib/request-error.ts\<close>, the body
  of the \<open>onRequestError\<close> hook of \<open>instrumentation.ts\<close>. Headers come as Node gives them: a name maps
  to one value or to a list of them. The error value itself is opaque; a logger or a tracer that
  throws is swallowed.
\<close>

definition MAX_LOGGED_REQUEST_ID :: nat where "MAX_LOGGED_REQUEST_ID = 200"

datatype header_value = Single jstring | Several "jstring list"

record request_error_request =
  re_path :: jstring
  re_method :: jstring
  re_headers :: "jstring \<rightharpoonup> header_value"

datatype router_kind = PagesRouter | AppRouter
datatype route_type = Render | Route | Action | ProxyRoute
datatype revalidate = OnDemand | Stale

record request_error_context =
  routerKind :: router_kind
  routePath :: jstring
  routeType :: route_type
  revalidateReason :: "revalidate option"

definition requestIdOf :: "(jstring \<rightharpoonup> header_value) \<Rightarrow> jstring option" where
  "requestIdOf h =
     (let first = (case h (js ''x-request-id'') of
                     None \<Rightarrow> None
                   | Some (Single s) \<Rightarrow> Some s
                   | Some (Several vs) \<Rightarrow> (case vs of [] \<Rightarrow> None | v # _ \<Rightarrow> Some v))
      in case first of
           None \<Rightarrow> None
         | Some s \<Rightarrow> if s = [] then None else Some (take MAX_LOGGED_REQUEST_ID s))"

definition pathOf :: "jstring \<Rightarrow> jstring" where
  "pathOf path =
     take MAX_LOGGED_REQUEST_ID
       (case index_of (cu (CHR ''?'')) path of None \<Rightarrow> path | Some q \<Rightarrow> take q path)"

record 'e error_line =
  el_err :: 'e
  el_route :: jstring
  el_path :: jstring
  el_method :: jstring
  el_routerKind :: router_kind
  el_routeType :: route_type
  el_revalidateReason :: "revalidate option"
  el_requestId :: "jstring option"

datatype 'e report_effect = Logged "'e error_line" | SpanMarked 'e

definition request_error_line ::
  "'e \<Rightarrow> request_error_request \<Rightarrow> request_error_context \<Rightarrow> 'e error_line" where
  "request_error_line err rq cx =
     \<lparr>el_err = err, el_route = routePath cx, el_path = pathOf (re_path rq), el_method = re_method rq,
      el_routerKind = routerKind cx, el_routeType = routeType cx, el_revalidateReason = revalidateReason cx,
      el_requestId = requestIdOf (re_headers rq)\<rparr>"

text \<open>\<open>markSpan\<close>: only with tracing on, and only when a span is active.\<close>

definition markSpan :: "bool \<Rightarrow> bool \<Rightarrow> bool \<Rightarrow> 'e \<Rightarrow> 'e report_effect list" where
  "markSpan otel spanActive spanThrows err = (if otel \<and> spanActive \<and> \<not> spanThrows then [SpanMarked err] else [])"

text \<open>
  The log comes first, each half swallows its own failure: the hook returns whatever either does.
\<close>

definition reportRequestError ::
  "bool \<Rightarrow> bool \<Rightarrow> bool \<Rightarrow> bool \<Rightarrow> 'e \<Rightarrow> request_error_request \<Rightarrow> request_error_context \<Rightarrow> 'e report_effect list" where
  "reportRequestError otel spanActive logThrows spanThrows err rq cx =
     (if logThrows then [] else [Logged (request_error_line err rq cx)]) @ markSpan otel spanActive spanThrows err"

section \<open>What can reach the log\<close>

lemma index_of_take: "index_of c s = Some q \<Longrightarrow> c \<notin> set (take q s) \<and> s = take q s @ c # drop (Suc q) s"
proof (induction s arbitrary: q)
  case (Cons x s)
  then show ?case by (cases q) (auto split: if_splits)
qed simp

lemma index_of_None: "index_of c s = None \<longleftrightarrow> c \<notin> set s"
  by (induction s) auto

lemma pathOf_plain: "cu (CHR ''?'') \<notin> set p \<Longrightarrow> pathOf (p @ cu (CHR ''?'') # q) = take 200 p"
proof -
  assume p: "cu (CHR ''?'') \<notin> set p"
  then have "index_of (cu (CHR ''?'')) (p @ cu (CHR ''?'') # q) = Some (length p)"
    by (induction p) auto
  then show ?thesis by (simp add: pathOf_def MAX_LOGGED_REQUEST_ID_def)
qed

lemma pathOf_no_query: "cu (CHR ''?'') \<notin> set (pathOf p)"
proof (cases "index_of (cu (CHR ''?'')) p")
  case None
  then have "cu (CHR ''?'') \<notin> set p" by (metis index_of_None)
  with None show ?thesis by (auto simp: pathOf_def dest: in_set_takeD)
next
  case (Some q)
  then have "cu (CHR ''?'') \<notin> set (take q p)" using index_of_take by blast
  with Some show ?thesis by (auto simp: pathOf_def dest: in_set_takeD simp del: take_take)
qed

text \<open>
  A fault's log line holds nothing of the request but its method, its path up to the query
  string and its request id, the last two cut to 200 units: whatever the query string and every
  other header carry, bearer keys and enrollment tokens included, the effects are the same.
\<close>

theorem fault_log_confined:
  assumes "re_method rq = re_method rq'" and "re_headers rq (js ''x-request-id'') = re_headers rq' (js ''x-request-id'')"
    and "re_path rq = p @ cu (CHR ''?'') # q" and "re_path rq' = p @ cu (CHR ''?'') # q'" and "cu (CHR ''?'') \<notin> set p"
  shows "reportRequestError otel sp lt st err rq cx = reportRequestError otel sp lt st err rq' cx \<and>
    (\<forall>l. Logged l \<in> set (reportRequestError otel sp lt st err rq cx) \<longrightarrow>
       length (el_path l) \<le> 200 \<and> cu (CHR ''?'') \<notin> set (el_path l) \<and>
       (\<forall>i. el_requestId l = Some i \<longrightarrow> length i \<le> 200))"
proof -
  have id: "requestIdOf (re_headers rq) = requestIdOf (re_headers rq')"
    using assms(2) by (simp add: requestIdOf_def)
  have "length i \<le> 200" if "requestIdOf h = Some i" for h i
    using that by (auto simp: requestIdOf_def MAX_LOGGED_REQUEST_ID_def Let_def split: option.splits if_splits)
  moreover have "length (pathOf (re_path rq)) \<le> 200" by (simp add: pathOf_def MAX_LOGGED_REQUEST_ID_def)
  ultimately show ?thesis
    using assms id pathOf_no_query [of "re_path rq"]
    by (auto simp: reportRequestError_def markSpan_def request_error_line_def pathOf_plain split: if_splits)
qed

definition demo_fault :: "string \<Rightarrow> string \<Rightarrow> request_error_request" where
  "demo_fault query token = \<lparr>re_path = js ''/api/events/history?'' @ js query, re_method = js ''GET'',
     re_headers = [js ''x-request-id'' \<mapsto> Single (js ''r1''), js ''authorization'' \<mapsto> Single (js token)]\<rparr>"

theorem fault_log_confined_witness:
  "reportRequestError False False False False () (demo_fault ''aid=a'' ''Bearer k1'') \<lparr>routerKind = AppRouter,
     routePath = js ''/api/events/history'', routeType = Route, revalidateReason = None\<rparr> =
   reportRequestError False False False False () (demo_fault ''aid=b'' ''Bearer k2'') \<lparr>routerKind = AppRouter,
     routePath = js ''/api/events/history'', routeType = Route, revalidateReason = None\<rparr>"
  by (rule fault_log_confined [where p = "js ''/api/events/history''" and q = "js ''aid=a''" and q' = "js ''aid=b''", THEN conjunct1])
    (simp_all add: demo_fault_def js_def)

end
