(* ===== verification/Sse_Wire.thy ===== *)
theory Sse_Wire
  imports Event_Stream Event_Ingest Request_Gate "HOL-Library.Sublist"
begin

text \<open>
  What \<open>GET /api/events/stream\<close> writes on the wire (\<open>src/src/app/api/events/stream/route.ts\<close>): the
  prelude, one \<open>data:\<close> frame per event and the heartbeat comments. The other side is
  \<open>sse_read\<close>, the event-stream reader of the HTML standard cut to the fields that make messages. Text
  is code units: \<open>TextEncoder\<close> and the reader's decoder are inverse on it, since \<open>JSON.stringify\<close>
  escapes lone surrogates. The keys of an event come in the order of \<open>AuditEventRecord\<close>; an absent
  field is left out.
\<close>

section \<open>Frames\<close>

definition event_json :: "(instant \<Rightarrow> jstring) \<Rightarrow> audit_event \<Rightarrow> json" where
  "event_json iso_of e =
     (let field = (\<lambda>k v. case v of None \<Rightarrow> [] | Some s \<Rightarrow> [(k, JStr s)])
      in jobj ([(''id'', JStr (ev_id e)), (''type'', JStr (ev_type e)), (''ts'', JStr (iso_of (ev_ts e)))] @
           field ''aidA'' (ev_aidA e) @ field ''aidB'' (ev_aidB e) @ field ''sessionId'' (ev_sessionId e) @
           field ''runId'' (ev_runId e) @
           (case ev_grants e of None \<Rightarrow> [] | Some gs \<Rightarrow> [(''grants'', JArr (map JStr gs))]) @
           [(''payload'', ev_payload e)] @ field ''source'' (ev_source e)))"

definition event_text :: "(rat \<Rightarrow> jstring) \<Rightarrow> (instant \<Rightarrow> jstring) \<Rightarrow> audit_event \<Rightarrow> jstring" where
  "event_text num_repr iso_of e = stringify num_repr (event_json iso_of e)"

definition prelude_frame :: "app_config \<Rightarrow> jstring" where
  "prelude_frame cfg = js ''retry: '' @ num_str (sseHeartbeatMs cfg) @ [10] @ js '': connected'' @ [10, 10]"

definition event_frame :: "(rat \<Rightarrow> jstring) \<Rightarrow> (instant \<Rightarrow> jstring) \<Rightarrow> audit_event \<Rightarrow> jstring" where
  "event_frame num_repr iso_of e = js ''data: '' @ event_text num_repr iso_of e @ [10, 10]"

definition heartbeat_frame :: jstring where
  "heartbeat_frame = js '': heartbeat'' @ [10, 10]"

definition stream_headers :: headers where
  "stream_headers = [js ''content-type'' \<mapsto> js ''text/event-stream'', js ''cache-control'' \<mapsto> js ''no-cache, no-transform'',
     js ''connection'' \<mapsto> js ''keep-alive'', js ''x-accel-buffering'' \<mapsto> js ''no'']"

text \<open>
  A tick of the heartbeat timer: the connection \<open>cleanup\<close> leaves, the gauge, and what was written.
  A closed connection has no timer.
\<close>

definition heartbeat_tick ::
  "bool \<Rightarrow> bool \<Rightarrow> sse_connection \<Rightarrow> sse_metrics \<Rightarrow> (sse_connection \<times> sse_metrics) \<times> jstring" where
  "heartbeat_tick aborted broken c m =
     (if cn_closed c then ((c, m), [])
      else if aborted \<or> broken then (cleanup c m, [])
      else ((c, m), heartbeat_frame))"

datatype wire_item = Sent audit_event | Beat

definition frame :: "(rat \<Rightarrow> jstring) \<Rightarrow> (instant \<Rightarrow> jstring) \<Rightarrow> wire_item \<Rightarrow> jstring" where
  "frame num_repr iso_of w = (case w of Sent e \<Rightarrow> event_frame num_repr iso_of e | Beat \<Rightarrow> heartbeat_frame)"

definition wire_text :: "app_config \<Rightarrow> (rat \<Rightarrow> jstring) \<Rightarrow> (instant \<Rightarrow> jstring) \<Rightarrow> wire_item list \<Rightarrow> jstring" where
  "wire_text cfg num_repr iso_of ws = prelude_frame cfg @ concat (map (frame num_repr iso_of) ws)"

fun sent_events :: "wire_item list \<Rightarrow> audit_event list" where
  "sent_events [] = []"
| "sent_events (Sent e # ws) = e # sent_events ws"
| "sent_events (Beat # ws) = sent_events ws"

section \<open>The reader\<close>

text \<open>Lines end at LF, CR or CRLF; the last piece is the line that has not ended yet.\<close>

fun sse_lines :: "jstring \<Rightarrow> jstring list" where
  "sse_lines [] = [[]]"
| "sse_lines [c] = (if c = 10 \<or> c = 13 then [[], []] else [[c]])"
| "sse_lines (c # d # s) =
     (if c = 13 \<and> d = 10 then [] # sse_lines s
      else if c = 10 \<or> c = 13 then [] # sse_lines (d # s)
      else (case sse_lines (d # s) of [] \<Rightarrow> [[c]] | l # ls \<Rightarrow> (c # l) # ls))"

definition colon :: code_unit where "colon = cu (CHR '':'')"

definition field_of :: "jstring \<Rightarrow> jstring \<times> jstring" where
  "field_of l = (case index_of colon l of
     None \<Rightarrow> (l, [])
   | Some i \<Rightarrow> (take i l, let v = drop (i + 1) l in if starts_with v (js '' '') then drop 1 v else v))"

fun join_lines :: "jstring list \<Rightarrow> jstring" where
  "join_lines [] = []"
| "join_lines [l] = l"
| "join_lines (l # ls) = l @ [10] @ join_lines ls"

fun sse_messages :: "jstring list \<Rightarrow> jstring list \<Rightarrow> jstring list" where
  "sse_messages buf [] = []"
| "sse_messages buf (l # ls) =
     (if l = [] then (if buf = [] then sse_messages [] ls else join_lines buf # sse_messages [] ls)
      else if hd l = colon then sse_messages buf ls
      else case field_of l of (name, v) \<Rightarrow>
        if name = js ''data'' then sse_messages (buf @ [v]) ls else sse_messages buf ls)"

definition sse_read :: "jstring \<Rightarrow> jstring list" where
  "sse_read s = sse_messages [] (butlast (sse_lines s))"

section \<open>Text without line ends\<close>

definition plain :: "jstring \<Rightarrow> bool" where
  "plain s \<longleftrightarrow> 10 \<notin> set s \<and> 13 \<notin> set s"

lemma plain_append [simp]: "plain (s @ t) \<longleftrightarrow> plain s \<and> plain t"
  by (auto simp: plain_def)

lemma plain_simps [simp]: "plain []" "plain (c # s) \<longleftrightarrow> c \<noteq> 10 \<and> c \<noteq> 13 \<and> plain s"
  by (auto simp: plain_def)

lemma plain_js: "plain (js s) \<longleftrightarrow> CHR 0x0A \<notin> set s \<and> CHR 0x0D \<notin> set s"
proof -
  have "cu (CHR 0x0A) = 10" "cu (CHR 0x0D) = 13" by (simp_all add: cu_def)
  then have "10 \<in> set (js s) \<longleftrightarrow> CHR 0x0A \<in> set s" "13 \<in> set (js s) \<longleftrightarrow> CHR 0x0D \<in> set s"
    by (simp_all only: js_def set_map) (metis cu_inject imageE imageI)+
  then show ?thesis by (simp add: plain_def)
qed

lemma plain_digits: "list_all is_lower_hex s \<Longrightarrow> plain s"
  by (auto simp: plain_def list_all_iff is_lower_hex_def is_digit_def)

lemma plain_num: "plain (num_str n)"
proof -
  have "list_all is_lower_hex (decimal k)" for k
    using decimal_digits [of k] by (auto simp: list_all_iff is_lower_hex_def)
  then show ?thesis by (simp add: num_str_def plain_digits plain_js del: js_Cons)
qed

lemma plain_quote_unit: "plain (quote_unit c)"
proof -
  have "plain (unicode_escape c)"
    by (simp add: unicode_escape_def Let_def plain_js del: plain_simps(2) js_Cons)
      (rule plain_digits, simp add: hex_digit_lower)
  then show ?thesis by (auto simp: quote_unit_def plain_js simp del: js_Cons)
qed

lemma plain_quote: "plain (json_quote s)"
proof -
  have "plain (quote_units s)"
    by (induction s rule: quote_units.induct)
      (auto simp: plain_quote_unit is_high_surrogate_def is_low_surrogate_def)
  then show ?thesis by (simp add: json_quote_def plain_js del: js_Cons)
qed

lemma plain_commas: "list_all plain ss \<Longrightarrow> plain (commas ss)"
  by (induction ss rule: commas.induct) (simp_all add: plain_js del: js_Cons)

lemma plain_stringify:
  assumes "\<And>q. plain (num_repr q)"
  shows "plain (stringify num_repr v)"
proof (induction v)
  case (JArr vs)
  then show ?case by (auto simp: plain_js list_all_iff intro!: plain_commas simp del: js_Cons)
next
  case (JObj ps)
  then show ?case
    by (fastforce simp: plain_js list_all_iff plain_quote snds.simps intro!: plain_commas simp del: js_Cons)
qed (use assms in \<open>auto simp: plain_js plain_quote split: jnum.split simp del: js_Cons\<close>)

lemma plain_event_text:
  assumes "\<And>q. plain (num_repr q)"
  shows "plain (event_text num_repr iso_of e)"
  unfolding event_text_def by (rule plain_stringify [OF assms])

section \<open>Lines and prefixes\<close>

lemma sse_lines_split: "13 \<notin> set s \<Longrightarrow> sse_lines s = split_on 10 s"
  by (induction s rule: sse_lines.induct) (auto split: list.splits)

lemma split_on_nonempty [simp]: "split_on c s \<noteq> []"
  by (cases s) (auto split: list.split)

lemma split_on_prefix: "prefix (butlast (split_on c p)) (butlast (split_on c (p @ q)))"
proof (induction p)
  case (Cons x p)
  show ?case
  proof (cases "x = c")
    case True
    with Cons show ?thesis by simp
  next
    case False
    obtain y ys where y: "split_on c p = y # ys" by (cases "split_on c p") auto
    obtain z zs where z: "split_on c (p @ q) = z # zs" by (cases "split_on c (p @ q)") auto
    from Cons y z False show ?thesis by (auto split: if_splits)
  qed
qed simp

lemma sse_messages_prefix: "prefix ls ms \<Longrightarrow> prefix (sse_messages buf ls) (sse_messages buf ms)"
proof (induction ls arbitrary: ms buf)
  case (Cons l ls)
  from Cons.prems obtain ms' where "ms = l # ms'" "prefix ls ms'" by (cases ms) auto
  with Cons.IH show ?case by (auto split: prod.split)
qed simp

lemma cut_reads_prefix:
  assumes "13 \<notin> set s"
  shows "prefix (sse_read (take k s)) (sse_read s)"
proof -
  have "13 \<notin> set (take k s)" using assms by (auto dest: in_set_takeD)
  moreover have "prefix (butlast (split_on 10 (take k s))) (butlast (split_on 10 s))"
    using split_on_prefix [of 10 "take k s" "drop k s"] by simp
  ultimately show ?thesis using assms by (simp add: sse_read_def sse_lines_split sse_messages_prefix)
qed

section \<open>What a client receives\<close>

definition frame_lines :: "(rat \<Rightarrow> jstring) \<Rightarrow> (instant \<Rightarrow> jstring) \<Rightarrow> wire_item \<Rightarrow> jstring list" where
  "frame_lines num_repr iso_of w =
     (case w of Sent e \<Rightarrow> [js ''data: '' @ event_text num_repr iso_of e, []] | Beat \<Rightarrow> [js '': heartbeat'', []])"

definition prelude_lines :: "app_config \<Rightarrow> jstring list" where
  "prelude_lines cfg = [js ''retry: '' @ num_str (sseHeartbeatMs cfg), js '': connected'', []]"

lemma wire_lines:
  "wire_text cfg num_repr iso_of ws =
     concat (map (\<lambda>l. l @ [10]) (prelude_lines cfg @ concat (map (frame_lines num_repr iso_of) ws)))"
proof -
  have "concat (map (frame num_repr iso_of) ws) = concat (map (\<lambda>l. l @ [10]) (concat (map (frame_lines num_repr iso_of) ws)))"
    by (induction ws) (auto simp: frame_def event_frame_def heartbeat_frame_def frame_lines_def split: wire_item.split)
  then show ?thesis by (simp add: wire_text_def prelude_frame_def prelude_lines_def)
qed

lemma lines_plain:
  assumes "\<And>q. plain (num_repr q)"
  shows "list_all plain (prelude_lines cfg @ concat (map (frame_lines num_repr iso_of) ws))"
proof -
  have "list_all plain (frame_lines num_repr iso_of w)" for w
    by (simp add: frame_lines_def plain_event_text [OF assms] plain_js del: js_Cons split: wire_item.split)
  then have "list_all plain (concat (map (frame_lines num_repr iso_of) ws))" by (auto simp: list_all_iff)
  then show ?thesis by (simp add: prelude_lines_def plain_js plain_num del: js_Cons)
qed

lemma messages_of_frames:
  "sse_messages [] (concat (map (frame_lines num_repr iso_of) ws)) = map (event_text num_repr iso_of) (sent_events ws)"
proof (induction ws)
  case (Cons w ws)
  have "field_of (js ''data: '' @ t) = (js ''data'', t)" for t
    by (simp add: field_of_def colon_def js_Cons starts_with_def js_def cu_inject)
  moreover have "hd (js ''data: '' @ t) \<noteq> colon" "js ''data: '' @ t \<noteq> []" for t
    by (simp_all add: colon_def js_Cons)
  moreover have "hd (js '': heartbeat'') = colon" "js '': heartbeat'' \<noteq> []" by (simp_all add: colon_def js_Cons)
  ultimately show ?case using Cons by (cases w) (simp_all add: frame_lines_def del: js_Cons)
qed simp

lemma messages_of_prelude: "sse_messages [] (prelude_lines cfg @ ls) = sse_messages [] ls"
proof -
  have "field_of (js ''retry: '' @ t) = (js ''retry'', t)" for t
    by (simp add: field_of_def colon_def js_Cons starts_with_def js_def cu_inject)
  moreover have "js ''retry'' \<noteq> js ''data''" by (simp add: js_def cu_inject)
  moreover have "hd (js ''retry: '' @ t) \<noteq> colon" "js ''retry: '' @ t \<noteq> []" for t
    by (simp_all add: colon_def js_Cons)
  moreover have "hd (js '': connected'') = colon" "js '': connected'' \<noteq> []" by (simp_all add: colon_def js_Cons)
  ultimately show ?thesis by (simp add: prelude_lines_def del: js_Cons)
qed

text \<open>
  C32. Whatever is written to a stream, event frames and heartbeats in any order, a client's
  event-stream reader gets exactly the JSON texts of the events sent, each once and in order: an
  event whose strings hold line breaks or lines that look like fields cannot split its frame or
  forge another, and heartbeats and the prelude are invisible. If the connection is cut anywhere,
  what was read is a prefix of that list: a torn frame is never delivered. The hypothesis is that
  a JSON number prints without line ends.
\<close>

theorem stream_delivers_exactly:
  assumes "\<And>q. plain (num_repr q)"
  shows "sse_read (wire_text cfg num_repr iso_of ws) = map (event_text num_repr iso_of) (sent_events ws) \<and>
    prefix (sse_read (take k (wire_text cfg num_repr iso_of ws))) (map (event_text num_repr iso_of) (sent_events ws))"
proof -
  let ?ls = "prelude_lines cfg @ concat (map (frame_lines num_repr iso_of) ws)"
  have ls: "list_all plain ?ls" by (rule lines_plain [OF assms])
  then have cr: "13 \<notin> set (wire_text cfg num_repr iso_of ws)"
    by (auto simp: wire_lines list_all_iff plain_def)
  have split: "split_on 10 (wire_text cfg num_repr iso_of ws) = ?ls @ [[]]"
    unfolding wire_lines using ls by (intro split_on_concat) (auto simp: list_all_iff plain_def)
  then have read: "sse_read (wire_text cfg num_repr iso_of ws) = map (event_text num_repr iso_of) (sent_events ws)"
    by (simp only: sse_read_def sse_lines_split [OF cr] split butlast_snoc messages_of_prelude messages_of_frames)
  with cut_reads_prefix [OF cr, of k] show ?thesis by simp
qed

definition tricky_event :: audit_event where
  "tricky_event = (demo_event ''e1'' ''t'' 0)\<lparr>ev_type := js ''x'' @ [10, 10] @ js ''data: forged'' @ [10, 10]\<rparr>"

theorem stream_delivers_exactly_witness:
  "sse_read (wire_text demo_config (\<lambda>_. js ''0'') (\<lambda>_. js ''t'') [Beat, Sent tricky_event, Beat, Sent (demo_event ''e2'' ''t'' 0)]) =
    [event_text (\<lambda>_. js ''0'') (\<lambda>_. js ''t'') tricky_event, event_text (\<lambda>_. js ''0'') (\<lambda>_. js ''t'') (demo_event ''e2'' ''t'' 0)]"
proof -
  have "plain (js ''0'')" by (simp add: plain_js del: js_Cons)
  from stream_delivers_exactly [of "\<lambda>_. js ''0''", OF this, of demo_config "\<lambda>_. js ''t''" "[Beat, Sent tricky_event, Beat, Sent (demo_event ''e2'' ''t'' 0)]"]
  show ?thesis by simp
qed

end
