(* ===== verification/Utf8_Text.thy ===== *)
theory Utf8_Text
  imports Uri_Component
begin

text \<open>
  The two ends of a text on a socket: \<open>TextEncoder\<close>, which writes code units as UTF-8 (a lone surrogate
  becomes U+FFFD), and Node's \<open>StringDecoder('utf8')\<close>, which is fed buffers that may end in
  the middle of a character. The decoder is the UTF-8 decoder of the WHATWG Encoding Standard, one
  byte at a time: its state is what a buffer left unfinished, and a byte that cannot continue a character
  yields U+FFFD and is read again as a first byte.
\<close>

section \<open>Encoding\<close>

fun scalar_values :: "jstring \<Rightarrow> nat list" where
  "scalar_values [] = []"
| "scalar_values [c] = (if is_high_surrogate c \<or> is_low_surrogate c then [0xFFFD] else [unat c])"
| "scalar_values (c # d # s) =
     (if is_high_surrogate c \<and> is_low_surrogate d then pair_value c d # scalar_values s
      else (if is_high_surrogate c \<or> is_low_surrogate c then 0xFFFD else unat c) # scalar_values (d # s))"

definition text_encode :: "jstring \<Rightarrow> byte list" where
  "text_encode s = concat (map (\<lambda>cp. map of_nat (utf8_bytes cp)) (scalar_values s))"

section \<open>Decoding\<close>

record utf8_state =
  u8_needed :: nat
  u8_value :: nat
  u8_lower :: nat
  u8_upper :: nat

definition utf8_start :: utf8_state where
  "utf8_start = \<lparr>u8_needed = 0, u8_value = 0, u8_lower = 0x80, u8_upper = 0xBF\<rparr>"

definition first_byte :: "nat \<Rightarrow> utf8_state \<times> nat list" where
  "first_byte b =
     (if b < 0x80 then (utf8_start, [b])
      else if 0xC2 \<le> b \<and> b \<le> 0xDF then (utf8_start\<lparr>u8_needed := 1, u8_value := b - 0xC0\<rparr>, [])
      else if 0xE0 \<le> b \<and> b \<le> 0xEF then
        (utf8_start\<lparr>u8_needed := 2, u8_value := b - 0xE0, u8_lower := if b = 0xE0 then 0xA0 else 0x80,
           u8_upper := if b = 0xED then 0x9F else 0xBF\<rparr>, [])
      else if 0xF0 \<le> b \<and> b \<le> 0xF4 then
        (utf8_start\<lparr>u8_needed := 3, u8_value := b - 0xF0, u8_lower := if b = 0xF0 then 0x90 else 0x80,
           u8_upper := if b = 0xF4 then 0x8F else 0xBF\<rparr>, [])
      else (utf8_start, [0xFFFD]))"

definition utf8_step :: "utf8_state \<Rightarrow> byte \<Rightarrow> utf8_state \<times> nat list" where
  "utf8_step st byt =
     (let b = unat byt
      in if u8_needed st = 0 then first_byte b
         else if u8_lower st \<le> b \<and> b \<le> u8_upper st then
           (let v = u8_value st * 64 + (b - 0x80)
            in if u8_needed st = 1 then (utf8_start, [v])
               else (\<lparr>u8_needed = u8_needed st - 1, u8_value = v, u8_lower = 0x80, u8_upper = 0xBF\<rparr>, []))
         else (case first_byte b of (st1, cps) \<Rightarrow> (st1, 0xFFFD # cps)))"

fun utf8_run :: "utf8_state \<Rightarrow> byte list \<Rightarrow> utf8_state \<times> nat list" where
  "utf8_run st [] = (st, [])"
| "utf8_run st (b # bs) =
     (case utf8_step st b of (st1, cps) \<Rightarrow> case utf8_run st1 bs of (st2, cps2) \<Rightarrow> (st2, cps @ cps2))"

text \<open>\<open>decoder.write(buf)\<close>.\<close>

definition decoder_write :: "utf8_state \<Rightarrow> byte list \<Rightarrow> utf8_state \<times> jstring" where
  "decoder_write st bs = (case utf8_run st bs of (st1, cps) \<Rightarrow> (st1, concat (map utf16_units cps)))"

lemma utf8_run_append:
  "utf8_run st (xs @ ys) =
     (case utf8_run st xs of (st1, cps) \<Rightarrow> case utf8_run st1 ys of (st2, cps2) \<Rightarrow> (st2, cps @ cps2))"
  by (induction xs arbitrary: st) (simp_all split: prod.split)

lemma decoder_write_append:
  "decoder_write st (xs @ ys) =
     (case decoder_write st xs of (st1, s) \<Rightarrow> case decoder_write st1 ys of (st2, t) \<Rightarrow> (st2, s @ t))"
  by (simp add: decoder_write_def utf8_run_append split: prod.split)

section \<open>The round trip\<close>

lemma utf8_run_char:
  assumes "scalar cp"
  shows "utf8_run utf8_start (map of_nat (utf8_bytes cp)) = (utf8_start, [cp])"
proof -
  obtain a b c d where n: "cp = a * 262144 + b * 4096 + c * 64 + d" "b < 64" "c < 64" "d < 64"
    "cp div 64 = a * 4096 + b * 64 + c" "cp div 4096 = a * 64 + b" "cp div 262144 = a" "cp mod 64 = d"
    "cp div 64 mod 64 = c" "cp div 4096 mod 64 = b" by (rule digits64)
  have word: "unat (of_nat m :: byte) = m" if "m < 256" for m
    using that by (simp add: unat_of_nat)
  note step = utf8_step_def first_byte_def utf8_start_def word
  consider "cp < 0x80" | "0x80 \<le> cp" "cp < 0x800" | "0x800 \<le> cp" "cp < 0x10000" | "0x10000 \<le> cp" by linarith
  then show ?thesis
  proof cases
    case 1
    then show ?thesis by (simp add: step)
  next
    case 2
    have ab: "a = 0" "b = 0" using n(1) 2 by linarith+
    have cp: "cp = c * 64 + d" using n(1) unfolding ab by simp
    have c: "2 \<le> c" "c < 32" using n(4) 2 unfolding cp by simp_all
    have bytes: "utf8_bytes cp = [0xC0 + c, 0x80 + d]" using 2 n(5,8) unfolding ab by simp
    show ?thesis unfolding bytes using c n(4) by (simp add: step cp del: of_nat_add of_nat_numeral)
  next
    case 3
    have a: "a = 0" using n(1) 3 by linarith
    have cp: "cp = b * 4096 + c * 64 + d" using n(1) unfolding a by simp
    have b: "b < 16" using 3 unfolding cp by linarith
    have low: "32 \<le> c" if "b = 0" using n(4) 3 that unfolding cp by simp
    have high: "c < 32" if "b = 13" using assms n(3,4) that unfolding cp by (simp add: scalar_def)
    have bytes: "utf8_bytes cp = [0xE0 + b, 0x80 + c, 0x80 + d]" using 3 n(6,8,9) unfolding a by simp
    show ?thesis unfolding bytes using b low high n(3,4)
      by (cases "b = 0"; cases "b = 13"; simp add: step cp del: of_nat_add of_nat_numeral)
  next
    case 4
    have a: "a < 5" using n(1) 4 assms by (simp add: scalar_def)
    have low: "16 \<le> b" if "a = 0" using n(1,3,4) 4 that by simp
    have high: "b < 16" if "a = 4" using n(1) 4 assms that by (simp add: scalar_def)
    have bytes: "utf8_bytes cp = [0xF0 + a, 0x80 + b, 0x80 + c, 0x80 + d]" using 4 n(7,8,9,10) by simp
    show ?thesis unfolding bytes using a low high n(2,3,4)
      by (cases "a = 0"; cases "a = 4"; simp add: step n(1) del: of_nat_add of_nat_numeral)
  qed
qed

lemma scalar_values_scalar: "list_all scalar (scalar_values s)"
proof (induction s rule: scalar_values.induct)
  case (2 c)
  then show ?case using plain_scalar [of c] by (auto simp: scalar_def)
next
  case (3 c d s)
  then show ?case using plain_scalar [of c] pair_scalar [of c d] by (auto simp: scalar_def)
qed simp

lemma utf8_run_text: "utf8_run utf8_start (text_encode s) = (utf8_start, scalar_values s)"
proof -
  have "list_all scalar cps \<Longrightarrow> utf8_run utf8_start (concat (map (\<lambda>cp. map of_nat (utf8_bytes cp)) cps)) = (utf8_start, cps)" for cps
    by (induction cps) (simp_all add: utf8_run_append utf8_run_char del: utf8_bytes.simps)
  then show ?thesis using scalar_values_scalar by (simp add: text_encode_def)
qed

lemma units_scalar_values: "well_formed s \<Longrightarrow> concat (map utf16_units (scalar_values s)) = s"
proof (induction s rule: well_formed.induct)
  case (2 c)
  then show ?case using plain_scalar [of c] by simp
next
  case (3 c d s)
  then show ?case using plain_scalar [of c] pair_scalar [of c d] by (auto split: if_splits)
qed simp

text \<open>A well-formed text (what \<open>JSON.stringify\<close> promises of its result) goes through the socket unchanged and leaves nothing behind in the decoder.\<close>

lemma decoder_write_text: "well_formed s \<Longrightarrow> decoder_write utf8_start (text_encode s) = (utf8_start, s)"
  by (simp add: decoder_write_def utf8_run_text units_scalar_values)

section \<open>Texts that are well formed\<close>

definition no_surrogate :: "code_unit \<Rightarrow> bool" where
  "no_surrogate c \<longleftrightarrow> \<not> is_high_surrogate c \<and> \<not> is_low_surrogate c"

lemma well_formed_single: "no_surrogate c \<Longrightarrow> well_formed (c # s) \<longleftrightarrow> well_formed s"
  by (cases s) (auto simp: no_surrogate_def)

lemma well_formed_append: "well_formed s \<Longrightarrow> well_formed t \<Longrightarrow> well_formed (s @ t)"
proof (induction s rule: well_formed.induct)
  case (2 c)
  then show ?case by (cases t) auto
qed (auto split: if_splits)

lemma well_formed_plain: "list_all no_surrogate s \<Longrightarrow> well_formed s"
  by (induction s) (auto simp: well_formed_single)

lemma no_surrogate_js: "list_all no_surrogate (js s)"
proof -
  have "no_surrogate (cu c)" for c
  proof -
    have "of_char c < (256 :: nat)" by simp
    then have "of_char c < (65536 :: nat)" by linarith
    then have "unat (cu c) = of_char c" by (simp add: cu_def unat_of_nat)
    with \<open>of_char c < (256 :: nat)\<close> have "unat (cu c) < 256" by (simp only:)
    then show ?thesis
      by (simp add: no_surrogate_def is_high_surrogate_def is_low_surrogate_def word_le_nat_alt)
  qed
  then show ?thesis by (simp add: js_def list_all_iff)
qed

lemma no_surrogate_ascii: "c < 0x80 \<Longrightarrow> no_surrogate c"
  by (simp add: no_surrogate_def is_high_surrogate_def is_low_surrogate_def word_le_nat_alt word_less_nat_alt)

end
