(* ===== verification/Wire_Reader.thy ===== *)
theory Wire_Reader
  imports Utf8_Text Sse_Wire
begin

text \<open>
  The client side of a stream in \<open>src/scripts/verify-sse-stream.mjs\<close>: \<open>parseHead\<close> and the incremental
  body reader \<open>createBodyReader\<close> (chunked decoding, then frames at blank lines). A buffer is a list of
  bytes; what the operating system delivers is an arbitrary cut of the stream into buffers, each with the
  time it arrived.
\<close>

section \<open>Searching and splitting\<close>

text \<open>\<open>buf.indexOf(pat)\<close>.\<close>

fun find_sub :: "'a list \<Rightarrow> 'a list \<Rightarrow> nat option" where
  "find_sub pat [] = (if pat = [] then Some 0 else None)"
| "find_sub pat (x # xs) =
     (if take (length pat) (x # xs) = pat then Some 0 else map_option Suc (find_sub pat xs))"

lemma take_prefix_length: "take (length pat) s = pat \<Longrightarrow> length pat \<le> length s"
  by (metis length_take min.cobounded1)

lemma find_sub_Some: "find_sub pat s = Some i \<Longrightarrow> i + length pat \<le> length s \<and> take (length pat) (drop i s) = pat"
proof (induction s arbitrary: i)
  case (Cons x xs)
  show ?case
  proof (cases "take (length pat) (x # xs) = pat")
    case True
    with Cons.prems have "i = 0" by simp
    moreover have "length pat \<le> length (x # xs)" by (rule take_prefix_length [OF True])
    ultimately show ?thesis using True by simp
  next
    case False
    with Cons obtain j where "i = Suc j" "find_sub pat xs = Some j" by auto
    with Cons.IH [of j] show ?thesis by simp
  qed
qed (simp split: if_splits)

lemma find_sub_append: "find_sub pat s = Some i \<Longrightarrow> find_sub pat (s @ t) = Some i"
proof (induction s arbitrary: i)
  case Nil
  then show ?case by (cases t) (auto split: if_splits)
next
  case (Cons x xs)
  show ?case
  proof (cases "take (length pat) (x # xs) = pat")
    case True
    have "length pat \<le> length (x # xs)" by (rule take_prefix_length [OF True])
    then have "take (length pat) (x # xs @ t) = pat" using True by (cases pat) auto
    with True Cons.prems show ?thesis by simp
  next
    case False
    with Cons.prems obtain j where j: "i = Suc j" "find_sub pat xs = Some j" by auto
    have "length pat \<le> length xs" using find_sub_Some [OF j(2)] by simp
    then have "take (length pat) (x # xs @ t) \<noteq> pat" using False by (cases pat) auto
    with j Cons.IH [of j] show ?thesis by simp
  qed
qed

lemma find_sub_shorter: "find_sub pat s = Some i \<Longrightarrow> pat \<noteq> [] \<Longrightarrow> length s - (i + length pat) < length s"
  using find_sub_Some [of pat s i] by (cases pat) auto

text \<open>\<open>s.split(sep)\<close> for a separator that is not empty.\<close>

function split_str :: "'a list \<Rightarrow> 'a list \<Rightarrow> 'a list list" where
  "split_str sep s =
     (case find_sub sep s of
        None \<Rightarrow> [s]
      | Some i \<Rightarrow> if sep = [] then [s] else take i s # split_str sep (drop (i + length sep) s))"
  by pat_completeness auto
termination
  by (relation "measure (\<lambda>(sep, s). length s)") (auto dest: find_sub_shorter)

declare split_str.simps [simp del]

section \<open>The head of a response\<close>

datatype wire_error = NoHeadEnd | BadStatusLine jstring | BadHeaderLine jstring
  | SizeLineTooLong | SizeNotHex jstring | NoChunkEnd

definition crlf :: "byte list" where "crlf = [13, 10]"

definition latin1 :: "byte list \<Rightarrow> jstring" where
  "latin1 bs = map (\<lambda>b. of_nat (unat b)) bs"

text \<open>\<open>toLowerCase\<close> of a latin1 text.\<close>

definition latin1_lower :: "jstring \<Rightarrow> jstring" where
  "latin1_lower s = map (\<lambda>c. if is_upper c \<or> (0xC0 \<le> c \<and> c \<le> 0xDE \<and> c \<noteq> 0xD7) then c + 32 else c) s"

record wire_head =
  wr_statusLine :: jstring
  wr_status :: nat
  wr_reason :: jstring
  wr_headers :: headers
  wr_rest :: "byte list"

text \<open>\<open>/^HTTP\/1\.1 (\d{3})(?: (.*))?$/\<close>, where a dot is no line end.\<close>

definition status_of :: "jstring \<Rightarrow> (nat \<times> jstring) option" where
  "status_of s =
     (let digits = take 3 (drop 9 s); rest = drop 12 s
      in if starts_with s (js ''HTTP/1.1 '') \<and> length digits = 3 \<and> list_all is_digit digits \<and>
            (case rest of [] \<Rightarrow> True | c # r \<Rightarrow> c = 32 \<and> plain r)
         then Some (foldl (\<lambda>n c. n * 10 + (unat c - 48)) 0 digits, drop 1 rest) else None)"

fun add_headers :: "jstring list \<Rightarrow> headers \<Rightarrow> wire_error + headers" where
  "add_headers [] h = Inr h"
| "add_headers (l # ls) h =
     (case index_of (cu (CHR '':'')) l of
        None \<Rightarrow> Inl (BadHeaderLine (take 120 l))
      | Some i \<Rightarrow>
          if i = 0 then Inl (BadHeaderLine (take 120 l))
          else let name = latin1_lower (trim (take i l)); v = trim (drop (i + 1) l)
               in add_headers ls (h(name \<mapsto> (case h name of None \<Rightarrow> v | Some w \<Rightarrow> w @ js '', '' @ v))))"

definition parseHead :: "byte list \<Rightarrow> wire_error + wire_head option" where
  "parseHead buf =
     (case find_sub (crlf @ crlf) buf of
        None \<Rightarrow> if length buf > 64 * 1024 then Inl NoHeadEnd else Inr None
      | Some sep \<Rightarrow>
          (case split_str (js [CHR 0x0D, CHR 0x0A]) (latin1 (take sep buf)) of
             [] \<Rightarrow> Inl (BadStatusLine [])
           | statusLine # ls \<Rightarrow>
               (case status_of statusLine of
                  None \<Rightarrow> Inl (BadStatusLine (take 120 statusLine))
                | Some (status, reason) \<Rightarrow>
                    (case add_headers ls Map.empty of
                       Inl e \<Rightarrow> Inl e
                     | Inr h \<Rightarrow> Inr (Some \<lparr>wr_statusLine = statusLine, wr_status = status, wr_reason = reason,
                         wr_headers = h, wr_rest = drop (sep + 4) buf\<rparr>)))))"

section \<open>The body reader\<close>

datatype reader_phase = SizeLine | ChunkData | ChunkEnd | Trailer | Done | Identity

record body_reader =
  br_pending :: "byte list"
  br_decoder :: utf8_state
  br_carry :: jstring
  br_phase :: reader_phase
  br_need :: nat
  br_complete :: bool
  br_frames :: "(jstring \<times> instant) list"
  br_text :: jstring
  br_bytes :: nat
  br_sizes :: "nat list"

definition createBodyReader :: "bool \<Rightarrow> body_reader" where
  "createBodyReader chunked = \<lparr>br_pending = [], br_decoder = utf8_start, br_carry = [],
     br_phase = (if chunked then SizeLine else Identity), br_need = 0, br_complete = False, br_frames = [], br_text = [],
     br_bytes = 0, br_sizes = []\<rparr>"

text \<open>A call that throws leaves the reader as it was at the \<open>throw\<close>: what it had decoded stays in it.\<close>

type_synonym reader_result = "(wire_error \<times> body_reader) + body_reader"

definition result_reader :: "reader_result \<Rightarrow> body_reader" where
  "result_reader x = (case x of Inl (_, r) \<Rightarrow> r | Inr r \<Rightarrow> r)"

text \<open>The frames that are complete in a text, each with its blank line, and what is left.\<close>

function take_frames :: "jstring \<Rightarrow> jstring list \<times> jstring" where
  "take_frames s =
     (case find_sub [10, 10] s of
        None \<Rightarrow> ([], s)
      | Some i \<Rightarrow> (case take_frames (drop (i + 2) s) of (fs, r) \<Rightarrow> (take (i + 2) s # fs, r)))"
  by pat_completeness auto
termination
  by (relation "measure length") (auto dest: find_sub_shorter)

declare take_frames.simps [simp del]

definition emit_text :: "instant \<Rightarrow> jstring \<Rightarrow> body_reader \<Rightarrow> body_reader" where
  "emit_text tm s r =
     (case take_frames (br_carry r @ s) of (fs, rest) \<Rightarrow>
        r\<lparr>br_text := br_text r @ s, br_carry := rest, br_frames := br_frames r @ map (\<lambda>f. (f, tm)) fs\<rparr>)"

text \<open>Hand bytes of the body to the decoder and its text to the frames.\<close>

definition take_body :: "instant \<Rightarrow> byte list \<Rightarrow> body_reader \<Rightarrow> body_reader" where
  "take_body tm bs r =
     (case decoder_write (br_decoder r) bs of (dec, s) \<Rightarrow>
        emit_text tm s (r\<lparr>br_bytes := br_bytes r + length bs, br_decoder := dec\<rparr>))"

text \<open>\<open>parseInt(sizeText, 16)\<close> of a text of hex digits, \<open>None\<close> for any other text.\<close>

fun hex_digits :: "nat \<Rightarrow> jstring \<Rightarrow> nat option" where
  "hex_digits n [] = Some n"
| "hex_digits n (c # s) = (case hex_value c of None \<Rightarrow> None | Some d \<Rightarrow> hex_digits (16 * n + d) s)"

definition chunk_size_text :: "byte list \<Rightarrow> jstring" where
  "chunk_size_text line = trim (hd (split_on 59 (latin1 line)))"

definition chunk_size :: "byte list \<Rightarrow> nat option" where
  "chunk_size line = (let s = chunk_size_text line in if s = [] then None else hex_digits 0 s)"

definition phase_rank :: "reader_phase \<Rightarrow> nat" where
  "phase_rank p = (if p = ChunkData then 1 else 0)"

function body_loop :: "instant \<Rightarrow> body_reader \<Rightarrow> reader_result" where
  "body_loop tm r =
     (case br_phase r of
        SizeLine \<Rightarrow>
          (case find_sub crlf (br_pending r) of
             None \<Rightarrow> if length (br_pending r) > 1024 then Inl (SizeLineTooLong, r) else Inr r
           | Some i \<Rightarrow>
               (case chunk_size (take i (br_pending r)) of
                  None \<Rightarrow> Inl (SizeNotHex (take 40 (chunk_size_text (take i (br_pending r)))), r)
                | Some n \<Rightarrow> body_loop tm (r\<lparr>br_need := n, br_pending := drop (i + 2) (br_pending r),
                    br_phase := (if n = 0 then Trailer else ChunkData)\<rparr>)))
      | ChunkData \<Rightarrow>
          if length (br_pending r) < br_need r then Inr r
          else body_loop tm (take_body tm (take (br_need r) (br_pending r))
            (r\<lparr>br_sizes := br_sizes r @ [br_need r], br_pending := drop (br_need r) (br_pending r), br_need := 0,
               br_phase := ChunkEnd\<rparr>))
      | ChunkEnd \<Rightarrow>
          if length (br_pending r) < 2 then Inr r
          else if take 2 (br_pending r) \<noteq> crlf then Inl (NoChunkEnd, r)
          else body_loop tm (r\<lparr>br_pending := drop 2 (br_pending r), br_phase := SizeLine\<rparr>)
      | Trailer \<Rightarrow>
          (case find_sub crlf (br_pending r) of
             None \<Rightarrow> Inr r
           | Some i \<Rightarrow>
               if i = 0 then body_loop tm (r\<lparr>br_pending := drop 2 (br_pending r), br_complete := True, br_phase := Done\<rparr>)
               else body_loop tm (r\<lparr>br_pending := drop (i + 2) (br_pending r)\<rparr>))
      | Done \<Rightarrow> Inr r
      | Identity \<Rightarrow> Inr r)"
  by pat_completeness auto
termination
  by (relation "measure (\<lambda>(tm, r). 2 * length (br_pending r) + phase_rank (br_phase r))")
    (auto simp: phase_rank_def take_body_def emit_text_def crlf_def dest!: find_sub_Some split: prod.split)

declare body_loop.simps [simp del]

definition push :: "instant \<Rightarrow> byte list \<Rightarrow> body_reader \<Rightarrow> reader_result" where
  "push tm buf r =
     (if br_phase r = Identity then Inr (take_body tm (br_pending r @ buf) (r\<lparr>br_pending := []\<rparr>))
      else body_loop tm (r\<lparr>br_pending := br_pending r @ buf\<rparr>))"

text \<open>The buffers of a connection, in order.\<close>

fun feed :: "(byte list \<times> instant) list \<Rightarrow> body_reader \<Rightarrow> reader_result" where
  "feed [] r = Inr r"
| "feed ((buf, tm) # bufs) r = (case push tm buf r of Inl e \<Rightarrow> Inl e | Inr r1 \<Rightarrow> feed bufs r1)"

section \<open>Cuts do not matter\<close>

lemma take_frames_append:
  "take_frames (s @ t) = (case take_frames s of (fs, r) \<Rightarrow> case take_frames (r @ t) of (gs, r1) \<Rightarrow> (fs @ gs, r1))"
proof (induction s rule: take_frames.induct)
  case (1 s)
  show ?case
  proof (cases "find_sub [10, 10] s")
    case None
    then show ?thesis by (simp add: take_frames.simps [of s] split: prod.split)
  next
    case (Some i)
    have len: "i + 2 \<le> length s" using find_sub_Some [OF Some] by simp
    have st: "take_frames (s @ t) = (case take_frames (drop (i + 2) s @ t) of (fs, r) \<Rightarrow> (take (i + 2) s # fs, r))"
      using len find_sub_append [OF Some, of t] by (subst take_frames.simps) simp
    have s: "take_frames s = (case take_frames (drop (i + 2) s) of (fs, r) \<Rightarrow> (take (i + 2) s # fs, r))"
      using Some by (subst take_frames.simps) simp
    show ?thesis unfolding st s "1.IH" [OF Some] by (simp split: prod.split)
  qed
qed

lemma emit_append: "emit_text tm t (emit_text tm s r) = emit_text tm (s @ t) r"
  by (simp add: emit_text_def take_frames_append [of "br_carry r @ s" t, simplified] split: prod.split)

lemma take_body_append: "take_body tm ys (take_body tm xs r) = take_body tm (xs @ ys) r"
proof -
  obtain d1 s where s: "decoder_write (br_decoder r) xs = (d1, s)" by fastforce
  obtain d2 t where t: "decoder_write d1 ys = (d2, t)" by fastforce
  have frame: "br_decoder (emit_text tm u q) = br_decoder q" "br_bytes (emit_text tm u q) = br_bytes q" for u q
    by (simp_all add: emit_text_def split: prod.split)
  have swap: "emit_text tm t ((emit_text tm s q)\<lparr>br_bytes := n, br_decoder := d\<rparr>) =
      emit_text tm t (emit_text tm s (q\<lparr>br_bytes := n, br_decoder := d\<rparr>))" for n d q
    by (simp add: emit_text_def split: prod.split)
  show ?thesis
    by (simp add: take_body_def s t decoder_write_append frame swap emit_append add.assoc)
qed

lemma take_body_frame [simp]:
  "br_pending (take_body tm bs r) = br_pending r" "br_phase (take_body tm bs r) = br_phase r"
  "br_need (take_body tm bs r) = br_need r" "br_sizes (take_body tm bs r) = br_sizes r"
  "br_complete (take_body tm bs r) = br_complete r"
  "take_body tm bs (r\<lparr>br_pending := q\<rparr>) = (take_body tm bs r)\<lparr>br_pending := q\<rparr>"
  by (simp_all add: take_body_def emit_text_def split: prod.split)

lemma pending_last:
  "r\<lparr>br_pending := q, br_phase := ph\<rparr> = r\<lparr>br_phase := ph, br_pending := q\<rparr>"
  "r\<lparr>br_pending := q, br_need := n\<rparr> = r\<lparr>br_need := n, br_pending := q\<rparr>"
  "r\<lparr>br_pending := q, br_complete := c\<rparr> = r\<lparr>br_complete := c, br_pending := q\<rparr>"
  for r :: body_reader
  by simp_all

text \<open>A loop that stopped to wait goes on, when more bytes come, as if they had been there from the start.\<close>

lemma body_loop_append:
  "body_loop tm r = Inr r1 \<Longrightarrow>
    body_loop tm (r\<lparr>br_pending := br_pending r @ ys\<rparr>) = body_loop tm (r1\<lparr>br_pending := br_pending r1 @ ys\<rparr>)"
proof (induction tm r rule: body_loop.induct)
  case (1 tm r)
  let ?p = "br_pending r"
  note unfold_r = body_loop.simps [of tm r] and unfold_more = body_loop.simps [of tm "r\<lparr>br_pending := br_pending r @ ys\<rparr>"]
  show ?case
  proof (cases "br_phase r")
    case SizeLine
    show ?thesis
    proof (cases "find_sub crlf ?p")
      case None
      with SizeLine "1.prems" unfold_r show ?thesis by (simp split: if_splits)
    next
      case (Some i)
      have len: "i + 2 \<le> length ?p" using find_sub_Some [OF Some] by (simp add: crlf_def)
      from Some SizeLine "1.prems" unfold_r obtain n where n: "chunk_size (take i ?p) = Some n" by (auto split: option.splits)
      let ?next = "r\<lparr>br_need := n, br_pending := drop (i + 2) ?p, br_phase := (if n = 0 then Trailer else ChunkData)\<rparr>"
      have "body_loop tm ?next = Inr r1" using "1.prems" unfold_r SizeLine Some n by simp
      from "1.IH"(1) [OF SizeLine Some n this] show ?thesis
        using unfold_more SizeLine find_sub_append [OF Some, of ys] n len by (simp add: pending_last del: if_split)
    qed
  next
    case ChunkData
    show ?thesis
    proof (cases "length ?p < br_need r")
      case True
      with ChunkData "1.prems" unfold_r show ?thesis by simp
    next
      case False
      let ?next = "take_body tm (take (br_need r) ?p)
        (r\<lparr>br_sizes := br_sizes r @ [br_need r], br_pending := drop (br_need r) ?p, br_need := 0, br_phase := ChunkEnd\<rparr>)"
      have "body_loop tm ?next = Inr r1" using "1.prems" unfold_r ChunkData False by simp
      from "1.IH"(2) [OF ChunkData False this] show ?thesis
        using unfold_more ChunkData False by (simp add: pending_last)
    qed
  next
    case ChunkEnd
    show ?thesis
    proof (cases "length ?p < 2")
      case True
      with ChunkEnd "1.prems" unfold_r show ?thesis by simp
    next
      case False
      with ChunkEnd "1.prems" unfold_r have c: "take 2 ?p = crlf" by (simp split: if_splits)
      have "body_loop tm (r\<lparr>br_pending := drop 2 ?p, br_phase := SizeLine\<rparr>) = Inr r1"
        using "1.prems" unfold_r ChunkEnd False c by simp
      from "1.IH"(3) [OF ChunkEnd False _ this] c show ?thesis
        using unfold_more ChunkEnd False by (simp add: pending_last)
    qed
  next
    case Trailer
    show ?thesis
    proof (cases "find_sub crlf ?p")
      case None
      with Trailer "1.prems" unfold_r show ?thesis by simp
    next
      case (Some i)
      have len: "i + 2 \<le> length ?p" using find_sub_Some [OF Some] by (simp add: crlf_def)
      show ?thesis
      proof (cases "i = 0")
        case True
        have "body_loop tm (r\<lparr>br_pending := drop 2 ?p, br_complete := True, br_phase := Done\<rparr>) = Inr r1"
          using "1.prems" unfold_r Trailer Some True by simp
        from "1.IH"(4) [OF Trailer Some True this] show ?thesis
          using unfold_more Trailer find_sub_append [OF Some, of ys] True len by (simp add: pending_last)
      next
        case False
        have "body_loop tm (r\<lparr>br_pending := drop (i + 2) ?p\<rparr>) = Inr r1"
          using "1.prems" unfold_r Trailer Some False by simp
        from "1.IH"(5) [OF Trailer Some False this] show ?thesis
          using unfold_more Trailer find_sub_append [OF Some, of ys] False len by (simp add: pending_last)
      qed
    qed
  qed (use "1.prems" unfold_r in simp_all)
qed

lemma body_loop_settles: "body_loop tm r = Inr r1 \<Longrightarrow> body_loop tm r1 = Inr r1"
  using body_loop_append [of tm r r1 "[]"] by simp

lemma body_loop_phase: "body_loop tm r = Inr r1 \<Longrightarrow> br_phase r \<noteq> Identity \<Longrightarrow> br_phase r1 \<noteq> Identity"
proof (induction tm r rule: body_loop.induct)
  case (1 tm r)
  note unfold_r = body_loop.simps [of tm r]
  show ?case
  proof (cases "br_phase r")
    case SizeLine
    with "1.prems" "1.IH"(1) [OF SizeLine] unfold_r show ?thesis by (auto split: option.splits if_splits)
  next
    case ChunkData
    with "1.prems" "1.IH"(2) [OF ChunkData] unfold_r show ?thesis by (auto split: if_splits)
  next
    case ChunkEnd
    with "1.prems" "1.IH"(3) [OF ChunkEnd] unfold_r show ?thesis by (auto split: if_splits)
  next
    case Trailer
    with "1.prems" "1.IH"(4,5) [OF Trailer] unfold_r show ?thesis by (auto split: option.splits if_splits)
  qed (use "1.prems" unfold_r in simp_all)
qed

lemma push_append:
  assumes "push tm xs r = Inr r1"
  shows "push tm (xs @ ys) r = push tm ys r1"
proof (cases "br_phase r = Identity")
  case True
  with assms have "r1 = take_body tm (br_pending r @ xs) (r\<lparr>br_pending := []\<rparr>)" by (simp add: push_def)
  with True show ?thesis by (simp add: push_def take_body_append)
next
  case False
  with assms have l: "body_loop tm (r\<lparr>br_pending := br_pending r @ xs\<rparr>) = Inr r1" by (simp add: push_def)
  from body_loop_phase [OF l] False have "br_phase r1 \<noteq> Identity" by simp
  with False body_loop_append [OF l, of ys] show ?thesis by (simp add: push_def)
qed

lemma push_settles: "push tm xs r = Inr r1 \<Longrightarrow> push tm [] r1 = Inr r1"
  using push_append [of tm xs r r1 "[]"] by simp

definition untimed :: "body_reader \<Rightarrow> body_reader" where
  "untimed r = r\<lparr>br_frames := map (\<lambda>(f, _). (f, 0)) (br_frames r)\<rparr>"

lemma untimed_fields [simp]:
  "br_pending (untimed r) = br_pending r" "br_phase (untimed r) = br_phase r" "br_need (untimed r) = br_need r"
  "br_sizes (untimed r) = br_sizes r" "br_complete (untimed r) = br_complete r"
  "br_text (untimed r) = br_text r" "br_carry (untimed r) = br_carry r" "br_bytes (untimed r) = br_bytes r"
  "untimed (r\<lparr>br_pending := q\<rparr>) = (untimed r)\<lparr>br_pending := q\<rparr>"
  "untimed (r\<lparr>br_phase := ph\<rparr>) = (untimed r)\<lparr>br_phase := ph\<rparr>"
  "untimed (r\<lparr>br_need := n\<rparr>) = (untimed r)\<lparr>br_need := n\<rparr>"
  "untimed (r\<lparr>br_sizes := ns\<rparr>) = (untimed r)\<lparr>br_sizes := ns\<rparr>"
  "untimed (r\<lparr>br_complete := c\<rparr>) = (untimed r)\<lparr>br_complete := c\<rparr>"
  by (simp_all add: untimed_def)

lemma untimed_take_body: "untimed (take_body tm bs r) = take_body 0 bs (untimed r)"
  by (simp add: take_body_def emit_text_def untimed_def split: prod.split)

lemma body_loop_untimed: "body_loop 0 (untimed r) = map_sum (map_prod id untimed) untimed (body_loop tm r)"
proof (induction tm r rule: body_loop.induct)
  case (1 tm r)
  note unfold_r = body_loop.simps [of tm r] and unfold_u = body_loop.simps [of 0 "untimed r"]
  show ?case
  proof (cases "br_phase r")
    case SizeLine
    with "1.IH"(1) [OF SizeLine] unfold_r unfold_u show ?thesis by (simp split: option.split)
  next
    case ChunkData
    with "1.IH"(2) [OF ChunkData] unfold_r unfold_u show ?thesis by (simp add: untimed_take_body)
  next
    case ChunkEnd
    with "1.IH"(3) [OF ChunkEnd] unfold_r unfold_u show ?thesis by simp
  next
    case Trailer
    with "1.IH"(4,5) [OF Trailer] unfold_r unfold_u show ?thesis by (simp split: option.split)
  qed (use unfold_r unfold_u in simp_all)
qed

lemma push_untimed: "push 0 buf (untimed r) = map_sum (map_prod id untimed) untimed (push tm buf r)"
  using body_loop_untimed [of "r\<lparr>br_pending := br_pending r @ buf\<rparr>" tm]
  by (simp add: push_def untimed_take_body)

lemma feed_push:
  "feed bufs r = Inr r1 \<Longrightarrow> push 0 [] (untimed r) = Inr (untimed r) \<Longrightarrow>
    push 0 (concat (map fst bufs)) (untimed r) = Inr (untimed r1)"
proof (induction bufs r rule: feed.induct)
  case (2 buf tm bufs r)
  from "2.prems"(1) obtain r2 where r2: "push tm buf r = Inr r2" "feed bufs r2 = Inr r1" by (auto split: sum.splits)
  have p: "push 0 buf (untimed r) = Inr (untimed r2)" using push_untimed [of buf r tm] r2(1) by simp
  from "2.IH" [OF r2 push_settles [OF p]] show ?case using push_append [OF p, of "concat (map fst bufs)"] by simp
qed simp

lemma fresh_settled: "push tm [] (createBodyReader c) = Inr (createBodyReader c)"
proof -
  have "take_body tm [] (createBodyReader False) = createBodyReader False"
    by (simp add: take_body_def createBodyReader_def decoder_write_def emit_text_def take_frames.simps)
  then show ?thesis by (cases c) (simp_all add: push_def createBodyReader_def body_loop.simps crlf_def)
qed

lemma fresh_untimed [simp]: "untimed (createBodyReader c) = createBodyReader c"
  by (simp add: untimed_def createBodyReader_def)

end
