(* ===== verification/Stream_Conformance.thy ===== *)
theory Stream_Conformance
  imports Wire_Reader
begin

text \<open>
  The stream's two ends put together: what the route of \<open>Sse_Wire\<close> writes, in the chunked coding Node's
  HTTP layer puts around each write, read back by the reader of \<open>Wire_Reader\<close> from whatever buffers the
  network makes of it; and the checks \<open>src/scripts/verify-sse-stream.mjs\<close> makes of what it read.
\<close>

section \<open>Chunked coding\<close>

text \<open>Each write is one chunk: its length in hex, a line end, its bytes, a line end.\<close>

fun hex_numeral :: "nat \<Rightarrow> jstring" where
  "hex_numeral n = (if n < 16 then [hex_digit n] else hex_numeral (n div 16) @ [hex_digit (n mod 16)])"

declare hex_numeral.simps [simp del]

definition ascii_bytes :: "jstring \<Rightarrow> byte list" where
  "ascii_bytes s = map (\<lambda>c. of_nat (unat c)) s"

definition chunk_of :: "byte list \<Rightarrow> byte list" where
  "chunk_of bs = ascii_bytes (hex_numeral (length bs)) @ crlf @ bs @ crlf"

definition last_chunk :: "byte list" where
  "last_chunk = [48] @ crlf @ crlf"

lemma hex_numeral_hex: "list_all is_lower_hex (hex_numeral n) \<and> hex_numeral n \<noteq> []"
proof (induction n rule: hex_numeral.induct)
  case (1 n)
  then show ?case by (cases "n < 16") (auto simp: hex_numeral.simps [of n] hex_digit_lower)
qed

lemma hex_value_digit: "n < 16 \<Longrightarrow> hex_value (hex_digit n) = Some n"
proof -
  have "\<forall>n \<in> set [0..<16]. hex_value (hex_digit n) = Some n" by code_simp
  then show "n < 16 \<Longrightarrow> hex_value (hex_digit n) = Some n" by simp
qed

lemma hex_digits_append: "hex_digits n (s @ t) = (case hex_digits n s of None \<Rightarrow> None | Some m \<Rightarrow> hex_digits m t)"
  by (induction s arbitrary: n) (auto split: option.split)

lemma hex_digits_numeral: "hex_digits 0 (hex_numeral n) = Some n"
proof (induction n rule: hex_numeral.induct)
  case (1 n)
  then show ?case
    by (cases "n < 16") (simp_all add: hex_numeral.simps [of n] hex_value_digit hex_digits_append)
qed

lemma hex_numeral_length: "n < 16 ^ k \<Longrightarrow> 0 < k \<Longrightarrow> length (hex_numeral n) \<le> k"
proof (induction n arbitrary: k rule: hex_numeral.induct)
  case (1 n)
  show ?case
  proof (cases "n < 16")
    case True
    with "1.prems" show ?thesis by (simp add: hex_numeral.simps [of n])
  next
    case False
    with "1.prems" obtain j where k: "k = Suc j" "0 < j" by (cases k; cases "k - 1") auto
    have "n div 16 < 16 ^ j" using "1.prems"(1) unfolding k(1) by (simp add: less_mult_imp_div_less mult.commute)
    with "1.IH" [OF False _ k(2)] k show ?thesis using False by (simp add: hex_numeral.simps [of n])
  qed
qed

lemma latin1_ascii: "list_all (\<lambda>c. unat c < 256) s \<Longrightarrow> latin1 (ascii_bytes s) = s"
proof (induction s)
  case (Cons c s)
  then have "unat (of_nat (unat c) :: byte) = unat c" by (simp add: unat_of_nat del: of_nat_unat)
  with Cons show ?case by (simp add: latin1_def ascii_bytes_def del: of_nat_unat) simp
qed (simp add: latin1_def ascii_bytes_def)

lemma lower_hex_range: "is_lower_hex c \<Longrightarrow> 48 \<le> unat c \<and> unat c \<le> 102 \<and> unat c \<noteq> 59"
  by (auto simp: is_lower_hex_def is_digit_def word_le_nat_alt)

lemma hex_not_space: "is_lower_hex c \<Longrightarrow> \<not> is_js_space c \<and> c \<noteq> 59"
proof -
  have "48 \<le> unat c \<Longrightarrow> unat c \<le> 102 \<Longrightarrow> unat c \<noteq> 59 \<Longrightarrow> \<not> is_js_space c \<and> c \<noteq> 59"
    by (simp add: is_js_space_def word_le_nat_alt word_unat_eq_iff)
  then show "is_lower_hex c \<Longrightarrow> \<not> is_js_space c \<and> c \<noteq> 59" using lower_hex_range by blast
qed

lemma chunk_size_numeral: "chunk_size (ascii_bytes (hex_numeral n)) = Some n"
proof -
  have h: "list_all is_lower_hex (hex_numeral n)" "hex_numeral n \<noteq> []" using hex_numeral_hex by blast+
  then have l: "latin1 (ascii_bytes (hex_numeral n)) = hex_numeral n"
    by (intro latin1_ascii) (auto simp: list_all_iff dest!: lower_hex_range)
  have "59 \<notin> set (hex_numeral n)" using h hex_not_space by (auto simp: list_all_iff)
  then have "hd (split_on 59 (hex_numeral n)) = hex_numeral n" by (simp add: split_on_plain)
  moreover have "trim (hex_numeral n) = hex_numeral n"
    using h hex_not_space by (simp add: trim_def dropWhile_eq_self_iff [THEN iffD2] hd_rev list_all_iff)
  ultimately show ?thesis using h hex_digits_numeral by (simp add: chunk_size_def chunk_size_text_def l)
qed

section \<open>One chunk\<close>

lemma find_crlf: "13 \<notin> set xs \<Longrightarrow> find_sub crlf (xs @ crlf @ ys) = Some (length xs)"
  by (induction xs) (auto simp: crlf_def)

lemma find_crlf_none: "13 \<notin> set xs \<Longrightarrow> find_sub crlf (xs @ take (Suc 0) ys) = None"
  by (induction xs) (cases ys; auto simp: crlf_def)+

lemma hex_bytes_plain: "13 \<notin> set (ascii_bytes (hex_numeral n))"
proof
  assume "13 \<in> set (ascii_bytes (hex_numeral n))"
  then obtain c where c: "c \<in> set (hex_numeral n)" "of_nat (unat c) = (13 :: byte)" by (auto simp: ascii_bytes_def simp del: of_nat_unat)
  from c(1) have "48 \<le> unat c \<and> unat c \<le> 102"
    using hex_numeral_hex [of n] lower_hex_range [of c] by (auto simp: list_all_iff)
  moreover from this have "unat (of_nat (unat c) :: byte) = unat c" by (simp add: unat_of_nat del: of_nat_unat)
  ultimately show False using c(2) by (simp del: of_nat_unat)
qed

text \<open>A whole chunk at the head of what is pending goes to the body, and the reader waits for the next one.\<close>

definition take_chunk :: "instant \<Rightarrow> byte list \<Rightarrow> body_reader \<Rightarrow> body_reader" where
  "take_chunk tm bs r = take_body tm bs (r\<lparr>br_sizes := br_sizes r @ [length bs]\<rparr>)"

lemma loop_chunk:
  assumes "br_phase r = SizeLine" and "br_need r = 0" and "br_pending r = chunk_of bs @ ys" and "bs \<noteq> []"
  shows "body_loop tm r = body_loop tm ((take_chunk tm bs r)\<lparr>br_pending := ys\<rparr>)"
proof -
  let ?h = "ascii_bytes (hex_numeral (length bs))"
  have p: "br_pending r = ?h @ crlf @ bs @ crlf @ ys" using assms(3) by (simp add: chunk_of_def)
  have f: "find_sub crlf (br_pending r) = Some (length ?h)" unfolding p by (rule find_crlf [OF hex_bytes_plain])
  let ?r1 = "r\<lparr>br_need := length bs, br_pending := bs @ crlf @ ys, br_phase := ChunkData\<rparr>"
  have 1: "body_loop tm r = body_loop tm ?r1"
    using f assms(1,4) by (subst body_loop.simps) (simp add: p chunk_size_numeral crlf_def)
  let ?r2 = "take_body tm bs (r\<lparr>br_sizes := br_sizes r @ [length bs], br_pending := crlf @ ys, br_need := 0, br_phase := ChunkEnd\<rparr>)"
  have 2: "body_loop tm ?r1 = body_loop tm ?r2" by (subst body_loop.simps) simp
  have 3: "body_loop tm ?r2 = body_loop tm (?r2\<lparr>br_pending := ys, br_phase := SizeLine\<rparr>)"
    by (subst body_loop.simps) (simp add: crlf_def)
  have "?r2\<lparr>br_pending := ys, br_phase := SizeLine\<rparr> = (take_chunk tm bs r)\<lparr>br_pending := ys\<rparr>"
    using assms(1,2) by (simp add: take_chunk_def take_body_def emit_text_def split: prod.split)
  with 1 2 3 show ?thesis by simp
qed

lemma append_cases:
  assumes "a @ b = c @ d"
  obtains us where "a = c @ us" | us where "c = a @ us" "b = us @ d"
  using assms by (auto simp: append_eq_append_conv2)

text \<open>A chunk that has not come whole makes the reader wait, wherever it was cut.\<close>

lemma loop_waits:
  assumes "br_phase r = SizeLine" and "strict_prefix (br_pending r) (chunk_of bs)" and "bs \<noteq> []"
    and "length bs < 16 ^ 16"
  shows "\<exists>r1. body_loop tm r = Inr r1"
proof -
  let ?h = "ascii_bytes (hex_numeral (length bs))" and ?p = "br_pending r"
  have h: "length ?h \<le> 16" using hex_numeral_length [OF assms(4)] by (simp add: ascii_bytes_def)
  obtain zs where zs: "chunk_of bs = ?p @ zs" "zs \<noteq> []" using assms(2) by (auto simp: strict_prefix_def prefix_def)
  have none: "\<exists>r1. body_loop tm r = Inr r1" if "find_sub crlf ?p = None" "length ?p \<le> 17"
    using that assms(1) by (subst body_loop.simps) simp
  from zs(1) have "?h @ crlf @ bs @ crlf = ?p @ zs" by (simp add: chunk_of_def)
  then consider (inside) us where "?h = ?p @ us" | (after) us where "?p = ?h @ us" "crlf @ bs @ crlf = us @ zs"
    by (rule append_cases)
  then show ?thesis
  proof cases
    case inside
    then have "13 \<notin> set ?p" using hex_bytes_plain [of "length bs"] by (metis Un_iff set_append)
    then have "find_sub crlf ?p = None" using find_crlf_none [of ?p "[]"] by simp
    moreover have "length ?p \<le> 17" using h arg_cong [OF inside, of length] by simp
    ultimately show ?thesis by (rule none)
  next
    case after
    show ?thesis
    proof (cases "length us < 2")
      case True
      then have "us = take (Suc 0) us" by (cases us) auto
      then have "find_sub crlf ?p = None" using after(1) find_crlf_none [OF hex_bytes_plain, of "length bs" us] by simp
      moreover have "length ?p \<le> 17" using after(1) h True by simp
      ultimately show ?thesis by (rule none)
    next
      case False
      then obtain a b q where "us = a # b # q" by (cases us; cases "tl us") auto
      with after(2) have us: "us = crlf @ q" "bs @ crlf = q @ zs" by (simp_all add: crlf_def)
      have f: "find_sub crlf ?p = Some (length ?h)" unfolding after(1) us(1) by (rule find_crlf [OF hex_bytes_plain])
      let ?r1 = "r\<lparr>br_need := length bs, br_pending := q, br_phase := ChunkData\<rparr>"
      have 1: "body_loop tm r = body_loop tm ?r1"
        using f assms(1,3) by (subst body_loop.simps) (simp add: after(1) us(1) chunk_size_numeral crlf_def)
      show ?thesis
      proof (cases "length q < length bs")
        case True
        then have "body_loop tm ?r1 = Inr ?r1" by (subst body_loop.simps) simp
        with 1 show ?thesis by simp
      next
        case False
        have "length q < length bs + 2" using arg_cong [OF us(2), of length] zs(2) by (cases zs) (simp_all add: crlf_def)
        then have "length q - length bs < 2" by linarith
        then show ?thesis unfolding 1 using False
          by (subst body_loop.simps) (simp, subst body_loop.simps, simp)
      qed
    qed
  qed
qed

section \<open>A body of chunks\<close>

definition chunked :: "byte list list \<Rightarrow> byte list" where
  "chunked ws = concat (map chunk_of ws)"

definition writable :: "byte list list \<Rightarrow> bool" where
  "writable ws \<longleftrightarrow> list_all (\<lambda>bs. bs \<noteq> [] \<and> length bs < 16 ^ 16) ws"

lemma take_chunk_frame [simp]:
  "br_phase (take_chunk tm bs r) = br_phase r" "br_need (take_chunk tm bs r) = br_need r"
  "br_pending (take_chunk tm bs r) = br_pending r" "br_sizes (take_chunk tm bs r) = br_sizes r @ [length bs]"
  "take_chunk tm bs (r\<lparr>br_pending := q\<rparr>) = (take_chunk tm bs r)\<lparr>br_pending := q\<rparr>"
  by (simp_all add: take_chunk_def take_body_def emit_text_def split: prod.split)

lemma take_chunks_frame [simp]:
  "br_phase (fold (take_chunk tm) ws r) = br_phase r" "br_need (fold (take_chunk tm) ws r) = br_need r"
  "br_pending (fold (take_chunk tm) ws r) = br_pending r"
  "fold (take_chunk tm) ws (r\<lparr>br_pending := q\<rparr>) = (fold (take_chunk tm) ws r)\<lparr>br_pending := q\<rparr>"
  by (induction ws arbitrary: r) simp_all

lemma loop_chunks:
  "br_phase r = SizeLine \<Longrightarrow> br_need r = 0 \<Longrightarrow> br_pending r = chunked ws @ ys \<Longrightarrow> writable ws \<Longrightarrow>
    body_loop tm r = body_loop tm ((fold (take_chunk tm) ws r)\<lparr>br_pending := ys\<rparr>)"
proof (induction ws arbitrary: r)
  case Nil
  then have "r\<lparr>br_pending := ys\<rparr> = r" by (simp add: chunked_def)
  then show ?case by simp
next
  case (Cons w ws)
  have "body_loop tm r = body_loop tm ((take_chunk tm w r)\<lparr>br_pending := chunked ws @ ys\<rparr>)"
    using Cons.prems by (intro loop_chunk) (simp_all add: chunked_def writable_def)
  also have "\<dots> = body_loop tm ((fold (take_chunk tm) ws (take_chunk tm w r))\<lparr>br_pending := ys\<rparr>)"
    using Cons.IH [of "(take_chunk tm w r)\<lparr>br_pending := chunked ws @ ys\<rparr>"] Cons.prems by (simp add: writable_def)
  finally show ?case by simp
qed

lemma loop_prefix:
  "br_phase r = SizeLine \<Longrightarrow> br_need r = 0 \<Longrightarrow> prefix (br_pending r) (chunked ws) \<Longrightarrow> writable ws \<Longrightarrow>
    \<exists>r1. body_loop tm r = Inr r1"
proof (induction ws arbitrary: r)
  case Nil
  then show ?case by (subst body_loop.simps) (simp add: chunked_def crlf_def)
next
  case (Cons w ws)
  let ?p = "br_pending r"
  have w: "w \<noteq> []" "length w < 16 ^ 16" using Cons.prems(4) by (simp_all add: writable_def)
  from Cons.prems(3) have "prefix ?p (chunk_of w @ chunked ws)" by (simp add: chunked_def)
  then consider "strict_prefix ?p (chunk_of w)" | q where "?p = chunk_of w @ q" "prefix q (chunked ws)"
    by (metis append_Nil2 Nil_prefix prefix_append strict_prefix_def)
  then show ?case
  proof cases
    case 1
    then show ?thesis using Cons.prems(1) w by (intro loop_waits)
  next
    case 2
    from loop_chunk [OF Cons.prems(1,2) 2(1) w(1)]
    show ?thesis using Cons.IH [of "(take_chunk tm w r)\<lparr>br_pending := q\<rparr>"] Cons.prems 2(2) by (simp add: writable_def)
  qed
qed

lemma push_prefix:
  assumes "prefix p (chunked ws)" and "writable ws"
  shows "\<exists>r1. push 0 p (createBodyReader True) = Inr r1"
  using loop_prefix [OF _ _ _ assms(2)] assms(1) by (simp add: push_def createBodyReader_def)

text \<open>Fed any beginning of the body, in any cuts, the reader does not fail.\<close>

lemma feed_accepts:
  assumes "writable ws"
  shows "push 0 acc (createBodyReader True) = Inr (untimed r) \<Longrightarrow>
    prefix (acc @ concat (map fst bufs)) (chunked ws) \<Longrightarrow> \<exists>r1. feed bufs r = Inr r1"
proof (induction bufs r arbitrary: acc rule: feed.induct)
  case (2 buf tm bufs r)
  have "prefix (acc @ buf) (chunked ws)" using "2.prems"(2) by (metis append.assoc append_prefixD concat.simps(2) fst_conv list.simps(9))
  then obtain q where q: "push 0 (acc @ buf) (createBodyReader True) = Inr q" using push_prefix [OF _ assms] by blast
  have "map_sum (map_prod id untimed) untimed (push tm buf r) = Inr q"
    using q push_append [OF "2.prems"(1), of buf] push_untimed [of buf r tm] by simp
  then obtain r1 where r1: "push tm buf r = Inr r1" "q = untimed r1" by (cases "push tm buf r") auto
  with "2.IH" [OF r1(1), of "acc @ buf"] q "2.prems"(2) show ?case by simp
qed simp

lemma take_chunks_body:
  "take_body tm [] r = r \<Longrightarrow>
    fold (take_chunk tm) ws r = take_body tm (concat ws) (r\<lparr>br_sizes := br_sizes r @ map length ws\<rparr>)"
proof (induction ws arbitrary: r)
  case (Cons w ws)
  have sizes: "(take_body tm bs q)\<lparr>br_sizes := ns\<rparr> = take_body tm bs (q\<lparr>br_sizes := ns\<rparr>)" for bs ns q
    by (simp add: take_body_def emit_text_def split: prod.split)
  have "take_body tm [] (take_chunk tm w r) = take_chunk tm w r" by (simp add: take_chunk_def take_body_append)
  from Cons.IH [OF this] have "fold (take_chunk tm) (w # ws) r =
      take_body tm (concat ws) ((take_chunk tm w r)\<lparr>br_sizes := br_sizes r @ map length (w # ws)\<rparr>)" by simp
  also have "(take_chunk tm w r)\<lparr>br_sizes := ns\<rparr> = take_body tm w (r\<lparr>br_sizes := ns\<rparr>)" for ns
    by (simp add: take_chunk_def sizes)
  finally show ?case by (simp add: take_body_append)
next
  case Nil
  then show ?case by simp
qed

lemma push_chunked:
  assumes "writable ws"
  shows "push 0 (chunked ws) (createBodyReader True) =
    Inr (take_body 0 (concat ws) ((createBodyReader True)\<lparr>br_sizes := map length ws\<rparr>))"
proof -
  let ?r = "createBodyReader True"
  have fresh: "br_pending ?r = []" "br_phase ?r = SizeLine" "br_need ?r = 0" "br_sizes ?r = []"
    by (simp_all add: createBodyReader_def)
  have idle: "take_body 0 [] ?r = ?r"
    by (simp add: take_body_def createBodyReader_def decoder_write_def emit_text_def take_frames.simps)
  have "push 0 (chunked ws) ?r = body_loop 0 (?r\<lparr>br_pending := chunked ws\<rparr>)" by (simp add: push_def fresh)
  also have "\<dots> = body_loop 0 ((fold (take_chunk 0) ws ?r)\<lparr>br_pending := []\<rparr>)"
    using loop_chunks [of "?r\<lparr>br_pending := chunked ws\<rparr>" ws "[]"] assms by (simp add: fresh)
  also have "(fold (take_chunk 0) ws ?r)\<lparr>br_pending := []\<rparr> = fold (take_chunk 0) ws ?r"
    by (metis fresh(1) body_reader.surjective body_reader.update_convs(1) take_chunks_frame(3))
  also have "body_loop 0 (fold (take_chunk 0) ws ?r) = Inr (fold (take_chunk 0) ws ?r)"
    by (subst body_loop.simps) (simp add: fresh crlf_def)
  finally show ?thesis by (simp add: take_chunks_body [OF idle] fresh)
qed

section \<open>Frames only grow\<close>

lemma take_body_frames: "prefix (br_frames r) (br_frames (take_body tm bs r))"
  by (simp add: take_body_def emit_text_def split: prod.split)

lemma body_loop_frames: "prefix (br_frames r) (br_frames (result_reader (body_loop tm r)))"
proof (induction tm r rule: body_loop.induct)
  case (1 tm r)
  note unfold_r = body_loop.simps [of tm r]
  show ?case
  proof (cases "br_phase r")
    case SizeLine
    with "1.IH"(1) [OF SizeLine] unfold_r show ?thesis
      by (fastforce simp: result_reader_def split: option.splits if_splits)
  next
    case ChunkData
    let ?r1 = "r\<lparr>br_sizes := br_sizes r @ [br_need r], br_pending := drop (br_need r) (br_pending r), br_need := 0,
      br_phase := ChunkEnd\<rparr>"
    from take_body_frames [of ?r1 tm "take (br_need r) (br_pending r)"] "1.IH"(2) [OF ChunkData] unfold_r ChunkData
    show ?thesis by (auto simp: result_reader_def intro: prefix_order.trans)
  next
    case ChunkEnd
    with "1.IH"(3) [OF ChunkEnd] unfold_r show ?thesis by (fastforce simp: result_reader_def split: if_splits)
  next
    case Trailer
    with "1.IH"(4,5) [OF Trailer] unfold_r show ?thesis
      by (fastforce simp: result_reader_def split: option.splits if_splits)
  qed (use unfold_r in \<open>simp_all add: result_reader_def\<close>)
qed

lemma push_frames: "prefix (br_frames r) (br_frames (result_reader (push tm buf r)))"
  using body_loop_frames [of "r\<lparr>br_pending := br_pending r @ buf\<rparr>" tm]
    take_body_frames [of "r\<lparr>br_pending := []\<rparr>" tm "br_pending r @ buf"]
  by (auto simp: push_def result_reader_def)

lemma feed_frames: "feed bufs r = Inr r1 \<Longrightarrow> prefix (br_frames r) (br_frames r1)"
proof (induction bufs r rule: feed.induct)
  case (2 buf tm bufs r)
  then obtain r2 where r2: "push tm buf r = Inr r2" "feed bufs r2 = Inr r1" by (auto split: sum.splits)
  with "2.IH" [OF r2] push_frames [of r tm buf] show ?case by (auto simp: result_reader_def intro: prefix_order.trans)
qed simp

lemma feed_append: "feed (xs @ ys) r = (case feed xs r of Inl e \<Rightarrow> Inl e | Inr r1 \<Rightarrow> feed ys r1)"
  by (induction xs r rule: feed.induct) (simp_all split: sum.split)

section \<open>The frames of a stream\<close>

lemma scalar_values_append: "well_formed s \<Longrightarrow> scalar_values (s @ t) = scalar_values s @ scalar_values t"
proof (induction s rule: well_formed.induct)
  case (2 c)
  then show ?case by (cases t) simp_all
qed (auto split: if_splits)

lemma text_encode_concat:
  "list_all well_formed ss \<Longrightarrow> concat (map text_encode ss) = text_encode (concat ss) \<and> well_formed (concat ss)"
  by (induction ss) (simp_all add: text_encode_def scalar_values_append well_formed_append)

definition framed :: "jstring \<Rightarrow> bool" where
  "framed f \<longleftrightarrow> 2 \<le> length f \<and> (\<forall>t. find_sub [10, 10] (f @ t) = Some (length f - 2))"

lemma find_blank_plain: "10 \<notin> set a \<Longrightarrow> find_sub [10, 10] (a @ [10, 10] @ t) = Some (length a)"
  by (induction a) (auto simp: neq_commute)

lemma find_blank_lines:
  "10 \<notin> set a \<Longrightarrow> 10 \<notin> set b \<Longrightarrow> b \<noteq> [] \<Longrightarrow>
    find_sub [10, 10] (a @ [10] @ b @ [10, 10] @ t) = Some (length a + 1 + length b)"
proof (induction a)
  case Nil
  have "find_sub [10, 10] (b @ [10, 10] @ t) = Some (length b)" using find_blank_plain [OF Nil(2)] by simp
  with Nil show ?case by (cases b) (auto simp del: find_sub.simps(2) simp: find_sub.simps(2) [of _ 10])
qed (auto simp: neq_commute)

lemma framed_plain: "plain a \<Longrightarrow> framed (a @ [10, 10])"
  using find_blank_plain [of a] by (simp add: framed_def plain_def)

lemma frame_framed:
  assumes "\<And>q. plain (num_repr q)"
  shows "framed (frame num_repr iso_of w)"
proof (cases w)
  case (Sent e)
  have "plain (js ''data: '' @ event_text num_repr iso_of e)"
    using plain_event_text [OF assms] by (simp add: plain_js del: js_Cons)
  from framed_plain [OF this] show ?thesis by (simp add: Sent frame_def event_frame_def)
next
  case Beat
  have "plain (js '': heartbeat'')" by (simp add: plain_js del: js_Cons)
  from framed_plain [OF this] show ?thesis by (simp add: Beat frame_def heartbeat_frame_def)
qed

lemma prelude_framed: "framed (prelude_frame cfg)"
proof -
  have "plain (js ''retry: '' @ num_str (sseHeartbeatMs cfg))" "plain (js '': connected'')" "js '': connected'' \<noteq> []"
    by (simp_all add: plain_js plain_num)
  from find_blank_lines [OF this(1,2) [unfolded plain_def, THEN conjunct1] this(3)]
  show ?thesis by (simp add: framed_def prelude_frame_def)
qed

lemma take_frames_framed: "list_all framed fs \<Longrightarrow> take_frames (concat fs) = (fs, [])"
proof (induction fs)
  case (Cons f fs)
  then have f: "find_sub [10, 10] (f @ concat fs) = Some (length f - 2)" and "2 \<le> length f"
    by (simp_all add: framed_def)
  from \<open>2 \<le> length f\<close> have n: "length f - 2 + 2 = length f" by (rule le_add_diff_inverse2)
  show ?case using Cons by (subst take_frames.simps) (simp add: f n del: One_nat_def add_2_eq_Suc')
qed (simp add: take_frames.simps)

section \<open>Frames are well formed\<close>

lemma well_formed_js: "well_formed (js s)"
  by (rule well_formed_plain [OF no_surrogate_js])

lemma hex_digit_plain: "n < 16 \<Longrightarrow> no_surrogate (hex_digit n)"
proof -
  assume "n < 16"
  then have "is_lower_hex (hex_digit n)" by (rule hex_digit_lower)
  from lower_hex_range [OF this] show ?thesis
    by (simp add: no_surrogate_def is_high_surrogate_def is_low_surrogate_def word_le_nat_alt)
qed

lemma quote_unit_well_formed: "list_all no_surrogate (quote_unit c)"
proof -
  have "list_all no_surrogate (unicode_escape c)"
    using no_surrogate_js [of "[CHR 0x5C, CHR ''u'']"] by (simp add: unicode_escape_def Let_def hex_digit_plain del: js_Cons)
  then show ?thesis using no_surrogate_js by (auto simp: quote_unit_def no_surrogate_def simp del: js_Cons)
qed

lemma json_quote_well_formed: "well_formed (json_quote s)"
proof -
  have "well_formed (quote_units s)"
  proof (induction s rule: quote_units.induct)
    case (3 c d s)
    then show ?case
      by (cases "is_high_surrogate c"; cases "is_low_surrogate d")
        (simp_all add: well_formed_append well_formed_plain [OF quote_unit_well_formed])
  qed (simp_all add: well_formed_plain [OF quote_unit_well_formed])
  then show ?thesis by (simp add: json_quote_def well_formed_append well_formed_js del: js_Cons)
qed

lemma commas_well_formed: "list_all well_formed ss \<Longrightarrow> well_formed (commas ss)"
  by (induction ss rule: commas.induct) (simp_all add: well_formed_append well_formed_js del: js_Cons)

lemma stringify_well_formed:
  assumes "\<And>q. well_formed (num_repr q)"
  shows "well_formed (stringify num_repr v)"
proof (induction v)
  case (JArr vs)
  then show ?case
    by (auto simp: list_all_iff intro!: commas_well_formed well_formed_append well_formed_js simp del: js_Cons)
next
  case (JObj ps)
  then show ?case
    by (fastforce simp: list_all_iff snds.simps intro!: commas_well_formed well_formed_append well_formed_js json_quote_well_formed
        simp del: js_Cons)
qed (use assms in \<open>auto simp: well_formed_js json_quote_well_formed split: jnum.split simp del: js_Cons\<close>)

definition writes :: "app_config \<Rightarrow> (rat \<Rightarrow> jstring) \<Rightarrow> (instant \<Rightarrow> jstring) \<Rightarrow> wire_item list \<Rightarrow> jstring list" where
  "writes cfg num_repr iso_of ws = prelude_frame cfg # map (frame num_repr iso_of) ws"

text \<open>The response body: one chunk for each write of the route.\<close>

definition stream_body :: "app_config \<Rightarrow> (rat \<Rightarrow> jstring) \<Rightarrow> (instant \<Rightarrow> jstring) \<Rightarrow> wire_item list \<Rightarrow> byte list" where
  "stream_body cfg num_repr iso_of ws = chunked (map text_encode (writes cfg num_repr iso_of ws))"

lemma writes_well_formed:
  assumes "\<And>q. well_formed (num_repr q)"
  shows "list_all well_formed (writes cfg num_repr iso_of ws)"
proof -
  have "is_digit c \<Longrightarrow> no_surrogate c" for c
    by (simp add: is_digit_def no_surrogate_def is_high_surrogate_def is_low_surrogate_def word_le_nat_alt)
  then have "well_formed (decimal k)" for k
    using decimal_digits [of k] by (intro well_formed_plain) (auto simp: list_all_iff)
  then have num: "well_formed (num_str n)" for n
    by (simp add: num_str_def well_formed_append well_formed_js del: js_Cons)
  have lf: "well_formed (10 # s) \<longleftrightarrow> well_formed s" for s by (rule well_formed_single [OF no_surrogate_ascii]) simp
  have "well_formed (frame num_repr iso_of w)" for w
    by (auto simp: frame_def event_frame_def heartbeat_frame_def event_text_def lf well_formed_js stringify_well_formed [OF assms]
        intro!: well_formed_append simp del: js_Cons well_formed.simps(2,3) split: wire_item.split)
  moreover have "well_formed (prelude_frame cfg)"
    by (auto simp: prelude_frame_def lf well_formed_js num intro!: well_formed_append simp del: js_Cons well_formed.simps(2,3))
  ultimately show ?thesis by (auto simp: writes_def list_all_iff)
qed

lemma text_encode_nonempty: "s \<noteq> [] \<Longrightarrow> text_encode s \<noteq> []"
proof -
  have ne: "utf8_bytes n \<noteq> []" for n by simp
  show "s \<noteq> [] \<Longrightarrow> text_encode s \<noteq> []"
    by (induction s rule: scalar_values.induct) (auto simp: text_encode_def ne simp del: utf8_bytes.simps)
qed

lemma writable_writes:
  assumes "\<And>q. plain (num_repr q) \<and> well_formed (num_repr q)"
    and "list_all (\<lambda>s. length (text_encode s) < 16 ^ 16) (writes cfg num_repr iso_of ws)"
  shows "writable (map text_encode (writes cfg num_repr iso_of ws))"
proof -
  have "list_all framed (writes cfg num_repr iso_of ws)"
    using frame_framed [of num_repr, OF conjunct1 [OF assms(1)]] prelude_framed by (auto simp: writes_def list_all_iff)
  then have "[] \<notin> set (writes cfg num_repr iso_of ws)" by (auto simp: framed_def list_all_iff)
  then have "\<forall>s \<in> set (writes cfg num_repr iso_of ws). text_encode s \<noteq> []" using text_encode_nonempty by metis
  then show ?thesis using assms(2) by (simp add: writable_def list_all_iff)
qed

lemma push_writes:
  assumes num: "\<And>q. plain (num_repr q) \<and> well_formed (num_repr q)"
    and short: "list_all (\<lambda>s. length (text_encode s) < 16 ^ 16) (writes cfg num_repr iso_of ws)"
    and p: "push 0 p (createBodyReader True) = Inr q" and cut: "prefix p (stream_body cfg num_repr iso_of ws)"
  shows "prefix (map fst (br_frames q)) (writes cfg num_repr iso_of ws)"
    and "p = stream_body cfg num_repr iso_of ws \<Longrightarrow>
       map fst (br_frames q) = writes cfg num_repr iso_of ws \<and>
       br_text q = wire_text cfg num_repr iso_of ws \<and> br_pending q = [] \<and> br_carry q = [] \<and> \<not> br_complete q \<and>
       br_sizes q = map (\<lambda>s. length (text_encode s)) (writes cfg num_repr iso_of ws)"
proof -
  let ?ss = "writes cfg num_repr iso_of ws" and ?r0 = "createBodyReader True"
  let ?bs = "map text_encode ?ss"
  have wf: "list_all well_formed ?ss" by (rule writes_well_formed) (use num in blast)
  have fr: "list_all framed ?ss"
    using frame_framed [of num_repr, OF conjunct1 [OF num]] prelude_framed by (auto simp: writes_def list_all_iff)
  have w: "writable ?bs" by (rule writable_writes [OF num short])
  define full where "full = take_body 0 (concat ?bs) (?r0\<lparr>br_sizes := map length ?bs\<rparr>)"
  have full: "br_frames full = map (\<lambda>f. (f, 0)) ?ss" "br_carry full = []" "br_text full = concat ?ss"
      "br_sizes full = map length ?bs" "br_pending full = []" "\<not> br_complete full"
    using text_encode_concat [OF wf]
    by (simp_all add: full_def take_body_def createBodyReader_def decoder_write_text emit_text_def take_frames_framed [OF fr])
  have all: "push 0 (chunked ?bs) ?r0 = Inr full" using push_chunked [OF w] by (simp add: full_def)
  obtain zs where zs: "chunked ?bs = p @ zs" using cut by (auto simp: stream_body_def prefix_def)
  have "push 0 zs q = Inr full" using push_append [OF p, of zs] all by (simp add: zs)
  with push_frames [of q 0 zs] have "prefix (br_frames q) (br_frames full)" by (simp add: result_reader_def)
  then have "prefix (map fst (br_frames q)) (map fst (br_frames full))" by (rule map_mono_prefix)
  then show "prefix (map fst (br_frames q)) ?ss" by (simp add: full(1) comp_def)
  have joined: "wire_text cfg num_repr iso_of ws = concat ?ss" by (simp add: wire_text_def writes_def)
  show "map fst (br_frames q) = ?ss \<and> br_text q = wire_text cfg num_repr iso_of ws \<and> br_pending q = [] \<and> br_carry q = [] \<and>
      \<not> br_complete q \<and> br_sizes q = map (\<lambda>s. length (text_encode s)) ?ss" if "p = stream_body cfg num_repr iso_of ws"
  proof -
    have "q = full" using p all that by (simp add: stream_body_def)
    with full show ?thesis by (simp add: joined comp_def)
  qed
qed

lemma untimed_frames: "map fst (br_frames (untimed r)) = map fst (br_frames r)"
  by (simp add: untimed_def case_prod_unfold)

text \<open>
  What the route writes reaches the reader. However the network cuts the chunked body into
  buffers, the reader never rejects them, and at every moment the frames it has found are the first
  of the frames written, whole and in order. Once all the bytes are there it has found exactly the
  prelude, the events and the heartbeats written, with nothing left over, and the chunk sizes are the
  byte lengths of the writes, which is what lets the first size show that the prelude was one write.
  The hypotheses are that a JSON number prints as well-formed text without line ends, and that no
  write has 2^64 bytes.
\<close>

theorem stream_survives_the_wire:
  assumes num: "\<And>q. plain (num_repr q) \<and> well_formed (num_repr q)"
    and short: "list_all (\<lambda>s. length (text_encode s) < 16 ^ 16) (writes cfg num_repr iso_of ws)"
    and cut: "prefix (concat (map fst bufs)) (stream_body cfg num_repr iso_of ws)"
  shows "\<exists>r. feed bufs (createBodyReader True) = Inr r \<and>
    prefix (map fst (br_frames r)) (writes cfg num_repr iso_of ws) \<and>
    (concat (map fst bufs) = stream_body cfg num_repr iso_of ws \<longrightarrow>
       map fst (br_frames r) = writes cfg num_repr iso_of ws \<and>
       br_text r = wire_text cfg num_repr iso_of ws \<and> br_pending r = [] \<and> br_carry r = [] \<and> \<not> br_complete r \<and>
       br_sizes r = map (\<lambda>s. length (text_encode s)) (writes cfg num_repr iso_of ws))"
proof -
  have "\<exists>r. feed bufs (createBodyReader True) = Inr r"
    using cut feed_accepts [OF writable_writes [OF num short], of "[]" "createBodyReader True" bufs]
    by (simp add: fresh_settled stream_body_def)
  then obtain r where r: "feed bufs (createBodyReader True) = Inr r" by blast
  have "push 0 (concat (map fst bufs)) (createBodyReader True) = Inr (untimed r)"
    using feed_push [OF r] by (simp add: fresh_settled)
  from push_writes [OF num short this cut] r show ?thesis unfolding untimed_frames untimed_fields by blast
qed

lemma text_encode_length: "length (text_encode s) \<le> 4 * length s"
  by (induction s rule: scalar_values.induct) (auto simp: text_encode_def)

lemma demo_writes_short:
  "list_all (\<lambda>s. length (text_encode s) < 16 ^ 16)
     [prelude_frame (demo_config\<lparr>sseHeartbeatMs := 5\<rparr>), heartbeat_frame, heartbeat_frame]"
proof -
  let ?p = "prelude_frame (demo_config\<lparr>sseHeartbeatMs := 5\<rparr>)"
  have "length ?p \<le> 100" "length heartbeat_frame \<le> 100"
    by (simp_all add: prelude_frame_def heartbeat_frame_def num_str_def js_def decimal.simps [of 5])
  then show ?thesis using text_encode_length [of ?p] text_encode_length [of heartbeat_frame] by simp
qed

theorem stream_survives_the_wire_witness:
  "\<exists>r. feed (map (\<lambda>b. ([b], 7)) (stream_body (demo_config\<lparr>sseHeartbeatMs := 5\<rparr>) (\<lambda>_. js ''0'') (\<lambda>_. js ''t'') [Beat, Beat]))
        (createBodyReader True) = Inr r \<and>
     map fst (br_frames r) = [prelude_frame (demo_config\<lparr>sseHeartbeatMs := 5\<rparr>), heartbeat_frame, heartbeat_frame]"
proof -
  let ?w = "writes (demo_config\<lparr>sseHeartbeatMs := 5\<rparr>) (\<lambda>_. js ''0'') (\<lambda>_. js ''t'') [Beat, Beat]"
  let ?b = "stream_body (demo_config\<lparr>sseHeartbeatMs := 5\<rparr>) (\<lambda>_. js ''0'') (\<lambda>_. js ''t'') [Beat, Beat]"
  have num: "plain (js ''0'') \<and> well_formed (js ''0'')" by (simp add: plain_js well_formed_js del: js_Cons)
  have w: "?w = [prelude_frame (demo_config\<lparr>sseHeartbeatMs := 5\<rparr>), heartbeat_frame, heartbeat_frame]" by (simp add: writes_def frame_def)
  have short: "list_all (\<lambda>s. length (text_encode s) < 16 ^ 16) ?w" unfolding w by (rule demo_writes_short)
  let ?bufs = "map (\<lambda>b. ([b], 7 :: instant)) ?b"
  have "concat (map (fst \<circ> (\<lambda>b. ([b], 7 :: instant))) bs) = bs" for bs :: "byte list" by (induction bs) simp_all
  then have drip: "concat (map fst ?bufs) = ?b" by simp
  then have "prefix (concat (map fst ?bufs)) ?b" by simp
  from stream_survives_the_wire [of "\<lambda>_. js ''0''" "demo_config\<lparr>sseHeartbeatMs := 5\<rparr>" "\<lambda>_. js ''t''" "[Beat, Beat]",
      OF num short this] drip w
  show ?thesis by metis
qed

end
