(* ===== verification/Wire_Client.thy ===== *)
theory Wire_Client
  imports Stream_Conformance
begin

text \<open>
  One request of \<open>src/scripts/verify-sse-stream.mjs\<close>: \<open>openStream\<close> with its socket handlers, the calls
  \<open>nextFrame\<close>, \<open>readBody\<close> and \<open>close\<close> on the object it resolves to, the self-check of
  \<open>--parse-fixture\<close>, and what the checks of the harness ask of a connection. The handlers run one at a
  time, so a connection is a state that steps on what happens: a buffer, the end, an error or the
  close of the socket, a timer, or a call. A step yields what it settles.
\<close>

section \<open>The state of a connection\<close>

datatype client_error = NoResponseBytes | HeadNeverCompleted | SocketFailed | ServerClosed
  | HeadRejected wire_error | BodyRejected wire_error

datatype answer = Opened | OpenFailed client_error
  | FrameIs nat "jstring \<times> instant" | FrameFailed client_error | FrameTimeout | FrameBusy
  | BodyIs jstring | BodyFailed client_error | BodyTimeout | BodyBusy

text \<open>The promise of \<open>openStream\<close>; the caller has the object only once it is resolved.\<close>

datatype promise = OpenPending | OpenResolved | OpenRejected

record wire_client =
  wc_opening :: promise
  wc_firstByteAt :: "instant option"
  wc_headAt :: "instant option"
  wc_buf :: "byte list"
  wc_head :: "wire_head option"
  wc_reader :: "body_reader option"
  wc_waiter :: "nat option"
  wc_bodyWaiter :: bool
  wc_failure :: "client_error option"
  wc_destroyed :: bool
  wc_ended :: bool

definition openStream :: wire_client where
  "openStream = \<lparr>wc_opening = OpenPending, wc_firstByteAt = None, wc_headAt = None, wc_buf = [], wc_head = None,
     wc_reader = None, wc_waiter = None, wc_bodyWaiter = False, wc_failure = None, wc_destroyed = False,
     wc_ended = False\<rparr>"

datatype client_event =
    Data "byte list" instant | SocketError | SocketEnd | SocketClose | Deadline
  | NextFrame nat | FrameTimer | ReadBody | BodyTimer | CloseCall

section \<open>Handlers\<close>

text \<open>\<open>done\<close>: the promise is settled by the first call only.\<close>

definition open_failed :: "client_error \<Rightarrow> wire_client \<Rightarrow> wire_client \<times> answer list" where
  "open_failed e c =
     (c\<lparr>wc_failure := Some e, wc_destroyed := True, wc_opening := (if wc_opening c = OpenPending then OpenRejected else wc_opening c)\<rparr>,
      if wc_opening c = OpenPending then [OpenFailed e] else [])"

definition rejectWaiters :: "client_error \<Rightarrow> wire_client \<Rightarrow> wire_client \<times> answer list" where
  "rejectWaiters e c =
     (c\<lparr>wc_waiter := None, wc_bodyWaiter := False\<rparr>,
      (case wc_waiter c of None \<Rightarrow> [] | Some _ \<Rightarrow> [FrameFailed e]) @ (if wc_bodyWaiter c then [BodyFailed e] else []))"

definition frames_of :: "wire_client \<Rightarrow> (jstring \<times> instant) list" where
  "frames_of c = (case wc_reader c of None \<Rightarrow> [] | Some r \<Rightarrow> br_frames r)"

definition text_of :: "wire_client \<Rightarrow> jstring" where
  "text_of c = (case wc_reader c of None \<Rightarrow> [] | Some r \<Rightarrow> br_text r)"

definition content_length :: "(jstring \<Rightarrow> rat option) \<Rightarrow> wire_client \<Rightarrow> nat option" where
  "content_length to_number c =
     (case wc_head c of None \<Rightarrow> None
      | Some h \<Rightarrow>
          (case wr_headers h (js ''content-length'') of None \<Rightarrow> None
           | Some v \<Rightarrow>
               (case to_number v of None \<Rightarrow> None
                | Some q \<Rightarrow> if of_int \<lfloor>q\<rfloor> = q \<and> 0 \<le> q then Some (nat \<lfloor>q\<rfloor>) else None)))"

definition bodyComplete :: "(jstring \<Rightarrow> rat option) \<Rightarrow> wire_client \<Rightarrow> bool" where
  "bodyComplete to_number c =
     (case wc_reader c of None \<Rightarrow> False
      | Some r \<Rightarrow>
          br_complete r \<or>
          (case content_length to_number c of Some n \<Rightarrow> n \<le> br_bytes r | None \<Rightarrow> wc_ended c \<or> wc_destroyed c))"

definition drain :: "(jstring \<Rightarrow> rat option) \<Rightarrow> wire_client \<Rightarrow> wire_client \<times> answer list" where
  "drain to_number c =
     (case (case wc_waiter c of
              None \<Rightarrow> (c, [])
            | Some i \<Rightarrow> if i < length (frames_of c) then (c\<lparr>wc_waiter := None\<rparr>, [FrameIs i (frames_of c ! i)]) else (c, []))
      of (c1, as) \<Rightarrow>
        if wc_bodyWaiter c1 \<and> bodyComplete to_number c1
        then (c1\<lparr>wc_bodyWaiter := False\<rparr>, as @ [BodyIs (text_of c1)]) else (c1, as))"

definition is_chunked :: "wire_head \<Rightarrow> bool" where
  "is_chunked h =
     includes_str (latin1_lower (case wr_headers h (js ''transfer-encoding'') of None \<Rightarrow> [] | Some v \<Rightarrow> v)) (js ''chunked'')"

text \<open>The \<open>data\<close> handler before the head is complete, and after (head and reader are set together).\<close>

definition head_data :: "(jstring \<Rightarrow> rat option) \<Rightarrow> byte list \<Rightarrow> instant \<Rightarrow> wire_client \<Rightarrow> wire_client \<times> answer list" where
  "head_data to_number buf tm c =
     (let c1 = c\<lparr>wc_buf := wc_buf c @ buf\<rparr>
      in case parseHead (wc_buf c1) of
        Inl e \<Rightarrow> open_failed (HeadRejected e) c1
      | Inr None \<Rightarrow> (c1, [])
      | Inr (Some h) \<Rightarrow>
          (let r = createBodyReader (is_chunked h); c2 = c1\<lparr>wc_head := Some h, wc_headAt := Some tm\<rparr>
           in case (if wr_rest h = [] then Inr r else push tm (wr_rest h) r) of
             Inl (e, r1) \<Rightarrow> open_failed (BodyRejected e) (c2\<lparr>wc_reader := Some r1\<rparr>)
           | Inr r1 \<Rightarrow>
               (case drain to_number (c2\<lparr>wc_reader := Some r1, wc_opening := OpenResolved\<rparr>) of
                  (c3, as) \<Rightarrow> (c3, Opened # as))))"

definition body_data :: "(jstring \<Rightarrow> rat option) \<Rightarrow> byte list \<Rightarrow> instant \<Rightarrow> body_reader \<Rightarrow> wire_client \<Rightarrow> wire_client \<times> answer list" where
  "body_data to_number buf tm r c =
     (case push tm buf r of
        Inl (e, r1) \<Rightarrow>
          rejectWaiters (BodyRejected e) (c\<lparr>wc_reader := Some r1, wc_failure := Some (BodyRejected e), wc_destroyed := True\<rparr>)
      | Inr r1 \<Rightarrow> drain to_number (c\<lparr>wc_reader := Some r1\<rparr>))"

definition on_data :: "(jstring \<Rightarrow> rat option) \<Rightarrow> byte list \<Rightarrow> instant \<Rightarrow> wire_client \<Rightarrow> wire_client \<times> answer list" where
  "on_data to_number buf tm c =
     (if wc_destroyed c then (c, [])
      else
        let c1 = c\<lparr>wc_firstByteAt := (case wc_firstByteAt c of None \<Rightarrow> Some tm | Some t \<Rightarrow> Some t)\<rparr>
        in case wc_reader c1 of None \<Rightarrow> head_data to_number buf tm c1 | Some r \<Rightarrow> body_data to_number buf tm r c1)"

definition on_error :: "wire_client \<Rightarrow> wire_client \<times> answer list" where
  "on_error c =
     (case rejectWaiters SocketFailed c of (c1, as) \<Rightarrow>
        if wc_head c1 = None then (case open_failed SocketFailed c1 of (c2, bs) \<Rightarrow> (c2, as @ bs))
        else (c1\<lparr>wc_failure := Some SocketFailed\<rparr>, as))"

definition on_close :: "wire_client \<Rightarrow> wire_client \<times> answer list" where
  "on_close c =
     (let e = (case wc_failure c of None \<Rightarrow> ServerClosed | Some e \<Rightarrow> e)
      in case rejectWaiters e (c\<lparr>wc_destroyed := True\<rparr>) of (c1, as) \<Rightarrow>
        if wc_head c1 = None then (case open_failed e c1 of (c2, bs) \<Rightarrow> (c2, as @ bs)) else (c1, as))"

text \<open>The timer of the open request runs until the head is parsed or the request has failed.\<close>

definition on_deadline :: "wire_client \<Rightarrow> wire_client \<times> answer list" where
  "on_deadline c =
     (if wc_head c = None \<and> wc_opening c = OpenPending
      then open_failed (if wc_firstByteAt c = None then NoResponseBytes else HeadNeverCompleted) c else (c, []))"

section \<open>Calls\<close>

definition nextFrame :: "(jstring \<Rightarrow> rat option) \<Rightarrow> nat \<Rightarrow> wire_client \<Rightarrow> wire_client \<times> answer list" where
  "nextFrame to_number i c =
     (if i < length (frames_of c) then (c, [FrameIs i (frames_of c ! i)])
      else case wc_failure c of
        Some e \<Rightarrow> (c, [FrameFailed e])
      | None \<Rightarrow> if wc_waiter c \<noteq> None then (c, [FrameBusy]) else drain to_number (c\<lparr>wc_waiter := Some i\<rparr>))"

definition readBody :: "(jstring \<Rightarrow> rat option) \<Rightarrow> wire_client \<Rightarrow> wire_client \<times> answer list" where
  "readBody to_number c =
     (if bodyComplete to_number c then (c, [BodyIs (text_of c)])
      else case wc_failure c of
        Some e \<Rightarrow> (c, [BodyFailed e])
      | None \<Rightarrow> if wc_bodyWaiter c then (c, [BodyBusy]) else drain to_number (c\<lparr>wc_bodyWaiter := True\<rparr>))"

text \<open>A call needs the object the promise resolves to; without it there is no call.\<close>

definition client_step :: "(jstring \<Rightarrow> rat option) \<Rightarrow> client_event \<Rightarrow> wire_client \<Rightarrow> wire_client \<times> answer list" where
  "client_step to_number ev c =
     (case ev of
        Data buf tm \<Rightarrow> on_data to_number buf tm c
      | SocketError \<Rightarrow> on_error c
      | SocketEnd \<Rightarrow> (c\<lparr>wc_ended := True\<rparr>, [])
      | SocketClose \<Rightarrow> on_close c
      | Deadline \<Rightarrow> on_deadline c
      | NextFrame i \<Rightarrow> if wc_opening c = OpenResolved then nextFrame to_number i c else (c, [])
      | FrameTimer \<Rightarrow>
          (case wc_waiter c of None \<Rightarrow> (c, []) | Some _ \<Rightarrow> (c\<lparr>wc_waiter := None\<rparr>, [FrameTimeout]))
      | ReadBody \<Rightarrow> if wc_opening c = OpenResolved then readBody to_number c else (c, [])
      | BodyTimer \<Rightarrow> if wc_bodyWaiter c then (c\<lparr>wc_bodyWaiter := False\<rparr>, [BodyTimeout]) else (c, [])
      | CloseCall \<Rightarrow> if wc_opening c = OpenResolved then (c\<lparr>wc_destroyed := True\<rparr>, []) else (c, []))"

fun client_run :: "(jstring \<Rightarrow> rat option) \<Rightarrow> client_event list \<Rightarrow> wire_client \<Rightarrow> wire_client \<times> answer list" where
  "client_run to_number [] c = (c, [])"
| "client_run to_number (ev # evs) c =
     (case client_step to_number ev c of (c1, as) \<Rightarrow> case client_run to_number evs c1 of (c2, bs) \<Rightarrow> (c2, as @ bs))"

section \<open>Every call is settled once\<close>

definition is_frame_answer :: "answer \<Rightarrow> bool" where
  "is_frame_answer a = (case a of FrameIs _ _ \<Rightarrow> True | FrameFailed _ \<Rightarrow> True | FrameTimeout \<Rightarrow> True | FrameBusy \<Rightarrow> True | _ \<Rightarrow> False)"

definition is_body_answer :: "answer \<Rightarrow> bool" where
  "is_body_answer a = (case a of BodyIs _ \<Rightarrow> True | BodyFailed _ \<Rightarrow> True | BodyTimeout \<Rightarrow> True | BodyBusy \<Rightarrow> True | _ \<Rightarrow> False)"

definition is_open_answer :: "answer \<Rightarrow> bool" where
  "is_open_answer a = (case a of Opened \<Rightarrow> True | OpenFailed _ \<Rightarrow> True | _ \<Rightarrow> False)"

definition tally :: "(answer \<Rightarrow> bool) \<Rightarrow> answer list \<Rightarrow> nat" where
  "tally P as = length (filter P as)"

lemma tally_simps [simp]:
  "tally P [] = 0" "tally P (a # as) = (if P a then 1 else 0) + tally P as" "tally P (as @ bs) = tally P as + tally P bs"
  by (simp_all add: tally_def)

lemma answer_kinds [simp]:
  "is_frame_answer (FrameIs i f)" "is_frame_answer (FrameFailed e)" "is_frame_answer FrameTimeout" "is_frame_answer FrameBusy"
  "\<not> is_frame_answer Opened" "\<not> is_frame_answer (OpenFailed e)" "\<not> is_frame_answer (BodyIs s)"
  "\<not> is_frame_answer (BodyFailed e)" "\<not> is_frame_answer BodyTimeout" "\<not> is_frame_answer BodyBusy"
  "is_body_answer (BodyIs s)" "is_body_answer (BodyFailed e)" "is_body_answer BodyTimeout" "is_body_answer BodyBusy"
  "\<not> is_body_answer Opened" "\<not> is_body_answer (OpenFailed e)" "\<not> is_body_answer (FrameIs i f)"
  "\<not> is_body_answer (FrameFailed e)" "\<not> is_body_answer FrameTimeout" "\<not> is_body_answer FrameBusy"
  "is_open_answer Opened" "is_open_answer (OpenFailed e)"
  "\<not> is_open_answer (FrameIs i f)" "\<not> is_open_answer (FrameFailed e)" "\<not> is_open_answer FrameTimeout"
  "\<not> is_open_answer FrameBusy" "\<not> is_open_answer (BodyIs s)" "\<not> is_open_answer (BodyFailed e)"
  "\<not> is_open_answer BodyTimeout" "\<not> is_open_answer BodyBusy"
  by (simp_all add: is_frame_answer_def is_body_answer_def is_open_answer_def)

text \<open>What is still waiting: a frame, a body, the open promise.\<close>

definition waits_frame :: "wire_client \<Rightarrow> nat" where "waits_frame c = (if wc_waiter c = None then 0 else 1)"
definition waits_body :: "wire_client \<Rightarrow> nat" where "waits_body c = (if wc_bodyWaiter c then 1 else 0)"
definition waits_open :: "wire_client \<Rightarrow> nat" where "waits_open c = (if wc_opening c = OpenPending then 1 else 0)"

lemmas waits = waits_frame_def waits_body_def waits_open_def

text \<open>The calls that were made.\<close>

definition frame_call :: "wire_client \<Rightarrow> client_event \<Rightarrow> nat" where
  "frame_call c ev = (case ev of NextFrame _ \<Rightarrow> if wc_opening c = OpenResolved then 1 else 0 | _ \<Rightarrow> 0)"

definition body_call :: "wire_client \<Rightarrow> client_event \<Rightarrow> nat" where
  "body_call c ev = (case ev of ReadBody \<Rightarrow> if wc_opening c = OpenResolved then 1 else 0 | _ \<Rightarrow> 0)"

fun calls :: "(jstring \<Rightarrow> rat option) \<Rightarrow> (wire_client \<Rightarrow> client_event \<Rightarrow> nat) \<Rightarrow> client_event list \<Rightarrow> wire_client \<Rightarrow> nat" where
  "calls to_number call [] c = 0"
| "calls to_number call (ev # evs) c = call c ev + calls to_number call evs (fst (client_step to_number ev c))"

lemma settle_parts:
  "open_failed e c = (c1, as) \<Longrightarrow> waits_frame c1 = waits_frame c \<and> waits_body c1 = waits_body c \<and> wc_opening c1 \<noteq> OpenPending \<and>
     tally is_frame_answer as = 0 \<and> tally is_body_answer as = 0 \<and> tally is_open_answer as = waits_open c"
  "rejectWaiters e c = (c1, as) \<Longrightarrow> waits_frame c1 = 0 \<and> waits_body c1 = 0 \<and> wc_opening c1 = wc_opening c \<and>
     tally is_frame_answer as = waits_frame c \<and> tally is_body_answer as = waits_body c \<and> tally is_open_answer as = 0"
  "drain to_number c = (c1, as) \<Longrightarrow> tally is_frame_answer as + waits_frame c1 = waits_frame c \<and>
     tally is_body_answer as + waits_body c1 = waits_body c \<and> wc_opening c1 = wc_opening c \<and> tally is_open_answer as = 0"
    apply (auto simp: open_failed_def waits)[1]
   apply (auto simp: rejectWaiters_def waits split: option.split)[1]
  apply (auto simp: drain_def waits split: option.splits if_splits prod.splits)[1]
  done

text \<open>A connection without its head is still waiting for it, or destroyed; a resolved one has its head.\<close>

definition client_ok :: "wire_client \<Rightarrow> bool" where
  "client_ok c \<longleftrightarrow> (wc_reader c = None \<longleftrightarrow> wc_head c = None) \<and> (wc_head c = None \<and> \<not> wc_destroyed c \<longrightarrow> wc_opening c = OpenPending) \<and>
     (wc_opening c = OpenResolved \<longrightarrow> wc_head c \<noteq> None) \<and> (wc_opening c = OpenPending \<longrightarrow> wc_head c = None)"

lemma drain_frame:
  "drain to_number c = (c1, as) \<Longrightarrow> wc_reader c1 = wc_reader c \<and> wc_head c1 = wc_head c \<and> wc_destroyed c1 = wc_destroyed c \<and>
     wc_opening c1 = wc_opening c \<and> wc_failure c1 = wc_failure c"
  by (auto simp: drain_def split: option.splits if_splits prod.splits)

lemma drain_ok: "drain to_number c = (c1, as) \<Longrightarrow> client_ok c1 \<longleftrightarrow> client_ok c"
  using drain_frame [of to_number c c1 as] by (simp add: client_ok_def)

text \<open>What a step settles, against what was waiting and what was called.\<close>

definition balanced :: "wire_client \<Rightarrow> nat \<Rightarrow> nat \<Rightarrow> wire_client \<times> answer list \<Rightarrow> bool" where
  "balanced c frame_calls body_calls res \<longleftrightarrow>
     (case res of (c1, as) \<Rightarrow> client_ok c1 \<and>
        tally is_frame_answer as + waits_frame c1 = waits_frame c + frame_calls \<and>
        tally is_body_answer as + waits_body c1 = waits_body c + body_calls \<and>
        tally is_open_answer as + waits_open c1 = waits_open c)"

text \<open>A connection that differs from another only where nothing is waiting for it.\<close>

definition same_waits :: "wire_client \<Rightarrow> wire_client \<Rightarrow> bool" where
  "same_waits c q \<longleftrightarrow> wc_opening q = wc_opening c \<and> wc_waiter q = wc_waiter c \<and> wc_bodyWaiter q = wc_bodyWaiter c"

lemma balanced_same: "same_waits c q \<Longrightarrow> client_ok q \<Longrightarrow> balanced c 0 0 (q, [])"
  by (simp add: balanced_def same_waits_def waits)

lemma balanced_start: "same_waits c q \<Longrightarrow> balanced q n m res \<longleftrightarrow> balanced c n m res"
  by (simp add: balanced_def same_waits_def waits)

lemma balanced_seq:
  "balanced c n m (c1, as) \<Longrightarrow> balanced c1 n1 m1 (c2, bs) \<Longrightarrow> balanced c (n + n1) (m + m1) (c2, as @ bs)"
  by (simp add: balanced_def)

lemma balanced_open_failed:
  assumes "wc_reader c = None \<longleftrightarrow> wc_head c = None" and "wc_opening c = OpenResolved \<longrightarrow> wc_head c \<noteq> None"
  shows "balanced c 0 0 (open_failed e c)"
  using assms by (cases "wc_opening c") (auto simp: balanced_def open_failed_def client_ok_def waits)

lemma balanced_open_failed_ok: "client_ok c \<Longrightarrow> balanced c 0 0 (open_failed e c)"
  unfolding client_ok_def by (rule balanced_open_failed) blast+

lemma balanced_reject: "client_ok c \<Longrightarrow> balanced c 0 0 (rejectWaiters e c)"
  by (simp add: balanced_def rejectWaiters_def client_ok_def waits split: option.split)

lemma balanced_drain:
  assumes "client_ok q"
  shows "balanced q 0 0 (drain to_number q)"
proof -
  obtain c1 as where d: "drain to_number q = (c1, as)" by fastforce
  show ?thesis using assms drain_ok [OF d] settle_parts(3) [OF d] by (simp add: balanced_def d waits_open_def)
qed

lemma balanced_head:
  assumes "wc_reader q = None" "wc_head q = None" "wc_opening q = OpenPending"
  shows "balanced q 0 0 (head_data to_number buf tm q)"
proof (cases "parseHead (wc_buf q @ buf)")
  case (Inl e)
  let ?q = "q\<lparr>wc_buf := wc_buf q @ buf\<rparr>"
  have "balanced ?q 0 0 (open_failed (HeadRejected e) ?q)" using assms by (intro balanced_open_failed) simp_all
  then have "balanced q 0 0 (open_failed (HeadRejected e) ?q)" by (subst balanced_start [symmetric, of q ?q]) (simp_all add: same_waits_def)
  with Inl show ?thesis by (simp add: head_data_def)
next
  case (Inr x)
  show ?thesis
  proof (cases x)
    case None
    with Inr assms show ?thesis
      by (simp add: head_data_def) (rule balanced_same; simp add: same_waits_def client_ok_def)
  next
    case (Some h)
    let ?r = "createBodyReader (is_chunked h)" and ?q = "q\<lparr>wc_buf := wc_buf q @ buf, wc_head := Some h, wc_headAt := Some tm\<rparr>"
    show ?thesis
    proof (cases "if wr_rest h = [] then Inr ?r else push tm (wr_rest h) ?r")
      case (Inl y)
      obtain e r1 where y: "y = (e, r1)" by fastforce
      let ?q1 = "?q\<lparr>wc_reader := Some r1\<rparr>"
      have "balanced ?q1 0 0 (open_failed (BodyRejected e) ?q1)" by (intro balanced_open_failed) simp_all
      then have "balanced q 0 0 (open_failed (BodyRejected e) ?q1)" by (subst balanced_start [symmetric, of q ?q1]) (simp_all add: same_waits_def)
      then show ?thesis using Inl y Inr Some by (simp add: head_data_def Let_def)
    next
      case (Inr r1)
      let ?q1 = "?q\<lparr>wc_reader := Some r1, wc_opening := OpenResolved\<rparr>"
      obtain c3 as where d: "drain to_number ?q1 = (c3, as)" by fastforce
      have b: "balanced ?q1 0 0 (c3, as)" using balanced_drain [of ?q1 to_number] by (simp add: d client_ok_def)
      have "balanced q 0 0 (?q1, [Opened])" using assms by (simp add: balanced_def client_ok_def waits)
      from balanced_seq [OF this b] show ?thesis
        using Inr \<open>parseHead (wc_buf q @ buf) = Inr x\<close> Some d by (simp add: head_data_def Let_def)
    qed
  qed
qed

lemma balanced_body:
  assumes "client_ok q" and "wc_reader q = Some r"
  shows "balanced q 0 0 (body_data to_number buf tm r q)"
proof (cases "push tm buf r")
  case (Inl x)
  obtain e r1 where x: "x = (e, r1)" by fastforce
  let ?q = "q\<lparr>wc_reader := Some r1, wc_failure := Some (BodyRejected e), wc_destroyed := True\<rparr>"
  have "balanced ?q 0 0 (rejectWaiters (BodyRejected e) ?q)" using assms by (intro balanced_reject) (simp add: client_ok_def)
  then have "balanced q 0 0 (rejectWaiters (BodyRejected e) ?q)" by (subst balanced_start [symmetric, of q ?q]) (simp_all add: same_waits_def)
  then show ?thesis by (simp add: body_data_def Inl x)
next
  case (Inr r1)
  let ?q = "q\<lparr>wc_reader := Some r1\<rparr>"
  have "balanced ?q 0 0 (drain to_number ?q)" using assms by (intro balanced_drain) (simp add: client_ok_def)
  then have "balanced q 0 0 (drain to_number ?q)" by (subst balanced_start [symmetric, of q ?q]) (simp_all add: same_waits_def)
  then show ?thesis by (simp add: body_data_def Inr)
qed

lemma balanced_data:
  assumes "client_ok c"
  shows "balanced c 0 0 (on_data to_number buf tm c)"
proof (cases "wc_destroyed c")
  case True
  then show ?thesis using balanced_same [of c c] assms by (simp add: on_data_def same_waits_def)
next
  case False
  let ?q = "c\<lparr>wc_firstByteAt := (case wc_firstByteAt c of None \<Rightarrow> Some tm | Some t \<Rightarrow> Some t)\<rparr>"
  have s: "same_waits c ?q" by (simp add: same_waits_def)
  have ok: "client_ok ?q" using assms by (simp add: client_ok_def)
  show ?thesis
  proof (cases "wc_reader c")
    case None
    with assms False have "balanced ?q 0 0 (head_data to_number buf tm ?q)" by (intro balanced_head) (simp_all add: client_ok_def)
    with None False show ?thesis by (simp add: on_data_def Let_def balanced_start [OF s])
  next
    case (Some r)
    with balanced_body [OF ok] have "balanced ?q 0 0 (body_data to_number buf tm r ?q)" by simp
    with Some False show ?thesis by (simp add: on_data_def Let_def balanced_start [OF s])
  qed
qed

text \<open>Reject what waits, then the promise if there is no head.\<close>

lemma balanced_give_up:
  assumes "client_ok c" and r: "rejectWaiters e c = (c1, as)"
  shows "balanced c 0 0 (case open_failed e c1 of (c2, bs) \<Rightarrow> (c2, as @ bs))" and "balanced c 0 0 (c1, as)"
proof -
  show 1: "balanced c 0 0 (c1, as)" using balanced_reject [OF assms(1), of e] r by simp
  obtain c2 bs where o: "open_failed e c1 = (c2, bs)" by fastforce
  have "client_ok c1" using 1 by (simp add: balanced_def)
  then have "balanced c1 0 0 (c2, bs)" using balanced_open_failed_ok [of c1 e] o by simp
  from balanced_seq [OF 1 this] o show "balanced c 0 0 (case open_failed e c1 of (c2, bs) \<Rightarrow> (c2, as @ bs))" by simp
qed

lemma balanced_close:
  assumes ok: "client_ok c"
  shows "balanced c 0 0 (on_error c)" and "balanced c 0 0 (on_close c)" and "balanced c 0 0 (on_deadline c)"
proof -
  obtain c1 as where r: "rejectWaiters SocketFailed c = (c1, as)" by fastforce
  note give_up = balanced_give_up [OF ok r]
  have "balanced c 0 0 (c1\<lparr>wc_failure := Some SocketFailed\<rparr>, as)" using give_up(2) by (simp add: balanced_def client_ok_def waits)
  with give_up show "balanced c 0 0 (on_error c)" by (simp add: on_error_def r)
  let ?q = "c\<lparr>wc_destroyed := True\<rparr>" and ?e = "case wc_failure c of None \<Rightarrow> ServerClosed | Some e \<Rightarrow> e"
  have s: "same_waits c ?q" by (simp add: same_waits_def)
  have okq: "client_ok ?q" using ok by (simp add: client_ok_def)
  obtain c2 bs where r2: "rejectWaiters ?e ?q = (c2, bs)" by fastforce
  show "balanced c 0 0 (on_close c)"
    using balanced_give_up [OF okq r2] by (simp add: on_close_def Let_def r2 balanced_start [OF s])
  show "balanced c 0 0 (on_deadline c)"
    using balanced_open_failed_ok [OF ok] balanced_same [OF _ ok, of c] by (simp add: on_deadline_def same_waits_def)
qed

lemma balanced_call:
  assumes ok: "client_ok c"
  shows "balanced c 1 0 (nextFrame to_number i c)" and "balanced c 0 1 (readBody to_number c)"
proof -
  have "balanced c 1 0 (drain to_number (c\<lparr>wc_waiter := Some i\<rparr>))" if "wc_waiter c = None"
    using that balanced_drain [of "c\<lparr>wc_waiter := Some i\<rparr>" to_number] ok by (simp add: balanced_def waits client_ok_def)
  then show "balanced c 1 0 (nextFrame to_number i c)"
    using ok by (simp add: nextFrame_def balanced_def [of c "Suc 0" 0 "(c, _)"] split: option.split)
  have "balanced c 0 1 (drain to_number (c\<lparr>wc_bodyWaiter := True\<rparr>))" if "\<not> wc_bodyWaiter c"
    using that balanced_drain [of "c\<lparr>wc_bodyWaiter := True\<rparr>" to_number] ok by (simp add: balanced_def waits client_ok_def)
  then show "balanced c 0 1 (readBody to_number c)"
    using ok by (simp add: readBody_def balanced_def [of c 0 "Suc 0" "(c, _)"] split: option.split)
qed

lemma balanced_step:
  assumes ok: "client_ok c"
  shows "balanced c (frame_call c ev) (body_call c ev) (client_step to_number ev c)"
proof -
  have idle: "balanced c 0 0 (c, [])" using ok by (simp add: balanced_def)
  show ?thesis
  proof (cases ev)
    case (Data buf tm)
    with balanced_data [OF ok] show ?thesis by (simp add: client_step_def frame_call_def body_call_def)
  next
    case FrameTimer
    with idle ok show ?thesis
      by (simp add: client_step_def frame_call_def body_call_def balanced_def waits client_ok_def split: option.split)
  next
    case (NextFrame i)
    with idle balanced_call(1) [OF ok] show ?thesis by (simp add: client_step_def frame_call_def body_call_def)
  next
    case ReadBody
    with idle balanced_call(2) [OF ok] show ?thesis by (simp add: client_step_def frame_call_def body_call_def)
  qed (use idle balanced_close [OF ok] ok in
      \<open>simp_all add: client_step_def frame_call_def body_call_def balanced_def waits client_ok_def\<close>)
qed

lemma run_balanced:
  "client_ok c \<Longrightarrow> balanced c (calls to_number frame_call evs c) (calls to_number body_call evs c) (client_run to_number evs c)"
proof (induction evs arbitrary: c)
  case Nil
  then show ?case by (simp add: balanced_def)
next
  case (Cons ev evs)
  obtain c1 as where s: "client_step to_number ev c = (c1, as)" by fastforce
  from balanced_step [OF Cons.prems, of ev to_number] s have b: "balanced c (frame_call c ev) (body_call c ev) (c1, as)" by simp
  then have "client_ok c1" by (simp add: balanced_def)
  from Cons.IH [OF this] b show ?case by (auto simp: s balanced_def split: prod.splits)
qed

lemma fresh_ok: "client_ok openStream"
  by (simp add: client_ok_def openStream_def)

text \<open>
  C30. Every promise of a connection settles at most once and none is lost: over any sequence of
  buffers, errors, timers, closes and calls, the open promise has one answer unless it still waits
  for a response, and the calls of \<open>nextFrame\<close> and of \<open>readBody\<close> are each answered once, but for at
  most one of either that is still waiting. When the socket closes, nothing that was waiting stays so.
\<close>

theorem client_settles_once:
  "case client_run to_number evs openStream of (c, as) \<Rightarrow>
     tally is_open_answer as + waits_open c = 1 \<and>
     tally is_frame_answer as + waits_frame c = calls to_number frame_call evs openStream \<and>
     tally is_body_answer as + waits_body c = calls to_number body_call evs openStream \<and>
     (case client_run to_number (evs @ [SocketClose]) openStream of (d, _) \<Rightarrow>
        waits_open d = 0 \<and> waits_frame d = 0 \<and> waits_body d = 0)"
proof -
  have app: "client_run to_number (xs @ ys) c = (case client_run to_number xs c of (c1, as) \<Rightarrow>
      case client_run to_number ys c1 of (c2, bs) \<Rightarrow> (c2, as @ bs))" for xs ys c
    by (induction xs arbitrary: c) (simp_all split: prod.split)
  obtain c as where r: "client_run to_number evs openStream = (c, as)" by fastforce
  have b: "balanced openStream (calls to_number frame_call evs openStream) (calls to_number body_call evs openStream) (c, as)"
    using run_balanced [OF fresh_ok, of to_number evs] r by simp
  then have ok: "client_ok c" by (simp add: balanced_def)
  obtain d bs where d: "on_close c = (d, bs)" by fastforce
  have "waits_open d = 0 \<and> waits_frame d = 0 \<and> waits_body d = 0"
    using d ok by (cases "wc_opening c")
      (auto simp: on_close_def Let_def rejectWaiters_def open_failed_def client_ok_def waits split: if_splits)
  moreover have "waits_open openStream = 1" "waits_frame openStream = 0" "waits_body openStream = 0"
    by (simp_all add: waits openStream_def)
  ultimately show ?thesis using b by (simp add: app r client_step_def d balanced_def)
qed

section \<open>Reading the route's stream\<close>

lemma parseHead_append:
  assumes "parseHead xs = Inr (Some h)"
  shows "parseHead (xs @ ys) = Inr (Some (h\<lparr>wr_rest := wr_rest h @ ys\<rparr>))"
proof -
  obtain i where i: "find_sub (crlf @ crlf) xs = Some i" using assms by (auto simp: parseHead_def split: option.splits if_splits)
  have len: "i + 4 \<le> length xs" using find_sub_Some [OF i] by (simp add: crlf_def)
  show ?thesis using assms find_sub_append [OF i, of ys] i len
    by (auto simp: parseHead_def split: list.splits option.splits sum.splits)
qed

lemma parseHead_prefix:
  assumes "parseHead H = Inr (Some h)" and "wr_rest h = []" and "length H \<le> 64 * 1024" and "strict_prefix p H"
  shows "parseHead p = Inr None"
proof (cases "find_sub (crlf @ crlf) p")
  case None
  have "length p < length H" using assms(4) by (rule prefix_length_less)
  with None assms(3) show ?thesis by (simp add: parseHead_def)
next
  case (Some i)
  obtain zs where zs: "H = p @ zs" "zs \<noteq> []" using assms(4) by (auto simp: strict_prefix_def prefix_def)
  have len: "i + 4 \<le> length p" using find_sub_Some [OF Some] by (simp add: crlf_def)
  have "wr_rest h = drop (i + 4) H"
    using assms(1) find_sub_append [OF Some, of zs] zs(1)
    by (auto simp: parseHead_def split: list.splits option.splits sum.splits)
  then show ?thesis using assms(2) zs len by simp
qed

fun bytes_of :: "client_event list \<Rightarrow> byte list" where
  "bytes_of [] = []"
| "bytes_of (Data buf tm # evs) = buf @ bytes_of evs"
| "bytes_of (_ # evs) = bytes_of evs"

definition blameless :: "client_error \<Rightarrow> bool" where
  "blameless e = (case e of HeadRejected _ \<Rightarrow> False | BodyRejected _ \<Rightarrow> False | _ \<Rightarrow> True)"

text \<open>An answer that is right about a stream of the writes \<open>W\<close>.\<close>

definition true_answer :: "jstring list \<Rightarrow> answer \<Rightarrow> bool" where
  "true_answer W a =
     (case a of FrameIs i f \<Rightarrow> i < length W \<and> fst f = W ! i
      | OpenFailed e \<Rightarrow> blameless e | FrameFailed e \<Rightarrow> blameless e | BodyFailed e \<Rightarrow> blameless e | _ \<Rightarrow> True)"

text \<open>A connection that has read the bytes \<open>acc\<close> of head \<open>H\<close> and a body.\<close>

definition has_read :: "byte list \<Rightarrow> byte list \<Rightarrow> wire_client \<Rightarrow> bool" where
  "has_read H acc c \<longleftrightarrow>
     (case wc_reader c of
        None \<Rightarrow> wc_buf c = acc \<and> strict_prefix acc H \<and> wc_waiter c = None
      | Some r \<Rightarrow> prefix H acc \<and> push 0 (drop (length H) acc) (createBodyReader True) = Inr (untimed r)) \<and>
     (\<forall>i. wc_waiter c = Some i \<longrightarrow> length (frames_of c) \<le> i) \<and>
     (\<forall>e. wc_failure c = Some e \<longrightarrow> blameless e)"

lemma has_read_same:
  "has_read H acc c \<Longrightarrow> wc_reader d = wc_reader c \<Longrightarrow> wc_buf d = wc_buf c \<Longrightarrow> wc_waiter d = wc_waiter c \<or> wc_waiter d = None \<Longrightarrow>
    (\<And>e. wc_failure d = Some e \<Longrightarrow> blameless e) \<Longrightarrow> has_read H acc d"
  by (auto simp: has_read_def frames_of_def split: option.splits)

text \<open>What the connection needs of a head \<open>H\<close> and a body \<open>B\<close> that holds the writes \<open>W\<close>.\<close>

definition carries :: "byte list \<Rightarrow> byte list \<Rightarrow> jstring list \<Rightarrow> bool" where
  "carries H B W \<longleftrightarrow>
     (\<exists>h. parseHead H = Inr (Some h) \<and> wr_rest h = [] \<and> is_chunked h \<and> length H \<le> 64 * 1024) \<and>
     (\<forall>p. prefix p B \<longrightarrow> (\<exists>q. push 0 p (createBodyReader True) = Inr q \<and> prefix (map fst (br_frames q)) W \<and>
        (p = B \<longrightarrow> map fst (br_frames q) = W)))"

lemma push_timed:
  assumes "push 0 p (createBodyReader True) = Inr (untimed r)" and "push 0 (p @ buf) (createBodyReader True) = Inr q"
  obtains r1 where "push tm buf r = Inr r1" "untimed r1 = q"
proof -
  have "map_sum (map_prod id untimed) untimed (push tm buf r) = Inr q"
    using push_append [OF assms(1), of buf] push_untimed [of buf r tm] assms(2) by simp
  then show ?thesis using that by (cases "push tm buf r") auto
qed

lemma carried_frames:
  assumes "carries H B W" and "prefix p B" and "push 0 p (createBodyReader True) = Inr (untimed r)"
  shows "prefix (map fst (br_frames r)) W" and "p = B \<Longrightarrow> map fst (br_frames r) = W"
  using assms untimed_frames [of r] by (auto simp: carries_def)

lemma drain_reads:
  assumes r: "wc_reader c = Some r" "prefix H acc" "push 0 (drop (length H) acc) (createBodyReader True) = Inr (untimed r)"
    and B: "carries H B W" "prefix acc (H @ B)" and ok: "\<And>e. wc_failure c = Some e \<Longrightarrow> blameless e"
    and d: "drain to_number c = (c1, as)"
  shows "has_read H acc c1 \<and> (\<forall>a \<in> set as. true_answer W a)"
proof -
  have "prefix (drop (length H) acc) B" using r(2) B(2) by (auto simp: prefix_def)
  then have f: "prefix (map fst (br_frames r)) W" using carried_frames(1) [OF B(1) _ r(3)] by blast
  have "i < length W \<and> fst (br_frames r ! i) = W ! i" if "i < length (br_frames r)" for i
    using f that by (auto simp: prefix_def nth_append)
  then have "\<forall>a \<in> set as. true_answer W a" using d r(1)
    by (auto simp: drain_def frames_of_def true_answer_def split: option.splits if_splits)
  moreover have "has_read H acc c1"
  proof -
    have "wc_waiter c1 = Some i \<Longrightarrow> length (frames_of c1) \<le> i" for i
      using d r(1) by (auto simp: drain_def frames_of_def split: option.splits if_splits)
    then show ?thesis using drain_frame [OF d] r ok by (auto simp: has_read_def)
  qed
  ultimately show ?thesis by blast
qed

lemma data_reads:
  assumes B: "carries H B W" "prefix (acc @ buf) (H @ B)" and c: "has_read H acc c" "\<not> wc_destroyed c"
    and d: "on_data to_number buf tm c = (c1, as)"
  shows "has_read H (acc @ buf) c1 \<and> (\<forall>a \<in> set as. true_answer W a)"
proof -
  let ?c = "c\<lparr>wc_firstByteAt := (case wc_firstByteAt c of None \<Rightarrow> Some tm | Some t \<Rightarrow> Some t)\<rparr>"
  have fail: "\<And>e. wc_failure c = Some e \<Longrightarrow> blameless e" using c(1) by (simp add: has_read_def)
  obtain h where h: "parseHead H = Inr (Some h)" "wr_rest h = []" "is_chunked h" "length H \<le> 64 * 1024"
    using B(1) by (auto simp: carries_def)
  show ?thesis
  proof (cases "wc_reader c")
    case None
    then have a: "wc_buf c = acc" "wc_waiter c = None" using c(1) by (simp_all add: has_read_def)
    have d1: "head_data to_number buf tm ?c = (c1, as)" using d c(2) None by (simp add: on_data_def)
    consider (short) "strict_prefix (acc @ buf) H" | (full) b where "acc @ buf = H @ b" "prefix b B"
      using B(2) by (metis append_Nil2 Nil_prefix prefix_append strict_prefix_def)
    then show ?thesis
    proof cases
      case short
      from parseHead_prefix [OF h(1,2,4) short] have "c1 = ?c\<lparr>wc_buf := acc @ buf\<rparr>" "as = []"
        using d1 a(1) by (simp_all add: head_data_def)
      with short None a fail show ?thesis by (simp add: has_read_def)
    next
      case full
      let ?r = "createBodyReader True"
      obtain q where q: "push 0 b ?r = Inr q" using B(1) full(2) by (auto simp: carries_def)
      obtain r1 where r1: "push tm b ?r = Inr r1" "untimed r1 = q"
        by (rule push_timed [of "[]" ?r b q tm]) (simp_all add: q fresh_settled)
      define hb where "hb = h\<lparr>wr_rest := b\<rparr>"
      have ph: "parseHead (H @ b) = Inr (Some hb)" using parseHead_append [OF h(1), of b] h(2) by (simp add: hb_def)
      have ch: "is_chunked hb" using h(3) by (simp add: hb_def is_chunked_def)
      have r2: "(if wr_rest hb = [] then Inr ?r else push tm (wr_rest hb) ?r) = Inr r1"
        using r1(1) by (cases "b = []") (simp_all add: hb_def fresh_settled)
      let ?c2 = "?c\<lparr>wc_buf := acc @ buf, wc_head := Some hb, wc_headAt := Some tm, wc_reader := Some r1, wc_opening := OpenResolved\<rparr>"
      obtain bs where bs: "drain to_number ?c2 = (c1, bs)" "as = Opened # bs"
        using d1 by (auto simp: head_data_def a(1) full(1) ph ch r2 Let_def simp del: if_split split: prod.splits)
      have "has_read H (acc @ buf) c1 \<and> (\<forall>a \<in> set bs. true_answer W a)"
        by (rule drain_reads [OF _ _ _ B(1) B(2) _ bs(1), of r1]) (use full(1) q r1 fail in auto)
      then show ?thesis by (simp add: bs(2) true_answer_def)
    qed
  next
    case (Some r)
    then have a: "prefix H acc" "push 0 (drop (length H) acc) (createBodyReader True) = Inr (untimed r)"
      using c(1) by (simp_all add: has_read_def)
    have b: "drop (length H) (acc @ buf) = drop (length H) acc @ buf" using a(1) by (auto simp: prefix_def)
    have "prefix (drop (length H) (acc @ buf)) B" using a(1) B(2) by (auto simp: prefix_def)
    then obtain q where q: "push 0 (drop (length H) (acc @ buf)) (createBodyReader True) = Inr q"
      using B(1) by (auto simp: carries_def)
    obtain r1 where r1: "push tm buf r = Inr r1" "untimed r1 = q" by (rule push_timed [OF a(2) q [unfolded b]])
    have "drain to_number (?c\<lparr>wc_reader := Some r1\<rparr>) = (c1, as)"
      using d c(2) Some r1(1) by (simp add: on_data_def body_data_def)
    then show ?thesis
      by (rule drain_reads [OF _ _ _ B(1) B(2), of _ r1, rotated 4]) (use a(1) q r1 fail in \<open>auto simp: prefix_def\<close>)
  qed
qed

definition reading :: "byte list \<Rightarrow> byte list \<Rightarrow> byte list \<Rightarrow> wire_client \<Rightarrow> bool" where
  "reading H B acc c \<longleftrightarrow> has_read H acc c \<and> prefix acc (H @ B)"

lemma reading_frame:
  assumes "carries H B W" and "reading H B acc c" and "i < length (frames_of c)"
  shows "i < length W \<and> fst (frames_of c ! i) = W ! i"
proof -
  obtain r where r: "wc_reader c = Some r" using assms(3) by (auto simp: frames_of_def split: option.splits)
  then have a: "prefix H acc" "push 0 (drop (length H) acc) (createBodyReader True) = Inr (untimed r)" "prefix acc (H @ B)"
    using assms(2) by (simp_all add: reading_def has_read_def)
  then have "prefix (drop (length H) acc) B" by (auto simp: prefix_def)
  from carried_frames(1) [OF assms(1) this a(2)] show ?thesis
    using assms(3) by (auto simp: frames_of_def r prefix_def nth_append)
qed

lemma reading_same:
  "reading H B acc c \<Longrightarrow> wc_reader d = wc_reader c \<Longrightarrow> wc_buf d = wc_buf c \<Longrightarrow> wc_waiter d = wc_waiter c \<or> wc_waiter d = None \<Longrightarrow>
    (\<And>e. wc_failure d = Some e \<Longrightarrow> blameless e) \<Longrightarrow> reading H B acc d"
  using has_read_same [of H acc c d] by (simp add: reading_def)

lemma reading_failure: "reading H B acc c \<Longrightarrow> wc_failure c = Some e \<Longrightarrow> blameless e"
  by (simp add: reading_def has_read_def)

lemma reading_reject:
  assumes "reading H B acc c" and "blameless e" and "rejectWaiters e c = (c1, as)"
  shows "reading H B acc c1 \<and> (\<forall>a \<in> set as. true_answer W a)"
  using assms reading_same [OF assms(1), of c1] reading_failure [OF assms(1)]
  by (auto simp: rejectWaiters_def true_answer_def split: option.splits if_splits)

lemma reading_open_failed:
  assumes "reading H B acc c" and "blameless e" and "open_failed e c = (c1, as)"
  shows "reading H B acc c1 \<and> (\<forall>a \<in> set as. true_answer W a)"
  using assms reading_same [OF assms(1), of c1] by (auto simp: open_failed_def true_answer_def split: if_splits)

lemma reading_drain:
  assumes "carries H B W" and "reading H B acc c" and ok: "client_ok q" "wc_head q \<noteq> None"
    and q: "wc_reader q = wc_reader c" "wc_failure q = wc_failure c" and d: "drain to_number q = (c1, as)"
  shows "reading H B acc c1 \<and> (\<forall>a \<in> set as. true_answer W a)"
proof -
  obtain r where r: "wc_reader q = Some r" using ok by (auto simp: client_ok_def)
  have "has_read H acc c1 \<and> (\<forall>a \<in> set as. true_answer W a)"
    by (rule drain_reads [OF r _ _ assms(1) _ _ d])
      (use assms(2) r [unfolded q(1)] q(2) reading_failure [OF assms(2)] in \<open>auto simp: reading_def has_read_def\<close>)
  then show ?thesis using assms(2) by (simp add: reading_def)
qed

lemma reading_calls:
  assumes B: "carries H B W" and c: "reading H B acc c" and ok: "client_ok c" "wc_opening c = OpenResolved"
  shows "nextFrame to_number i c = (c1, as) \<Longrightarrow> reading H B acc c1 \<and> (\<forall>a \<in> set as. true_answer W a)"
    and "readBody to_number c = (c1, as) \<Longrightarrow> reading H B acc c1 \<and> (\<forall>a \<in> set as. true_answer W a)"
proof -
  have h: "wc_head c \<noteq> None" using ok by (simp add: client_ok_def)
  note wait = reading_drain [OF B c, of "c\<lparr>wc_waiter := Some i\<rparr>"] reading_drain [OF B c, of "c\<lparr>wc_bodyWaiter := True\<rparr>"]
  have oks: "client_ok (c\<lparr>wc_waiter := Some i\<rparr>)" "client_ok (c\<lparr>wc_bodyWaiter := True\<rparr>)"
    using ok by (simp_all add: client_ok_def)
  show "nextFrame to_number i c = (c1, as) \<Longrightarrow> reading H B acc c1 \<and> (\<forall>a \<in> set as. true_answer W a)"
    using wait(1) [OF oks(1)] h reading_frame [OF B c, of i] c reading_failure [OF c]
    by (auto simp: nextFrame_def true_answer_def split: if_splits option.splits)
  show "readBody to_number c = (c1, as) \<Longrightarrow> reading H B acc c1 \<and> (\<forall>a \<in> set as. true_answer W a)"
    using wait(2) [OF oks(2)] h c reading_failure [OF c]
    by (auto simp: readBody_def true_answer_def split: if_splits option.splits)
qed

lemma step_reads:
  assumes B: "carries H B W" and c: "reading H B acc c" and ok: "client_ok c"
    and more: "\<not> wc_destroyed c \<Longrightarrow> prefix (acc @ bytes_of [ev]) (H @ B)" and s: "client_step to_number ev c = (c1, as)"
  shows "reading H B (if wc_destroyed c then acc else acc @ bytes_of [ev]) c1 \<and> (\<forall>a \<in> set as. true_answer W a)"
proof -
  note same = reading_same [OF c, of c1] and fail = reading_failure [OF c]
  have safe: "blameless SocketFailed" "blameless ServerClosed" "blameless NoResponseBytes" "blameless HeadNeverCompleted"
    by (simp_all add: blameless_def)
  show ?thesis
  proof (cases ev)
    case (Data buf tm)
    show ?thesis
    proof (cases "wc_destroyed c")
      case True
      with s Data c show ?thesis by (simp add: client_step_def on_data_def)
    next
      case False
      have d: "on_data to_number buf tm c = (c1, as)" using s Data by (simp add: client_step_def)
      have "prefix (acc @ buf) (H @ B)" using more [OF False] Data by simp
      from data_reads [OF B(1) this _ False d] this c False Data show ?thesis by (simp add: reading_def)
    qed
  next
    case SocketError
    obtain c2 bs where r: "rejectWaiters SocketFailed c = (c2, bs)" by fastforce
    note 2 = reading_reject [OF c safe(1) r, of W]
    obtain c3 cs where o: "open_failed SocketFailed c2 = (c3, cs)" by fastforce
    note 3 = reading_open_failed [OF conjunct1 [OF 2] safe(1) o, of W]
    have "reading H B acc (c2\<lparr>wc_failure := Some SocketFailed\<rparr>)"
      by (rule reading_same [OF conjunct1 [OF 2]]) (use safe in simp_all)
    with s 2 3 show ?thesis by (auto simp: client_step_def SocketError on_error_def r o split: if_splits)
  next
    case SocketClose
    let ?e = "case wc_failure c of None \<Rightarrow> ServerClosed | Some e \<Rightarrow> e" and ?q = "c\<lparr>wc_destroyed := True\<rparr>"
    have e: "blameless ?e" using safe fail by (simp split: option.split)
    have "reading H B acc ?q" by (rule reading_same [OF c]) (use fail in simp_all)
    note q = reading_reject [OF this e]
    obtain c2 bs where r: "rejectWaiters ?e ?q = (c2, bs)" by fastforce
    note 2 = q [OF r, of W]
    obtain c3 cs where o: "open_failed ?e c2 = (c3, cs)" by fastforce
    note 3 = reading_open_failed [OF conjunct1 [OF 2] e o, of W]
    from s 2 3 show ?thesis by (auto simp: client_step_def SocketClose on_close_def Let_def r o split: if_splits)
  next
    case Deadline
    with s c reading_open_failed [OF c _, of _ c1 as W] safe show ?thesis
      by (auto simp: client_step_def on_deadline_def split: if_splits)
  next
    case (NextFrame i)
    with s c reading_calls(1) [OF B(1) c ok] show ?thesis by (auto simp: client_step_def split: if_splits)
  next
    case ReadBody
    with s c reading_calls(2) [OF B(1) c ok] show ?thesis by (auto simp: client_step_def split: if_splits)
  qed (use s c same fail in \<open>auto simp: client_step_def true_answer_def split: option.splits if_splits\<close>)
qed

lemma step_destroyed: "client_step to_number ev c = (c1, as) \<Longrightarrow> wc_destroyed c \<Longrightarrow> wc_destroyed c1"
  by (cases ev) (auto simp: client_step_def on_data_def on_error_def on_close_def Let_def on_deadline_def nextFrame_def readBody_def
      rejectWaiters_def open_failed_def dest: drain_frame split: if_splits option.splits)

lemma run_reads:
  assumes B: "carries H B W"
  shows "reading H B acc c \<Longrightarrow> client_ok c \<Longrightarrow> (\<not> wc_destroyed c \<Longrightarrow> prefix (acc @ bytes_of evs) (H @ B)) \<Longrightarrow>
    client_run to_number evs c = (d, as) \<Longrightarrow>
    (\<forall>a \<in> set as. true_answer W a) \<and> (wc_destroyed c \<longrightarrow> wc_destroyed d) \<and>
    (\<exists>acc1. reading H B acc1 d \<and> (\<not> wc_destroyed d \<longrightarrow> acc1 = acc @ bytes_of evs))"
proof (induction evs arbitrary: acc c as)
  case (Cons ev evs)
  obtain c1 bs where s: "client_step to_number ev c = (c1, bs)" by fastforce
  obtain cs where r: "client_run to_number evs c1 = (d, cs)" "as = bs @ cs"
    using Cons.prems(4) s by (auto split: prod.splits)
  have split: "bytes_of (ev # evs) = bytes_of [ev] @ bytes_of evs" by (cases ev) simp_all
  let ?acc = "if wc_destroyed c then acc else acc @ bytes_of [ev]"
  have cut: "prefix (acc @ bytes_of [ev]) (H @ B)" if "\<not> wc_destroyed c"
    using Cons.prems(3) [OF that] unfolding split by (metis append.assoc append_prefixD)
  have st: "reading H B ?acc c1 \<and> (\<forall>a \<in> set bs. true_answer W a)"
    using step_reads [OF B Cons.prems(1,2) cut s] by blast
  have ok: "client_ok c1" using balanced_step [OF Cons.prems(2), of ev to_number] s by (simp add: balanced_def)
  have dest: "wc_destroyed c \<Longrightarrow> wc_destroyed c1" by (rule step_destroyed [OF s])
  have cut1: "prefix (?acc @ bytes_of evs) (H @ B)" if "\<not> wc_destroyed c1"
    using Cons.prems(3) dest that unfolding split by auto
  from Cons.IH [OF conjunct1 [OF st] ok cut1 r(1)] st dest show ?case
    unfolding split r(2) by (cases "wc_destroyed c") auto
next
  case Nil
  then show ?case by (auto intro!: exI [of _ acc])
qed

text \<open>
  C27. What the harness reads is what the route wrote. Take a response head that asks for chunked
  coding, followed by the body of a stream, delivered in any cuts and interleaved in any way with
  the harness's calls, timers, socket errors and closes. Then whenever \<open>nextFrame(i)\<close> answers with a
  frame, it is the \<open>i\<close>-th write of the route (the prelude is number 0), and the connection never
  reports a malformed head or body. When everything has arrived and nobody gave the connection up,
  the frames in hand are the writes and no call waits for one of them.
\<close>

theorem client_reads_the_writes:
  assumes num: "\<And>q. plain (num_repr q) \<and> well_formed (num_repr q)"
    and short: "list_all (\<lambda>s. length (text_encode s) < 16 ^ 16) (writes cfg num_repr iso_of ws)"
    and H: "parseHead H = Inr (Some h)" "wr_rest h = []" "is_chunked h" "length H \<le> 64 * 1024"
    and cut: "prefix (bytes_of evs) (H @ stream_body cfg num_repr iso_of ws)"
    and run: "client_run to_number evs openStream = (c, as)"
  shows "(\<forall>i f. FrameIs i f \<in> set as \<longrightarrow> i < length (writes cfg num_repr iso_of ws) \<and> fst f = writes cfg num_repr iso_of ws ! i) \<and>
    (\<forall>e. OpenFailed e \<in> set as \<or> FrameFailed e \<in> set as \<or> BodyFailed e \<in> set as \<longrightarrow> blameless e) \<and>
    (bytes_of evs = H @ stream_body cfg num_repr iso_of ws \<and> \<not> wc_destroyed c \<longrightarrow>
       map fst (frames_of c) = writes cfg num_repr iso_of ws \<and>
       (\<forall>i. wc_waiter c = Some i \<longrightarrow> length (writes cfg num_repr iso_of ws) \<le> i))"
proof -
  let ?B = "stream_body cfg num_repr iso_of ws" and ?W = "writes cfg num_repr iso_of ws"
  have "\<exists>q. push 0 p (createBodyReader True) = Inr q \<and> prefix (map fst (br_frames q)) ?W \<and> (p = ?B \<longrightarrow> map fst (br_frames q) = ?W)"
    if p: "prefix p ?B" for p
  proof -
    obtain q where q: "push 0 p (createBodyReader True) = Inr q"
      using push_prefix [OF p [unfolded stream_body_def] writable_writes [OF num short]] by blast
    from push_writes [OF num short q p] q show ?thesis by blast
  qed
  then have B: "carries H ?B ?W" using H by (auto simp: carries_def)
  have H0: "H \<noteq> []" using H(1) by (auto simp: parseHead_def crlf_def)
  have start: "reading H ?B [] openStream" using H0 by (simp add: reading_def has_read_def openStream_def strict_prefix_def)
  obtain acc where a: "\<forall>a \<in> set as. true_answer ?W a" "reading H ?B acc c" "\<not> wc_destroyed c \<Longrightarrow> acc = bytes_of evs"
    using run_reads [OF B start fresh_ok _ run] cut by auto
  have "map fst (frames_of c) = ?W \<and> (\<forall>i. wc_waiter c = Some i \<longrightarrow> length ?W \<le> i)"
    if "bytes_of evs = H @ ?B" "\<not> wc_destroyed c"
  proof -
    have acc: "acc = H @ ?B" using a(3) that by simp
    then obtain r where r: "wc_reader c = Some r" "push 0 ?B (createBodyReader True) = Inr (untimed r)"
      using a(2) by (auto simp: reading_def has_read_def strict_prefix_def split: option.splits)
    have "map fst (br_frames r) = ?W" by (rule carried_frames(2) [OF B _ r(2)]) simp_all
    then have f: "map fst (frames_of c) = ?W" by (simp add: frames_of_def r(1))
    then have "length (frames_of c) = length ?W" by (metis length_map)
    with a(2) f show ?thesis by (auto simp: reading_def has_read_def)
  qed
  with a(1) show ?thesis by (fastforce simp: true_answer_def)
qed

definition demo_head :: "byte list" where
  "demo_head = ascii_bytes (js ''HTTP/1.1 200 OK'') @ crlf @ ascii_bytes (js ''Transfer-Encoding: chunked'') @ crlf @ crlf"

theorem client_reads_the_writes_witness:
  "case client_run (\<lambda>_. None)
      [Data (demo_head @ take 30 (stream_body (demo_config\<lparr>sseHeartbeatMs := 5\<rparr>) (\<lambda>_. js ''0'') (\<lambda>_. js ''t'') [Beat, Beat])) 1,
       NextFrame 0,
       Data (drop 30 (stream_body (demo_config\<lparr>sseHeartbeatMs := 5\<rparr>) (\<lambda>_. js ''0'') (\<lambda>_. js ''t'') [Beat, Beat])) 2,
       NextFrame 2] openStream of
     (c, as) \<Rightarrow> (\<forall>f. FrameIs 0 f \<in> set as \<longrightarrow> fst f = prelude_frame (demo_config\<lparr>sseHeartbeatMs := 5\<rparr>)) \<and>
       (\<forall>f. FrameIs 2 f \<in> set as \<longrightarrow> fst f = heartbeat_frame) \<and>
       (\<not> wc_destroyed c \<longrightarrow> length (frames_of c) = 3)"
proof -
  let ?cfg = "demo_config\<lparr>sseHeartbeatMs := 5\<rparr>"
  let ?w = "writes ?cfg (\<lambda>_. js ''0'') (\<lambda>_. js ''t'') [Beat, Beat]" and ?b = "stream_body ?cfg (\<lambda>_. js ''0'') (\<lambda>_. js ''t'') [Beat, Beat]"
  let ?evs = "[Data (demo_head @ take 30 ?b) 1, NextFrame 0, Data (drop 30 ?b) 2, NextFrame 2]"
  have num: "plain (js ''0'') \<and> well_formed (js ''0'')" by (simp add: plain_js well_formed_js del: js_Cons)
  have w: "?w = [prelude_frame ?cfg, heartbeat_frame, heartbeat_frame]" by (simp add: writes_def frame_def)
  have short: "list_all (\<lambda>s. length (text_encode s) < 16 ^ 16) ?w" unfolding w by (rule demo_writes_short)
  have "case parseHead demo_head of Inr (Some h) \<Rightarrow> wr_rest h = [] \<and> is_chunked h | _ \<Rightarrow> False" by code_simp
  then obtain h where h: "parseHead demo_head = Inr (Some h)" "wr_rest h = []" "is_chunked h"
    by (auto split: sum.splits option.splits)
  have l: "length demo_head \<le> 64 * 1024" by (simp add: demo_head_def ascii_bytes_def crlf_def)
  have b: "bytes_of ?evs = demo_head @ ?b" by simp
  obtain c as where r: "client_run (\<lambda>_. None) ?evs openStream = (c, as)" by fastforce
  from client_reads_the_writes [of "\<lambda>_. js ''0''", OF num short h l _ r] b have
    1: "\<forall>i f. FrameIs i f \<in> set as \<longrightarrow> i < length ?w \<and> fst f = ?w ! i" and
    2: "\<not> wc_destroyed c \<longrightarrow> map fst (frames_of c) = ?w" by simp_all
  from 2 have "\<not> wc_destroyed c \<longrightarrow> length (frames_of c) = 3" unfolding w by (metis length_map length_Cons list.size(3) numeral_3_eq_3)
  moreover have "FrameIs 0 f \<in> set as \<Longrightarrow> fst f = prelude_frame ?cfg" "FrameIs 2 f \<in> set as \<Longrightarrow> fst f = heartbeat_frame" for f
    using 1 [rule_format, of 0 f] 1 [rule_format, of 2 f] unfolding w by simp_all
  ultimately show ?thesis unfolding r prod.case by blast
qed

end
