(* ===== verification/Wire_Checks.thy ===== *)
theory Wire_Checks
  imports Wire_Client
begin

text \<open>
  What \<open>src/scripts/verify-sse-stream.mjs\<close> concludes from a connection: the self-check of
  \<open>--parse-fixture\<close>, which parses the same bytes in one piece and one byte at a time and compares, and
  the checks 1 to 4 and 6 of \<open>main\<close>. A check is its first failure, \<open>None\<close> when it passes.
\<close>

section \<open>The self-check\<close>

datatype fixture_result =
    NoCompleteHead
  | FixtureThrew wire_error
  | NeverIncremental
  | HeadDiffers
  | BodyDiffers
  | Identical nat body_reader     \<comment> \<open>the byte at which the head was complete, and the bulk parse\<close>

text \<open>The first \<open>i\<close> from \<open>n\<close> on for which the first \<open>i\<close> bytes hold a whole head.\<close>

function incremental_head :: "byte list \<Rightarrow> nat \<Rightarrow> wire_error + (nat \<times> wire_head) option" where
  "incremental_head bytes n =
     (if length bytes < n then Inr None
      else case parseHead (take n bytes) of
        Inl e \<Rightarrow> Inl e
      | Inr (Some h) \<Rightarrow> Inr (Some (n, h))
      | Inr None \<Rightarrow> incremental_head bytes (n + 1))"
  by pat_completeness auto
termination
  by (relation "measure (\<lambda>(bytes, n). Suc (length bytes) - n)") auto

declare incremental_head.simps [simp del]

definition same_head :: "wire_head \<Rightarrow> wire_head \<Rightarrow> bool" where
  "same_head h g \<longleftrightarrow> wr_statusLine h = wr_statusLine g \<and> wr_headers h = wr_headers g"

definition same_body :: "body_reader \<Rightarrow> body_reader \<Rightarrow> bool" where
  "same_body a b \<longleftrightarrow> map fst (br_frames a) = map fst (br_frames b) \<and> br_carry a = br_carry b \<and>
     br_complete a = br_complete b \<and> br_bytes a = br_bytes b \<and> length (br_pending a) = length (br_pending b) \<and>
     br_sizes a = br_sizes b"

definition drip :: "byte list \<Rightarrow> (byte list \<times> instant) list" where
  "drip bs = map (\<lambda>b. ([b], 0)) bs"

definition parse_fixture :: "byte list \<Rightarrow> fixture_result" where
  "parse_fixture bytes =
     (case parseHead bytes of
        Inl e \<Rightarrow> FixtureThrew e
      | Inr None \<Rightarrow> NoCompleteHead
      | Inr (Some h) \<Rightarrow>
          (let r = createBodyReader (is_chunked h)
           in case push 0 (wr_rest h) r of
             Inl (e, _) \<Rightarrow> FixtureThrew e
           | Inr bulk \<Rightarrow>
               (case incremental_head bytes 1 of
                  Inl e \<Rightarrow> FixtureThrew e
                | Inr None \<Rightarrow> NeverIncremental
                | Inr (Some (i, g)) \<Rightarrow>
                    if \<not> same_head g h then HeadDiffers
                    else case feed (drip (wr_rest h)) r of
                      Inl (e, _) \<Rightarrow> FixtureThrew e
                    | Inr slow \<Rightarrow> if same_body slow bulk then Identical i bulk else BodyDiffers)))"

lemma drip_concat: "concat (map fst (drip bs)) = bs"
  by (induction bs) (simp_all add: drip_def)

lemma parse_head_prefix_same:
  assumes "parseHead bytes = Inr (Some h)" and "parseHead (take n bytes) = Inr (Some g)"
  shows "same_head g h"
proof -
  have "parseHead bytes = Inr (Some (g\<lparr>wr_rest := wr_rest g @ drop n bytes\<rparr>))"
    using parseHead_append [OF assms(2), of "drop n bytes"] by simp
  with assms(1) have "h = g\<lparr>wr_rest := wr_rest g @ drop n bytes\<rparr>" by simp
  then show ?thesis by (simp add: same_head_def)
qed

lemma incremental_head_same:
  "parseHead bytes = Inr (Some h) \<Longrightarrow> incremental_head bytes n = Inr (Some (i, g)) \<Longrightarrow> same_head g h"
proof (induction bytes n rule: incremental_head.induct)
  case (1 bytes n)
  then show ?case
    by (subst (asm) (2) incremental_head.simps)
      (auto split: if_splits sum.splits option.splits intro: parse_head_prefix_same)
qed

lemma incremental_head_found:
  "parseHead bytes = Inr (Some h) \<Longrightarrow> n \<le> length bytes \<Longrightarrow> incremental_head bytes n \<noteq> Inr None"
proof (induction bytes n rule: incremental_head.induct)
  case (1 bytes n)
  show ?case
  proof (cases "n = length bytes")
    case True
    with "1.prems" show ?thesis by (subst incremental_head.simps) simp
  next
    case False
    with "1.prems"(2) have n: "\<not> length bytes < n" "n + 1 \<le> length bytes" by simp_all
    show ?thesis
    proof (cases "parseHead (take n bytes)")
      case (Inr x)
      show ?thesis
      proof (cases x)
        case None
        with Inr "1.IH" [OF n(1) _ _ "1.prems"(1) n(2)] n show ?thesis by (subst incremental_head.simps) simp
      qed (use Inr n in \<open>subst incremental_head.simps, simp\<close>)
    qed (use n in \<open>subst incremental_head.simps, simp\<close>)
  qed
qed

text \<open>
  The self-check can never report that the parsers disagree with themselves: for every
  fixture it finds the head again byte by byte, with the same status line and headers, and one byte
  at a time the body reader finds the same frames, partial frame, chunk sizes and counts as in one
  piece. What is left is a fixture without a head, an error thrown by a limit or by malformed
  bytes, or \<open>identical\<close>.
\<close>

theorem self_check_never_differs:
  "parse_fixture bytes \<noteq> NeverIncremental \<and> parse_fixture bytes \<noteq> HeadDiffers \<and> parse_fixture bytes \<noteq> BodyDiffers"
proof -
  have body: "same_body slow bulk"
    if "push 0 bs (createBodyReader c) = Inr bulk" "feed (drip bs) (createBodyReader c) = Inr slow" for bs c bulk slow
  proof -
    have "push 0 bs (createBodyReader c) = Inr (untimed slow)"
      using feed_push [OF that(2)] by (simp add: fresh_settled drip_concat)
    with that(1) have "bulk = untimed slow" by simp
    then show ?thesis by (simp add: same_body_def untimed_frames)
  qed
  have nonempty: "parseHead bytes = Inr (Some h) \<Longrightarrow> 1 \<le> length bytes" for h
    by (cases bytes) (auto simp: parseHead_def crlf_def)
  show ?thesis
    using incremental_head_found [of bytes _ 1] nonempty incremental_head_same [of bytes _ 1] body
    by (auto simp: parse_fixture_def Let_def split: sum.split option.split prod.split)
qed

section \<open>Limits depend on the cuts\<close>

text \<open>
  A size line is limited only while its end has not been seen, so a chunk extension of more than
  1 KiB is read in one piece and rejected byte by byte.
\<close>

lemma drip_too_long:
  "br_phase r = SizeLine \<Longrightarrow> 13 \<notin> set (br_pending r @ xs) \<Longrightarrow> length (br_pending r) \<le> 1024 \<Longrightarrow>
    1024 < length (br_pending r @ xs) \<Longrightarrow> \<exists>q. feed (drip (xs @ ys)) r = Inl (SizeLineTooLong, q)"
proof (induction xs arbitrary: r)
  case (Cons x xs)
  let ?r = "r\<lparr>br_pending := br_pending r @ [x]\<rparr>"
  have none: "find_sub crlf (br_pending r @ [x]) = None" using Cons.prems(2) find_crlf_none [of "br_pending r @ [x]" "[]"] by simp
  have p: "push 0 [x] r = body_loop 0 ?r" using Cons.prems(1) by (simp add: push_def)
  show ?case
  proof (cases "length (br_pending r) = 1024")
    case True
    then have "push 0 [x] r = Inl (SizeLineTooLong, ?r)"
      unfolding p using Cons.prems(1) none by (subst body_loop.simps) simp
    then show ?thesis by (simp add: drip_def)
  next
    case False
    then have "push 0 [x] r = Inr ?r" unfolding p using Cons.prems none by (subst body_loop.simps) simp
    with Cons.IH [of ?r] Cons.prems False show ?thesis by (simp add: drip_def)
  qed
qed simp

definition long_extension :: "byte list" where
  "long_extension = 48 # 59 # replicate 1100 97"

lemma cuts_decide_the_limit:
  "(\<exists>r. push 0 (long_extension @ crlf @ crlf) (createBodyReader True) = Inr r \<and> br_complete r) \<and>
   (\<exists>q. feed (drip (long_extension @ crlf @ crlf)) (createBodyReader True) = Inl (SizeLineTooLong, q))"
proof -
  have plain: "13 \<notin> set long_extension" by (simp add: long_extension_def)
  have l: "latin1 long_extension = 48 # 59 # replicate 1100 97" by (simp add: latin1_def long_extension_def)
  have "chunk_size long_extension = Some 0"
    by (simp add: chunk_size_def chunk_size_text_def l trim_def is_js_space_def hex_value_def is_digit_def split: list.split)
  have f: "find_sub crlf (long_extension @ crlf @ crlf) = Some (length long_extension)" by (rule find_crlf [OF plain])
  let ?r = "createBodyReader True"
  have "push 0 (long_extension @ crlf @ crlf) ?r = body_loop 0 (?r\<lparr>br_pending := long_extension @ crlf @ crlf\<rparr>)"
    by (simp add: push_def createBodyReader_def)
  also have "\<dots> = body_loop 0 (?r\<lparr>br_pending := crlf, br_phase := Trailer\<rparr>)"
    using f \<open>chunk_size long_extension = Some 0\<close> by (subst body_loop.simps) (simp add: createBodyReader_def crlf_def)
  also have "\<dots> = Inr (?r\<lparr>br_pending := [], br_phase := Done, br_complete := True\<rparr>)"
    by (subst body_loop.simps, simp add: crlf_def, subst body_loop.simps, simp)
  finally have "\<exists>r. push 0 (long_extension @ crlf @ crlf) ?r = Inr r \<and> br_complete r" by simp
  moreover have "\<exists>q. feed (drip (long_extension @ crlf @ crlf)) ?r = Inl (SizeLineTooLong, q)"
    by (rule drip_too_long) (use plain in \<open>simp_all add: createBodyReader_def long_extension_def\<close>)
  ultimately show ?thesis by blast
qed

section \<open>Answers that depend on when they are asked for\<close>

text \<open>
  A body that ends with the connection is refused to a caller who is waiting for it and given to one
  who asks afterwards: no handler looks at \<open>bodyComplete\<close> when the peer ends the stream.
\<close>

lemma end_refuses_a_waiting_body:
  assumes "wc_opening c = OpenResolved" and "wc_head c \<noteq> None" and "wc_reader c = Some r" and "content_length to_number c = None"
    and "wc_bodyWaiter c" and "wc_waiter c = None" and "wc_failure c = None"
  shows "snd (client_run to_number [SocketEnd, SocketClose, ReadBody] c) = [BodyFailed ServerClosed, BodyIs (br_text r)]"
  using assms by (auto simp: client_step_def on_close_def rejectWaiters_def readBody_def bodyComplete_def text_of_def content_length_def)

text \<open>
  A chunked body that was cut off before its last chunk is given as complete once the socket is
  destroyed, even when what destroyed it was a malformed chunk.
\<close>

lemma truncated_body_is_complete:
  assumes "wc_reader c = Some r" and "content_length to_number c = None" and "wc_destroyed c"
  shows "readBody to_number c = (c, [BodyIs (br_text r)])"
  using assms by (simp add: readBody_def bodyComplete_def text_of_def)

text \<open>A read that completes a frame and then fails refuses the frame to the waiting caller and gives it to the next.\<close>

lemma frame_in_hand_is_refused:
  assumes "wc_opening c = OpenResolved" and "wc_reader c = Some r" and "\<not> wc_destroyed c" and "wc_waiter c = Some i"
    and "\<not> wc_bodyWaiter c" and "push tm buf r = Inl (e, r1)" and "i < length (br_frames r1)"
  shows "snd (client_run to_number [Data buf tm, NextFrame i] c) = [FrameFailed (BodyRejected e), FrameIs i (br_frames r1 ! i)]"
  using assms by (simp add: client_step_def on_data_def body_data_def rejectWaiters_def nextFrame_def frames_of_def)

section \<open>The checks of the harness\<close>

definition FLUSH_BUDGET_MS :: instant where "FLUSH_BUDGET_MS = 1000"
definition HEARTBEAT_MS :: instant where "HEARTBEAT_MS = 2000"

definition PRELUDE :: jstring where
  "PRELUDE = js ''retry: '' @ num_str HEARTBEAT_MS @ [10] @ js '': connected'' @ [10, 10]"

definition HEARTBEAT_FRAME :: jstring where
  "HEARTBEAT_FRAME = js '': heartbeat'' @ [10, 10]"

datatype check_failure =
    FlushTooLate "(string \<times> instant) list" bool    \<comment> \<open>the breaches, and whether all are at the heartbeat\<close>
  | WrongStatus nat
  | WrongHeader string "jstring option"
  | ForbiddenHeader string jstring
  | WrongPrelude string jstring
  | SplitPrelude string "nat option"
  | NoPremise "jstring option"
  | NoHeartbeat
  | WrongHeartbeat jstring
  | HeartbeatGap instant
  | NotRefused nat
  | NotJson jstring
  | WrongCode "json option"

text \<open>Check 1. \<open>ms * 10\<close> against \<open>HEARTBEAT_MS * 9\<close> and \<open>HEARTBEAT_MS * 15\<close>: the factors 0.9 and 1.5.\<close>

definition check_flush :: "instant \<Rightarrow> instant \<Rightarrow> check_failure option" where
  "check_flush cold warm =
     (let over = filter (\<lambda>(_, ms). FLUSH_BUDGET_MS < ms) [(''cold'', cold), (''warm'', warm)]
      in if over = [] then None
         else Some (FlushTooLate over
           (list_all (\<lambda>(_, ms). HEARTBEAT_MS * 9 \<le> ms * 10 \<and> ms * 10 \<le> HEARTBEAT_MS * 15) over)))"

text \<open>Check 2.\<close>

definition required_headers :: "(string \<times> (jstring option \<Rightarrow> bool)) list" where
  "required_headers =
     [(''content-type'', \<lambda>v. v = Some (js ''text/event-stream'')),
      (''cache-control'', \<lambda>v. case v of None \<Rightarrow> False | Some s \<Rightarrow> includes_str s (js ''no-transform'')),
      (''x-accel-buffering'', \<lambda>v. v = Some (js ''no'')),
      (''transfer-encoding'', \<lambda>v. case v of None \<Rightarrow> False | Some s \<Rightarrow> includes_str (latin1_lower s) (js ''chunked''))]"

definition check_headers :: "wire_head \<Rightarrow> check_failure option" where
  "check_headers h =
     (if wr_status h \<noteq> 200 then Some (WrongStatus (wr_status h))
      else case filter (\<lambda>(name, ok). \<not> ok (wr_headers h (js name))) required_headers of
        (name, _) # _ \<Rightarrow> Some (WrongHeader name (wr_headers h (js name)))
      | [] \<Rightarrow>
          (case filter (\<lambda>name. wr_headers h (js name) \<noteq> None) [''content-encoding'', ''content-length''] of
             name # _ \<Rightarrow> Some (ForbiddenHeader name (the (wr_headers h (js name))))
           | [] \<Rightarrow> None))"

text \<open>Check 3, of the first frame and the first chunk size of the two connections.\<close>

definition first_frame :: "body_reader \<Rightarrow> jstring" where
  "first_frame r = (case br_frames r of [] \<Rightarrow> [] | (f, _) # _ \<Rightarrow> f)"

definition first_chunk :: "body_reader \<Rightarrow> nat option" where
  "first_chunk r = (case br_sizes r of [] \<Rightarrow> None | n # _ \<Rightarrow> Some n)"

definition check_prelude :: "body_reader \<Rightarrow> body_reader \<Rightarrow> check_failure option" where
  "check_prelude cold warm =
     (if first_frame cold \<noteq> PRELUDE then Some (WrongPrelude ''cold connection'' (first_frame cold))
      else if first_frame warm \<noteq> PRELUDE then Some (WrongPrelude ''warm connection'' (first_frame warm))
      else if first_chunk cold \<noteq> Some (length (text_encode PRELUDE)) then Some (SplitPrelude ''cold connection'' (first_chunk cold))
      else if first_chunk warm \<noteq> Some (length (text_encode PRELUDE)) then Some (SplitPrelude ''warm connection'' (first_chunk warm))
      else None)"

text \<open>
  Check 4, of the frames of the warm connection when frame 1 has come or was given up. The bounds are
  0.5 and 3 heartbeats.
\<close>

definition check_heartbeat :: "(jstring \<times> instant) list \<Rightarrow> check_failure option" where
  "check_heartbeat frames =
     (case frames of
        [] \<Rightarrow> Some (NoPremise None)
      | (p, t0) # fs \<Rightarrow>
          if p \<noteq> PRELUDE then Some (NoPremise (Some p))
          else case fs of
            [] \<Rightarrow> Some NoHeartbeat
          | (f, t1) # _ \<Rightarrow>
              if f \<noteq> HEARTBEAT_FRAME then Some (WrongHeartbeat f)
              else let gap = t1 - t0
                   in if gap * 2 < HEARTBEAT_MS \<or> HEARTBEAT_MS * 3 < gap then Some (HeartbeatGap gap) else None)"

text \<open>Check 6, of the second stream: \<open>decode_json\<close> is \<open>JSON.parse\<close>, \<open>None\<close> where it throws.\<close>

definition check_capacity :: "(jstring \<Rightarrow> json option) \<Rightarrow> nat \<Rightarrow> jstring \<Rightarrow> check_failure option" where
  "check_capacity decode_json status body =
     (if status \<noteq> 503 then Some (NotRefused status)
      else case decode_json body of
        None \<Rightarrow> Some (NotJson (take 300 body))
      | Some v \<Rightarrow>
          (case get v ''code'' of
             Some (JStr s) \<Rightarrow> if s = js ''SSE_CAPACITY'' then None else Some (WrongCode (Some (JStr s)))
           | c \<Rightarrow> Some (WrongCode c)))"

section \<open>Check 3 sees the writes\<close>

lemma PRELUDE_frame: "sseHeartbeatMs cfg = HEARTBEAT_MS \<Longrightarrow> prelude_frame cfg = PRELUDE"
  by (simp add: prelude_frame_def PRELUDE_def)

lemma PRELUDE_framed: "framed PRELUDE"
  using prelude_framed [of "demo_config\<lparr>sseHeartbeatMs := HEARTBEAT_MS\<rparr>"] by (simp add: PRELUDE_frame)

lemma PRELUDE_well_formed: "well_formed PRELUDE"
  using writes_well_formed [of "\<lambda>_. []" "demo_config\<lparr>sseHeartbeatMs := HEARTBEAT_MS\<rparr>" "\<lambda>_. []" "[]"]
  by (simp add: writes_def PRELUDE_frame)

lemma encode_append: "well_formed s \<Longrightarrow> text_encode (s @ t) = text_encode s @ text_encode t"
  by (simp add: text_encode_def scalar_values_append)

lemma encode_inj_prefix:
  assumes "well_formed s" and "well_formed t" and "prefix s t" and "length (text_encode s) = length (text_encode t)"
  shows "s = t"
proof -
  obtain u where u: "t = s @ u" using assms(3) by (auto simp: prefix_def)
  have "text_encode u = []" using assms(4) encode_append [OF assms(1), of u] by (simp add: u)
  then have "u = []" using text_encode_nonempty by blast
  with u show ?thesis by simp
qed

text \<open>A reader that has read the writes of any server, in any cuts.\<close>

definition reads_writes :: "jstring list \<Rightarrow> body_reader \<Rightarrow> bool" where
  "reads_writes ss r \<longleftrightarrow> list_all (\<lambda>s. well_formed s \<and> s \<noteq> [] \<and> length (text_encode s) < 16 ^ 16) ss \<and>
     (\<exists>bufs. concat (map fst bufs) = chunked (map text_encode ss) \<and> feed bufs (createBodyReader True) = Inr r)"

lemma reads_writes_fields:
  assumes "reads_writes ss r"
  shows "first_frame r = (case fst (take_frames (concat ss)) of [] \<Rightarrow> [] | f # _ \<Rightarrow> f)"
    and "first_chunk r = (case ss of [] \<Rightarrow> None | s # _ \<Rightarrow> Some (length (text_encode s)))"
proof -
  obtain bufs where b: "concat (map fst bufs) = chunked (map text_encode ss)" "feed bufs (createBodyReader True) = Inr r"
    and ok: "list_all (\<lambda>s. well_formed s \<and> s \<noteq> [] \<and> length (text_encode s) < 16 ^ 16) ss"
    using assms by (auto simp: reads_writes_def)
  have wf: "list_all well_formed ss" using ok by (simp add: list_all_iff)
  have "\<forall>s \<in> set ss. text_encode s \<noteq> []" using ok text_encode_nonempty by (auto simp: list_all_iff)
  then have w: "writable (map text_encode ss)" using ok by (simp add: writable_def list_all_iff)
  let ?q = "take_body 0 (concat (map text_encode ss)) ((createBodyReader True)\<lparr>br_sizes := map length (map text_encode ss)\<rparr>)"
  have "untimed r = ?q" using feed_push [OF b(2)] push_chunked [OF w] b(1) by (simp add: fresh_settled)
  moreover have "map fst (br_frames ?q) = fst (take_frames (concat ss))"
    using text_encode_concat [OF wf]
    by (simp add: take_body_def createBodyReader_def decoder_write_text emit_text_def comp_def split: prod.split)
  moreover have "br_sizes ?q = map length (map text_encode ss)" by simp
  ultimately have f: "map fst (br_frames r) = fst (take_frames (concat ss))" and z: "br_sizes r = map length (map text_encode ss)"
    using untimed_frames [of r] untimed_fields(4) [of r] by simp_all
  show "first_frame r = (case fst (take_frames (concat ss)) of [] \<Rightarrow> [] | f # _ \<Rightarrow> f)"
    unfolding f [symmetric] by (simp add: first_frame_def split: list.split)
  show "first_chunk r = (case ss of [] \<Rightarrow> None | s # _ \<Rightarrow> Some (length (text_encode s)))"
    by (simp add: first_chunk_def z split: list.split)
qed

lemma take_frames_first: "fst (take_frames s) = f # fs \<Longrightarrow> prefix f s"
  by (subst (asm) take_frames.simps) (auto split: option.splits prod.splits simp: take_is_prefix)

lemma prelude_seen:
  assumes "reads_writes ss r"
  shows "first_frame r = PRELUDE \<and> first_chunk r = Some (length (text_encode PRELUDE)) \<longleftrightarrow> (\<exists>rest. ss = PRELUDE # rest)"
proof
  assume l: "first_frame r = PRELUDE \<and> first_chunk r = Some (length (text_encode PRELUDE))"
  then obtain s rest where ss: "ss = s # rest" "length (text_encode s) = length (text_encode PRELUDE)"
    using reads_writes_fields(2) [OF assms] by (auto split: list.splits)
  have "PRELUDE \<noteq> []" using PRELUDE_framed by (auto simp: framed_def)
  then obtain fs where "fst (take_frames (concat ss)) = PRELUDE # fs"
    using l reads_writes_fields(1) [OF assms] by (auto split: list.splits)
  then have p: "prefix PRELUDE (concat ss)" by (rule take_frames_first)
  have s: "well_formed s" using assms by (simp add: reads_writes_def ss(1))
  have "prefix s (concat ss)" by (simp add: ss(1))
  from prefix_same_cases [OF p this] have "s = PRELUDE"
    using encode_inj_prefix [OF s PRELUDE_well_formed] encode_inj_prefix [OF PRELUDE_well_formed s] ss(2) by auto
  with ss(1) show "\<exists>rest. ss = PRELUDE # rest" by simp
next
  assume "\<exists>rest. ss = PRELUDE # rest"
  then obtain rest where ss: "ss = PRELUDE # rest" ..
  have "find_sub [10, 10] (PRELUDE @ concat rest) = Some (length PRELUDE - 2)" "length PRELUDE - 2 + 2 = length PRELUDE"
    using PRELUDE_framed le_add_diff_inverse2 by (auto simp: framed_def)
  then have "fst (take_frames (concat ss)) = PRELUDE # fst (take_frames (concat rest))"
    by (subst take_frames.simps) (simp add: ss split: prod.split del: One_nat_def add_2_eq_Suc')
  then show "first_frame r = PRELUDE \<and> first_chunk r = Some (length (text_encode PRELUDE))"
    using reads_writes_fields [OF assms] by (simp add: ss)
qed

text \<open>
  C34. Check 3 is exact about writes, not only about text: whatever two servers wrote, each as any
  list of non-empty well-formed texts sent in chunked coding and cut in any way, the check passes
  if and only if the first write of both is the prelude, whole and alone. The same bytes split over
  two writes, or written together with what follows, fail it.
\<close>

theorem prelude_check_exact:
  assumes "reads_writes ss cold" and "reads_writes ts warm"
  shows "check_prelude cold warm = None \<longleftrightarrow> (\<exists>rest rest1. ss = PRELUDE # rest \<and> ts = PRELUDE # rest1)"
  using prelude_seen [OF assms(1)] prelude_seen [OF assms(2)] by (auto simp: check_prelude_def)

lemma reads_writes_exists:
  assumes "list_all (\<lambda>s. well_formed s \<and> s \<noteq> [] \<and> length s < 100) ss"
  shows "\<exists>r. reads_writes ss r"
proof -
  have ok: "list_all (\<lambda>s. well_formed s \<and> s \<noteq> [] \<and> length (text_encode s) < 16 ^ 16) ss"
    using assms
  proof (rule list.pred_mono_strong)
    show "well_formed s \<and> s \<noteq> [] \<and> length s < 100 \<Longrightarrow> well_formed s \<and> s \<noteq> [] \<and> length (text_encode s) < 16 ^ 16" for s
      using text_encode_length [of s] by simp
  qed
  have "\<forall>s \<in> set ss. text_encode s \<noteq> []" using ok text_encode_nonempty by (auto simp: list_all_iff)
  then have "writable (map text_encode ss)" using ok by (simp add: writable_def list_all_iff)
  from feed_accepts [OF this, of "[]" "createBodyReader True" "[(chunked (map text_encode ss), 0)]"]
  show ?thesis using ok by (auto simp: reads_writes_def fresh_settled intro!: exI [of _ "[(chunked (map text_encode ss), 0)]"])
qed

theorem prelude_check_exact_witness:
  "\<exists>r q. reads_writes [PRELUDE, HEARTBEAT_FRAME] r \<and> reads_writes [js ''retry: 2000'', js ''x''] q \<and>
     check_prelude r r = None \<and> check_prelude r q \<noteq> None"
proof -
  have l: "length PRELUDE < 100" "length HEARTBEAT_FRAME < 100" "PRELUDE \<noteq> []" "HEARTBEAT_FRAME \<noteq> []"
    by (simp_all add: PRELUDE_def HEARTBEAT_FRAME_def HEARTBEAT_MS_def num_str_def js_def decimal.simps)
  have h: "well_formed HEARTBEAT_FRAME"
    using writes_well_formed [of "\<lambda>_. []" demo_config "\<lambda>_. []" "[Beat]"]
    by (simp add: writes_def frame_def heartbeat_frame_def HEARTBEAT_FRAME_def)
  obtain r where r: "reads_writes [PRELUDE, HEARTBEAT_FRAME] r"
    using reads_writes_exists [of "[PRELUDE, HEARTBEAT_FRAME]"] l h PRELUDE_well_formed by auto
  have js_short: "well_formed (js t) \<and> length (js t) = length t \<and> (js t = [] \<longleftrightarrow> t = [])" for t
    using well_formed_js by (simp add: js_def)
  obtain q where q: "reads_writes [js ''retry: 2000'', js ''x''] q"
    using reads_writes_exists [of "[js ''retry: 2000'', js ''x'']"] js_short by auto
  have "js ''retry: 2000'' \<noteq> PRELUDE"
    by (simp add: PRELUDE_def HEARTBEAT_MS_def num_str_def js_def decimal.simps cu_def)
  with r q prelude_check_exact [OF r r] prelude_check_exact [OF r q] show ?thesis by blast
qed

end
