(* ===== verification/Rewrite_Policy.thy ===== *)
theory Rewrite_Policy
  imports Request_Gate Uri_Component
begin

text \<open>
  Which rewrites may ship: check 25 of \<open>src/scripts/verify-image.mjs\<close>. Next matches the gate against a
  rewrite's source, never its destination, so a destination the gate protects would be served without
  it. \<open>classifyRewrite\<close> decides from the destination string alone: an external URL, one literal path
  outside the gate's matcher, or one of the gate's public paths. The parts of the platform it asks
  are an environment: \<open>toLowerCase\<close>, the pathname of \<open>new URL(form, 'http://n.invalid')\<close> (\<open>None\<close> where
  it throws), and a matcher of the pinned baseline is the predicate its \<open>RegExp\<close> tests.
\<close>

record url_env =
  lower_case :: "jstring \<Rightarrow> jstring"
  url_path :: "jstring \<Rightarrow> jstring option"

definition slash :: code_unit where "slash = cu (CHR ''/'')"

definition PUBLIC_PATHS_PINNED :: "jstring list" where
  "PUBLIC_PATHS_PINNED = [js ''/api/health'', js ''/api/readyz'', js ''/api/well-known/aitp-manifest'',
     js ''/api/registry/enroll'', js ''/api/registry/agents'', js ''/api/metrics'']"

section \<open>What Next makes of a destination\<close>

text \<open>\<open>s.replace(pattern, replacement)\<close> with the \<open>g\<close> flag, for a pattern of \<open>n\<close> units.\<close>

function replace_all :: "(jstring \<Rightarrow> bool) \<Rightarrow> nat \<Rightarrow> jstring \<Rightarrow> jstring \<Rightarrow> jstring" where
  "replace_all m n rep [] = []"
| "replace_all m n rep (c # s) =
     (if m (c # s) then rep @ replace_all m n rep (drop (n - 1) s) else c # replace_all m n rep s)"
  by pat_completeness auto
termination
  by (relation "measure (\<lambda>(m, n, rep, s). length s)") auto

text \<open>\<open>/__ESC_COLON_/gi\<close> to a colon, and \<open>/\)_NEXTSEP_/g\<close> to a closing parenthesis.\<close>

definition esc_colon :: "jstring \<Rightarrow> bool" where
  "esc_colon s \<longleftrightarrow> to_lower (take 12 s) = js ''__esc_colon_''"

definition nextsep :: "jstring \<Rightarrow> bool" where
  "nextsep s \<longleftrightarrow> starts_with s (js '')_NEXTSEP_'')"

definition NEXT_DESTINATION_SUBSTITUTIONS :: "(jstring \<Rightarrow> jstring) list" where
  "NEXT_DESTINATION_SUBSTITUTIONS =
     [replace_all esc_colon 12 (js '':''), replace_all nextsep 10 (js '')'')]"

text \<open>One round over the forms there are at its start, and at most eight rounds while they grow.\<close>

definition add_form :: "jstring \<Rightarrow> jstring list \<Rightarrow> (jstring \<Rightarrow> jstring) \<Rightarrow> jstring list" where
  "add_form form forms f = (if f form \<in> set forms then forms else forms @ [f form])"

definition form_round :: "jstring list \<Rightarrow> jstring list" where
  "form_round forms = foldl (\<lambda>fs form. foldl (add_form form) fs NEXT_DESTINATION_SUBSTITUTIONS) forms forms"

fun form_rounds :: "nat \<Rightarrow> jstring list \<Rightarrow> jstring list" where
  "form_rounds 0 forms = forms"
| "form_rounds (Suc n) forms =
     (let next = form_round forms in if length next = length forms then next else form_rounds n next)"

definition nextDestinationForms :: "jstring \<Rightarrow> jstring list" where
  "nextDestinationForms destPath = form_rounds 8 [destPath]"

section \<open>Literal paths\<close>

definition hasControlChar :: "jstring \<Rightarrow> bool" where
  "hasControlChar s \<longleftrightarrow> list_ex (\<lambda>c. c \<le> 0x1F \<or> c = 0x7F) s"

text \<open>\<open>/[:*+(){}%\\?#[\]]/\<close>.\<close>

definition REWRITE_TEMPLATE_CHARS :: jstring where
  "REWRITE_TEMPLATE_CHARS = js '':*+(){}%?#[]'' @ js [CHR 0x5C]"

definition isLiteralPathForm :: "jstring \<Rightarrow> bool" where
  "isLiteralPathForm p \<longleftrightarrow>
     starts_with p (js ''/'') \<and> \<not> starts_with p (js ''//'') \<and> \<not> hasControlChar p \<and>
     \<not> list_ex (\<lambda>c. c \<in> set REWRITE_TEMPLATE_CHARS) p \<and> \<not> includes_str p (js ''//'') \<and>
     js ''.'' \<notin> set (split_on slash p) \<and> js ''..'' \<notin> set (split_on slash p)"

definition isLiteralRewriteDestination :: "jstring \<Rightarrow> bool" where
  "isLiteralRewriteDestination p \<longleftrightarrow> list_all isLiteralPathForm (nextDestinationForms p)"

section \<open>The normalised forms\<close>

text \<open>\<open>new Set\<close> in insertion order.\<close>

fun set_of :: "jstring list \<Rightarrow> jstring list \<Rightarrow> jstring list" where
  "set_of seen [] = seen"
| "set_of seen (x # xs) = set_of (if x \<in> set seen then seen else seen @ [x]) xs"

text \<open>\<open>replace(/\/{2,}/g, '/')\<close>, and the loop over \<open>split('/')\<close> that resolves dot segments.\<close>

fun collapse_slashes :: "jstring \<Rightarrow> jstring" where
  "collapse_slashes [] = []"
| "collapse_slashes [c] = [c]"
| "collapse_slashes (c # d # s) =
     (if c = slash \<and> d = slash then collapse_slashes (d # s) else c # collapse_slashes (d # s))"

fun resolve_segments :: "jstring list \<Rightarrow> jstring list \<Rightarrow> jstring list" where
  "resolve_segments segs [] = segs"
| "resolve_segments segs (s # ss) =
     (if s = js ''.'' \<or> s = [] then resolve_segments segs ss
      else if s = js ''..'' then resolve_segments (butlast segs) ss
      else resolve_segments (segs @ [s]) ss)"

fun join_slash :: "jstring list \<Rightarrow> jstring" where
  "join_slash [] = []"
| "join_slash [s] = s"
| "join_slash (s # ss) = s @ [slash] @ join_slash ss"

definition rewriteDestinationVariants :: "url_env \<Rightarrow> jstring \<Rightarrow> jstring list" where
  "rewriteDestinationVariants env p =
     (let low = lower_case env;
          both = (\<lambda>s. [s, low s])
      in set_of []
        (both p @
         (case decodeURIComponent p of None \<Rightarrow> [] | Some d \<Rightarrow> both d) @
         concat (map (\<lambda>f. both f @ (case url_path env f of None \<Rightarrow> [] | Some u \<Rightarrow> both u)) (nextDestinationForms p)) @
         [collapse_slashes p] @
         (if starts_with p (js ''/'') then [] else [slash # p]) @
         [slash # join_slash (resolve_segments [] (split_on slash p))]))"

section \<open>The policy\<close>

type_synonym matcher = "jstring \<Rightarrow> bool"

definition gateMatcherCovers :: "matcher list \<Rightarrow> jstring \<Rightarrow> bool" where
  "gateMatcherCovers matchers p \<longleftrightarrow> list_ex (\<lambda>m. m p) matchers"

datatype verdict =
    External | Outside jstring | PublicRoute jstring
  | NoDestination "json option" | Template jstring | Gated jstring jstring

definition allowed_verdict :: "verdict \<Rightarrow> bool" where
  "allowed_verdict v = (case v of External \<Rightarrow> True | Outside _ \<Rightarrow> True | PublicRoute _ \<Rightarrow> True | _ \<Rightarrow> False)"

text \<open>\<open>/^https?:\/\//i\<close>.\<close>

definition is_http_url :: "jstring \<Rightarrow> bool" where
  "is_http_url s \<longleftrightarrow> starts_with (to_lower s) (js ''http://'') \<or> starts_with (to_lower s) (js ''https://'')"

definition before :: "string \<Rightarrow> jstring \<Rightarrow> jstring" where
  "before c s = hd (split_on (cu (hd c)) s)"

definition strip_slash :: "jstring \<Rightarrow> jstring" where
  "strip_slash p = (if length p > 1 \<and> ends_with p (js ''/'') then butlast p else p)"

definition classifyRewrite :: "url_env \<Rightarrow> json \<Rightarrow> matcher list \<Rightarrow> verdict" where
  "classifyRewrite env rw matchers =
     (case nonempty_string (get rw ''destination'') of
        None \<Rightarrow> NoDestination (get rw ''destination'')
      | Some dest \<Rightarrow>
          if is_http_url dest then External
          else
            let destPath = before ''?'' (before ''#'' dest)
            in if \<not> isLiteralRewriteDestination destPath then Template dest
               else case find (gateMatcherCovers matchers) (rewriteDestinationVariants env destPath) of
                 None \<Rightarrow> Outside destPath
               | Some hit \<Rightarrow>
                   if destPath \<in> set PUBLIC_PATHS_PINNED \<or> strip_slash destPath \<in> set PUBLIC_PATHS_PINNED
                   then PublicRoute destPath else Gated destPath hit)"

section \<open>Substitutions and literal paths\<close>

inductive rewritten :: "jstring \<Rightarrow> jstring \<Rightarrow> bool" where
  rewritten_refl: "rewritten p p"
| rewritten_step: "rewritten p q \<Longrightarrow> f \<in> set NEXT_DESTINATION_SUBSTITUTIONS \<Longrightarrow> rewritten p (f q)"

lemma replace_all_same: "c \<in> set (replace_all m n [c] s) \<or> replace_all m n [c] s = s"
  by (induction m n "[c]" s rule: replace_all.induct) auto

lemma replace_all_nextsep: "cu (CHR '')'') \<notin> set s \<Longrightarrow> replace_all nextsep n rep s = s"
proof (induction s)
  case (Cons c s)
  then have "\<not> nextsep (c # s)" by (auto simp: nextsep_def starts_with_def js_Cons)
  with Cons show ?case by simp
qed simp

lemma literal_unchanged:
  assumes "isLiteralPathForm p" and "isLiteralPathForm (replace_all esc_colon 12 (js '':'') p)"
    and f: "f \<in> set NEXT_DESTINATION_SUBSTITUTIONS"
  shows "f p = p"
proof -
  let ?q = "replace_all esc_colon 12 (js '':'') p"
  have t: "cu (CHR '':'') \<in> set REWRITE_TEMPLATE_CHARS" "cu (CHR '')'') \<in> set REWRITE_TEMPLATE_CHARS"
    by (simp_all add: REWRITE_TEMPLATE_CHARS_def js_def)
  then have n: "cu (CHR '':'') \<notin> set ?q" "cu (CHR '')'') \<notin> set p"
    using assms(1,2) by (auto simp: isLiteralPathForm_def list_ex_iff)
  have "js '':'' = [cu (CHR '':'')]" by (simp add: js_def)
  with replace_all_same [of "cu (CHR '':'')" esc_colon 12 p] n(1) have "?q = p" by auto
  with replace_all_nextsep [OF n(2)] f show ?thesis by (auto simp: NEXT_DESTINATION_SUBSTITUTIONS_def)
qed

lemma add_form_set: "set (add_form form forms f) = insert (f form) (set forms)"
  by (auto simp: add_form_def)

lemma add_forms_set: "set (foldl (add_form form) fs gs) = set fs \<union> (\<lambda>f. f form) ` set gs"
  by (induction gs arbitrary: fs) (auto simp: add_form_set)

lemma form_round_set:
  "set (foldl (\<lambda>fs form. foldl (add_form form) fs gs) acc forms) = set acc \<union> {f form | f form. f \<in> set gs \<and> form \<in> set forms}"
  by (induction forms arbitrary: acc) (auto simp: add_forms_set)

lemma form_rounds_mono: "set forms \<subseteq> set (form_rounds n forms)"
proof (induction n arbitrary: forms)
  case (Suc n)
  have "set forms \<subseteq> set (form_round forms)" by (auto simp: form_round_def form_round_set)
  with Suc [of "form_round forms"] show ?case by (auto simp: Let_def)
qed simp

lemma forms_contain: "p \<in> set (nextDestinationForms p)"
    "f \<in> set NEXT_DESTINATION_SUBSTITUTIONS \<Longrightarrow> f p \<in> set (nextDestinationForms p)"
proof -
  have 8: "nextDestinationForms p = form_rounds (Suc 7) [p]" unfolding nextDestinationForms_def by (rule arg_cong [of 8 "Suc 7" "\<lambda>n. form_rounds n [p]"]) simp
  have "set (form_round [p]) \<subseteq> set (nextDestinationForms p)"
    unfolding 8 form_rounds.simps(2) Let_def using form_rounds_mono [of "form_round [p]" 7] by (simp del: form_rounds.simps)
  moreover have "set (form_round [p]) = insert p ((\<lambda>f. f p) ` set NEXT_DESTINATION_SUBSTITUTIONS)"
    by (auto simp: form_round_def form_round_set add_forms_set)
  ultimately show "p \<in> set (nextDestinationForms p)"
    "f \<in> set NEXT_DESTINATION_SUBSTITUTIONS \<Longrightarrow> f p \<in> set (nextDestinationForms p)" by auto
qed

lemma forms_of_fixed:
  assumes "\<And>f. f \<in> set NEXT_DESTINATION_SUBSTITUTIONS \<Longrightarrow> f p = p"
  shows "nextDestinationForms p = [p]"
proof -
  have "foldl (add_form p) [p] gs = [p]" if "set gs \<subseteq> set NEXT_DESTINATION_SUBSTITUTIONS" for gs
    using that by (induction gs) (auto simp: add_form_def assms)
  then have "form_round [p] = [p]" by (simp add: form_round_def)
  then show ?thesis by (simp add: nextDestinationForms_def eval_nat_numeral)
qed

lemma literal_forms:
  assumes "isLiteralRewriteDestination p"
  shows "nextDestinationForms p = [p]" and "isLiteralPathForm p"
    and "f \<in> set NEXT_DESTINATION_SUBSTITUTIONS \<Longrightarrow> f p = p"
proof -
  have lit: "q \<in> set (nextDestinationForms p) \<Longrightarrow> isLiteralPathForm q" for q
    using assms by (auto simp: isLiteralRewriteDestination_def list_all_iff)
  show p: "isLiteralPathForm p" using lit forms_contain(1) by blast
  have "isLiteralPathForm (replace_all esc_colon 12 (js '':'') p)"
    using lit forms_contain(2) by (simp add: NEXT_DESTINATION_SUBSTITUTIONS_def)
  then show fixed: "f \<in> set NEXT_DESTINATION_SUBSTITUTIONS \<Longrightarrow> f p = p" for f using literal_unchanged [OF p] by blast
  show "nextDestinationForms p = [p]" by (rule forms_of_fixed) (rule fixed)
qed

lemma rewritten_fixed:
  assumes "\<And>f. f \<in> set NEXT_DESTINATION_SUBSTITUTIONS \<Longrightarrow> f p = p"
  shows "rewritten r q \<Longrightarrow> r = p \<Longrightarrow> q = p"
  by (induction rule: rewritten.induct) (auto simp: assms)

lemma literal_destination_iff_fixed: "isLiteralRewriteDestination p \<Longrightarrow> rewritten p q \<longleftrightarrow> q = p"
  using literal_forms(3) [of p] rewritten_fixed [of p p q] rewritten_refl [of p] by blast

text \<open>
  A destination counts as literal exactly when it is a literal path and nothing Next does to a
  destination at request time can change it: no chain of the two substitutions, of any length, leads
  away from it. The eight rounds of the search therefore lose nothing.
\<close>

theorem literal_destination_iff:
  "isLiteralRewriteDestination p \<longleftrightarrow> isLiteralPathForm p \<and> (\<forall>q. rewritten p q \<longrightarrow> q = p)"
proof
  assume l: "isLiteralRewriteDestination p"
  then show "isLiteralPathForm p \<and> (\<forall>q. rewritten p q \<longrightarrow> q = p)"
    using literal_forms(2,3) [OF l] rewritten_fixed [of p p] by blast
next
  assume r: "isLiteralPathForm p \<and> (\<forall>q. rewritten p q \<longrightarrow> q = p)"
  then have "f p = p" if "f \<in> set NEXT_DESTINATION_SUBSTITUTIONS" for f
    using rewritten_step [OF rewritten_refl that] by blast
  then show "isLiteralRewriteDestination p" using r by (simp add: isLiteralRewriteDestination_def forms_of_fixed)
qed

text \<open>A stripped separator keeps its parenthesis, so it cannot splice the escape of a colon together.\<close>

lemma nextsep_splices_nothing:
  "nextDestinationForms (js ''/__ESC_)_NEXTSEP_COLON_p'') = [js ''/__ESC_)_NEXTSEP_COLON_p'', js ''/__ESC_)COLON_p'']"
  by code_simp

section \<open>What an allowed rewrite reaches\<close>

text \<open>
  The paths a destination may be routed as: any chain of substitutions, as it stands or as URL parsing
  leaves it, in its own case or lowered, and without one slash at the end.
\<close>

definition routed :: "url_env \<Rightarrow> jstring \<Rightarrow> jstring \<Rightarrow> bool" where
  "routed env destPath p \<longleftrightarrow>
     (\<exists>q u. rewritten destPath q \<and> (u = q \<or> url_path env q = Some u) \<and> (p = strip_slash u \<or> p = strip_slash (lower_case env u)))"

text \<open>A path below \<open>/api/\<close> without empty segments, query or fragment, and not ending in a slash.\<close>

definition api_path :: "jstring \<Rightarrow> bool" where
  "api_path p \<longleftrightarrow> starts_with p (js ''/api/'') \<and> \<not> includes_str p (js ''//'') \<and> cu (CHR ''?'') \<notin> set p \<and> cu (CHR ''#'') \<notin> set p \<and>
     \<not> ends_with p (js ''/'')"

text \<open>The pinned matcher covers every such path, with or without a slash after it.\<close>

definition covers_api :: "matcher list \<Rightarrow> bool" where
  "covers_api matchers \<longleftrightarrow> (\<forall>p. api_path p \<longrightarrow> gateMatcherCovers matchers p \<and> gateMatcherCovers matchers (p @ [slash]))"

text \<open>A path of lower-case letters, dashes and slashes is itself to URL parsing and to \<open>toLowerCase\<close>.\<close>

definition plain_path :: "jstring \<Rightarrow> bool" where
  "plain_path p \<longleftrightarrow> starts_with p (js ''/'') \<and> list_all (\<lambda>c. is_lower c \<or> c = cu (CHR ''-'') \<or> c = slash) p \<and>
     \<not> includes_str p (js ''//'')"

definition url_laws :: "url_env \<Rightarrow> bool" where
  "url_laws env \<longleftrightarrow> (\<forall>p. plain_path p \<longrightarrow> url_path env p = Some p \<and> lower_case env p = p)"

lemma set_of_set: "set (set_of seen xs) = set seen \<union> set xs"
  by (induction xs arbitrary: seen) auto

lemma pinned_paths_are_the_gates: "PUBLIC_PATHS_PINNED = PUBLIC_PATHS"
  by (simp add: PUBLIC_PATHS_PINNED_def PUBLIC_PATHS_def)

lemma public_plain: "p \<in> set PUBLIC_PATHS_PINNED \<Longrightarrow> plain_path p \<and> plain_path (p @ [slash]) \<and> strip_slash p = p"
proof -
  have "list_all (\<lambda>p. plain_path p \<and> plain_path (p @ [slash]) \<and> strip_slash p = p) PUBLIC_PATHS_PINNED" by code_simp
  then show "p \<in> set PUBLIC_PATHS_PINNED \<Longrightarrow> plain_path p \<and> plain_path (p @ [slash]) \<and> strip_slash p = p"
    by (auto simp: list_all_iff)
qed

lemma ends_with_slash: "ends_with p (js ''/'') \<longleftrightarrow> (\<exists>q. p = q @ [slash])"
  by (cases p rule: rev_cases) (auto simp: ends_with_def js_def slash_def)

lemma strip_slash_cases: "u = strip_slash u \<or> u = strip_slash u @ [slash]"
  by (cases u rule: rev_cases) (auto simp: strip_slash_def ends_with_slash)

lemma variants_contain:
  assumes "isLiteralRewriteDestination d" and "u = d \<or> url_path env d = Some u"
  shows "u \<in> set (rewriteDestinationVariants env d) \<and> lower_case env u \<in> set (rewriteDestinationVariants env d)"
  using assms(2) literal_forms(1) [OF assms(1)] by (auto simp: rewriteDestinationVariants_def Let_def set_of_set)

text \<open>
  No rewrite the policy allows gives an anonymous caller what the gate protects. Take a rewrite
  that is allowed and does not leave the app, and any path its destination may be routed as. If the
  path lies below \<open>/api/\<close>, it is one of the gate's own public paths: the gate asks for a key on it for
  no method. The hypotheses are that the pinned matcher covers \<open>/api/\<close>, as the pin must, and the
  documented behaviour of URL parsing and \<open>toLowerCase\<close> on plain lower-case paths.
\<close>

lemma allowed_reaches_public:
  assumes cls: "classifyRewrite env rw matchers = v" "allowed_verdict v" "v \<noteq> External"
    and pin: "covers_api matchers" and laws: "url_laws env"
    and dest: "nonempty_string (get rw ''destination'') = Some dest"
    and path: "routed env (before ''?'' (before ''#'' dest)) p" "api_path p"
  shows "isPublicRequest p m"
proof -
  define d where "d = before ''?'' (before ''#'' dest)"
  have ext: "\<not> is_http_url dest" using cls dest by (auto simp: classifyRewrite_def split: if_splits)
  have lit: "isLiteralRewriteDestination d"
    using cls dest ext by (auto simp: classifyRewrite_def Let_def d_def [symmetric] allowed_verdict_def split: if_splits)
  obtain u where u: "u = d \<or> url_path env d = Some u" "p = strip_slash u \<or> p = strip_slash (lower_case env u)"
    using path(1) literal_destination_iff_fixed [OF lit] by (auto simp: routed_def d_def [symmetric])
  show ?thesis
  proof (cases "find (gateMatcherCovers matchers) (rewriteDestinationVariants env d)")
    case None
    then have none: "\<not> gateMatcherCovers matchers x" if "x \<in> set (rewriteDestinationVariants env d)" for x
      using that by (simp add: find_None_iff)
    obtain x where x: "p = strip_slash x" "\<not> gateMatcherCovers matchers x"
      using u(2) variants_contain [OF lit u(1)] none by blast
    from strip_slash_cases [of x] have "x = p \<or> x = p @ [slash]" using x(1) by simp
    with pin path(2) x(2) show ?thesis by (auto simp: covers_api_def)
  next
    case (Some hit)
    then have "d \<in> set PUBLIC_PATHS_PINNED \<or> strip_slash d \<in> set PUBLIC_PATHS_PINNED"
      using cls dest ext lit by (auto simp: classifyRewrite_def Let_def d_def [symmetric] allowed_verdict_def split: if_splits)
    then have pub: "strip_slash d \<in> set PUBLIC_PATHS_PINNED" using public_plain by metis
    have "plain_path d" using public_plain [OF pub] strip_slash_cases [of d] by metis
    then have "url_path env d = Some d" "lower_case env d = d" using laws by (simp_all add: url_laws_def)
    with u have "p = strip_slash d" by auto
    with pub show ?thesis by (simp add: isPublicRequest_def pinned_paths_are_the_gates)
  qed
qed

definition demo_url :: url_env where
  "demo_url = \<lparr>lower_case = to_lower, url_path = Some\<rparr>"

definition demo_matchers :: "matcher list" where
  "demo_matchers = [\<lambda>p. starts_with p (js ''/api/'')]"

definition demo_rewrite :: json where
  "demo_rewrite = jobj [(''source'', jlit ''/health''), (''destination'', jlit ''/api/health?x'')]"

lemma demo_laws: "url_laws demo_url" "covers_api demo_matchers"
proof -
  have "is_lower c \<or> c = cu (CHR ''-'') \<or> c = slash \<Longrightarrow> \<not> is_upper c" for c
    by (auto simp: is_lower_def is_upper_def cu_def slash_def word_le_nat_alt)
  then have "plain_path p \<Longrightarrow> to_lower p = p" for p
    by (auto simp: plain_path_def list_all_iff to_lower_def intro!: map_idI)
  then show "url_laws demo_url" by (simp add: url_laws_def demo_url_def)
  have "starts_with p q \<Longrightarrow> starts_with (p @ r) q" for p q r :: jstring
    by (metis append_take_drop_id starts_with_def append_assoc append_eq_conv_conj)
  then show "covers_api demo_matchers" by (auto simp: covers_api_def demo_matchers_def gateMatcherCovers_def api_path_def)
qed

end
