(* ===== verification/Json_Text.thy ===== *)
theory Json_Text
  imports Event_Ingest
begin

text \<open>
  \<open>JSON.stringify\<close> loses nothing: a text begins with at most one value's text, so two values with one text
  are one value. \<open>N\<close> is a set of numbers that prints without collisions; the numbers of JavaScript (its finite
  doubles) are such a set for \<open>Number.prototype.toString\<close>.
\<close>

section \<open>Strings\<close>

text \<open>Reading a quoted text back, up to its closing quote.\<close>

definition digit_value :: "code_unit \<Rightarrow> nat" where
  "digit_value u = (if u \<le> 57 then unat u - 48 else unat u - 87)"

definition unescaped :: "code_unit \<Rightarrow> code_unit" where
  "unescaped d = (if d = 98 then 8 else if d = 116 then 9 else if d = 110 then 10 else if d = 102 then 12
     else if d = 114 then 13 else d)"

fun unquote :: "jstring \<Rightarrow> jstring \<times> jstring" where
  "unquote [] = ([], [])"
| "unquote (c # s) =
     (if c = 34 then ([], s)
      else if c = 92 then
        (case s of
           [] \<Rightarrow> ([], [])
         | d # r \<Rightarrow>
             if d = 117 then
               (case r of
                  h1 # h2 # h3 # h4 # q \<Rightarrow>
                    apfst ((#) (of_nat (((digit_value h1 * 16 + digit_value h2) * 16 + digit_value h3) * 16 + digit_value h4)))
                      (unquote q)
                | _ \<Rightarrow> ([], []))
             else apfst ((#) (unescaped d)) (unquote r))
      else apfst ((#) c) (unquote s))"

lemma digit_value_digit: "n < 16 \<Longrightarrow> digit_value (hex_digit n) = n"
proof -
  assume "n < 16"
  then have "n \<in> set [0..<16]" by simp
  moreover have "\<forall>n \<in> set [0..<16]. digit_value (hex_digit n) = n" by code_simp
  ultimately show ?thesis by blast
qed

lemma four_digits:
  fixes n :: nat
  assumes "n < 65536"
  shows "4096 * (n div 4096 mod 16) + 256 * (n div 256 mod 16) + n div 16 mod 16 * 16 + n mod 16 = n"
proof -
  define a b where ab: "a = n div 16" "b = a div 16"
  have "n = a * 16 + n mod 16" "a = b * 16 + a mod 16" "b = b div 16 * 16 + b mod 16" by (simp_all add: ab)
  moreover have "n div 256 mod 16 = b mod 16" by (simp add: ab flip: div_mult2_eq)
  moreover have "n div 4096 mod 16 = b div 16" using assms by (simp add: ab flip: div_mult2_eq)
  ultimately show ?thesis unfolding ab(1) [symmetric] by linarith
qed

lemma unquote_escape: "unquote (unicode_escape c @ r) = apfst ((#) c) (unquote r)"
proof -
  have n: "unat c < 65536" using unsigned_less [of c] by simp
  have "js [CHR 0x5C, CHR ''u''] = [92, 117]" by code_simp
  then show ?thesis
    by (simp add: unicode_escape_def Let_def digit_value_digit four_digits [OF n] del: of_nat_add of_nat_mult)
qed

lemma unquote_unit: "unquote (quote_unit c @ r) = apfst ((#) c) (unquote r)"
proof -
  have "js [CHR 0x5C, CHR ''b''] = [92, 98]" "js [CHR 0x5C, CHR ''t''] = [92, 116]" "js [CHR 0x5C, CHR ''n''] = [92, 110]"
    "js [CHR 0x5C, CHR ''f''] = [92, 102]" "js [CHR 0x5C, CHR ''r''] = [92, 114]" "js [CHR 0x5C, CHR 0x22] = [92, 34]"
    "js [CHR 0x5C, CHR 0x5C] = [92, 92]"
    by code_simp+
  then show ?thesis by (simp add: quote_unit_def unquote_escape unescaped_def)
qed

lemma surrogate_plain: "is_high_surrogate c \<or> is_low_surrogate c \<Longrightarrow> c \<noteq> 34 \<and> c \<noteq> 92"
  by (auto simp: is_high_surrogate_def is_low_surrogate_def)

lemma unquote_units: "unquote (quote_units s @ 34 # r) = (s, r)"
proof (induction s rule: quote_units.induct)
  case (3 c d s)
  then show ?case
  proof (cases "is_high_surrogate c \<and> is_low_surrogate d")
    case True
    with surrogate_plain [of c] surrogate_plain [of d] 3 show ?thesis by simp
  qed (use 3 in \<open>auto simp: unquote_unit\<close>)
qed (simp_all add: unquote_unit)

lemma quote_js: "json_quote s @ x = 34 # (quote_units s @ 34 # x)"
proof -
  have "js [CHR 0x22] = [34]" by code_simp
  then show ?thesis by (simp add: json_quote_def)
qed

lemma quote_unique: "json_quote s @ x = json_quote t @ y \<longleftrightarrow> s = t \<and> x = y"
proof
  assume "json_quote s @ x = json_quote t @ y"
  then have "unquote (quote_units s @ 34 # x) = unquote (quote_units t @ 34 # y)" by (simp add: quote_js)
  then show "s = t \<and> x = y" by (simp add: unquote_units)
qed simp

section \<open>Values\<close>

text \<open>What may follow a value: nothing, a comma or a closing bracket.\<close>

definition closes :: "jstring \<Rightarrow> bool" where
  "closes x \<longleftrightarrow> x = [] \<or> hd x \<in> {44, 93, 125}"

definition number_unit :: "code_unit \<Rightarrow> bool" where
  "number_unit c \<longleftrightarrow> is_digit c \<or> c \<in> {43, 45, 46, 101}"

definition num_laws :: "(rat \<Rightarrow> jstring) \<Rightarrow> rat set \<Rightarrow> bool" where
  "num_laws num_repr N \<longleftrightarrow>
     inj_on num_repr N \<and> (\<forall>q \<in> N. num_repr q \<noteq> [] \<and> list_all number_unit (num_repr q))"

text \<open>Every number of the value is finite and in \<open>N\<close>.\<close>

fun numbers_in :: "rat set \<Rightarrow> json \<Rightarrow> bool" where
  "numbers_in N (JArr vs) = (\<forall>v \<in> set vs. numbers_in N v)"
| "numbers_in N (JObj ps) = (\<forall>p \<in> set ps. numbers_in N (snd p))"
| "numbers_in N (JNum (JFin q)) = (q \<in> N)"
| "numbers_in N (JNum (JInf b)) = False"
| "numbers_in N v = True"

lemma number_unit_plain: "number_unit c \<Longrightarrow> c \<notin> {34, 44, 91, 93, 102, 110, 116, 123, 125}"
  by (auto simp: number_unit_def is_digit_def)

lemma number_unique:
  assumes laws: "num_laws num_repr N" and "q \<in> N" and "r \<in> N"
    and "closes x" and "closes y" and eq: "num_repr q @ x = num_repr r @ y"
  shows "q = r \<and> x = y"
proof -
  have whole: "takeWhile number_unit (num_repr p @ z) = num_repr p" if "p \<in> N" "closes z" for p z
  proof -
    have "takeWhile number_unit z = []" using that(2) number_unit_plain by (cases z) (auto simp: closes_def)
    moreover have "\<forall>c \<in> set (num_repr p). number_unit c" using laws that(1) by (auto simp: num_laws_def list_all_iff)
    ultimately show ?thesis by (simp add: takeWhile_append)
  qed
  have "num_repr q = num_repr r" using arg_cong [OF eq, of "takeWhile number_unit"] assms(2-5) by (simp add: whole)
  moreover from this have "x = y" using eq by simp
  ultimately show ?thesis using laws assms(2,3) by (auto simp: num_laws_def dest: inj_onD)
qed

text \<open>The first unit of a value's text tells what it is.\<close>

definition unit_kind :: "code_unit \<Rightarrow> nat" where
  "unit_kind c =
     (if c = 110 then 0 else if c = 116 then 1 else if c = 102 then 2 else if c = 34 then 3
      else if c = 91 then 4 else if c = 123 then 5 else if number_unit c then 6 else 7)"

fun value_kind :: "json \<Rightarrow> nat" where
  "value_kind JNull = 0"
| "value_kind (JBool b) = (if b then 1 else 2)"
| "value_kind (JStr s) = 3"
| "value_kind (JArr vs) = 4"
| "value_kind (JObj ps) = 5"
| "value_kind (JNum n) = 6"

lemma words:
  "js ''null'' = [110, 117, 108, 108]" "js ''true'' = [116, 114, 117, 101]" "js ''false'' = [102, 97, 108, 115, 101]"
  "js ''['' = [91]" "js '']'' = [93]" "js ''{'' = [123]" "js ''}'' = [125]" "js '','' = [44]" "js '':'' = [58]"
  by code_simp+

lemma stringify_lead:
  assumes "num_laws num_repr N" and "numbers_in N v"
  shows "\<exists>c s. stringify num_repr v = c # s \<and> unit_kind c = value_kind v \<and> c \<notin> {44, 93, 125}"
proof (cases v)
  case (JNum n)
  with assms obtain q where q: "n = JFin q" "q \<in> N" by (cases n) auto
  with assms(1) have "num_repr q \<noteq> []" "list_all number_unit (num_repr q)" by (auto simp: num_laws_def)
  then obtain c s where "num_repr q = c # s" "number_unit c" by (cases "num_repr q") auto
  with number_unit_plain [of c] JNum q show ?thesis by (auto simp: unit_kind_def)
next
  case (JStr s)
  then show ?thesis using quote_js [of s "[]"] by (simp add: unit_kind_def)
qed (simp_all add: unit_kind_def words)

lemma same_kind:
  assumes "num_laws num_repr N" and "numbers_in N v" and "numbers_in N w"
    and "stringify num_repr v @ x = stringify num_repr w @ y"
  shows "value_kind v = value_kind w"
  using stringify_lead [OF assms(1,2)] stringify_lead [OF assms(1,3)] assms(4) by auto

section \<open>Lists of items\<close>

lemma commas_then: "commas (map f (v # vs)) @ z = f v @ (if vs = [] then z else 44 # (commas (map f vs) @ z))"
  by (cases vs) (simp_all add: words)

lemma commas_unique:
  assumes "\<And>v w x y. v \<in> set vs \<Longrightarrow> w \<in> set ws \<Longrightarrow> closes x \<Longrightarrow> closes y \<Longrightarrow> f v @ x = f w @ y \<Longrightarrow> v = w \<and> x = y"
    and "\<And>v. v \<in> set vs \<union> set ws \<Longrightarrow> \<exists>c s. f v = c # s \<and> c \<noteq> e"
    and "e \<in> {93, 125}"
    and "commas (map f vs) @ e # x = commas (map f ws) @ e # y"
  shows "vs = ws \<and> x = y"
  using assms
proof (induction vs arbitrary: ws)
  case Nil
  show ?case
  proof (cases ws)
    case (Cons w ws')
    with Nil.prems(2) [of w] obtain c s where "f w = c # s" "c \<noteq> e" by auto
    with Nil.prems(4) show ?thesis unfolding Cons commas_then by simp
  qed (use Nil in simp)
next
  case (Cons v vs)
  let ?tail = "\<lambda>us z. if us = [] then e # z else 44 # (commas (map f us) @ e # z)"
  obtain w ws' where ws: "ws = w # ws'"
  proof (cases ws)
    case Nil
    obtain c s where "f v = c # s" "c \<noteq> e" using Cons.prems(2) [of v] by auto
    with Cons.prems(4) show thesis unfolding Nil commas_then by simp
  qed
  have cl: "closes (?tail us z)" for us z using Cons.prems(3) by (auto simp: closes_def)
  have "f v @ ?tail vs x = f w @ ?tail ws' y" using Cons.prems(4) unfolding ws commas_then .
  with Cons.prems(1) [of v w] cl ws have vw: "v = w" "?tail vs x = ?tail ws' y" by auto
  have e: "e \<noteq> 44" using Cons.prems(3) by auto
  show ?case
  proof (cases "vs = [] \<or> ws' = []")
    case True
    with vw(2) e ws vw(1) show ?thesis by (auto split: if_splits)
  next
    case False
    with vw(2) have "commas (map f vs) @ e # x = commas (map f ws') @ e # y" by simp
    moreover have "\<exists>c s. f u = c # s \<and> c \<noteq> e" if "u \<in> set vs \<union> set ws'" for u
      using Cons.prems(2) that ws by auto
    moreover have "v = w \<and> x = y"
      if "v \<in> set vs" "w \<in> set ws'" "closes x" "closes y" "f v @ x = f w @ y" for v w x y
      by (rule Cons.prems(1)) (use that ws in simp_all)
    ultimately have "vs = ws' \<and> x = y"
      using Cons.prems(3) by (intro Cons.IH)
    with ws vw(1) show ?thesis by simp
  qed
qed

section \<open>One value for one text\<close>

lemma stringify_unique:
  assumes laws: "num_laws num_repr N"
  shows "numbers_in N v \<Longrightarrow> numbers_in N w \<Longrightarrow> closes x \<Longrightarrow> closes y \<Longrightarrow>
    stringify num_repr v @ x = stringify num_repr w @ y \<Longrightarrow> v = w \<and> x = y"
proof (induction v arbitrary: w x y)
  case (JArr vs)
  obtain ws where w: "w = JArr ws"
    using same_kind [OF laws JArr.prems(1,2,5)] by (cases w) (auto split: if_splits)
  have "vs = ws \<and> x = y"
  proof (rule commas_unique [where f = "stringify num_repr" and e = 93])
    show "commas (map (stringify num_repr) vs) @ 93 # x = commas (map (stringify num_repr) ws) @ 93 # y"
      using JArr.prems(5) w by (simp add: words)
    show "\<exists>c s. stringify num_repr v = c # s \<and> c \<noteq> 93" if "v \<in> set vs \<union> set ws" for v
    proof -
      have "numbers_in N v" using that JArr.prems(1,2) w by auto
      from stringify_lead [OF laws this] show ?thesis by auto
    qed
  qed (use JArr w in auto)
  with w show ?case by simp
next
  case (JObj ps)
  let ?f = "\<lambda>p. json_quote (fst p) @ js '':'' @ stringify num_repr (snd p)"
  obtain qs where w: "w = JObj qs"
    using same_kind [OF laws JObj.prems(1,2,5)] by (cases w) (auto split: if_splits)
  have "ps = qs \<and> x = y"
  proof (rule commas_unique [where f = ?f and e = 125])
    show "commas (map ?f ps) @ 125 # x = commas (map ?f qs) @ 125 # y" using JObj.prems(5) w by (simp add: words)
    show "\<exists>c s. ?f p = c # s \<and> c \<noteq> 125" for p using quote_js [of "fst p"] by simp
    fix p q x' y'
    assume pq: "p \<in> set ps" "q \<in> set qs" "closes x'" "closes y'" and eq: "?f p @ x' = ?f q @ y'"
    have k: "fst p = fst q" and "stringify num_repr (snd p) @ x' = stringify num_repr (snd q) @ y'"
      using eq by (simp_all add: quote_unique words)
    moreover have "snd p \<in> Basic_BNFs.snds p" by (cases p) (simp add: snds.simps)
    ultimately have "snd p = snd q \<and> x' = y'"
      using pq JObj.prems(1,2) w by (intro JObj.IH [of p "snd p"]) simp_all
    with k show "p = q \<and> x' = y'" by (simp add: prod_eq_iff)
  qed simp
  with w show ?case by simp
next
  case (JNum n)
  then obtain q where q: "n = JFin q" "q \<in> N" by (cases n) auto
  obtain m where "w = JNum m"
    using same_kind [OF laws JNum.prems(1,2,5)] by (cases w) (auto split: if_splits)
  with JNum.prems(2) obtain r where w: "w = JNum (JFin r)" "r \<in> N" by (cases m) auto
  with number_unique [OF laws q(2) w(2) JNum.prems(3,4)] JNum.prems(5) q show ?case by simp
next
  case JNull
  then show ?case using same_kind [OF laws JNull.prems(1,2,5)] by (cases w) (auto simp: words split: if_splits)
next
  case (JBool b)
  then show ?case using same_kind [OF laws JBool.prems(1,2,5)] by (cases w) (auto simp: words split: if_splits)
next
  case (JStr s)
  then show ?case using same_kind [OF laws JStr.prems(1,2,5)] by (cases w) (auto simp: quote_unique split: if_splits)
qed

lemma stringify_inj:
  "num_laws num_repr N \<Longrightarrow> numbers_in N v \<Longrightarrow> numbers_in N w \<Longrightarrow>
    stringify num_repr v = stringify num_repr w \<longleftrightarrow> v = w"
  using stringify_unique [of num_repr N v w "[]" "[]"] by (auto simp: closes_def)

end
