(* ===== verification/Manifest_Pin.thy ===== *)
theory Manifest_Pin
  imports Rewrite_Policy Json_Text "HOL-Library.AList"
begin

text \<open>
  The routing tables of a built image against the committed pin: \<open>src/scripts/verify-image.mjs\<close> reads
  \<open>routes-manifest.json\<close> and \<open>middleware-manifest.json\<close> and compares them with
  \<open>image-artifact-baseline.json\<close> (checks 24 to 27). An object of JavaScript lists its index keys first,
  in numeric order, then the others in the order they were defined; \<open>Object.fromEntries\<close> builds one.
\<close>

section \<open>Objects\<close>

text \<open>An index key: a canonical decimal below 2^32 - 1.\<close>

definition index_key :: "jstring \<Rightarrow> nat option" where
  "index_key k =
     (if k \<noteq> [] \<and> list_all is_digit k \<and> (hd k \<noteq> 48 \<or> length k = 1)
      then let n = foldl (\<lambda>n c. n * 10 + (unat c - 48)) 0 k in if n < 2 ^ 32 - 1 then Some n else None
      else None)"

definition own_order :: "(jstring \<times> json) list \<Rightarrow> (jstring \<times> json) list" where
  "own_order ps =
     sort_key (\<lambda>p. the (index_key (fst p))) (filter (\<lambda>p. index_key (fst p) \<noteq> None) ps) @
     filter (\<lambda>p. index_key (fst p) = None) ps"

text \<open>\<open>Object.fromEntries\<close>: a key given twice keeps its place and takes the later value.\<close>

definition from_entries :: "(jstring \<times> json) list \<Rightarrow> json" where
  "from_entries ps = JObj (own_order (foldl (\<lambda>acc p. AList.update (fst p) (snd p) acc) [] ps))"

definition sorted_entries :: "(jstring \<times> json) list \<Rightarrow> (jstring \<times> json) list" where
  "sorted_entries ps = sort_key fst ps"

section \<open>Canonical entries\<close>

fun canonicaliseJsonValue :: "json \<Rightarrow> json" where
  "canonicaliseJsonValue (JArr vs) = JArr (map canonicaliseJsonValue vs)"
| "canonicaliseJsonValue (JObj ps) =
     from_entries (sorted_entries (map (\<lambda>p. (fst p, canonicaliseJsonValue (snd p))) ps))"
| "canonicaliseJsonValue v = v"

definition members :: "json \<Rightarrow> (jstring \<times> json) list" where
  "members v = (case v of JObj ps \<Rightarrow> ps | _ \<Rightarrow> [])"

definition normaliseRewrite :: "jstring \<Rightarrow> json \<Rightarrow> json" where
  "normaliseRewrite phase rw = from_entries ((js ''phase'', JStr phase) # sorted_entries (members rw))"

definition canonical_entry :: "json \<Rightarrow> jstring \<Rightarrow> json" where
  "canonical_entry e leadKey =
     (let ps = map (\<lambda>p. (fst p, canonicaliseJsonValue (snd p))) (members e)
      in from_entries (filter (\<lambda>p. fst p = leadKey) ps @ filter (\<lambda>p. fst p \<noteq> leadKey) (sorted_entries ps)))"

definition canonicalEntryLine :: "(rat \<Rightarrow> jstring) \<Rightarrow> json \<Rightarrow> jstring \<Rightarrow> jstring" where
  "canonicalEntryLine num_repr e leadKey = stringify num_repr (canonical_entry e leadKey)"

definition rewriteLine :: "(rat \<Rightarrow> jstring) \<Rightarrow> json \<Rightarrow> jstring" where
  "rewriteLine num_repr e = canonicalEntryLine num_repr e (js ''phase'')"

definition routeLine :: "(rat \<Rightarrow> jstring) \<Rightarrow> json \<Rightarrow> jstring" where
  "routeLine num_repr e = canonicalEntryLine num_repr e (js ''page'')"

section \<open>Comparing two tables\<close>

datatype diff_line = Added nat jstring | Missing nat jstring | Differs nat jstring jstring

record table_diff =
  td_lines :: "diff_line list"
  td_onlyInImage :: "jstring list"
  td_onlyInPin :: "jstring list"
  td_reordered :: bool

fun positional_diff :: "nat \<Rightarrow> jstring list \<Rightarrow> jstring list \<Rightarrow> diff_line list" where
  "positional_diff i [] [] = []"
| "positional_diff i [] (g # gs) = Added i g # positional_diff (i + 1) [] gs"
| "positional_diff i (w # ws) [] = Missing i w # positional_diff (i + 1) ws []"
| "positional_diff i (w # ws) (g # gs) =
     (if w = g then positional_diff (i + 1) ws gs else Differs i w g # positional_diff (i + 1) ws gs)"

definition entryTableDiff :: "json list \<Rightarrow> json list \<Rightarrow> (json \<Rightarrow> jstring) \<Rightarrow> table_diff option" where
  "entryTableDiff want got lineOf =
     (let ws = map lineOf want; gs = map lineOf got
      in if ws = gs then None
         else let added = filter (\<lambda>l. l \<notin> set ws) gs; missing = filter (\<lambda>l. l \<notin> set gs) ws
              in Some \<lparr>td_lines = positional_diff 0 ws gs, td_onlyInImage = added, td_onlyInPin = missing,
                   td_reordered = (length want = length got \<and> added = [] \<and> missing = [])\<rparr>)"

text \<open>\<open>locatedDiff\<close>: what is left of two texts between their common prefix and suffix.\<close>

fun common_prefix :: "jstring \<Rightarrow> jstring \<Rightarrow> nat" where
  "common_prefix (a # as) (b # bs) = (if a = b then Suc (common_prefix as bs) else 0)"
| "common_prefix _ _ = 0"

definition locatedDiff :: "jstring \<Rightarrow> jstring \<Rightarrow> nat \<times> jstring \<times> jstring" where
  "locatedDiff want got =
     (let p = common_prefix want got;
          s = common_prefix (rev (drop p want)) (rev (drop p got))
      in (p, take (length want - s - p) (drop p want), take (length got - s - p) (drop p got)))"

section \<open>Reading \<open>routes-manifest.json\<close>\<close>

datatype shape = ShapeNull | ShapeAbsent | ShapeArray nat | ShapeScalar json | ShapeObject "jstring list"

definition describeShape :: "json option \<Rightarrow> shape" where
  "describeShape v = (case v of
     None \<Rightarrow> ShapeAbsent
   | Some JNull \<Rightarrow> ShapeNull
   | Some (JArr vs) \<Rightarrow> ShapeArray (length vs)
   | Some (JObj ps) \<Rightarrow> ShapeObject (map fst ps)
   | Some w \<Rightarrow> ShapeScalar w)"

datatype manifest_error =
    NotReadable | ManifestNotJson | NotAnObject shape | NoRewritesKey | RewritesShape shape
  | UnknownPhases "jstring list" | PhaseShape string shape | EntryShape string nat shape | OwnPhase string nat json
  | NoTable string | TableShape string shape | RouteShape string nat shape | PageShape string nat shape
  | MapShape string shape

record routes_manifest =
  rm_rewrites :: "json list"
  rm_tables :: "(string \<times> json list) list"
  rm_basePath :: "json option"
  rm_i18n :: json

definition REWRITE_PHASES :: "string list" where
  "REWRITE_PHASES = [''beforeFiles'', ''afterFiles'', ''fallback'']"

definition ROUTE_TABLES :: "string list" where
  "ROUTE_TABLES = [''dataRoutes'', ''dynamicRoutes'', ''staticRoutes'']"

lemma is_plain_object_iff: "is_plain_object v = (case v of JObj _ \<Rightarrow> True | _ \<Rightarrow> False)"
  by (cases v) simp_all

fun read_phase :: "string \<Rightarrow> nat \<Rightarrow> json list \<Rightarrow> manifest_error + json list" where
  "read_phase phase i [] = Inr []"
| "read_phase phase i (e # es) =
     (if \<not> is_plain_object e then Inl (EntryShape phase i (describeShape (Some e)))
      else case get e ''phase'' of
        Some v \<Rightarrow> Inl (OwnPhase phase i v)
      | None \<Rightarrow> map_sum id ((#) (normaliseRewrite (js phase) e)) (read_phase phase (i + 1) es))"

fun read_phases :: "json \<Rightarrow> string list \<Rightarrow> manifest_error + json list" where
  "read_phases rw [] = Inr []"
| "read_phases rw (ph # phs) =
     (case get rw ph of
        Some (JArr es) \<Rightarrow>
          (case read_phase ph 0 es of Inl e \<Rightarrow> Inl e
           | Inr xs \<Rightarrow> map_sum id ((@) xs) (read_phases rw phs))
      | v \<Rightarrow> Inl (PhaseShape ph (describeShape v)))"

fun read_routes :: "string \<Rightarrow> nat \<Rightarrow> json list \<Rightarrow> manifest_error + json list" where
  "read_routes name i [] = Inr []"
| "read_routes name i (e # es) =
     (if \<not> is_plain_object e then Inl (RouteShape name i (describeShape (Some e)))
      else case nonempty_string (get e ''page'') of
        None \<Rightarrow> Inl (PageShape name i (describeShape (get e ''page'')))
      | Some _ \<Rightarrow> map_sum id ((#) (canonicaliseJsonValue e)) (read_routes name (i + 1) es))"

fun read_tables :: "json \<Rightarrow> string list \<Rightarrow> manifest_error + (string \<times> json list) list" where
  "read_tables m [] = Inr []"
| "read_tables m (name # names) =
     (case get m name of
        None \<Rightarrow> Inl (NoTable name)
      | Some (JArr es) \<Rightarrow>
          (case read_routes name 0 es of Inl e \<Rightarrow> Inl e
           | Inr xs \<Rightarrow> map_sum id ((#) (name, xs)) (read_tables m names))
      | Some v \<Rightarrow> Inl (TableShape name (describeShape (Some v))))"

text \<open>The file's text is \<open>None\<close> when it cannot be copied out; \<open>decode_json\<close> is \<open>JSON.parse\<close>.\<close>

definition extractRoutesManifest :: "(jstring \<Rightarrow> json option) \<Rightarrow> jstring option \<Rightarrow> manifest_error + routes_manifest" where
  "extractRoutesManifest decode_json file =
     (case file of None \<Rightarrow> Inl NotReadable
      | Some s \<Rightarrow>
        (case decode_json s of None \<Rightarrow> Inl ManifestNotJson
         | Some m \<Rightarrow>
           if \<not> is_plain_object m then Inl (NotAnObject (describeShape (Some m)))
           else case get m ''rewrites'' of
             None \<Rightarrow> Inl NoRewritesKey
           | Some rw \<Rightarrow>
             if \<not> is_plain_object rw then Inl (RewritesShape (describeShape (Some rw)))
             else let unknown = filter (\<lambda>k. k \<notin> set (map js REWRITE_PHASES)) (map fst (members rw))
                  in if unknown \<noteq> [] then Inl (UnknownPhases unknown)
                     else case read_phases rw REWRITE_PHASES of Inl e \<Rightarrow> Inl e
                       | Inr entries \<Rightarrow>
                         (case read_tables m ROUTE_TABLES of Inl e \<Rightarrow> Inl e
                          | Inr tables \<Rightarrow> Inr \<lparr>rm_rewrites = entries, rm_tables = tables, rm_basePath = get m ''basePath'',
                              rm_i18n = (case get m ''i18n'' of None \<Rightarrow> JNull | Some v \<Rightarrow> v)\<rparr>)))"

section \<open>Lines are values up to the order of keys\<close>

text \<open>Equal up to the order of keys, at every depth.\<close>

function same_value :: "json \<Rightarrow> json \<Rightarrow> bool" where
  "same_value (JArr xs) w =
     (case w of JArr ys \<Rightarrow> length xs = length ys \<and> (\<forall>i \<in> {..<length xs}. same_value (xs ! i) (ys ! i)) | _ \<Rightarrow> False)"
| "same_value (JObj ps) w =
     (case w of
        JObj qs \<Rightarrow> fst ` set ps = fst ` set qs \<and>
          (\<forall>p \<in> set ps. \<forall>q \<in> set qs. fst p = fst q \<longrightarrow> same_value (snd p) (snd q))
      | _ \<Rightarrow> False)"
| "same_value JNull w = (w = JNull)"
| "same_value (JBool b) w = (w = JBool b)"
| "same_value (JNum n) w = (w = JNum n)"
| "same_value (JStr t) w = (w = JStr t)"
  by pat_completeness auto
termination
proof (relation "measure (\<lambda>(v, w). size v)", goal_cases)
  case (2 xs w ys i)
  then have "size (xs ! i) \<le> size_list size xs" by (intro size_list_estimation' [where x = "xs ! i"]) auto
  then show ?case by simp
next
  case (3 ps w qs p q)
  then have "size_prod (\<lambda>x. 0) size p \<le> size_list (size_prod (\<lambda>x. 0) size) ps"
    by (intro size_list_estimation' [where x = p]) auto
  then show ?case by (cases p) simp
qed simp

lemma update_new: "k \<notin> fst ` set al \<Longrightarrow> AList.update k v al = al @ [(k, v)]"
  by (induction al) auto

lemma updates_distinct:
  "distinct (map fst (acc @ ps)) \<Longrightarrow> foldl (\<lambda>acc p. AList.update (fst p) (snd p) acc) acc ps = acc @ ps"
proof (induction ps arbitrary: acc)
  case (Cons p ps)
  then have "AList.update (fst p) (snd p) acc = acc @ [p]" by (subst update_new) auto
  with Cons.IH [of "acc @ [p]"] Cons.prems show ?case by simp
qed simp

lemma own_order_mset: "mset (own_order ps) = mset ps"
  by (simp add: own_order_def flip: multiset_partition)

lemma from_entries_distinct: "distinct (map fst ps) \<Longrightarrow> from_entries ps = JObj (own_order ps)"
  using updates_distinct [of "[]" ps] by (simp add: from_entries_def)

lemma distinct_mset: "mset xs = mset ys \<Longrightarrow> distinct (map fst xs) \<longleftrightarrow> distinct (map fst ys)"
  by (rule mset_eq_imp_distinct_iff) (metis mset_map)

lemma pairs_eq:
  assumes "map fst xs = map fst ys" and "distinct (map fst xs)" and "set xs = set ys"
  shows "xs = ys"
proof (rule nth_equalityI)
  show len: "length xs = length ys" using assms(1) by (metis length_map)
  fix i
  assume i: "i < length xs"
  have "fst (xs ! i) = fst (ys ! i)" using assms(1) i len by (metis nth_map)
  moreover have "xs ! i \<in> set xs" "ys ! i \<in> set xs" using i len assms(3) nth_mem by auto
  ultimately show "xs ! i = ys ! i" using assms(2) by (metis eq_key_imp_eq_value prod.collapse)
qed

lemma sorted_entries_facts:
  "distinct (map fst xs) \<Longrightarrow> distinct (map fst (sorted_entries xs))" "set (sorted_entries xs) = set xs"
  "sorted (map fst (sorted_entries xs))"
  using distinct_mset [of "sort_key fst xs" xs] by (simp_all add: sorted_entries_def)

lemma sorted_pairs_unique:
  assumes "distinct (map fst xs)" and "distinct (map fst ys)" and "set xs = set ys"
  shows "sorted_entries xs = sorted_entries ys"
proof (rule pairs_eq)
  show "map fst (sorted_entries xs) = map fst (sorted_entries ys)"
    using assms sorted_entries_facts by (intro sorted_distinct_set_unique) simp_all
qed (use assms sorted_entries_facts in simp_all)

lemma own_order_set [simp]: "set (own_order ps) = set ps"
  using own_order_mset by (rule mset_eq_setD)

text \<open>Building an object from the sorted entries of another: only the entries count.\<close>

lemma canonical_entries_eq:
  assumes "distinct (map fst xs)" and "distinct (map fst ys)"
  shows "from_entries (sorted_entries xs) = from_entries (sorted_entries ys) \<longleftrightarrow> set xs = set ys"
proof
  assume "from_entries (sorted_entries xs) = from_entries (sorted_entries ys)"
  then have "own_order (sorted_entries xs) = own_order (sorted_entries ys)"
    using assms sorted_entries_facts(1) by (simp add: from_entries_distinct)
  then show "set xs = set ys" using own_order_set sorted_entries_facts(2) by metis
next
  assume "set xs = set ys"
  with assms sorted_pairs_unique show "from_entries (sorted_entries xs) = from_entries (sorted_entries ys)" by metis
qed

lemma image_pairs_eq:
  assumes "distinct (map fst ps)" and "distinct (map fst qs)"
  shows "(\<lambda>p. (fst p, f (snd p))) ` set ps = (\<lambda>p. (fst p, f (snd p))) ` set qs \<longleftrightarrow>
    fst ` set ps = fst ` set qs \<and> (\<forall>p \<in> set ps. \<forall>q \<in> set qs. fst p = fst q \<longrightarrow> f (snd p) = f (snd q))"
    (is "?l = ?r \<longleftrightarrow> _")
proof
  assume eq: "?l = ?r"
  have keys: "fst ` set ps = fst ` set qs" using arg_cong [OF eq, of "image fst"] by (simp add: image_image)
  have "f (snd p) = f (snd q)" if pq: "p \<in> set ps" "q \<in> set qs" "fst p = fst q" for p q
  proof -
    have "(fst p, f (snd p)) \<in> ?r" using pq(1) eq by blast
    then obtain q1 where "q1 \<in> set qs" "fst p = fst q1" "f (snd p) = f (snd q1)" by auto
    moreover from this have "q1 = q" using pq(2,3) assms(2) by (metis eq_key_imp_eq_value prod.collapse)
    ultimately show ?thesis by simp
  qed
  with keys show "fst ` set ps = fst ` set qs \<and> (\<forall>p \<in> set ps. \<forall>q \<in> set qs. fst p = fst q \<longrightarrow> f (snd p) = f (snd q))" by blast
next
  assume r: "fst ` set ps = fst ` set qs \<and> (\<forall>p \<in> set ps. \<forall>q \<in> set qs. fst p = fst q \<longrightarrow> f (snd p) = f (snd q))"
  have "x \<in> ?r" if "x \<in> ?l" for x
  proof -
    from that obtain p where p: "p \<in> set ps" "x = (fst p, f (snd p))" by auto
    with r obtain q where "q \<in> set qs" "fst p = fst q" by (metis imageE imageI)
    with p r show ?thesis by auto
  qed
  moreover have "x \<in> ?l" if "x \<in> ?r" for x
  proof -
    from that obtain q where q: "q \<in> set qs" "x = (fst q, f (snd q))" by auto
    with r obtain p where "p \<in> set ps" "fst p = fst q" by (metis imageE imageI)
    with q r have "x = (fst p, f (snd p))" by simp
    with \<open>p \<in> set ps\<close> show ?thesis by blast
  qed
  ultimately show "?l = ?r" by blast
qed

lemma canonical_same: "json_wf v \<Longrightarrow> json_wf w \<Longrightarrow> canonicaliseJsonValue v = canonicaliseJsonValue w \<longleftrightarrow> same_value v w"
proof (induction v w rule: same_value.induct)
  case (1 xs w)
  show ?case
  proof (cases w)
    case (JArr ys)
    have "json_wf (xs ! i) \<and> json_wf (ys ! i)" if "i < length xs" "length xs = length ys" for i
      using that 1(2,3) JArr by auto
    with 1(1) JArr show ?thesis by (auto simp: list_eq_iff_nth_eq)
  qed (use 1 in \<open>auto simp: from_entries_def\<close>)
next
  case (2 ps w)
  show ?case
  proof (cases w)
    case (JObj qs)
    let ?f = "\<lambda>p. (fst p, canonicaliseJsonValue (snd p))"
    have d: "distinct (map fst ps)" "distinct (map fst qs)" using 2(2,3) JObj by simp_all
    have "canonicaliseJsonValue (JObj ps) = canonicaliseJsonValue w \<longleftrightarrow> ?f ` set ps = ?f ` set qs"
      using d JObj by (simp add: canonical_entries_eq comp_def)
    also have "\<dots> \<longleftrightarrow> fst ` set ps = fst ` set qs \<and>
        (\<forall>p \<in> set ps. \<forall>q \<in> set qs. fst p = fst q \<longrightarrow> canonicaliseJsonValue (snd p) = canonicaliseJsonValue (snd q))"
      by (rule image_pairs_eq [OF d])
    also have "\<dots> \<longleftrightarrow> same_value (JObj ps) w"
      using 2 JObj by auto
    finally show ?thesis .
  qed (use 2 in \<open>auto simp: from_entries_def\<close>)
next
  case (3 w)
  then show ?case by (cases w) (simp_all add: from_entries_def)
next
  case (4 b w)
  then show ?case by (cases w) (auto simp: from_entries_def)
next
  case (5 n w)
  then show ?case by (cases w) (auto simp: from_entries_def)
next
  case (6 t w)
  then show ?case by (cases w) (auto simp: from_entries_def)
qed

lemma own_order_keys: "distinct (map fst ps) \<Longrightarrow> distinct (map fst (own_order ps))"
  using distinct_mset [OF own_order_mset] by blast

lemma get_members: "get e k = map_of (members e) (js k)"
  by (cases e) (simp_all add: members_def)

lemma numbers_canonical: "json_wf v \<Longrightarrow> numbers_in N v \<Longrightarrow> numbers_in N (canonicaliseJsonValue v)"
proof (induction v)
  case (JObj ps)
  let ?ps = "map (\<lambda>p. (fst p, canonicaliseJsonValue (snd p))) ps"
  have "distinct (map fst (sorted_entries ?ps))"
    using JObj.prems by (intro sorted_entries_facts(1)) (simp add: comp_def)
  moreover have "numbers_in N (canonicaliseJsonValue (snd p))" if "p \<in> set ps" for p
    using that JObj.prems by (intro JObj.IH [of p "snd p"]) (auto simp: prod_set_simps snds.simps intro: snds.intros)
  ultimately show ?case by (simp add: from_entries_distinct sorted_entries_facts(2))
qed auto

text \<open>The entries of \<open>canonicalEntryLine\<close>: the leading key, then the others in order.\<close>

definition led :: "jstring \<Rightarrow> (jstring \<times> json) list \<Rightarrow> (jstring \<times> json) list" where
  "led k ps = filter (\<lambda>p. fst p = k) ps @ filter (\<lambda>p. fst p \<noteq> k) (sorted_entries ps)"

lemma led_mset: "mset (led k ps) = mset ps"
proof -
  have "mset (filter (\<lambda>p. fst p \<noteq> k) (sorted_entries ps)) = mset (filter (\<lambda>p. fst p \<noteq> k) ps)"
    by (simp add: sorted_entries_def)
  then show ?thesis by (simp add: led_def)
qed

lemma lead_entry: "distinct (map fst ps) \<Longrightarrow>
    filter (\<lambda>p. fst p = k) ps = (case map_of ps k of None \<Rightarrow> [] | Some v \<Rightarrow> [(k, v)])"
proof (induction ps)
  case (Cons p ps)
  then show ?case by (cases p) (force simp: map_of_eq_None_iff split: option.splits)
qed simp

lemma led_eq:
  assumes "distinct (map fst ps)" and "distinct (map fst qs)"
  shows "from_entries (led k ps) = from_entries (led k qs) \<longleftrightarrow> set ps = set qs"
proof
  have d: "distinct (map fst (led k ps))" "distinct (map fst (led k qs))"
    using assms distinct_mset [OF led_mset] by blast+
  assume "from_entries (led k ps) = from_entries (led k qs)"
  then have "own_order (led k ps) = own_order (led k qs)" using d by (simp add: from_entries_distinct)
  then have "set (led k ps) = set (led k qs)" using own_order_set by metis
  then show "set ps = set qs" using mset_eq_setD [OF led_mset] by metis
next
  assume eq: "set ps = set qs"
  have "map_of ps = map_of qs" using eq assms map_of_inject_set by blast
  then have "led k ps = led k qs"
    unfolding led_def using lead_entry [OF assms(1)] lead_entry [OF assms(2)] sorted_pairs_unique [OF assms eq] by simp
  then show "from_entries (led k ps) = from_entries (led k qs)" by simp
qed

definition pinned_entry :: "rat set \<Rightarrow> json \<Rightarrow> bool" where
  "pinned_entry N e \<longleftrightarrow> is_plain_object e \<and> json_wf e \<and> numbers_in N e"

text \<open>Two entries have one line exactly when they are one value, keys in any order.\<close>

lemma line_exact:
  assumes laws: "num_laws num_repr N" and e: "pinned_entry N e" and f: "pinned_entry N f"
  shows "canonicalEntryLine num_repr e k = canonicalEntryLine num_repr f k \<longleftrightarrow> same_value e f"
proof -
  let ?c = "map (\<lambda>p. (fst p, canonicaliseJsonValue (snd p)))"
  have canon: "canonical_entry g k = from_entries (led k (?c ps)) \<and> distinct (map fst (?c ps)) \<and>
      (\<forall>p \<in> set ps. numbers_in N (canonicaliseJsonValue (snd p)))" if "pinned_entry N g" "g = JObj ps" for g ps
    using that by (simp add: canonical_entry_def Let_def led_def members_def pinned_entry_def comp_def numbers_canonical)
  obtain ps qs where ps: "e = JObj ps" "f = JObj qs"
    using e f by (auto simp: pinned_entry_def is_plain_object_iff split: json.splits)
  have nums: "numbers_in N (canonical_entry g k)" if "pinned_entry N g" "g = JObj rs" for g rs
  proof -
    have "distinct (map fst (led k (?c rs)))" using canon [OF that] distinct_mset [OF led_mset] by blast
    moreover have "set (led k (?c rs)) = set (?c rs)" by (rule mset_eq_setD [OF led_mset])
    ultimately show ?thesis using canon [OF that] by (auto simp: from_entries_distinct simp del: set_map) (auto)
  qed
  have "canonicalEntryLine num_repr e k = canonicalEntryLine num_repr f k \<longleftrightarrow> canonical_entry e k = canonical_entry f k"
    unfolding canonicalEntryLine_def by (rule stringify_inj [OF laws nums [OF e ps(1)] nums [OF f ps(2)]])
  also have "\<dots> \<longleftrightarrow> set (?c ps) = set (?c qs)" using canon [OF e ps(1)] canon [OF f ps(2)] led_eq by simp
  also have "\<dots> \<longleftrightarrow> canonicaliseJsonValue e = canonicaliseJsonValue f"
    using canon [OF e ps(1)] canon [OF f ps(2)] canonical_entries_eq by (simp add: ps)
  also have "\<dots> \<longleftrightarrow> same_value e f" using e f by (intro canonical_same) (simp_all add: pinned_entry_def)
  finally show ?thesis .
qed

lemma positional_none: "positional_diff i ws gs = [] \<longleftrightarrow> ws = gs"
  by (induction i ws gs rule: positional_diff.induct) auto

fun diff_at :: "diff_line \<Rightarrow> nat" where
  "diff_at (Added i g) = i"
| "diff_at (Missing i w) = i"
| "diff_at (Differs i w g) = i"

lemma positional_places:
  "map diff_at (positional_diff i ws gs) =
     filter (\<lambda>j. j - i \<ge> length ws \<or> j - i \<ge> length gs \<or> ws ! (j - i) \<noteq> gs ! (j - i)) [i..<i + max (length ws) (length gs)]"
proof (induction i ws gs rule: positional_diff.induct)
  case (4 i w ws g gs)
  have r: "[i..<i + max (length (w # ws)) (length (g # gs))] = i # [Suc i..<Suc i + max (length ws) (length gs)]"
    using upt_conv_Cons [of i "i + Suc (max (length ws) (length gs))"] by (simp del: upt_Suc)
  have eq: "filter (\<lambda>j. j - i \<ge> length (w # ws) \<or> j - i \<ge> length (g # gs) \<or> (w # ws) ! (j - i) \<noteq> (g # gs) ! (j - i))
      [Suc i..<Suc i + max (length ws) (length gs)] =
    filter (\<lambda>j. j - Suc i \<ge> length ws \<or> j - Suc i \<ge> length gs \<or> ws ! (j - Suc i) \<noteq> gs ! (j - Suc i))
      [Suc i..<Suc i + max (length ws) (length gs)]"
  proof (rule filter_cong)
    fix j
    assume "j \<in> set [Suc i..<Suc i + max (length ws) (length gs)]"
    then have "j - i = Suc (j - Suc i)" by auto
    then show "(j - i \<ge> length (w # ws) \<or> j - i \<ge> length (g # gs) \<or> (w # ws) ! (j - i) \<noteq> (g # gs) ! (j - i)) =
      (j - Suc i \<ge> length ws \<or> j - Suc i \<ge> length gs \<or> ws ! (j - Suc i) \<noteq> gs ! (j - Suc i))" by simp
  qed simp
  show ?case unfolding r filter.simps(2) eq using 4 by simp
next
  case (2 i g gs)
  then show ?case using upt_conv_Cons [of i "i + length (g # gs)"] by simp
next
  case (3 i w ws)
  then show ?case using upt_conv_Cons [of i "i + length (w # ws)"] by simp
qed simp

text \<open>The positions at which two tables differ.\<close>

definition differing :: "json list \<Rightarrow> json list \<Rightarrow> nat list" where
  "differing want got =
     filter (\<lambda>i. i \<ge> length want \<or> i \<ge> length got \<or> \<not> same_value (want ! i) (got ! i)) [0..<max (length want) (length got)]"

lemma same_tables: "differing want got = [] \<longleftrightarrow> list_all2 same_value want got"
proof
  assume "differing want got = []"
  have i: "i < length want \<and> i < length got \<and> same_value (want ! i) (got ! i)" if "i < length want \<or> i < length got" for i
  proof -
    have "i \<in> set [0..<max (length want) (length got)]" using that by auto
    with \<open>differing want got = []\<close> show ?thesis unfolding differing_def filter_empty_conv by (meson linorder_not_less)
  qed
  then have "length want = length got" 
    using i [of "length want"] i [of "length got"] by (cases "length want" "length got" rule: linorder_cases) simp_all
  with i show "list_all2 same_value want got" by (simp add: list_all2_conv_all_nth)
next
  assume "list_all2 same_value want got"
  then show "differing want got = []" by (simp add: differing_def filter_empty_conv list_all2_conv_all_nth)
qed

text \<open>A diff is reported exactly when some position differs, and its lines are those positions in order.\<close>

lemma diff_exact:
  assumes laws: "num_laws num_repr N" and es: "\<forall>e \<in> set want \<union> set got. pinned_entry N e"
    and line: "lineOf = (\<lambda>e. canonicalEntryLine num_repr e k)"
  shows "(case entryTableDiff want got lineOf of None \<Rightarrow> differing want got = []
    | Some d \<Rightarrow> td_lines d \<noteq> [] \<and> map diff_at (td_lines d) = differing want got)"
proof -
  let ?ws = "map lineOf want" and ?gs = "map lineOf got"
  have "(map lineOf want ! i \<noteq> map lineOf got ! i) \<longleftrightarrow> \<not> same_value (want ! i) (got ! i)"
    if "i < length want" "i < length got" for i
    using that line_exact [OF laws] es by (simp add: line)
  then have places: "map diff_at (positional_diff 0 ?ws ?gs) = differing want got"
    unfolding positional_places differing_def by (auto intro!: filter_cong)
  show ?thesis
  proof (cases "?ws = ?gs")
    case True
    then show ?thesis using places positional_none [of 0 ?ws ?gs] by (simp add: entryTableDiff_def)
  next
    case False
    then show ?thesis using places positional_none [of 0 ?ws ?gs] by (simp add: entryTableDiff_def Let_def)
  qed
qed

lemma wf_from_entries:
  "distinct (map fst ps) \<Longrightarrow> (\<And>p. p \<in> set ps \<Longrightarrow> json_wf (snd p)) \<Longrightarrow> json_wf (from_entries ps)"
  using distinct_mset [OF own_order_mset] by (auto simp: from_entries_distinct)

lemma wf_canonical: "json_wf v \<Longrightarrow> json_wf (canonicaliseJsonValue v)"
proof (induction v)
  case (JObj ps)
  let ?ps = "map (\<lambda>p. (fst p, canonicaliseJsonValue (snd p))) ps"
  have "distinct (map fst (sorted_entries ?ps))"
    using JObj.prems by (intro sorted_entries_facts(1)) (simp add: comp_def)
  moreover have "json_wf (canonicaliseJsonValue (snd p))" if "p \<in> set ps" for p
    using that JObj.prems by (intro JObj.IH [of p "snd p"]) (auto simp: prod_set_simps snds.simps intro: snds.intros)
  ultimately show ?case by (auto simp: sorted_entries_facts(2) intro!: wf_from_entries)
qed auto

section \<open>What is read from the image\<close>

text \<open>\<open>JSON.parse\<close> gives objects with distinct keys and numbers of \<open>N\<close>.\<close>

definition parse_laws :: "rat set \<Rightarrow> (jstring \<Rightarrow> json option) \<Rightarrow> bool" where
  "parse_laws N decode_json \<longleftrightarrow> (\<forall>s v. decode_json s = Some v \<longrightarrow> json_wf v \<and> numbers_in N v)"

definition good_value :: "rat set \<Rightarrow> json \<Rightarrow> bool" where
  "good_value N v \<longleftrightarrow> json_wf v \<and> numbers_in N v"

lemma good_get: "good_value N v \<Longrightarrow> get v k = Some w \<Longrightarrow> good_value N w"
  by (cases v) (force simp: good_value_def dest: map_of_SomeD)+

lemma good_elem: "good_value N (JArr vs) \<Longrightarrow> v \<in> set vs \<Longrightarrow> good_value N v"
  by (simp add: good_value_def)

lemma normalised_entry:
  assumes "good_value N e" and "is_plain_object e" and "get e ''phase'' = None"
  shows "pinned_entry N (normaliseRewrite ph e)"
proof -
  obtain ps where e: "e = JObj ps" using assms(2) by (auto simp: is_plain_object_iff split: json.splits)
  have "distinct (map fst ((js ''phase'', JStr ph) # sorted_entries ps))"
    using assms sorted_entries_facts(1) [of ps] e by (auto simp: good_value_def map_of_eq_None_iff sorted_entries_facts(2))
  moreover have "\<forall>p \<in> set ps. json_wf (snd p) \<and> numbers_in N (snd p)" using assms(1) e by (auto simp: good_value_def)
  ultimately show ?thesis
    unfolding normaliseRewrite_def pinned_entry_def
    by (auto simp: e members_def from_entries_distinct is_plain_object_iff sorted_entries_facts(2)
        intro!: own_order_keys)
qed

lemma canonical_object:
  assumes "good_value N e" and "is_plain_object e"
  shows "pinned_entry N (canonicaliseJsonValue e)"
  using assms wf_canonical [of e] numbers_canonical [of e N]
  by (cases e) (simp_all add: pinned_entry_def good_value_def is_plain_object_iff from_entries_def del: foldl_Cons)

lemma read_phase_entries:
  "read_phase ph i es = Inr xs \<Longrightarrow> \<forall>e \<in> set es. good_value N e \<Longrightarrow> x \<in> set xs \<Longrightarrow> pinned_entry N x"
proof (induction ph i es arbitrary: xs rule: read_phase.induct)
  case (2 ph i e es)
  then show ?case
    by (cases "read_phase ph (i + 1) es") (auto simp: normalised_entry split: if_splits option.splits)
qed simp

lemma read_phases_entries:
  "read_phases rw phs = Inr xs \<Longrightarrow> good_value N rw \<Longrightarrow> x \<in> set xs \<Longrightarrow> pinned_entry N x"
proof (induction phs arbitrary: xs)
  case (Cons ph phs)
  then obtain es ys zs where "get rw ph = Some (JArr es)" "read_phase ph 0 es = Inr ys" "read_phases rw phs = Inr zs" "xs = ys @ zs"
    by (cases "read_phases rw phs") (auto split: option.splits json.splits sum.splits)
  moreover from this have "\<forall>e \<in> set es. good_value N e" using good_get [OF Cons.prems(2)] good_elem by blast
  ultimately show ?case using read_phase_entries Cons by auto
qed simp

lemma read_routes_entries:
  "read_routes name i es = Inr xs \<Longrightarrow> \<forall>e \<in> set es. good_value N e \<Longrightarrow> x \<in> set xs \<Longrightarrow> pinned_entry N x"
proof (induction name i es arbitrary: xs rule: read_routes.induct)
  case (2 name i e es)
  then show ?case
    by (cases "read_routes name (i + 1) es") (auto simp: canonical_object split: if_splits option.splits)
qed simp

lemma read_tables_entries:
  "read_tables m names = Inr ts \<Longrightarrow> good_value N m \<Longrightarrow> map fst ts = names \<and> (\<forall>t \<in> set ts. \<forall>x \<in> set (snd t). pinned_entry N x)"
proof (induction names arbitrary: ts)
  case (Cons name names)
  then obtain es ys zs where "get m name = Some (JArr es)" "read_routes name 0 es = Inr ys" "read_tables m names = Inr zs"
      "ts = (name, ys) # zs"
    by (cases "read_tables m names") (auto split: option.splits json.splits sum.splits)
  moreover from this have "\<forall>e \<in> set es. good_value N e" using good_get [OF Cons.prems(2)] good_elem by blast
  ultimately show ?case using read_routes_entries Cons by fastforce
qed simp

lemma extracted_entries:
  assumes laws: "parse_laws N decode_json" and ok: "extractRoutesManifest decode_json file = Inr m"
  shows "(\<forall>e \<in> set (rm_rewrites m). pinned_entry N e) \<and> map fst (rm_tables m) = ROUTE_TABLES \<and>
    (\<forall>t \<in> set (rm_tables m). \<forall>e \<in> set (snd t). pinned_entry N e)"
proof -
  obtain s v rw where v: "decode_json s = Some v" "get v ''rewrites'' = Some rw"
    and r: "read_phases rw REWRITE_PHASES = Inr (rm_rewrites m)" "read_tables v ROUTE_TABLES = Inr (rm_tables m)"
    using ok by (auto simp: extractRoutesManifest_def Let_def split: option.splits if_splits sum.splits)
  have "good_value N v" using laws v(1) by (simp add: parse_laws_def good_value_def)
  then show ?thesis using r read_phases_entries good_get [OF _ v(2)] read_tables_entries by blast
qed

end
