(* ===== verification/Manifest_Checks.thy ===== *)
theory Manifest_Checks
  imports Manifest_Pin
begin

text \<open>
  Checks 24 to 27 of \<open>src/scripts/verify-image.mjs\<close>: the rewrites and the routing tables of the image are the
  pinned ones, no rewrite of the image or of the pin reaches what the gate protects, and the middleware manifest
  is empty and the pinned one. The baseline is the parsed \<open>image-artifact-baseline.json\<close>; \<open>regexp\<close> is
  \<open>new RegExp\<close> with its \<open>test\<close>, \<open>None\<close> when it throws. A check passes when it returns \<open>None\<close>.
\<close>

section \<open>Reading \<open>middleware-manifest.json\<close>\<close>

definition MIDDLEWARE_MANIFEST_EMPTY_KEYS :: "string list" where
  "MIDDLEWARE_MANIFEST_EMPTY_KEYS = [''middleware'', ''functions'']"

definition not_map :: "json \<Rightarrow> string \<Rightarrow> bool" where
  "not_map m k = (case get m k of Some v \<Rightarrow> \<not> is_plain_object v | None \<Rightarrow> True)"

definition extractMiddlewareManifest :: "(jstring \<Rightarrow> json option) \<Rightarrow> jstring option \<Rightarrow> manifest_error + json" where
  "extractMiddlewareManifest decode_json file =
     (case file of None \<Rightarrow> Inl NotReadable
      | Some s \<Rightarrow>
        (case decode_json s of None \<Rightarrow> Inl ManifestNotJson
         | Some m \<Rightarrow>
           if \<not> is_plain_object m then Inl (NotAnObject (describeShape (Some m)))
           else case find (not_map m) MIDDLEWARE_MANIFEST_EMPTY_KEYS of
             Some k \<Rightarrow> Inl (MapShape k (describeShape (get m k)))
           | None \<Rightarrow> Inr (canonicaliseJsonValue m)))"

definition middlewareManifestOffenders :: "json \<Rightarrow> (string \<times> jstring \<times> json) list" where
  "middlewareManifestOffenders m =
     concat (map (\<lambda>k. case get m k of Some (JObj ps) \<Rightarrow> map (\<lambda>p. (k, p)) ps | _ \<Rightarrow> []) MIDDLEWARE_MANIFEST_EMPTY_KEYS)"

section \<open>The checks\<close>

datatype side = TheImage | ThePin

datatype pin_failure =
    Unreadable manifest_error | NoPin string shape | MalformedPin string "nat list"
  | Moved "(string \<times> table_diff) list"
  | BasePath "json option" | Internationalised json | NoMatchers shape | NoRegexp nat | BadRegexp jstring
  | Unbuilt "jstring list" | Threw | Reaches "(side \<times> json \<times> verdict) list"
  | Populated "(string \<times> jstring \<times> json) list" | MissingMaps "string list" | ManifestMoved "nat \<times> jstring \<times> jstring"

definition malformed :: "(json \<Rightarrow> bool) \<Rightarrow> json list \<Rightarrow> nat list" where
  "malformed ok es = filter (\<lambda>i. \<not> ok (es ! i)) [0..<length es]"

definition phase_entry :: "json \<Rightarrow> bool" where
  "phase_entry e \<longleftrightarrow> is_plain_object e \<and> get e ''phase'' \<in> Some ` JStr ` set (map js REWRITE_PHASES)"

definition page_entry :: "json \<Rightarrow> bool" where
  "page_entry e \<longleftrightarrow> is_plain_object e \<and> nonempty_string (get e ''page'') \<noteq> None"

text \<open>A pinned array of the baseline: absent, malformed, or its entries.\<close>

definition pinned_table :: "json \<Rightarrow> string \<Rightarrow> (json \<Rightarrow> bool) \<Rightarrow> pin_failure + json list" where
  "pinned_table baseline name ok =
     (case get baseline name of
        Some (JArr es) \<Rightarrow> if malformed ok es \<noteq> [] then Inl (MalformedPin name (malformed ok es)) else Inr es
      | v \<Rightarrow> Inl (NoPin name (describeShape v)))"

text \<open>Check 24.\<close>

definition check_rewrites ::
  "(rat \<Rightarrow> jstring) \<Rightarrow> json \<Rightarrow> manifest_error + routes_manifest \<Rightarrow> pin_failure option" where
  "check_rewrites num_repr baseline routes =
     (case routes of Inl e \<Rightarrow> Some (Unreadable e)
      | Inr m \<Rightarrow>
        (case pinned_table baseline ''rewrites'' phase_entry of Inl e \<Rightarrow> Some e
         | Inr want \<Rightarrow> map_option (\<lambda>d. Moved [(''rewrites'', d)]) (entryTableDiff want (rm_rewrites m) (rewriteLine num_repr))))"

text \<open>Check 25.\<close>

definition matcher_regexp :: "json \<Rightarrow> jstring option" where
  "matcher_regexp m = as_string (get m ''regexp'')"

definition offenders ::
  "url_env \<Rightarrow> matcher list \<Rightarrow> side \<Rightarrow> json list \<Rightarrow> (side \<times> json \<times> verdict) list" where
  "offenders env matchers s es =
     filter (\<lambda>(_, _, v). \<not> allowed_verdict v) (map (\<lambda>e. (s, e, classifyRewrite env e matchers)) es)"

definition check_policy ::
  "url_env \<Rightarrow> (jstring \<Rightarrow> matcher option) \<Rightarrow> json \<Rightarrow> manifest_error + routes_manifest \<Rightarrow> pin_failure option" where
  "check_policy env regexp baseline routes =
     (case routes of Inl e \<Rightarrow> Some (Unreadable e)
      | Inr m \<Rightarrow>
        if rm_basePath m \<noteq> Some (JStr []) then Some (BasePath (rm_basePath m))
        else if rm_i18n m \<noteq> JNull then Some (Internationalised (rm_i18n m))
        else case get baseline ''middlewareMatchers'' of
          Some (JArr (p # ps)) \<Rightarrow>
            (let missing = filter (\<lambda>m. matcher_regexp m = None) (p # ps);
                 texts = map (the \<circ> matcher_regexp) (p # ps)
             in if missing \<noteq> [] then Some (NoRegexp (length missing))
                else case find (\<lambda>t. regexp t = None) texts of Some t \<Rightarrow> Some (BadRegexp t)
                | None \<Rightarrow>
                  (case get baseline ''apiRoutes'' of
                     Some (JArr built) \<Rightarrow>
                       (let unbuilt = filter (\<lambda>p. \<not> includes_str p (js ''['') \<and> JStr p \<notin> set built) PUBLIC_PATHS_PINNED
                        in if unbuilt \<noteq> [] then Some (Unbuilt unbuilt)
                           else case get baseline ''rewrites'' of
                             Some (JArr pinned) \<Rightarrow>
                               (let matchers = map (the \<circ> regexp) texts;
                                    bad = offenders env matchers TheImage (rm_rewrites m) @ offenders env matchers ThePin pinned
                                in if JNull \<in> set pinned then Some Threw
                                   else if bad \<noteq> [] then Some (Reaches bad) else None)
                           | v \<Rightarrow> Some (NoPin ''rewrites'' (describeShape v)))
                   | v \<Rightarrow> Some (NoPin ''apiRoutes'' (describeShape v))))
        | v \<Rightarrow> Some (NoMatchers (describeShape v)))"

text \<open>Check 26.\<close>

definition check_middleware ::
  "(rat \<Rightarrow> jstring) \<Rightarrow> json \<Rightarrow> manifest_error + json \<Rightarrow> pin_failure option" where
  "check_middleware num_repr baseline middleware =
     (case middleware of Inl e \<Rightarrow> Some (Unreadable e)
      | Inr m \<Rightarrow>
        if middlewareManifestOffenders m \<noteq> [] then Some (Populated (middlewareManifestOffenders m))
        else case get baseline ''middlewareManifest'' of
          Some (JObj ps) \<Rightarrow>
            (let want = JObj ps; missing = filter (not_map want) MIDDLEWARE_MANIFEST_EMPTY_KEYS;
                 wantLine = stringify num_repr (canonicaliseJsonValue want); gotLine = stringify num_repr m
             in if missing \<noteq> [] then Some (MissingMaps missing)
                else if wantLine \<noteq> gotLine then Some (ManifestMoved (locatedDiff wantLine gotLine)) else None)
        | v \<Rightarrow> Some (NoPin ''middlewareManifest'' (describeShape v)))"

text \<open>Check 27: every pinned table is read first, then all are compared.\<close>

definition table_of :: "routes_manifest \<Rightarrow> string \<Rightarrow> json list" where
  "table_of m name = (case map_of (rm_tables m) name of Some es \<Rightarrow> es | None \<Rightarrow> [])"

fun pinned_tables :: "json \<Rightarrow> string list \<Rightarrow> pin_failure + (string \<times> json list) list" where
  "pinned_tables baseline [] = Inr []"
| "pinned_tables baseline (name # names) =
     (case pinned_table baseline name page_entry of Inl e \<Rightarrow> Inl e
      | Inr es \<Rightarrow> map_sum id ((#) (name, es)) (pinned_tables baseline names))"

definition moved_tables :: "(rat \<Rightarrow> jstring) \<Rightarrow> routes_manifest \<Rightarrow> (string \<times> json list) list \<Rightarrow> (string \<times> table_diff) list" where
  "moved_tables num_repr m want =
     List.map_filter (\<lambda>(name, es). map_option (Pair name) (entryTableDiff es (table_of m name) (routeLine num_repr))) want"

definition check_tables ::
  "(rat \<Rightarrow> jstring) \<Rightarrow> json \<Rightarrow> manifest_error + routes_manifest \<Rightarrow> pin_failure option" where
  "check_tables num_repr baseline routes =
     (case routes of Inl e \<Rightarrow> Some (Unreadable e)
      | Inr m \<Rightarrow>
        (case pinned_tables baseline ROUTE_TABLES of Inl e \<Rightarrow> Some e
         | Inr want \<Rightarrow> let moved = moved_tables num_repr m want in if moved \<noteq> [] then Some (Moved moved) else None))"

section \<open>What the pin checks establish\<close>

lemma get_object: "get v k = Some w \<Longrightarrow> \<exists>ps. v = JObj ps \<and> (js k, w) \<in> set ps"
  by (cases v) (auto dest: map_of_SomeD)

lemma same_get:
  assumes same: "same_value v w" and wf: "json_wf v" "json_wf w" and w: "get w k = Some y"
  shows "\<exists>x. get v k = Some x \<and> same_value x y"
proof -
  obtain qs where qs: "w = JObj qs" "(js k, y) \<in> set qs" using get_object [OF w] by blast
  obtain ps where ps: "v = JObj ps" using same qs by (cases v) auto
  with same qs have keys: "fst ` set ps = fst ` set qs"
    and vals: "\<And>p q. p \<in> set ps \<Longrightarrow> q \<in> set qs \<Longrightarrow> fst p = fst q \<Longrightarrow> same_value (snd p) (snd q)" by auto
  from keys qs(2) obtain x where x: "(js k, x) \<in> set ps" by force
  with vals [OF x qs(2)] wf(1) ps show ?thesis by auto
qed

lemma same_get_string:
  assumes "same_value v w" and "json_wf v" "json_wf w" and "get w k = Some (JStr s)"
  shows "get v k = Some (JStr s)"
proof -
  obtain x where "get v k = Some x" "same_value x (JStr s)" using same_get [OF assms] by blast
  then show ?thesis by (cases x) auto
qed

lemma same_plain: "same_value v w \<Longrightarrow> is_plain_object w \<Longrightarrow> is_plain_object v"
  by (cases v; cases w) (auto simp: is_plain_object_iff)

lemma malformed_none: "malformed ok es = [] \<longleftrightarrow> (\<forall>e \<in> set es. ok e)"
  by (simp add: malformed_def filter_empty_conv) (metis atLeastLessThan_iff in_set_conv_nth zero_le)

lemma same_well_formed:
  assumes "list_all2 same_value want got" and "\<forall>e \<in> set want \<union> set got. json_wf e"
    and "\<And>e f. same_value e f \<Longrightarrow> json_wf e \<Longrightarrow> json_wf f \<Longrightarrow> ok f \<Longrightarrow> ok e" and "\<forall>f \<in> set got. ok f"
  shows "malformed ok want = []"
  unfolding malformed_none using assms by (metis UnI1 UnI2 in_set_conv_nth list_all2_conv_all_nth)

lemma phase_entry_same: "same_value e f \<Longrightarrow> json_wf e \<Longrightarrow> json_wf f \<Longrightarrow> phase_entry f \<Longrightarrow> phase_entry e"
  using same_plain [of e f] same_get_string [of e f] by (auto simp: phase_entry_def)

lemma page_entry_same: "same_value e f \<Longrightarrow> json_wf e \<Longrightarrow> json_wf f \<Longrightarrow> page_entry f \<Longrightarrow> page_entry e"
  using same_plain [of e f] same_get_string [of e f] by (auto simp: page_entry_def nonempty_string_Some)

text \<open>A table equal to the pinned one up to the order of keys, the pinned entries being what the check asks for.\<close>

lemma table_check:
  assumes laws: "num_laws num_repr N" and base: "good_value N baseline"
    and got: "\<forall>e \<in> set got. pinned_entry N e \<and> ok e" and line: "lineOf = (\<lambda>e. canonicalEntryLine num_repr e k)"
    and same: "\<And>e f. same_value e f \<Longrightarrow> json_wf e \<Longrightarrow> json_wf f \<Longrightarrow> ok f \<Longrightarrow> ok e"
    and plain: "\<And>e. ok e \<Longrightarrow> is_plain_object e"
  shows "(\<exists>want. pinned_table baseline name ok = Inr want \<and> entryTableDiff want got lineOf = None) \<longleftrightarrow>
    (\<exists>want. get baseline name = Some (JArr want) \<and> list_all2 same_value want got)" (is "?l \<longleftrightarrow> ?r")
proof
  have pinned: "\<forall>e \<in> set want. good_value N e" if "get baseline name = Some (JArr want)" for want
    using good_get [OF base that] good_elem by blast
  have diff: "entryTableDiff want got lineOf = None \<longleftrightarrow> list_all2 same_value want got"
    if "\<forall>e \<in> set want. pinned_entry N e" for want
  proof -
    have "\<forall>e \<in> set want \<union> set got. pinned_entry N e" using that got by blast
    from diff_exact [OF laws this line] show ?thesis by (auto simp: same_tables [symmetric] split: option.splits)
  qed
  show ?l if ?r
  proof -
    from that obtain want where want: "get baseline name = Some (JArr want)" "list_all2 same_value want got" by blast
    have ok: "malformed ok want = []"
      using got pinned [OF want(1)] by (intro same_well_formed [OF want(2) _ same]) (auto simp: pinned_entry_def good_value_def)
    then have "\<forall>e \<in> set want. pinned_entry N e"
      using pinned [OF want(1)] plain by (auto simp: malformed_none pinned_entry_def good_value_def)
    with diff want ok show ?thesis by (simp add: pinned_table_def)
  qed
  show ?r if ?l
  proof -
    from that obtain want where want: "get baseline name = Some (JArr want)" "malformed ok want = []"
        "entryTableDiff want got lineOf = None"
      by (auto simp: pinned_table_def split: option.splits json.splits if_splits)
    then have "\<forall>e \<in> set want. pinned_entry N e"
      using pinned [OF want(1)] plain by (auto simp: malformed_none pinned_entry_def good_value_def)
    with diff want show ?thesis by blast
  qed
qed

text \<open>What was read from the image is what the checks ask of the pin.\<close>

lemma wf_get: "json_wf v \<Longrightarrow> get v k = Some w \<Longrightarrow> json_wf w"
  using get_object [of v k w] by force

lemma get_from_entries: "distinct (map fst ps) \<Longrightarrow> get (from_entries ps) k = map_of ps (js k)"
  using own_order_keys map_of_inject_set [of "own_order ps" ps] by (simp add: from_entries_distinct)

lemma map_of_snd: "map_of (map (\<lambda>p. (fst p, f (snd p))) ps) k = map_option f (map_of ps k)"
  by (induction ps) auto

lemma get_canonical: "json_wf v \<Longrightarrow> get (canonicaliseJsonValue v) k = map_option canonicaliseJsonValue (get v k)"
proof (cases v)
  case (JObj ps)
  assume "json_wf v"
  let ?ps = "map (\<lambda>p. (fst p, canonicaliseJsonValue (snd p))) ps"
  have d: "distinct (map fst ?ps)" using \<open>json_wf v\<close> JObj by (simp add: comp_def)
  have "map_of (sorted_entries ?ps) = map_of ?ps"
    using d map_of_inject_set sorted_entries_facts(1,2) by blast
  then show ?thesis using JObj get_from_entries [OF sorted_entries_facts(1) [OF d]] by (simp add: map_of_snd)
qed simp_all

lemma canonical_string: "canonicaliseJsonValue v = JStr s \<longleftrightarrow> v = JStr s"
  by (cases v) (simp_all add: from_entries_def)

lemma canonical_empty: "json_wf v \<Longrightarrow> canonicaliseJsonValue v = JObj [] \<longleftrightarrow> v = JObj []"
proof -
  assume "json_wf v"
  have "canonicaliseJsonValue (JObj []) = JObj []" by (simp add: from_entries_def sorted_entries_def own_order_def)
  then have "canonicaliseJsonValue v = JObj [] \<longleftrightarrow> same_value v (JObj [])"
    using canonical_same [OF \<open>json_wf v\<close>, of "JObj []"] by simp
  then show ?thesis by (cases v) auto
qed

lemma read_phase_entry:
  "read_phase ph i es = Inr xs \<Longrightarrow> ph \<in> set REWRITE_PHASES \<Longrightarrow> \<forall>e \<in> set es. json_wf e \<Longrightarrow> x \<in> set xs \<Longrightarrow> phase_entry x"
proof (induction ph i es arbitrary: xs rule: read_phase.induct)
  case (2 ph i e es)
  have "phase_entry (normaliseRewrite (js ph) e)" if obj: "is_plain_object e" and new: "get e ''phase'' = None"
  proof -
    obtain ps where e: "e = JObj ps" using obj by (auto simp: is_plain_object_iff split: json.splits)
    then have "distinct (map fst ((js ''phase'', JStr (js ph)) # sorted_entries ps))"
      using new 2(4) sorted_entries_facts(1) [of ps] by (auto simp: map_of_eq_None_iff sorted_entries_facts(2))
    from get_from_entries [OF this, of "''phase''"] e 2(3) show ?thesis
      by (simp add: phase_entry_def normaliseRewrite_def members_def is_plain_object_iff from_entries_def)
  qed
  with 2 show ?case
    by (cases "read_phase ph (i + 1) es") (auto split: if_splits option.splits)
qed simp

lemma read_phases_entry:
  "read_phases rw phs = Inr xs \<Longrightarrow> set phs \<subseteq> set REWRITE_PHASES \<Longrightarrow> json_wf rw \<Longrightarrow> x \<in> set xs \<Longrightarrow> phase_entry x"
proof (induction phs arbitrary: xs)
  case (Cons ph phs)
  then obtain es ys zs where r: "get rw ph = Some (JArr es)" "read_phase ph 0 es = Inr ys" "read_phases rw phs = Inr zs" "xs = ys @ zs"
    by (cases "read_phases rw phs") (auto split: option.splits json.splits sum.splits)
  have "json_wf (JArr es)" by (rule wf_get [OF Cons.prems(3) r(1)])
  with r read_phase_entry [OF r(2)] Cons show ?case by auto
qed simp

lemma read_routes_entry:
  "read_routes name i es = Inr xs \<Longrightarrow> \<forall>e \<in> set es. json_wf e \<Longrightarrow> x \<in> set xs \<Longrightarrow> page_entry x"
proof (induction name i es arbitrary: xs rule: read_routes.induct)
  case (2 name i e es)
  have "page_entry (canonicaliseJsonValue e)" if "is_plain_object e" "nonempty_string (get e ''page'') = Some t" for t
    using that 2(3) get_canonical [of e "''page''"]
    by (cases e) (auto simp: page_entry_def nonempty_string_Some is_plain_object_iff from_entries_def simp del: get.simps)
  with 2 show ?case
    by (cases "read_routes name (i + 1) es") (auto split: if_splits option.splits)
qed simp

lemma read_tables_entry:
  "read_tables m names = Inr ts \<Longrightarrow> json_wf m \<Longrightarrow> t \<in> set ts \<Longrightarrow> x \<in> set (snd t) \<Longrightarrow> page_entry x"
proof (induction names arbitrary: ts)
  case (Cons name names)
  then obtain es ys zs where r: "get m name = Some (JArr es)" "read_routes name 0 es = Inr ys" "read_tables m names = Inr zs"
      "ts = (name, ys) # zs"
    by (cases "read_tables m names") (auto split: option.splits json.splits sum.splits)
  have "json_wf (JArr es)" by (rule wf_get [OF Cons.prems(2) r(1)])
  with r read_routes_entry [OF r(2)] Cons show ?case by auto
qed simp

lemma extracted_shapes:
  assumes laws: "parse_laws N decode_json" and ok: "extractRoutesManifest decode_json file = Inr m"
  shows "(\<forall>e \<in> set (rm_rewrites m). phase_entry e) \<and> (\<forall>name. \<forall>e \<in> set (table_of m name). page_entry e \<and> pinned_entry N e)"
proof -
  obtain s v rw where v: "decode_json s = Some v" "get v ''rewrites'' = Some rw"
    and r: "read_phases rw REWRITE_PHASES = Inr (rm_rewrites m)" "read_tables v ROUTE_TABLES = Inr (rm_tables m)"
    using ok by (auto simp: extractRoutesManifest_def Let_def split: option.splits if_splits sum.splits)
  have wf: "json_wf v" using laws v(1) by (simp add: parse_laws_def)
  have "json_wf rw" by (rule wf_get [OF wf v(2)])
  then have "\<forall>e \<in> set (rm_rewrites m). phase_entry e" using read_phases_entry [OF r(1)] by blast
  moreover have "page_entry e \<and> pinned_entry N e" if e: "e \<in> set (table_of m name)" for name e
  proof -
    obtain es where "(name, es) \<in> set (rm_tables m)" "e \<in> set es"
      using e by (cases "map_of (rm_tables m) name") (auto simp: table_of_def dest: map_of_SomeD)
    with read_tables_entry [OF r(2) wf] extracted_entries [OF laws ok] show ?thesis by force
  qed
  ultimately show ?thesis by blast
qed

text \<open>Check by check.\<close>

lemma rewrites_check:
  assumes laws: "num_laws num_repr N" and base: "good_value N baseline" and parse: "parse_laws N decode_json"
    and m: "extractRoutesManifest decode_json file = Inr m"
  shows "check_rewrites num_repr baseline (Inr m) = None \<longleftrightarrow>
    (\<exists>want. get baseline ''rewrites'' = Some (JArr want) \<and> list_all2 same_value want (rm_rewrites m))"
proof -
  have "check_rewrites num_repr baseline (Inr m) = None \<longleftrightarrow>
      (\<exists>want. pinned_table baseline ''rewrites'' phase_entry = Inr want \<and> entryTableDiff want (rm_rewrites m) (rewriteLine num_repr) = None)"
    by (auto simp: check_rewrites_def split: sum.splits)
  also have "\<dots> \<longleftrightarrow> (\<exists>want. get baseline ''rewrites'' = Some (JArr want) \<and> list_all2 same_value want (rm_rewrites m))"
  proof (rule table_check [OF laws base, where k = "js ''phase''" and ok = phase_entry])
    show "\<forall>e \<in> set (rm_rewrites m). pinned_entry N e \<and> phase_entry e"
      using extracted_entries [OF parse m] extracted_shapes [OF parse m] by blast
    show "rewriteLine num_repr = (\<lambda>e. canonicalEntryLine num_repr e (js ''phase''))" by (rule ext) (rule rewriteLine_def)
    show "phase_entry e" if "same_value e f" "json_wf e" "json_wf f" "phase_entry f" for e f
      by (rule phase_entry_same [OF that])
    show "is_plain_object e" if "phase_entry e" for e using that by (simp add: phase_entry_def)
  qed
  finally show ?thesis .
qed

lemma pinned_tables_moved:
  "(\<exists>want. pinned_tables baseline names = Inr want \<and> moved_tables num_repr m want = []) \<longleftrightarrow>
    (\<forall>name \<in> set names. \<exists>es. pinned_table baseline name page_entry = Inr es \<and> entryTableDiff es (table_of m name) (routeLine num_repr) = None)"
proof (induction names)
  case Nil
  show ?case by (simp add: moved_tables_def List.map_filter_def)
next
  case (Cons name names)
  have moved: "moved_tables num_repr m ((name, es) # want) = [] \<longleftrightarrow>
      entryTableDiff es (table_of m name) (routeLine num_repr) = None \<and> moved_tables num_repr m want = []" for es want
    by (auto simp: moved_tables_def List.map_filter_def)
  show ?case
  proof (cases "pinned_table baseline name page_entry")
    case (Inr es)
    have "(\<exists>want. pinned_tables baseline (name # names) = Inr want \<and> moved_tables num_repr m want = []) \<longleftrightarrow>
        (\<exists>want. pinned_tables baseline names = Inr want \<and> moved_tables num_repr m ((name, es) # want) = [])"
      using Inr by (cases "pinned_tables baseline names") auto
    also have "\<dots> \<longleftrightarrow> entryTableDiff es (table_of m name) (routeLine num_repr) = None \<and>
        (\<exists>want. pinned_tables baseline names = Inr want \<and> moved_tables num_repr m want = [])"
      unfolding moved by blast
    finally show ?thesis unfolding Cons using Inr by simp
  qed simp
qed

lemma tables_check:
  assumes laws: "num_laws num_repr N" and base: "good_value N baseline" and parse: "parse_laws N decode_json"
    and m: "extractRoutesManifest decode_json file = Inr m"
  shows "check_tables num_repr baseline (Inr m) = None \<longleftrightarrow>
    (\<forall>name \<in> set ROUTE_TABLES. \<exists>want. get baseline name = Some (JArr want) \<and> list_all2 same_value want (table_of m name))"
proof -
  have "check_tables num_repr baseline (Inr m) = None \<longleftrightarrow>
      (\<exists>want. pinned_tables baseline ROUTE_TABLES = Inr want \<and> moved_tables num_repr m want = [])"
    by (auto simp: check_tables_def Let_def split: sum.splits)
  also have "\<dots> \<longleftrightarrow> (\<forall>name \<in> set ROUTE_TABLES. \<exists>want. get baseline name = Some (JArr want) \<and> list_all2 same_value want (table_of m name))"
    unfolding pinned_tables_moved
  proof (rule ball_cong [OF refl])
    fix name
    show "(\<exists>es. pinned_table baseline name page_entry = Inr es \<and> entryTableDiff es (table_of m name) (routeLine num_repr) = None) \<longleftrightarrow>
      (\<exists>want. get baseline name = Some (JArr want) \<and> list_all2 same_value want (table_of m name))"
    proof (rule table_check [OF laws base, where k = "js ''page''" and ok = page_entry])
      show "\<forall>e \<in> set (table_of m name). pinned_entry N e \<and> page_entry e"
        using extracted_shapes [OF parse m] by blast
      show "routeLine num_repr = (\<lambda>e. canonicalEntryLine num_repr e (js ''page''))" by (rule ext) (rule routeLine_def)
      show "page_entry e" if "same_value e f" "json_wf e" "json_wf f" "page_entry f" for e f
        by (rule page_entry_same [OF that])
      show "is_plain_object e" if "page_entry e" for e using that by (simp add: page_entry_def)
    qed
  qed
  finally show ?thesis .
qed

lemma no_offenders:
  "middlewareManifestOffenders m = [] \<longleftrightarrow> (\<forall>k \<in> set MIDDLEWARE_MANIFEST_EMPTY_KEYS. \<forall>ps. get m k = Some (JObj ps) \<longrightarrow> ps = [])"
  by (auto simp: middlewareManifestOffenders_def split: option.splits json.splits)

lemma middleware_check:
  assumes laws: "num_laws num_repr N" and base: "good_value N baseline" and parse: "parse_laws N decode_json"
  shows "check_middleware num_repr baseline (extractMiddlewareManifest decode_json file) = None \<longleftrightarrow>
    (\<exists>s v p. file = Some s \<and> decode_json s = Some v \<and>
      (\<forall>k \<in> set MIDDLEWARE_MANIFEST_EMPTY_KEYS. get v k = Some (JObj [])) \<and>
      get baseline ''middlewareManifest'' = Some p \<and> same_value p v)" (is "?l \<longleftrightarrow> ?r")
proof -
  have line: "stringify num_repr (canonicaliseJsonValue p) = stringify num_repr (canonicaliseJsonValue v) \<longleftrightarrow> same_value p v"
    if "good_value N p" "good_value N v" for p v
    using that numbers_canonical [of _ N] stringify_inj [OF laws] canonical_same by (auto simp: good_value_def)
  have good: "good_value N v" if "decode_json s = Some v" for s v
    using parse that by (simp add: parse_laws_def good_value_def)
  show ?thesis
  proof
    assume l: ?l
    then obtain s v where v: "file = Some s" "decode_json s = Some v" "find (not_map v) MIDDLEWARE_MANIFEST_EMPTY_KEYS = None"
        "check_middleware num_repr baseline (Inr (canonicaliseJsonValue v)) = None"
      by (auto simp: extractMiddlewareManifest_def check_middleware_def split: option.splits if_splits)
    have off: "middlewareManifestOffenders (canonicaliseJsonValue v) = []"
      using v(4) by (auto simp: check_middleware_def split: if_splits)
    obtain ps where p: "get baseline ''middlewareManifest'' = Some (JObj ps)"
        "stringify num_repr (canonicaliseJsonValue (JObj ps)) = stringify num_repr (canonicaliseJsonValue v)"
      using v(4) off by (auto simp: check_middleware_def Let_def simp del: canonicaliseJsonValue.simps split: option.splits json.splits if_splits)
    have "get v k = Some (JObj [])" if k: "k \<in> set MIDDLEWARE_MANIFEST_EMPTY_KEYS" for k
    proof -
      have "\<not> not_map v k" using v(3) k by (simp add: find_None_iff)
      then obtain qs where q: "get v k = Some (JObj qs)"
        by (auto simp: not_map_def is_plain_object_iff split: option.splits json.splits)
      have wf: "json_wf v" using good [OF v(2)] by (simp add: good_value_def)
      obtain rs where rs: "canonicaliseJsonValue (JObj qs) = JObj rs" by (simp add: from_entries_def)
      then have "rs = []" using off k get_canonical [OF wf, of k] q by (simp add: no_offenders)
      with rs canonical_empty [OF wf_get [OF wf q]] q show ?thesis by simp
    qed
    moreover have "same_value (JObj ps) v" using line [OF good_get [OF base p(1)] good [OF v(2)]] p(2) by blast
    ultimately show ?r using v(1,2) p(1) by blast
  next
    assume ?r
    then obtain s v p where v: "file = Some s" "decode_json s = Some v" and p: "get baseline ''middlewareManifest'' = Some p" "same_value p v"
      and empty: "\<And>k. k \<in> set MIDDLEWARE_MANIFEST_EMPTY_KEYS \<Longrightarrow> get v k = Some (JObj [])" by blast
    have gp: "good_value N p" and gv: "good_value N v" using good_get [OF base p(1)] good [OF v(2)] by blast+
    have "MIDDLEWARE_MANIFEST_EMPTY_KEYS \<noteq> []" by (simp add: MIDDLEWARE_MANIFEST_EMPTY_KEYS_def)
    then obtain k0 where "get v k0 = Some (JObj [])" using empty by (meson list.set_sel(1))
    then have obj: "is_plain_object v" using get_object by (fastforce simp: is_plain_object_iff)
    then obtain ps where ps: "p = JObj ps" using same_plain [OF p(2)] by (auto simp: is_plain_object_iff split: json.splits)
    have maps: "\<not> not_map v k" if "k \<in> set MIDDLEWARE_MANIFEST_EMPTY_KEYS" for k
      using empty [OF that] by (simp add: not_map_def is_plain_object_iff)
    have pmaps: "\<not> not_map p k" if k: "k \<in> set MIDDLEWARE_MANIFEST_EMPTY_KEYS" for k
    proof -
      obtain x where "get p k = Some x" "same_value x (JObj [])"
        using same_get [OF p(2) _ _ empty [OF k]] gp gv by (auto simp: good_value_def)
      then show ?thesis by (cases x) (auto simp: not_map_def is_plain_object_iff)
    qed
    have ex: "extractMiddlewareManifest decode_json file = Inr (canonicaliseJsonValue v)"
      using v obj maps by (auto simp: extractMiddlewareManifest_def find_None_iff split: option.splits)
    have "canonicaliseJsonValue (JObj []) = JObj []" using canonical_empty [of "JObj []"] by simp
    then have "middlewareManifestOffenders (canonicaliseJsonValue v) = []"
      using empty gv get_canonical [of v] by (auto simp: no_offenders good_value_def)
    moreover have "stringify num_repr (canonicaliseJsonValue p) = stringify num_repr (canonicaliseJsonValue v)"
      using line [OF gp gv] p(2) by blast
    moreover have "filter (not_map p) MIDDLEWARE_MANIFEST_EMPTY_KEYS = []" using pmaps by (simp add: filter_empty_conv)
    ultimately show ?l unfolding ex using p(1) ps by (simp add: check_middleware_def Let_def del: canonicaliseJsonValue.simps)
  qed
qed


definition demo_routes :: json where
  "demo_routes = jobj [(''rewrites'', jobj [(''beforeFiles'', JArr [jobj [(''source'', jlit ''/h''), (''destination'', jlit ''/api/health'')]]),
       (''afterFiles'', JArr []), (''fallback'', JArr [])]),
     (''dataRoutes'', JArr []), (''dynamicRoutes'', JArr [jobj [(''page'', jlit ''/a''), (''k'', JArr [JNull])]]),
     (''staticRoutes'', JArr []), (''basePath'', JStr [])]"

definition demo_middleware :: json where
  "demo_middleware = jobj [(''middleware'', JObj []), (''functions'', JObj [])]"

definition demo_decode :: "jstring \<Rightarrow> json option" where
  "demo_decode s = (if s = js ''r'' then Some demo_routes else if s = js ''m'' then Some demo_middleware else None)"

definition demo_baseline :: json where
  "demo_baseline = jobj [
     (''rewrites'', JArr [jobj [(''destination'', jlit ''/api/health''), (''phase'', jlit ''beforeFiles''), (''source'', jlit ''/h'')]]),
     (''dataRoutes'', JArr []), (''dynamicRoutes'', JArr [jobj [(''k'', JArr [JNull]), (''page'', jlit ''/a'')]]),
     (''staticRoutes'', JArr []), (''middlewareManifest'', jobj [(''functions'', JObj []), (''middleware'', JObj [])]),
     (''middlewareMatchers'', JArr [jobj [(''regexp'', jlit ''^/api'')]]),
     (''apiRoutes'', JArr (map JStr PUBLIC_PATHS_PINNED))]"

definition demo_tables :: routes_manifest where
  "demo_tables = \<lparr>rm_rewrites = [jobj [(''phase'', jlit ''beforeFiles''), (''destination'', jlit ''/api/health''), (''source'', jlit ''/h'')]],
     rm_tables = [(''dataRoutes'', []), (''dynamicRoutes'', [jobj [(''k'', JArr [JNull]), (''page'', jlit ''/a'')]]), (''staticRoutes'', [])],
     rm_basePath = Some (JStr []), rm_i18n = JNull\<rparr>"

lemma demo_extracted: "extractRoutesManifest demo_decode (Some (js ''r'')) = Inr demo_tables"
  by code_simp

lemma demo_good: "good_value {} demo_baseline" "parse_laws {} demo_decode"
proof -
  have "json_wf demo_baseline \<and> numbers_in {} demo_baseline" by code_simp
  then show "good_value {} demo_baseline" by (simp add: good_value_def)
  have "json_wf demo_routes \<and> numbers_in {} demo_routes" "json_wf demo_middleware \<and> numbers_in {} demo_middleware" by code_simp+
  then show "parse_laws {} demo_decode" by (simp add: parse_laws_def demo_decode_def)
qed


section \<open>What the policy establishes\<close>

definition pinned_matchers :: "(jstring \<Rightarrow> matcher option) \<Rightarrow> json \<Rightarrow> matcher list" where
  "pinned_matchers regexp baseline =
     (case get baseline ''middlewareMatchers'' of Some (JArr ps) \<Rightarrow> map (\<lambda>p. the (regexp (the (matcher_regexp p)))) ps | _ \<Rightarrow> [])"

lemma policy_allows:
  assumes "check_policy env regexp baseline (Inr m) = None"
    and "e \<in> set (rm_rewrites m) \<or> (\<exists>es. get baseline ''rewrites'' = Some (JArr es) \<and> e \<in> set es)"
  shows "allowed_verdict (classifyRewrite env e (pinned_matchers regexp baseline))"
proof -
  obtain p ps es where b: "get baseline ''middlewareMatchers'' = Some (JArr (p # ps))" "get baseline ''rewrites'' = Some (JArr es)"
    and none: "offenders env (map (the \<circ> regexp) (map (the \<circ> matcher_regexp) (p # ps))) TheImage (rm_rewrites m) @
      offenders env (map (the \<circ> regexp) (map (the \<circ> matcher_regexp) (p # ps))) ThePin es = []"
    using assms(1) by (auto simp: check_policy_def Let_def split: if_splits option.splits json.splits list.splits)
  have "pinned_matchers regexp baseline = map (the \<circ> regexp) (map (the \<circ> matcher_regexp) (p # ps))"
    using b(1) by (simp add: pinned_matchers_def)
  with none assms(2) b(2) show ?thesis by (auto simp: offenders_def filter_empty_conv)
qed


definition demo_regexp :: "jstring \<Rightarrow> matcher option" where
  "demo_regexp t = (if t = js ''^/api'' then Some (\<lambda>p. starts_with p (js ''/api/'')) else None)"


end
