(* ===== verification/Spec2Isabelle.thy ===== *)
theory Spec2Isabelle
  imports Rate_Limit Request_Gate Admin_Audit Event_Ids Event_Stream Event_Store Session_Monitor
    Tct_Monitor Circuit_Breaker Url_Guard Webhook_Service Idempotency Fan_Out Registry_Store
    Event_Ingest Retention Enrollment Registration Revocation Pinned_Keys Jwks_Refresher Webhook_Routes
    Uri_Component Registry_Routes Query_Routes Metrics_Text Cp_Identity Process_Life Dashboard
    Review_Privacy Request_Error Sse_Wire Wire_Checks Manifest_Checks
begin

text \<open>
  The AITP control plane: a Next.js service in TypeScript (\<open>src/src\<close>) that keeps a registry of agents,
  takes in the audit events their handshakes produce, projects them into sessions and trust
  credential tokens (TCTs), streams them to dashboards, and posts them to webhooks. Its state is a
  PostgreSQL database plus a few process-wide tables (rate-limit buckets, the event bus, circuit
  breakers, counters).

  \<^bold>\<open>Layers and theories.\<close>
  \<^item> \<open>Prelude\<close>: generic list and map lemmas, the simp collections, strings as lists of UTF-16 code
    units, and the locales that the components share: \<open>machine\<close> (a step function with an
    invariant), \<open>marking_machine\<close> (one whose marks are never taken back) and \<open>conflict_insert\<close> (a
    table with a unique key and \<open>ON CONFLICT DO NOTHING\<close>).
    They are interpreted on the program's own definitions in the theories that provide them.
  \<^item> \<open>Json_Value\<close>, \<open>Http_Model\<close>: JSON values as \<open>JSON.parse\<close> yields them, requests and responses.
  \<^item> \<open>Db_Schema\<close>: one record per row type of \<open>lib/db/schema.ts\<close>, tables as lists of rows.
  \<^item> \<open>App_Config\<close>, \<open>Api_Keys\<close>: \<open>lib/config.ts\<close>, \<open>lib/node-env.ts\<close>, \<open>lib/pagination.ts\<close>, \<open>lib/api-keys.ts\<close>.
  \<^item> \<open>Validation\<close>: \<open>lib/http/validate.ts\<close> and the bounded body reader \<open>lib/http/read-body.ts\<close>.
  \<^item> \<open>Rate_Limit\<close>, \<open>Request_Gate\<close>: \<open>lib/rate-limit.ts\<close> and the middleware \<open>proxy.ts\<close>.
  \<^item> \<open>Admin_Audit\<close>: \<open>lib/audit-log\<close>.
  \<^item> \<open>Event_Ids\<close>: canonical JSON, signed content and content-derived ids (\<open>lib/audit\<close>).
  \<^item> \<open>Event_Stream\<close>, \<open>Sse_Wire\<close>, \<open>Event_Store\<close>: the bus and the live streams, the text a stream
    writes and the reader that undoes it, and the stored history.
  \<^item> \<open>Session_Monitor\<close>, \<open>Tct_Parse\<close>, \<open>Tct_Monitor\<close>: the projections of the events into sessions, tokens
    and delegations (\<open>lib/sessions\<close>, \<open>lib/tcts\<close>); \<open>Query_Routes\<close>: the routes that read them.
  \<^item> \<open>Url_Guard\<close>, \<open>Circuit_Breaker\<close>, \<open>Webhook_Service\<close>, \<open>Fan_Out\<close>: webhook delivery (\<open>lib/webhooks\<close>).
  \<^item> \<open>Idempotency\<close>: \<open>lib/idempotency.ts\<close>, both interleaved and as one sequential call.
  \<^item> \<open>Registry_Store\<close>, \<open>Enrollment\<close>, \<open>Registration\<close>, \<open>Registry_Routes\<close>, \<open>Uri_Component\<close>: agents, one-time
    enrollment tokens, the registration and read routes, and the path encoding their links use.
  \<^item> \<open>Retention\<close>: the periodic sweeps of \<open>lib/retention.ts\<close>.
  \<^item> \<open>Event_Ingest\<close>: \<open>POST /api/events\<close>, which composes most of the above.
  \<^item> \<open>Admin_Route\<close>: what every mutating admin route does around its own checks (body, idempotency,
    audit row), stated once as the locale \<open>audited_route\<close>. Its instances are \<open>Revocation\<close>,
    \<open>Pinned_Keys\<close>, \<open>Trust_Anchors\<close> and \<open>Webhook_Routes\<close> (\<open>app/api\<close>).
  \<^item> \<open>Jwks_Refresher\<close>: the fetch of an anchor's key set and the timer that repeats it.
  \<^item> \<open>Cp_Identity\<close>, \<open>Process_Life\<close>: the control plane's own seed and manifest (\<open>lib/identity\<close>); boot,
    timers and the drain of \<open>instrumentation.ts\<close> and \<open>lib/shutdown.ts\<close>.
  \<^item> \<open>Dashboard\<close>, \<open>Metrics_Text\<close>, \<open>Request_Error\<close>: the aggregates, the metrics text with the two
    probes, and the report of an unhandled fault.
  \<^item> \<open>Audit_Review\<close>, \<open>Review_Report\<close>, \<open>Review_Session\<close>, \<open>Review_Privacy\<close>: the offline audit review
    (\<open>lib/audit-review.ts\<close>, \<open>scripts/audit-review.ts\<close>): its guard, aggregation and page loops, the report it
    prints, a run with every text it sends, and what no report depends on.
  \<^item> \<open>Utf8_Text\<close>, \<open>Wire_Reader\<close>, \<open>Stream_Conformance\<close>, \<open>Wire_Client\<close>, \<open>Wire_Checks\<close>: the stream harness
    \<open>scripts/verify-sse-stream.mjs\<close>. UTF-8 as \<open>StringDecoder\<close> reads it, the response head and the resumable
    chunked body reader, what the stream route's writes become in it, the connection with its promises
    event by event, the fixture self-check and the checks of the wire.
  \<^item> \<open>Rewrite_Policy\<close>, \<open>Json_Text\<close>, \<open>Manifest_Pin\<close>, \<open>Manifest_Checks\<close>: the routing checks 24 to 27 of
    \<open>scripts/verify-image.mjs\<close>. Next's substitutions in a destination and the policy on rewrites, printed
    JSON as a key of its value, the canonical lines of a table and their diffs, and the checks on what the
    harness reads out of an image.

  \<^bold>\<open>Concurrency.\<close> A database statement is atomic; what a handler does between two awaits is atomic.
  Where interleaving matters (webhook attempts, idempotent requests, stream connections, token
  presentations over replicas) a step relation runs one such piece at a time, and the properties hold
  in every reachable state. Elsewhere a handler is a function of the state it finds.

  \<^bold>\<open>Parameters.\<close> Code outside the repository is an argument: the SDK's token and manifest verifiers,
  hashes and HMAC, base64url, \<open>JSON.parse\<close>, number printing, date parsing, DNS and the URL parser,
  the remote receiver of a webhook, and which statements of a run fail. Hypotheses on them are stated
  in the theorem that uses them.

  \<^bold>\<open>Loops.\<close> Loops over an explicit stack (canonical JSON, the payload walk) and the paging loops of the
  audit review are total functions with a measure. The recursive queries descend a table for at most as
  many rounds as it has rows, which the lemmas on \<open>descend\<close> show to be enough. The drain at shutdown
  is a step relation with a clock, and that it ends is proved of its runs.

  \<^bold>\<open>What the properties show.\<close> Access: no request without a key reaches a protected route, attribution
  is not spoofable, a one-time token registers once. Projections: a revocation closes exactly the tree
  below it and no later event opens it; sessions refine an automaton; the query routes page without
  loss and return exactly the recorded tree. Events: an event is stored, published and queued once, a
  resend changes nothing, and a stream's reader gets exactly the events sent. Webhooks and anchors: a
  delivery is posted at most once by the attempts of one queue entry, the breaker refines its automaton, only
  public addresses are fetched, cached keys belong to the URLs they were fetched from. Process: a
  serving process has passed its boot checks, the drain ends by its deadline, the fault log holds no
  query, and the audit review only reads, counts every mutating call and prints no secret. Harnesses: the
  stream client answers every call once and only with what the route wrote, whatever the cuts; the pin
  checks pass exactly when the image's routing tables are the pinned ones; and a passing policy check
  leaves no rewrite that reaches a path the gate asks a key for.

  \<^bold>\<open>Not modelled.\<close> The rest of the release scripts \<open>src/scripts/*.mjs\<close>: they build and drive containers,
  probe a running server and scan its logs, which are effects on Docker and sockets with little logic of
  their own; the chunk lexer of \<open>verify-image.mjs\<close>, a heuristic on generated bundles with no specification to
  meet. The set-up of pino, of the database pool and of OpenTelemetry, which only calls those libraries; the
  texts of log, failure and boot lines.
\<close>

end
